(* ===== verification/Prelude.thy ===== *)
theory Prelude
  imports Complex_Main "HOL-Library.Char_ord" "HOL-Library.List_Lexorder"
    "HOL-Library.Product_Lexorder" "HOL-Library.AList"
begin

text \<open>
  Shared vocabulary of the development: the Python values the program handles, insertion
  ordered dictionaries, first-occurrence deduplication, stable sorting and extrema, decimal
  rounding and the string operations the source uses, with the generic lemmas every
  component relies on.

  Conventions. A \<open>datetime\<close> is an \<open>int\<close>, the number of microseconds since the epoch in UTC
  (every model of the contract normalises its timestamps to UTC). A \<open>float\<close> is a \<open>real\<close>:
  rounding error, infinities and NaN are not modelled. A \<open>dict\<close> is an association list with
  distinct keys in insertion order; \<open>AList.update\<close> is item assignment.
\<close>

named_theorems dict_simps "rewriting facts on insertion ordered dictionaries"
named_theorems bounds_intros "facts bounding scores and confidences"

type_synonym time = int
type_synonym ('k, 'v) dict = "('k \<times> 'v) list"

abbreviation seconds :: "int \<Rightarrow> int" where "seconds n \<equiv> n * 1000000"
abbreviation minutes :: "int \<Rightarrow> int" where "minutes n \<equiv> n * 60000000"

section \<open>Python values\<close>

datatype pyval =
    PNone
  | PBool bool
  | PNum real
  | PStr string
  | PTime time
  | PList "pyval list"
  | PDict "(string \<times> pyval) list"

text \<open>
  \<open>str(value)\<close>. The text of a number, a datetime or a container is given by the printer
  \<open>F\<close>, a parameter: the shortest representation of a double has no counterpart on \<open>real\<close>.
\<close>

definition py_str :: "(pyval \<Rightarrow> string) \<Rightarrow> pyval \<Rightarrow> string" where
  "py_str F v = (case v of
      PStr s \<Rightarrow> s
    | PNone \<Rightarrow> ''None''
    | PBool b \<Rightarrow> (if b then ''True'' else ''False'')
    | _ \<Rightarrow> F v)"

text \<open>\<open>bool(value)\<close>.\<close>

fun truthy :: "pyval \<Rightarrow> bool" where
  "truthy PNone = False"
| "truthy (PBool b) = b"
| "truthy (PNum x) = (x \<noteq> 0)"
| "truthy (PStr s) = (s \<noteq> [])"
| "truthy (PTime t) = True"
| "truthy (PList xs) = (xs \<noteq> [])"
| "truthy (PDict d) = (d \<noteq> [])"

section \<open>Strings\<close>

definition to_lower :: "char \<Rightarrow> char" where
  "to_lower c = (if CHR ''A'' \<le> c \<and> c \<le> CHR ''Z'' then char_of (of_char c + (32 :: nat)) else c)"

abbreviation lower :: "string \<Rightarrow> string" where "lower \<equiv> map to_lower"

definition is_digit :: "char \<Rightarrow> bool" where
  "is_digit c \<longleftrightarrow> CHR ''0'' \<le> c \<and> c \<le> CHR ''9''"

definition is_space :: "char \<Rightarrow> bool" where
  "is_space c \<longleftrightarrow> c \<in> {CHR '' '', CHR 0x09, CHR 0x0A, CHR 0x0B, CHR 0x0C, CHR 0x0D}"

definition is_alnum :: "char \<Rightarrow> bool" where
  "is_alnum c \<longleftrightarrow> is_digit c \<or> (CHR ''a'' \<le> c \<and> c \<le> CHR ''z'') \<or> (CHR ''A'' \<le> c \<and> c \<le> CHR ''Z'')"

definition lstrip :: "string \<Rightarrow> string" where "lstrip s = dropWhile is_space s"

definition strip :: "string \<Rightarrow> string" where
  "strip s = rev (lstrip (rev (lstrip s)))"

definition starts_with :: "string \<Rightarrow> string \<Rightarrow> bool" where
  "starts_with p s \<longleftrightarrow> take (length p) s = p"

fun contains_str :: "string \<Rightarrow> string \<Rightarrow> bool" where
  "contains_str p [] = (p = [])"
| "contains_str p (c # cs) = (starts_with p (c # cs) \<or> contains_str p cs)"

lemma starts_with_append [simp]: "starts_with p (p @ s)"
  by (simp add: starts_with_def)

lemma starts_with_iff: "starts_with p s \<longleftrightarrow> (\<exists>r. s = p @ r)"
  by (metis append_eq_conv_conj append_take_drop_id starts_with_def)

lemma contains_str_iff: "contains_str p s \<longleftrightarrow> (\<exists>u v. s = u @ p @ v)"
proof (induction s)
  case Nil
  then show ?case by auto
next
  case (Cons c cs)
  show ?case
  proof
    assume "contains_str p (c # cs)"
    then consider r where "c # cs = p @ r" | "contains_str p cs"
      by (auto simp: starts_with_iff)
    then show "\<exists>u v. c # cs = u @ p @ v"
      by cases (metis append_Nil, metis Cons.IH append_Cons)
  next
    assume "\<exists>u v. c # cs = u @ p @ v"
    then obtain u v where *: "c # cs = u @ p @ v" by blast
    show "contains_str p (c # cs)"
    proof (cases u)
      case Nil
      with * have "starts_with p (c # cs)" by (auto simp: starts_with_iff)
      then show ?thesis by simp
    next
      case (Cons d us)
      with * Cons.IH show ?thesis by auto
    qed
  qed
qed

lemma contains_str_appendI [intro]:
  "contains_str p s \<Longrightarrow> contains_str p (s @ t)" "contains_str p t \<Longrightarrow> contains_str p (s @ t)"
  by (auto simp: contains_str_iff) (metis append.assoc)+

lemma contains_str_starts: "starts_with p s \<Longrightarrow> contains_str p s"
  by (cases s) (auto simp: starts_with_def)

text \<open>\<open>s.partition(c)\<close>: the text before the first \<open>c\<close> and the text after it.\<close>

definition before_char :: "char \<Rightarrow> string \<Rightarrow> string" where
  "before_char c s = takeWhile (\<lambda>x. x \<noteq> c) s"

definition after_char :: "char \<Rightarrow> string \<Rightarrow> string" where
  "after_char c s = drop 1 (dropWhile (\<lambda>x. x \<noteq> c) s)"

fun split_ws :: "string \<Rightarrow> string \<Rightarrow> string list" where
  "split_ws w [] = (if w = [] then [] else [rev w])"
| "split_ws w (c # cs) =
     (if is_space c then (if w = [] then split_ws [] cs else rev w # split_ws [] cs)
      else split_ws (c # w) cs)"

fun join_with :: "string \<Rightarrow> string list \<Rightarrow> string" where
  "join_with sep [] = []"
| "join_with sep [x] = x"
| "join_with sep (x # y # ys) = x @ sep @ join_with sep (y # ys)"

subsection \<open>Numbers in strings\<close>

definition digit_val :: "char \<Rightarrow> nat" where
  "digit_val c = of_char c - 48"

definition digits_val :: "string \<Rightarrow> nat" where
  "digits_val ds = foldl (\<lambda>n c. 10 * n + digit_val c) 0 ds"

text \<open>\<open>int(s)\<close> on a decimal literal with an optional sign and surrounding blanks.\<close>

definition py_int :: "string \<Rightarrow> int option" where
  "py_int s =
     (let t = strip s;
          (neg, ds) = (case t of
              c # r \<Rightarrow> if c = CHR ''-'' then (True, r) else if c = CHR ''+'' then (False, r) else (False, t)
            | [] \<Rightarrow> (False, []))
      in if ds \<noteq> [] \<and> list_all is_digit ds
         then Some (if neg then - int (digits_val ds) else int (digits_val ds)) else None)"

text \<open>
  \<open>float(s)\<close> on a decimal literal: sign, digits, fraction, exponent. (The spellings of
  infinity and NaN and digit group underscores are outside the model and give \<open>None\<close>.)
\<close>

definition py_float_of_str :: "string \<Rightarrow> real option" where
  "py_float_of_str s =
     (let t = lower (strip s);
          (neg, u) = (case t of
              c # r \<Rightarrow> if c = CHR ''-'' then (True, r) else if c = CHR ''+'' then (False, r) else (False, t)
            | [] \<Rightarrow> (False, []));
          m = before_char CHR ''e'' u;
          has_e = CHR ''e'' \<in> set u;
          e = (if has_e then
                 (case after_char CHR ''e'' u of
                    [] \<Rightarrow> None
                  | c # r \<Rightarrow> if is_space c then None else py_int (c # r))
               else Some 0);
          ip = before_char CHR ''.'' m;
          fp = after_char CHR ''.'' m
      in case e of
           None \<Rightarrow> None
         | Some k \<Rightarrow>
             if (ip \<noteq> [] \<or> fp \<noteq> []) \<and> list_all is_digit ip \<and> list_all is_digit fp
             then let v = (real (digits_val ip) + real (digits_val fp) / 10 ^ length fp)
                            * (if 0 \<le> k then 10 ^ nat k else 1 / 10 ^ nat (- k))
                  in Some (if neg then - v else v)
             else None)"

text \<open>\<open>float(x)\<close>; \<open>None\<close> is the caught TypeError or ValueError.\<close>

fun py_float :: "pyval \<Rightarrow> real option" where
  "py_float (PNum x) = Some x"
| "py_float (PBool b) = Some (if b then 1 else 0)"
| "py_float (PStr s) = py_float_of_str s"
| "py_float _ = None"

text \<open>\<open>int(x)\<close>: truncation towards zero.\<close>

fun py_int_of :: "pyval \<Rightarrow> int option" where
  "py_int_of (PNum x) = Some (if 0 \<le> x then \<lfloor>x\<rfloor> else \<lceil>x\<rceil>)"
| "py_int_of (PBool b) = Some (if b then 1 else 0)"
| "py_int_of (PStr s) = py_int s"
| "py_int_of _ = None"

text \<open>The decimal text of a number, and that reading it back gives the number.\<close>

fun nat_str :: "nat \<Rightarrow> string" where
  "nat_str n = (if n < 10 then [char_of (48 + n)] else nat_str (n div 10) @ [char_of (48 + n mod 10)])"

declare nat_str.simps [simp del]

lemma digit_val_char: "n < 10 \<Longrightarrow> digit_val (char_of (48 + n)) = n"
  by (simp add: digit_val_def)

lemma digits_val_snoc: "digits_val (ds @ [c]) = 10 * digits_val ds + digit_val c"
  by (simp add: digits_val_def)

lemma digits_val_nat_str [simp]: "digits_val (nat_str n) = n"
proof (induction n rule: nat_str.induct)
  case (1 n)
  show ?case
  proof (cases "n < 10")
    case True
    then show ?thesis by (simp add: nat_str.simps [of n] digits_val_def digit_val_char)
  next
    case False
    with "1.IH" have "digits_val (nat_str (n div 10)) = n div 10" by simp
    with False show ?thesis
      by (simp add: nat_str.simps [of n] digits_val_snoc digit_val_char)
  qed
qed

lemma nat_str_inj: "nat_str m = nat_str n \<longleftrightarrow> m = n"
  by (metis digits_val_nat_str)

section \<open>Dictionaries, deduplication, order\<close>

text \<open>\<open>d.setdefault(k, v)\<close> and \<open>{**d, **e}\<close>.\<close>

definition set_default :: "'k \<Rightarrow> 'v \<Rightarrow> ('k, 'v) dict \<Rightarrow> ('k, 'v) dict" where
  "set_default k v d = (case map_of d k of None \<Rightarrow> d @ [(k, v)] | Some _ \<Rightarrow> d)"

definition dict_merge :: "('k, 'v) dict \<Rightarrow> ('k, 'v) dict \<Rightarrow> ('k, 'v) dict" where
  "dict_merge d e = fold (\<lambda>(k, v). AList.update k v) e d"

definition keys :: "('k, 'v) dict \<Rightarrow> 'k list" where "keys d = map fst d"
definition vals :: "('k, 'v) dict \<Rightarrow> 'v list" where "vals d = map snd d"

text \<open>\<open>list(dict.fromkeys(xs))\<close>: the first occurrence of every element.\<close>

definition uniq :: "'a list \<Rightarrow> 'a list" where
  "uniq xs = rev (remdups (rev xs))"

text \<open>\<open>sorted(set(xs))\<close>.\<close>

definition sorted_set :: "'a::linorder list \<Rightarrow> 'a list" where
  "sorted_set xs = sort (remdups xs)"

text \<open>\<open>max(xs, key=f)\<close> and \<open>min(xs, key=f)\<close>: the first extremal element.\<close>

fun max_by :: "('a \<Rightarrow> 'b::linorder) \<Rightarrow> 'a \<Rightarrow> 'a list \<Rightarrow> 'a" where
  "max_by f m [] = m"
| "max_by f m (x # xs) = max_by f (if f m < f x then x else m) xs"

fun min_by :: "('a \<Rightarrow> 'b::linorder) \<Rightarrow> 'a \<Rightarrow> 'a list \<Rightarrow> 'a" where
  "min_by f m [] = m"
| "min_by f m (x # xs) = min_by f (if f x < f m then x else m) xs"

definition max_list :: "'a::linorder \<Rightarrow> 'a list \<Rightarrow> 'a" where "max_list = foldl max"
definition min_list1 :: "'a::linorder \<Rightarrow> 'a list \<Rightarrow> 'a" where "min_list1 = foldl min"

lemma map_of_set_default [dict_simps]:
  "map_of (set_default k v d) = (case map_of d k of None \<Rightarrow> (map_of d)(k \<mapsto> v) | Some _ \<Rightarrow> map_of d)"
  by (rule ext) (auto simp: set_default_def map_add_def split: option.splits)

lemma keys_set_default [dict_simps]:
  "set (keys (set_default k v d)) = insert k (set (keys d))"
proof (cases "map_of d k")
  case None
  then show ?thesis by (auto simp: set_default_def keys_def)
next
  case (Some w)
  then have "k \<in> fst ` set d" by (metis domI dom_map_of_conv_image_fst)
  with Some show ?thesis by (auto simp: set_default_def keys_def)
qed

lemma distinct_keys_set_default [dict_simps]:
  "distinct (keys d) \<Longrightarrow> distinct (keys (set_default k v d))"
  by (auto simp: set_default_def keys_def map_of_eq_None_iff split: option.splits)

lemma map_of_AList_update [dict_simps]: "map_of (AList.update k v d) = (map_of d)(k \<mapsto> v)"
  by (simp add: update_conv')

lemma keys_update [dict_simps]: "set (keys (AList.update k v d)) = insert k (set (keys d))"
  by (simp add: keys_def dom_update)

lemma distinct_keys_update [dict_simps]:
  "distinct (keys d) \<Longrightarrow> distinct (keys (AList.update k v d))"
  by (simp add: keys_def distinct_update)

lemma map_of_dict_merge [dict_simps]: "map_of (dict_merge d e) = map_of d ++ map_of (rev e)"
proof (induction e arbitrary: d)
  case Nil
  then show ?case by (simp add: dict_merge_def)
next
  case (Cons p e)
  obtain k v where p: "p = (k, v)" by force
  have "dict_merge d (p # e) = dict_merge (AList.update k v d) e"
    by (simp add: dict_merge_def p)
  then show ?case
    using Cons.IH [of "AList.update k v d"]
    by (rule_tac ext) (auto simp: dict_simps p map_add_def split: option.splits)
qed

lemma in_keys_iff: "k \<in> set (keys d) \<longleftrightarrow> map_of d k \<noteq> None"
  by (simp add: keys_def map_of_eq_None_iff)

lemma distinct_map_sort_key: "distinct (map f (sort_key g xs)) \<longleftrightarrow> distinct (map f xs)"
  by (simp add: distinct_map)

lemma set_uniq [simp]: "set (uniq xs) = set xs"
  by (simp add: uniq_def)

lemma distinct_uniq [simp]: "distinct (uniq xs)"
  by (simp add: uniq_def)

lemma uniq_Nil [simp]: "uniq [] = []"
  by (simp add: uniq_def)

lemma set_sorted_set [simp]: "set (sorted_set xs) = set xs"
  by (simp add: sorted_set_def)

lemma distinct_sorted_set [simp]: "distinct (sorted_set xs)"
  by (simp add: sorted_set_def)

lemma sorted_sorted_set [simp]: "sorted (sorted_set xs)"
  by (simp add: sorted_set_def)

lemma max_by_mem: "max_by f m xs \<in> insert m (set xs)"
proof (induction xs arbitrary: m)
  case (Cons x xs)
  show ?case using Cons.IH [of x] Cons.IH [of m] by auto
qed simp

lemma max_by_ge: "y \<in> insert m (set xs) \<Longrightarrow> f y \<le> f (max_by f m xs)"
proof (induction xs arbitrary: m y)
  case Nil
  then show ?case by simp
next
  case (Cons x xs)
  let ?m = "if f m < f x then x else m"
  have "f m \<le> f ?m" "f x \<le> f ?m" by auto
  moreover have "f ?m \<le> f (max_by f ?m xs)" by (rule Cons.IH) blast
  ultimately have "f m \<le> f (max_by f ?m xs)" "f x \<le> f (max_by f ?m xs)" by (blast intro: order_trans)+
  moreover have "f z \<le> f (max_by f ?m xs)" if "z \<in> set xs" for z
    using that by (intro Cons.IH) blast
  ultimately show ?case using Cons.prems by (simp only: max_by.simps list.set) blast
qed

lemma min_by_mem: "min_by f m xs \<in> insert m (set xs)"
proof (induction xs arbitrary: m)
  case (Cons x xs)
  show ?case using Cons.IH [of x] Cons.IH [of m] by auto
qed simp

lemma min_by_le: "y \<in> insert m (set xs) \<Longrightarrow> f (min_by f m xs) \<le> f y"
proof (induction xs arbitrary: m y)
  case Nil
  then show ?case by simp
next
  case (Cons x xs)
  let ?m = "if f x < f m then x else m"
  have "f ?m \<le> f m" "f ?m \<le> f x" by auto
  moreover have *: "f (min_by f ?m xs) \<le> f ?m" by (rule Cons.IH) blast
  ultimately have "f (min_by f ?m xs) \<le> f m" "f (min_by f ?m xs) \<le> f x"
    by (blast intro: order_trans [OF *])+
  moreover have "f (min_by f ?m xs) \<le> f z" if "z \<in> set xs" for z
    using that by (intro Cons.IH) blast
  ultimately show ?case using Cons.prems by (simp only: min_by.simps list.set) blast
qed

lemma max_list_ge: "y \<in> insert m (set xs) \<Longrightarrow> y \<le> max_list m xs"
proof (induction xs arbitrary: m y)
  case (Cons x xs)
  have "max m x \<le> max_list (max m x) xs" by (rule Cons.IH) simp
  with Cons show ?case by (auto simp: max_list_def)
qed (simp add: max_list_def)

lemma max_list_mem: "max_list m xs \<in> insert m (set xs)"
  unfolding max_list_def
proof (induction xs arbitrary: m)
  case (Cons x xs)
  show ?case using Cons.IH [of "max m x"] by (auto simp: max_def split: if_splits)
qed simp

lemma min_list1_le: "y \<in> insert m (set xs) \<Longrightarrow> min_list1 m xs \<le> y"
proof (induction xs arbitrary: m y)
  case (Cons x xs)
  have "min_list1 (min m x) xs \<le> min m x" by (rule Cons.IH) simp
  with Cons show ?case by (auto simp: min_list1_def)
qed (simp add: min_list1_def)

lemma min_list1_mem: "min_list1 m xs \<in> insert m (set xs)"
  unfolding min_list1_def
proof (induction xs arbitrary: m)
  case (Cons x xs)
  show ?case using Cons.IH [of "min m x"] by (auto simp: min_def split: if_splits)
qed simp

lemma find_append: "find P (xs @ ys) = (case find P xs of None \<Rightarrow> find P ys | Some x \<Rightarrow> Some x)"
  by (induction xs) auto

lemma find_SomeD: "find P xs = Some x \<Longrightarrow> x \<in> set xs \<and> P x"
  by (induction xs) (auto split: if_splits)

text \<open>Keeping the first \<open>m\<close> of a stable sort drops only elements that come no earlier.\<close>

lemma take_sort_key_cases:
  assumes "x \<in> set xs"
  shows "x \<in> set (take m (sort_key f xs))
    \<or> length (take m (sort_key f xs)) = m \<and> (\<forall>y\<in>set (take m (sort_key f xs)). f y \<le> f x)"
proof (cases "x \<in> set (take m (sort_key f xs))")
  case False
  let ?s = "sort_key f xs"
  have "x \<in> set (take m ?s @ drop m ?s)" using assms by simp
  with False have d: "x \<in> set (drop m ?s)" by (simp del: append_take_drop_id)
  have "sorted (map f (take m ?s @ drop m ?s))" by simp
  with d have "\<forall>y\<in>set (take m ?s). f y \<le> f x"
    by (simp only: map_append sorted_append set_map) blast
  moreover from d have "length (take m ?s) = m" by (cases "m \<le> length ?s") auto
  ultimately show ?thesis by blast
qed simp

lemma sorted_take_sort_key: "sorted (map f (take m (sort_key f xs)))"
  by (metis sorted_sort_key sorted_wrt_take take_map)

lemma map_of_vals: "distinct (keys d) \<Longrightarrow> v \<in> set (vals d) \<longleftrightarrow> (\<exists>k. map_of d k = Some v)"
  by (force simp: vals_def keys_def)

lemma sum_filter_lengths:
  "finite K \<Longrightarrow> g ` set xs \<subseteq> K \<Longrightarrow> (\<Sum>k\<in>K. length (filter (\<lambda>x. g x = k) xs)) = length xs"
proof (induction xs)
  case (Cons a xs)
  have "(\<Sum>k\<in>K. length (filter (\<lambda>x. g x = k) (a # xs)))
      = (\<Sum>k\<in>K. (if g a = k then 1 else 0) + length (filter (\<lambda>x. g x = k) xs))"
    by (rule sum.cong) auto
  also have "\<dots> = 1 + length xs"
    using Cons by (simp add: sum.distrib sum.delta)
  finally show ?case by simp
qed simp

section \<open>Computations that may raise\<close>

text \<open>All results of a function that may fail, when it fails on none.\<close>

lemma those_map_total:
  assumes "\<forall>x\<in>set xs. f x \<noteq> None"
  shows "those (map f xs) = Some (map (the \<circ> f) xs)"
  using assms by (induction xs) auto

text \<open>Sequencing: the continuation runs on a result, an exception is passed on.\<close>

definition and_then :: "'e + 'a \<Rightarrow> ('a \<Rightarrow> 'e + 'b) \<Rightarrow> 'e + 'b" where
  "and_then x f = (case x of Inl e \<Rightarrow> Inl e | Inr y \<Rightarrow> f y)"

lemma and_then_simps [simp]: "and_then (Inl e) f = Inl e" "and_then (Inr y) f = f y"
  by (simp_all add: and_then_def)

lemma and_then_Inr: "and_then x f = Inr z \<longleftrightarrow> (\<exists>y. x = Inr y \<and> f y = Inr z)"
  by (cases x) simp_all

definition ensure :: "bool \<Rightarrow> 'e \<Rightarrow> 'e + unit" where
  "ensure c e = (if c then Inr () else Inl e)"

lemma ensure_Inr [simp]: "ensure c e = Inr u \<longleftrightarrow> c"
  by (simp add: ensure_def)

text \<open>A list comprehension whose element expression may raise: the first exception wins.\<close>

fun traverse :: "('a \<Rightarrow> 'e + 'b) \<Rightarrow> 'a list \<Rightarrow> 'e + 'b list" where
  "traverse f [] = Inr []"
| "traverse f (x # xs) =
     (case f x of
        Inl e \<Rightarrow> Inl e
      | Inr y \<Rightarrow> (case traverse f xs of Inl e \<Rightarrow> Inl e | Inr ys \<Rightarrow> Inr (y # ys)))"

lemma traverse_Inr: "traverse f xs = Inr ys \<Longrightarrow> map f xs = map Inr ys"
proof (induction xs arbitrary: ys)
  case (Cons x xs)
  from Cons.prems obtain y zs where "f x = Inr y" "traverse f xs = Inr zs" "ys = y # zs"
    by (auto split: sum.splits)
  with Cons.IH [of zs] show ?case by simp
qed simp

lemma traverse_total: "\<forall>x\<in>set xs. \<exists>y. f x = Inr y \<Longrightarrow> \<exists>ys. traverse f xs = Inr ys"
  by (induction xs) auto

text \<open>A loop over a list that threads a state and may raise.\<close>

fun fold_sum :: "('a \<Rightarrow> 's \<Rightarrow> 'e + 's) \<Rightarrow> 'a list \<Rightarrow> 's \<Rightarrow> 'e + 's" where
  "fold_sum f [] s = Inr s"
| "fold_sum f (x # xs) s = (case f x s of Inl e \<Rightarrow> Inl e | Inr s' \<Rightarrow> fold_sum f xs s')"

lemma fold_sum_invariant:
  assumes "fold_sum f xs s = Inr s'" and "P s"
    and "\<And>x s s'. x \<in> set xs \<Longrightarrow> P s \<Longrightarrow> f x s = Inr s' \<Longrightarrow> P s'"
  shows "P s'"
  using assms
proof (induction xs arbitrary: s)
  case (Cons x xs)
  then obtain t where t: "f x s = Inr t" "fold_sum f xs t = Inr s'" by (auto split: sum.splits)
  have "P t" by (rule Cons.prems(3) [of x s t]) (simp_all add: Cons.prems(2) t)
  then show ?case by (rule Cons.IH [OF t(2)]) (rule Cons.prems(3), simp_all)
qed simp

lemma fold_sum_total: "(\<And>x s. x \<in> set xs \<Longrightarrow> \<exists>s'. f x s = Inr s') \<Longrightarrow> \<exists>s'. fold_sum f xs s = Inr s'"
proof (induction xs arbitrary: s)
  case (Cons x xs)
  obtain t where "f x s = Inr t" using Cons.prems [of x s] by auto
  moreover have "\<exists>s'. fold_sum f xs t = Inr s'"
    by (rule Cons.IH) (rule Cons.prems, simp)
  ultimately show ?case by simp
qed simp

lemma fold_sum_append:
  "fold_sum f (xs @ ys) s = (case fold_sum f xs s of Inl e \<Rightarrow> Inl e | Inr s' \<Rightarrow> fold_sum f ys s')"
  by (induction xs arbitrary: s) (auto split: sum.splits)

section \<open>Rounding\<close>

text \<open>\<open>round(x, n)\<close>: to the nearest multiple of \<open>10 ^ -n\<close>, ties to the even one.\<close>

definition round_half_even :: "real \<Rightarrow> int" where
  "round_half_even x =
     (let f = \<lfloor>x\<rfloor>; d = x - of_int f
      in if d < 1 / 2 then f else if 1 / 2 < d then f + 1 else if even f then f else f + 1)"

definition py_round :: "nat \<Rightarrow> real \<Rightarrow> real" where
  "py_round n x = of_int (round_half_even (x * 10 ^ n)) / 10 ^ n"

lemma round_half_even_error: "\<bar>of_int (round_half_even x) - x\<bar> \<le> 1 / 2"
  unfolding round_half_even_def Let_def
  using of_int_floor_le [of x] floor_correct [of x] by (auto split: if_splits)

lemma round_half_even_of_int [simp]: "round_half_even (of_int k) = k"
  by (simp add: round_half_even_def)

lemma round_half_even_mono: "x \<le> y \<Longrightarrow> round_half_even x \<le> round_half_even y"
proof -
  assume le: "x \<le> y"
  then have fl: "\<lfloor>x\<rfloor> \<le> \<lfloor>y\<rfloor>" by (rule floor_mono)
  show ?thesis
  proof (cases "\<lfloor>x\<rfloor> = \<lfloor>y\<rfloor>")
    case True
    with le show ?thesis by (auto simp: round_half_even_def Let_def)
  next
    case False
    with fl have "\<lfloor>x\<rfloor> + 1 \<le> \<lfloor>y\<rfloor>" by simp
    moreover have "round_half_even x \<le> \<lfloor>x\<rfloor> + 1" "\<lfloor>y\<rfloor> \<le> round_half_even y"
      by (auto simp: round_half_even_def Let_def)
    ultimately show ?thesis by linarith
  qed
qed

lemma py_round_mono: "x \<le> y \<Longrightarrow> py_round n x \<le> py_round n y"
  unfolding py_round_def
  by (intro divide_right_mono of_int_le_iff [THEN iffD2] round_half_even_mono mult_right_mono) auto

lemma py_round_of_int [simp]: "py_round n (of_int k) = of_int k"
proof -
  have "of_int k * 10 ^ n = (of_int (k * 10 ^ n) :: real)" by simp
  then show ?thesis by (simp only: py_round_def round_half_even_of_int) simp
qed

lemma py_round_0 [simp]: "py_round n 0 = 0" and py_round_1 [simp]: "py_round n 1 = 1"
  using py_round_of_int [of n 0] py_round_of_int [of n 1] by simp_all

lemma py_round_unit [bounds_intros]:
  "0 \<le> x \<Longrightarrow> 0 \<le> py_round n x" "x \<le> 1 \<Longrightarrow> py_round n x \<le> 1"
  using py_round_mono [of 0 x n] py_round_mono [of x 1 n] by simp_all

lemma py_round_error: "\<bar>py_round n x - x\<bar> \<le> 1 / (2 * 10 ^ n)"
proof -
  let ?r = "of_int (round_half_even (x * 10 ^ n)) - x * 10 ^ n :: real"
  have "py_round n x - x = ?r / 10 ^ n"
    by (simp add: py_round_def diff_divide_distrib)
  then have "\<bar>py_round n x - x\<bar> = \<bar>?r\<bar> / 10 ^ n" by simp
  also have "\<dots> \<le> (1 / 2) / 10 ^ n"
    by (intro divide_right_mono round_half_even_error) simp
  finally show ?thesis by simp
qed

section \<open>The dictionary interface\<close>

text \<open>
  What the components rely on of a keyed collection: a value put under a key is the one
  found, other keys are unaffected, and keys stay distinct.
\<close>

locale keyed_store =
  fixes get :: "'s \<Rightarrow> 'k \<Rightarrow> 'v option"
    and put :: "'k \<Rightarrow> 'v \<Rightarrow> 's \<Rightarrow> 's"
    and ok :: "'s \<Rightarrow> bool"
  assumes get_put: "ok s \<Longrightarrow> get (put k v s) k = Some v"
    and get_put_other: "ok s \<Longrightarrow> k' \<noteq> k \<Longrightarrow> get (put k v s) k' = get s k'"
    and ok_put: "ok s \<Longrightarrow> ok (put k v s)"
begin

definition put_all :: "('k \<times> 'v) list \<Rightarrow> 's \<Rightarrow> 's" where
  "put_all xs s = fold (\<lambda>(k, v). put k v) xs s"

lemma ok_put_all: "ok s \<Longrightarrow> ok (put_all xs s)"
  unfolding put_all_def by (induction xs arbitrary: s) (auto simp: ok_put)

lemma get_put_all: "ok s \<Longrightarrow> get (put_all xs s) k = (case map_of (rev xs) k of None \<Rightarrow> get s k | Some v \<Rightarrow> Some v)"
proof (induction xs arbitrary: s)
  case Nil
  then show ?case by (simp add: put_all_def)
next
  case (Cons p xs)
  obtain a b where p: "p = (a, b)" by force
  have "put_all (p # xs) s = put_all xs (put a b s)" by (simp add: put_all_def p)
  with Cons show ?case
    by (auto simp: ok_put p get_put get_put_other map_add_def split: option.splits)
qed

lemma put_commute:
  "ok s \<Longrightarrow> k \<noteq> k' \<Longrightarrow> get (put k v (put k' v' s)) = get (put k' v' (put k v s))"
proof (rule ext)
  fix x
  assume "ok s" "k \<noteq> k'"
  then show "get (put k v (put k' v' s)) x = get (put k' v' (put k v s)) x"
    by (cases "x = k"; cases "x = k'") (auto simp: get_put get_put_other ok_put)
qed

end

interpretation dict: keyed_store "\<lambda>d. map_of d" "AList.update" "\<lambda>d. distinct (keys d)"
  by unfold_locales (auto simp: dict_simps)

section \<open>Merging records by key\<close>

text \<open>
  A dictionary filled from a list: a record under a new key is stored, one under a known key
  is combined with what is there.
\<close>

definition merge_add :: "('a \<Rightarrow> 'k) \<Rightarrow> ('a \<Rightarrow> 'a \<Rightarrow> 'a) \<Rightarrow> 'a \<Rightarrow> ('k, 'a) dict \<Rightarrow> ('k, 'a) dict" where
  "merge_add key comb x d =
     AList.update (key x) (case map_of d (key x) of None \<Rightarrow> x | Some y \<Rightarrow> comb y x) d"

definition merge_all :: "('a \<Rightarrow> 'k) \<Rightarrow> ('a \<Rightarrow> 'a \<Rightarrow> 'a) \<Rightarrow> 'a list \<Rightarrow> ('k, 'a) dict" where
  "merge_all key comb xs = fold (merge_add key comb) xs []"

locale keyed_merge =
  fixes key :: "'a \<Rightarrow> 'k"
    and comb :: "'a \<Rightarrow> 'a \<Rightarrow> 'a"
  assumes key_comb: "key y = key x \<Longrightarrow> key (comb y x) = key x"
begin

lemma merge_all_snoc: "merge_all key comb (xs @ [x]) = merge_add key comb x (merge_all key comb xs)"
  by (simp add: merge_all_def)

lemma keys_merge: "set (keys (merge_all key comb xs)) = key ` set xs"
  by (induction xs rule: rev_induct) (simp_all add: merge_all_snoc merge_add_def dict_simps, simp add: merge_all_def keys_def)

lemma distinct_merge: "distinct (keys (merge_all key comb xs))"
  by (induction xs rule: rev_induct) (simp_all add: merge_all_snoc merge_add_def dict_simps, simp add: merge_all_def keys_def)

lemma merge_lookup:
  "map_of (merge_all key comb xs) k =
     (case filter (\<lambda>x. key x = k) xs of [] \<Rightarrow> None | y # ys \<Rightarrow> Some (foldl comb y ys))"
proof (induction xs rule: rev_induct)
  case Nil
  then show ?case by (simp add: merge_all_def)
next
  case (snoc x xs)
  then show ?case
    by (cases "key x = k") (auto simp: merge_all_snoc merge_add_def dict_simps split: list.splits option.splits)
qed

lemma merge_keyed: "map_of (merge_all key comb xs) k = Some v \<Longrightarrow> key v = k"
proof -
  have *: "key (foldl comb y ys) = k" if "key y = k" "\<forall>z\<in>set ys. key z = k" for y ys
    using that by (induction ys arbitrary: y) (auto simp: key_comb)
  assume "map_of (merge_all key comb xs) k = Some v"
  then obtain y ys where f: "filter (\<lambda>x. key x = k) xs = y # ys" and v: "v = foldl comb y ys"
    by (auto simp: merge_lookup split: list.splits)
  have "set (y # ys) \<subseteq> {x. key x = k}" unfolding f [symmetric] by auto
  with * v show ?thesis by auto
qed

lemma keys_of_vals: "map key (vals (merge_all key comb xs)) = keys (merge_all key comb xs)"
proof -
  have "key v = k" if "(k, v) \<in> set (merge_all key comb xs)" for k v
    using merge_keyed [of xs k v] that distinct_merge [of xs] by (simp add: keys_def)
  then show ?thesis by (auto simp: vals_def keys_def)
qed

end

end
