(* ===== verification/Contract.thy ===== *)
theory Contract
  imports Prelude
begin

text \<open>
  The telemetry contract (\<open>contract/models.py\<close>): the shapes exchanged between the RCA side
  and the telemetry servers, their validators, and what a response says about its own
  completeness.
\<close>

section \<open>Severities\<close>

text \<open>\<open>SEVERITIES\<close> of the catalog; the order is the one \<open>SEVERITY_RANK\<close> gives.\<close>

datatype severity = Debug | Info | Warning | Error | Critical

fun severity_rank :: "severity \<Rightarrow> nat" where
  "severity_rank Debug = 0"
| "severity_rank Info = 1"
| "severity_rank Warning = 2"
| "severity_rank Error = 3"
| "severity_rank Critical = 4"

lemma severity_rank_inj: "severity_rank a = severity_rank b \<longleftrightarrow> a = b"
  by (cases a; cases b) simp_all

instantiation severity :: linorder
begin

definition less_eq_severity :: "severity \<Rightarrow> severity \<Rightarrow> bool" where
  "less_eq_severity a b \<longleftrightarrow> severity_rank a \<le> severity_rank b"

definition less_severity :: "severity \<Rightarrow> severity \<Rightarrow> bool" where
  "less_severity a b \<longleftrightarrow> severity_rank a < severity_rank b"

instance
  by standard (auto simp: less_eq_severity_def less_severity_def severity_rank_inj)

end

fun severity_name :: "severity \<Rightarrow> string" where
  "severity_name Debug = ''debug''"
| "severity_name Info = ''info''"
| "severity_name Warning = ''warning''"
| "severity_name Error = ''error''"
| "severity_name Critical = ''critical''"

section \<open>Entities and signals\<close>

type_synonym node = "string \<times> string"  \<comment> \<open>(entity type, entity id)\<close>

record entity =
  e_type :: string
  e_id :: string
  e_labels :: "(string, string) dict"

abbreviation entity_node :: "entity \<Rightarrow> node" where
  "entity_node e \<equiv> (e_type e, e_id e)"

datatype signal_type = Metric | Event | State

record signal =
  s_type :: signal_type
  s_timestamp :: time
  s_observed_at :: time
  s_entity :: entity
  s_name :: string
  s_value :: "real option"
  s_unit :: "string option"
  s_severity :: severity
  s_domain :: string
  s_source :: string
  s_attributes :: "(string, pyval) dict"
  s_evidence_ref :: "string option"

section \<open>Windows, filters, queries\<close>

datatype contract_error =
    BadVersion string
  | UnsupportedVersion string
  | WindowOrder
  | BadRegion string

record time_window =
  w_start :: time
  w_end :: time

definition mk_window :: "time \<Rightarrow> time \<Rightarrow> contract_error + time_window" where
  "mk_window a b = (if a > b then Inl WindowOrder else Inr \<lparr>w_start = a, w_end = b\<rparr>)"

record entity_filter =
  f_type :: "string option"
  f_id :: "string option"
  f_labels :: "(string, string) dict"

definition filter_matches :: "entity_filter \<Rightarrow> entity \<Rightarrow> bool" where
  "filter_matches f e =
     (if f_type f \<noteq> None \<and> Some (e_type e) \<noteq> f_type f then False
      else if f_id f \<noteq> None \<and> Some (e_id e) \<noteq> f_id f then False
      else list_all (\<lambda>(k, v). map_of (e_labels e) k = Some v) (f_labels f))"

record telemetry_query =
  q_region :: string
  q_start :: time
  q_end :: time
  q_filters :: "entity_filter list option"
  q_include_baseline :: bool
  q_scenario :: "int option"
  q_anchor :: "time option"

text \<open>
  \<open>REGION_PATTERN\<close>: two lower case letters, then one or more groups of a dash and lower
  case letters or digits.
\<close>

definition lower_alpha :: "char \<Rightarrow> bool" where
  "lower_alpha c \<longleftrightarrow> CHR ''a'' \<le> c \<and> c \<le> CHR ''z''"

function (sequential) region_groups :: "string \<Rightarrow> bool" where
  "region_groups [] = True"
| "region_groups (d # cs) =
     (d = CHR ''-'' \<and>
      (let g = takeWhile (\<lambda>c. c \<noteq> CHR ''-'') cs
       in g \<noteq> [] \<and> list_all (\<lambda>c. lower_alpha c \<or> is_digit c) g
          \<and> region_groups (dropWhile (\<lambda>c. c \<noteq> CHR ''-'') cs)))"
  by pat_completeness auto
termination
  by (relation "measure length") (auto simp: le_imp_less_Suc length_dropWhile_le)

definition region_ok :: "string \<Rightarrow> bool" where
  "region_ok s =
     (case s of
        a # b # d # rest \<Rightarrow> lower_alpha a \<and> lower_alpha b \<and> region_groups (d # rest)
      | _ \<Rightarrow> False)"

definition mk_query :: "telemetry_query \<Rightarrow> contract_error + telemetry_query" where
  "mk_query q =
     (if \<not> region_ok (q_region q) then Inl (BadRegion (q_region q))
      else if q_start q > q_end q then Inl WindowOrder else Inr q)"

definition query_matches :: "telemetry_query \<Rightarrow> signal \<Rightarrow> bool" where
  "query_matches q s =
     (case q_filters q of
        None \<Rightarrow> True
      | Some fs \<Rightarrow> fs = [] \<or> list_ex (\<lambda>f. filter_matches f (s_entity s)) fs)"

definition query_window_of :: "telemetry_query \<Rightarrow> time_window" where
  "query_window_of q = \<lparr>w_start = q_start q, w_end = q_end q\<rparr>"

section \<open>Responses and coverage\<close>

datatype cov_status = CovOk | CovPartial | CovFailed

record coverage =
  c_source :: string
  c_status :: cov_status
  c_lag :: "real option"
  c_truncated :: bool
  c_error :: "string option"
  c_required :: bool

record tool_response =
  r_version :: string
  r_window :: time_window
  r_baseline :: "time_window option"
  r_coverage :: "coverage list"
  r_signals :: "signal list"
  r_cursor :: "string option"

definition degraded :: "coverage list \<Rightarrow> bool" where
  "degraded cs =
     (if cs = [] then True else list_ex (\<lambda>c. c_required c \<and> c_status c \<noteq> CovOk) cs)"

definition response_status :: "coverage list \<Rightarrow> cov_status" where
  "response_status cs =
     (let statuses = c_status ` set cs
      in if statuses = {} \<or> statuses = {CovFailed} then CovFailed
         else if statuses = {CovOk} then CovOk else CovPartial)"

record topology_edge =
  t_rel :: string
  t_source :: entity
  t_target :: entity
  t_attributes :: "(string, pyval) dict"

record topology_response =
  tr_region :: string
  tr_entities :: "entity list"
  tr_relationships :: "topology_edge list"
  tr_coverage :: "coverage list"

section \<open>Contract versions\<close>

definition CONTRACT_VERSION :: string where "CONTRACT_VERSION = ''2.1''"
definition CONTRACT_MAJOR :: int where "CONTRACT_MAJOR = 2"

definition contract_major :: "string \<Rightarrow> contract_error + int" where
  "contract_major v =
     (case py_int (before_char CHR ''.'' v) of
        None \<Rightarrow> Inl (BadVersion v)
      | Some n \<Rightarrow> Inr n)"

definition check_contract_version :: "string \<Rightarrow> contract_error + unit" where
  "check_contract_version v =
     (case contract_major v of
        Inl e \<Rightarrow> Inl e
      | Inr major \<Rightarrow> if major \<noteq> CONTRACT_MAJOR then Inl (UnsupportedVersion v) else Inr ())"

section \<open>Lemmas\<close>

lemma not_degraded_iff:
  "\<not> degraded cs \<longleftrightarrow> cs \<noteq> [] \<and> (\<forall>c\<in>set cs. c_required c \<longrightarrow> c_status c = CovOk)"
  by (auto simp: degraded_def list_ex_iff)

lemma response_status_ok_iff:
  "response_status cs = CovOk \<longleftrightarrow> cs \<noteq> [] \<and> (\<forall>c\<in>set cs. c_status c = CovOk)"
  by (cases cs) (auto simp: response_status_def Let_def)

lemma response_status_ok_not_degraded: "response_status cs = CovOk \<Longrightarrow> \<not> degraded cs"
  by (auto simp: response_status_ok_iff not_degraded_iff)

lemma filter_matches_iff:
  "filter_matches f e \<longleftrightarrow>
     (\<forall>t. f_type f = Some t \<longrightarrow> e_type e = t) \<and> (\<forall>i. f_id f = Some i \<longrightarrow> e_id e = i)
     \<and> (\<forall>(k, v)\<in>set (f_labels f). map_of (e_labels e) k = Some v)"
  by (auto simp: filter_matches_def list_all_iff)

lemma check_contract_version_own: "check_contract_version CONTRACT_VERSION = Inr ()"
  by code_simp

end
