(* ===== verification/Catalog.thy ===== *)
theory Catalog
  imports Contract
begin

text \<open>
  The detection catalog as data (\<open>contract/catalog_models.py\<close>) and its lookups
  (\<open>Catalog\<close> in \<open>contract/catalog_loader.py\<close>): which signals exist and how each is
  detected, which domains run, how findings corroborate each other, and how the
  investigation walks the topology.
\<close>

section \<open>Entities\<close>

datatype dependent = DepSource | DepTarget | DepBoth

record relationship =
  rel_source :: "string list"
  rel_target :: "string list"
  rel_dependent :: dependent

record entities_file =
  ent_types :: "(string, unit) dict"
  ent_relationships :: "(string, relationship) dict"

section \<open>Rules\<close>

datatype threshold_op = Gt | Lt | Between

record threshold_rule =
  th_id :: "string option"
  th_reason :: "string option"
  th_op :: threshold_op
  th_value :: "real option"
  th_min :: "real option"
  th_max :: "real option"
  th_field :: string
  th_per :: "string option"
  th_scale :: real

record state_equals_rule =
  se_id :: "string option"
  se_reason :: "string option"
  se_value :: pyval
  se_field :: string

record zscore_rule =
  zs_id :: "string option"
  zs_reason :: "string option"
  zs_threshold :: real
  zs_metric :: "string option"
  zs_keys :: "string list"
  zs_min_samples :: nat
  zs_fallback :: "threshold_rule option"

datatype direction = Increase | Decrease
datatype reference = RefMean | RefMedian

record rate_change_rule =
  rc_id :: "string option"
  rc_reason :: "string option"
  rc_direction :: direction
  rc_factor :: real
  rc_min_reference :: real
  rc_reference :: reference

record event_presence_rule =
  ep_id :: "string option"
  ep_reason :: "string option"
  ep_names :: "string list option"
  ep_min_severity :: severity

datatype rule =
    Threshold threshold_rule
  | StateEquals state_equals_rule
  | ZScoreBaseline zscore_rule
  | RateChange rate_change_rule
  | EventPresence event_presence_rule

fun rule_type :: "rule \<Rightarrow> string" where
  "rule_type (Threshold _) = ''threshold''"
| "rule_type (StateEquals _) = ''state_equals''"
| "rule_type (ZScoreBaseline _) = ''zscore_baseline''"
| "rule_type (RateChange _) = ''rate_change''"
| "rule_type (EventPresence _) = ''event_presence''"

fun rule_own_id :: "rule \<Rightarrow> string option" where
  "rule_own_id (Threshold r) = th_id r"
| "rule_own_id (StateEquals r) = se_id r"
| "rule_own_id (ZScoreBaseline r) = zs_id r"
| "rule_own_id (RateChange r) = rc_id r"
| "rule_own_id (EventPresence r) = ep_id r"

text \<open>\<open>x or default\<close> on an optional string.\<close>

definition str_or :: "string option \<Rightarrow> string \<Rightarrow> string" where
  "str_or x d = (case x of None \<Rightarrow> d | Some s \<Rightarrow> if s = [] then d else s)"

definition rule_id :: "string \<Rightarrow> rule \<Rightarrow> string" where
  "rule_id name r = str_or (rule_own_id r) (name @ ''.'' @ rule_type r)"

section \<open>Signals\<close>

record signal_def =
  sd_signal_type :: signal_type
  sd_domain :: string
  sd_unit :: "string option"
  sd_description :: string
  sd_match_names :: "string list"
  sd_entity_types :: "string list"
  sd_derived :: bool
  sd_rule :: "rule option"

section \<open>Domains\<close>

record summary_condition =
  sc_hit_names_any :: "string list option"
  sc_candidates_present :: "bool option"
  sc_derived_hits :: "bool option"

record summary_variant =
  sv_when :: "summary_condition option"
  sv_template :: string

record summary_spec =
  ss_anomaly :: "summary_variant list"
  ss_suffixes :: "summary_variant list"
  ss_clean :: "summary_variant list"

record confidence_spec =
  cf_base :: real
  cf_per_hit :: real
  cf_derived_z_weight :: real
  cf_max :: real
  cf_clean :: real

datatype ke_source = KeHits | KeAll | KeHitsElseAll
datatype observation_kind = ObsSignal | ObsEntityTime
datatype time_range = RangeAll | RangeHitsElseAll

record relevance_spec =
  rv_applies_to :: "string list"
  rv_min_token_length :: int
  rv_stopwords :: "string list"
  rv_text_fields :: "string list"
  rv_symptom_terms :: "string list"
  rv_symptom_match :: "(string \<times> string list) option"

record skill_card =
  sk_id :: string
  sk_name :: string

record agent_card =
  ag_name :: string
  ag_port :: int
  ag_skill :: skill_card

record domain_def =
  d_telemetry :: string
  d_tool :: string
  d_agent :: agent_card
  d_observation :: observation_kind
  d_entity_field :: "string option"
  d_rank_by :: "string list"
  d_ke_source :: ke_source
  d_ke_limit :: nat
  d_time_range :: time_range
  d_include_baseline :: bool
  d_relevance :: "relevance_spec option"
  d_derived :: "string list"
  d_confidence :: confidence_spec
  d_summary :: summary_spec
  d_metrics_affected :: "string list"

section \<open>Correlation\<close>

datatype scope = ScopeSelf | ScopePeers
datatype cmp_op = OpEq | OpLt | OpGt | OpContains

record peer_scope =
  ps_scope :: scope
  ps_domains :: "string list option"
  ps_peer_anomaly :: bool

record key_event_condition =
  kc_scope :: peer_scope
  kc_field :: string
  kc_op :: cmp_op
  kc_value :: pyval

text \<open>A condition has five optional keys; validation demands that exactly one is set.\<close>

datatype condition = Condition
  (cd_key_event: "key_event_condition option")
  (cd_summary_contains: "(peer_scope \<times> string) option")
  (cd_peer_anomaly: "string list option option")
  (cd_any: "condition list option")
  (cd_all: "condition list option")

datatype effect_kind = Corroboration | Contradiction
datatype confidence_op = AtLeast | AddTo

record effect =
  ef_kind :: effect_kind
  ef_op :: confidence_op
  ef_value :: real
  ef_cap :: "real option"
  ef_note :: string

record correlation_rule =
  co_domain :: string
  co_priority :: int
  co_self_anomaly :: bool
  co_when :: "condition list"
  co_effect :: effect

section \<open>Investigation\<close>

datatype role = Cause | Symptom

record investigation =
  iv_probes :: "(string, string list) dict"
  iv_signal_roles :: "(string, role) dict"
  iv_role_with :: "(string, (string, role) dict) dict"
  iv_lead_patterns :: "(string, string) dict"
  iv_max_hops :: nat
  iv_lookback_minutes :: nat
  iv_max_requests :: nat
  iv_w_evidence :: real
  iv_w_topology :: real
  iv_w_precedence :: real
  iv_w_role :: real

section \<open>Source mappings\<close>

record entity_mapping =
  em_type :: "string option"
  em_id_field :: "string option"
  em_label_field :: "string option"
  em_type_priority :: "string list"
  em_fallback_type :: "string option"
  em_fallback_id_field :: "string option"

record emit_spec =
  es_name :: string
  es_value_field :: "string option"
  es_unit :: "string option"
  es_severity :: "severity option"
  es_severity_field :: "string option"
  es_severity_map :: "(string, severity) dict"

record source_mapping =
  sm_source :: string
  sm_record :: string
  sm_domain :: string
  sm_signal_type :: signal_type
  sm_region_field :: "string option"
  sm_entity :: entity_mapping
  sm_emit :: "emit_spec list"
  sm_attributes :: "(string, string) dict"

section \<open>The catalog and its lookups\<close>

record catalog =
  cat_entities :: entities_file
  cat_signals :: "(string, signal_def) dict"
  cat_domains :: "(string, domain_def) dict"
  cat_degradation :: "(string, string list) dict"
  cat_correlation :: "(string, correlation_rule) dict"
  cat_sources :: "(string, source_mapping) dict"
  cat_investigation :: investigation

text \<open>
  \<open>Catalog.__post_init__\<close>: every raw name of a signal points at its entry; a later entry
  claiming the same name replaces the earlier one.
\<close>

definition claim_names :: "string \<times> signal_def \<Rightarrow> (string, string \<times> signal_def) dict
    \<Rightarrow> (string, string \<times> signal_def) dict" where
  "claim_names e d = fold (\<lambda>alias. AList.update alias e) (fst e # sd_match_names (snd e)) d"

definition by_name_of :: "(string, signal_def) dict \<Rightarrow> (string, string \<times> signal_def) dict" where
  "by_name_of sigs = fold claim_names sigs []"

definition cat_signal :: "catalog \<Rightarrow> string \<Rightarrow> (string \<times> signal_def) option" where
  "cat_signal cat raw = map_of (by_name_of (cat_signals cat)) raw"

definition cat_domain :: "catalog \<Rightarrow> string \<Rightarrow> domain_def option" where
  "cat_domain cat d = map_of (cat_domains cat) d"

definition domain_ids :: "catalog \<Rightarrow> string list" where
  "domain_ids cat = keys (cat_domains cat)"

definition telemetry_domains :: "catalog \<Rightarrow> (string, string) dict" where
  "telemetry_domains cat =
     fold (\<lambda>d. AList.update (d_telemetry d) (d_tool d)) (vals (cat_domains cat)) []"

definition domain_for_telemetry :: "catalog \<Rightarrow> string \<Rightarrow> string option" where
  "domain_for_telemetry cat t = map_option fst (find (\<lambda>(_, d). d_telemetry d = t) (cat_domains cat))"

text \<open>\<open>None\<close> is the \<open>KeyError\<close> of a map without the \<open>unknown\<close> entry.\<close>

definition active_domains :: "catalog \<Rightarrow> string \<Rightarrow> string list option" where
  "active_domains cat dtype =
     (case map_of (cat_degradation cat) ''unknown'' of
        None \<Rightarrow> None
      | Some dflt \<Rightarrow> Some (case map_of (cat_degradation cat) dtype of None \<Rightarrow> dflt | Some ds \<Rightarrow> ds))"

definition correlation_rules :: "catalog \<Rightarrow> string \<Rightarrow> (string \<times> correlation_rule) list" where
  "correlation_rules cat domain =
     sort_key (\<lambda>(rid, r). (co_priority r, rid)) (filter (\<lambda>(_, r). co_domain r = domain) (cat_correlation cat))"

definition mappings_for :: "catalog \<Rightarrow> string \<Rightarrow> (string, source_mapping) dict" where
  "mappings_for cat source = filter (\<lambda>(_, m). sm_source m = source) (cat_sources cat)"

definition signal_role :: "catalog \<Rightarrow> string \<Rightarrow> role option" where
  "signal_role cat raw =
     (let roles = iv_signal_roles (cat_investigation cat)
      in case map_of roles raw of
           Some r \<Rightarrow> Some r
         | None \<Rightarrow> (case cat_signal cat raw of None \<Rightarrow> None | Some (name, _) \<Rightarrow> map_of roles name))"

section \<open>Facts about the lookups\<close>

lemma map_of_fold_update:
  "map_of (fold (\<lambda>a. AList.update a x) as d) k = (if k \<in> set as then Some x else map_of d k)"
  by (induction as arbitrary: d) (auto simp: dict_simps)

lemma map_of_claim_names:
  "map_of (claim_names e d) raw =
     (if raw = fst e \<or> raw \<in> set (sd_match_names (snd e)) then Some e else map_of d raw)"
  unfolding claim_names_def map_of_fold_update by simp

lemma map_of_by_name_fold:
  "map_of (fold claim_names sigs d) raw =
     (case find (\<lambda>e. raw = fst e \<or> raw \<in> set (sd_match_names (snd e))) (rev sigs) of
        None \<Rightarrow> map_of d raw | Some e \<Rightarrow> Some e)"
proof (induction sigs arbitrary: d)
  case (Cons p sigs)
  show ?case
    by (simp add: Cons.IH find_append map_of_claim_names split: option.splits)
qed simp

lemma cat_signal_find:
  "cat_signal cat raw =
     find (\<lambda>e. raw = fst e \<or> raw \<in> set (sd_match_names (snd e))) (rev (cat_signals cat))"
  unfolding cat_signal_def by_name_of_def map_of_by_name_fold by (simp split: option.splits)

lemma cat_signal_SomeD:
  "cat_signal cat raw = Some (name, sg) \<Longrightarrow>
     (name, sg) \<in> set (cat_signals cat) \<and> (raw = name \<or> raw \<in> set (sd_match_names sg))"
  unfolding cat_signal_find by (drule find_SomeD) simp

lemma set_correlation_rules:
  "(rid, r) \<in> set (correlation_rules cat d) \<longleftrightarrow> (rid, r) \<in> set (cat_correlation cat) \<and> co_domain r = d"
  by (auto simp: correlation_rules_def)

lemma sorted_correlation_rules:
  "sorted (map (\<lambda>(rid, r). (co_priority r, rid)) (correlation_rules cat d))"
  by (simp add: correlation_rules_def)

lemma rule_id_default: "rule_own_id r = None \<Longrightarrow> rule_id n r = n @ ''.'' @ rule_type r"
  by (simp add: rule_id_def str_or_def)

section \<open>A small catalog\<close>

text \<open>One relationship \<open>r\<close> whose source depends on its target, and a domain \<open>net\<close>, for the concrete instances.\<close>

definition ex_ent :: "string \<Rightarrow> string \<Rightarrow> entity" where
  "ex_ent t i = \<lparr>e_type = t, e_id = i, e_labels = []\<rparr>"

definition ex_cat :: catalog where
  "ex_cat = \<lparr>cat_entities = \<lparr>ent_types = [], ent_relationships =
       [(''r'', \<lparr>rel_source = [], rel_target = [], rel_dependent = DepSource\<rparr>)]\<rparr>,
     cat_signals = [], cat_domains = [], cat_degradation = [], cat_correlation = [], cat_sources = [],
     cat_investigation = \<lparr>iv_probes = [], iv_signal_roles = [], iv_role_with = [], iv_lead_patterns = [],
       iv_max_hops = 5, iv_lookback_minutes = 15, iv_max_requests = 12, iv_w_evidence = 1,
       iv_w_topology = 1, iv_w_precedence = 1, iv_w_role = 1\<rparr>\<rparr>"

definition ex_domain :: domain_def where
  "ex_domain = \<lparr>d_telemetry = ''net'', d_tool = ''query_net'',
     d_agent = \<lparr>ag_name = ''Net'', ag_port = 8001, ag_skill = \<lparr>sk_id = ''analyze'', sk_name = ''Analyze''\<rparr>\<rparr>,
     d_observation = ObsSignal, d_entity_field = None, d_rank_by = [''z_score''], d_ke_source = KeHits,
     d_ke_limit = 2, d_time_range = RangeAll, d_include_baseline = False, d_relevance = None, d_derived = [],
     d_confidence = \<lparr>cf_base = 1 / 2, cf_per_hit = 1 / 10, cf_derived_z_weight = 0, cf_max = 9 / 10, cf_clean = 1 / 10\<rparr>,
     d_summary = \<lparr>ss_anomaly = [], ss_suffixes = [], ss_clean = []\<rparr>, d_metrics_affected = []\<rparr>"

end
