(* ===== verification/Rules.thy ===== *)
theory Rules
  imports Catalog
begin

text \<open>
  The closed set of detection rule types (\<open>detection/rules.py\<close>) and the baseline
  utilities they agree with (\<open>providers/baseline_utils.py\<close>). A rule returns the hit it
  found, no hit, or the exception the code would raise. Hit texts are kept as structured
  \<open>reason\<close> values instead of printed numbers.
\<close>

section \<open>Hits, contexts, errors\<close>

datatype rule_error = UnsupportedField string | CompareWithNone | NoLabelName string

datatype reason =
    RText string
  | RGt string real real
  | RLt string real real
  | RBetween string real real real
  | REquals string pyval
  | RZScore string real
  | RRate string direction real
  | RPresence string severity

record rule_hit =
  h_rule_id :: string
  h_reason :: reason
  h_z :: "real option"

record entity_baseline =
  b_mean :: real
  b_std :: real

type_synonym series_key = "string \<times> string \<times> string"

record rule_ctx =
  ctx_region :: string
  ctx_series :: "(series_key, signal list) dict"
  ctx_baseline_series :: "(series_key, signal list) dict"
  ctx_lookup :: "(string \<Rightarrow> string \<Rightarrow> entity_baseline option) option"
  ctx_legacy_fallback :: bool
  ctx_str :: "pyval \<Rightarrow> string"

definition series_key :: "signal \<Rightarrow> series_key" where
  "series_key s = (s_name s, e_type (s_entity s), e_id (s_entity s))"

definition series_of :: "(series_key, signal list) dict \<Rightarrow> signal \<Rightarrow> signal list" where
  "series_of d s = (case map_of d (series_key s) of None \<Rightarrow> [] | Some xs \<Rightarrow> xs)"

definition opt_val :: "real option \<Rightarrow> pyval" where
  "opt_val v = (case v of None \<Rightarrow> PNone | Some x \<Rightarrow> PNum x)"

definition field_value :: "signal \<Rightarrow> string \<Rightarrow> rule_error + pyval" where
  "field_value s path =
     (if path = ''value'' then Inr (opt_val (s_value s))
      else if path = ''name'' then Inr (PStr (s_name s))
      else if path = ''entity_id'' then Inr (PStr (e_id (s_entity s)))
      else if path = ''entity_type'' then Inr (PStr (e_type (s_entity s)))
      else if starts_with ''attributes.'' path then
        Inr (case map_of (s_attributes s) (after_char CHR ''.'' path) of None \<Rightarrow> PNone | Some v \<Rightarrow> v)
      else if starts_with ''labels.'' path then
        Inr (case map_of (e_labels (s_entity s)) (after_char CHR ''.'' path) of None \<Rightarrow> PNone | Some v \<Rightarrow> PStr v)
      else Inl (UnsupportedField path))"

fun num :: "pyval \<Rightarrow> real option" where
  "num (PNum x) = Some x"
| "num (PStr s) = py_float_of_str s"
| "num _ = None"

text \<open>\<open>rule.reason or default\<close>.\<close>

definition reason_or :: "string option \<Rightarrow> reason \<Rightarrow> reason" where
  "reason_or r d = (case r of None \<Rightarrow> d | Some s \<Rightarrow> if s = [] then d else RText s)"

section \<open>Threshold\<close>

definition threshold_scaled :: "threshold_rule \<Rightarrow> signal \<Rightarrow> rule_error + real option" where
  "threshold_scaled r s =
     (case field_value s (th_field r) of
        Inl e \<Rightarrow> Inl e
      | Inr fv \<Rightarrow>
          (case num fv of
             None \<Rightarrow> Inr None
           | Some v \<Rightarrow>
               let value = v * th_scale r in
               (case th_per r of
                  None \<Rightarrow> Inr (Some value)
                | Some per \<Rightarrow>
                    (case field_value s per of
                       Inl e \<Rightarrow> Inl e
                     | Inr dv \<Rightarrow>
                         (case num dv of
                            None \<Rightarrow> Inr None
                          | Some d \<Rightarrow> if d = 0 then Inr None else Inr (Some (value / d)))))))"

definition threshold :: "threshold_rule \<Rightarrow> signal \<Rightarrow> string \<Rightarrow> rule_error + rule_hit option" where
  "threshold r s rid =
     (case threshold_scaled r s of
        Inl e \<Rightarrow> Inl e
      | Inr None \<Rightarrow> Inr None
      | Inr (Some value) \<Rightarrow>
          (case th_op r of
             Gt \<Rightarrow> (case th_value r of
                      None \<Rightarrow> Inl CompareWithNone
                    | Some t \<Rightarrow> Inr (if value > t then Some \<lparr>h_rule_id = rid,
                         h_reason = reason_or (th_reason r) (RGt (s_name s) value t), h_z = None\<rparr> else None))
           | Lt \<Rightarrow> (case th_value r of
                      None \<Rightarrow> Inl CompareWithNone
                    | Some t \<Rightarrow> Inr (if value < t then Some \<lparr>h_rule_id = rid,
                         h_reason = reason_or (th_reason r) (RLt (s_name s) value t), h_z = None\<rparr> else None))
           | Between \<Rightarrow> (case (th_min r, th_max r) of
                      (Some lo, Some hi) \<Rightarrow> Inr (if lo \<le> value \<and> value \<le> hi then Some \<lparr>h_rule_id = rid,
                         h_reason = reason_or (th_reason r) (RBetween (s_name s) value lo hi), h_z = None\<rparr> else None)
                    | _ \<Rightarrow> Inl CompareWithNone)))"

section \<open>State\<close>

text \<open>\<open>actual == expected\<close>, where \<open>True == 1\<close> and \<open>False == 0\<close>.\<close>

fun py_eq :: "pyval \<Rightarrow> pyval \<Rightarrow> bool" where
  "py_eq (PBool b) (PNum x) = (x = (if b then 1 else 0))"
| "py_eq (PNum x) (PBool b) = (x = (if b then 1 else 0))"
| "py_eq a b = (a = b)"

definition state_equals :: "state_equals_rule \<Rightarrow> signal \<Rightarrow> string \<Rightarrow> rule_error + rule_hit option" where
  "state_equals r s rid =
     (case field_value s (se_field r) of
        Inl e \<Rightarrow> Inl e
      | Inr actual \<Rightarrow>
          let equal = (case se_value r of
                         PNum x \<Rightarrow> num actual = Some x
                       | expected \<Rightarrow> py_eq actual expected)
          in Inr (if \<not> equal then None
                  else Some \<lparr>h_rule_id = rid,
                    h_reason = reason_or (se_reason r) (REquals (s_name s) (se_value r)), h_z = None\<rparr>))"

section \<open>Statistics\<close>

definition fmean :: "real list \<Rightarrow> real" where
  "fmean xs = sum_list xs / real (length xs)"

definition pvariance :: "real list \<Rightarrow> real" where
  "pvariance xs = sum_list (map (\<lambda>x. (x - fmean xs)\<^sup>2) xs) / real (length xs)"

definition pstdev :: "real list \<Rightarrow> real" where
  "pstdev xs = sqrt (pvariance xs)"

text \<open>Roots have no executable equation; evaluation of the other rules must not depend on one.\<close>

declare root_def [code del]

definition median :: "real list \<Rightarrow> real" where
  "median xs =
     (let ys = sort xs; n = length ys
      in if odd n then ys ! (n div 2) else (ys ! (n div 2 - 1) + ys ! (n div 2)) / 2)"

section \<open>Z-score against a baseline\<close>

definition baseline_key :: "(pyval \<Rightarrow> string) \<Rightarrow> string \<Rightarrow> signal \<Rightarrow> string \<Rightarrow> rule_error + string option" where
  "baseline_key F template s region =
     (let prefix = before_char CHR ''='' template;
          source = after_char CHR ''='' template;
          wrap = (\<lambda>v. if v = [] then None else Some (prefix @ '':'' @ v))
      in if source = ''entity_id'' then Inr (wrap (e_id (s_entity s)))
         else if source = ''entity_type'' then Inr (wrap (e_type (s_entity s)))
         else if source = ''region'' then
           Inr (wrap (case map_of (s_attributes s) ''region'' of
                  Some v \<Rightarrow> if truthy v then py_str F v else str_or (map_of (e_labels (s_entity s)) ''region'') region
                | None \<Rightarrow> str_or (map_of (e_labels (s_entity s)) ''region'') region))
         else if CHR '':'' \<in> set source then
           Inr (case map_of (e_labels (s_entity s)) (after_char CHR '':'' source) of
                  None \<Rightarrow> None | Some v \<Rightarrow> wrap v)
         else Inl (NoLabelName template))"

definition z_hit :: "zscore_rule \<Rightarrow> signal \<Rightarrow> string \<Rightarrow> real \<Rightarrow> real \<Rightarrow> real \<Rightarrow> rule_hit option" where
  "z_hit r s rid value mean std =
     (if std \<le> 0 then None
      else let z = \<bar>value - mean\<bar> / std
           in if z > zs_threshold r
              then Some \<lparr>h_rule_id = rid, h_reason = reason_or (zs_reason r) (RZScore (s_name s) z), h_z = Some z\<rparr>
              else None)"

text \<open>
  The loop over \<open>baseline_keys\<close>: \<open>None\<close> when no key finds a baseline, else the decision
  the first baseline found makes.
\<close>

fun store_baseline :: "(string \<Rightarrow> string \<Rightarrow> entity_baseline option) \<Rightarrow> rule_ctx \<Rightarrow> signal \<Rightarrow> string
    \<Rightarrow> string list \<Rightarrow> rule_error + entity_baseline option" where
  "store_baseline look ctx s metric [] = Inr None"
| "store_baseline look ctx s metric (t # ts) =
     (case baseline_key (ctx_str ctx) t s (ctx_region ctx) of
        Inl e \<Rightarrow> Inl e
      | Inr None \<Rightarrow> store_baseline look ctx s metric ts
      | Inr (Some key) \<Rightarrow>
          (case look key metric of
             None \<Rightarrow> store_baseline look ctx s metric ts
           | Some b \<Rightarrow> Inr (Some b)))"

definition sample_values :: "signal list \<Rightarrow> real list" where
  "sample_values ss = List.map_filter s_value ss"

definition zscore_fallback :: "zscore_rule \<Rightarrow> signal \<Rightarrow> rule_ctx \<Rightarrow> string \<Rightarrow> rule_error + rule_hit option" where
  "zscore_fallback r s ctx rid =
     (case zs_fallback r of
        Some fb \<Rightarrow> if ctx_legacy_fallback ctx then threshold fb s (rid @ ''.fallback'') else Inr None
      | None \<Rightarrow> Inr None)"

definition zscore_baseline :: "zscore_rule \<Rightarrow> signal \<Rightarrow> rule_ctx \<Rightarrow> string \<Rightarrow> rule_error + rule_hit option" where
  "zscore_baseline r s ctx rid =
     (case s_value s of
        None \<Rightarrow> Inr None
      | Some value \<Rightarrow>
          let samples = sample_values (series_of (ctx_baseline_series ctx) s) in
          if length samples \<ge> zs_min_samples r then
            Inr (z_hit r s rid value (fmean samples) (pstdev samples))
          else
            (case ctx_lookup ctx of
               None \<Rightarrow> zscore_fallback r s ctx rid
             | Some look \<Rightarrow>
                 (case store_baseline look ctx s (str_or (zs_metric r) (s_name s)) (zs_keys r) of
                    Inl e \<Rightarrow> Inl e
                  | Inr (Some b) \<Rightarrow> Inr (z_hit r s rid value (b_mean b) (b_std b))
                  | Inr None \<Rightarrow> zscore_fallback r s ctx rid)))"

section \<open>Rate of change\<close>

definition rate_reference :: "signal \<Rightarrow> rule_ctx \<Rightarrow> real list" where
  "rate_reference s ctx =
     (let ref = sample_values (series_of (ctx_baseline_series ctx) s)
      in if ref = []
         then sample_values (filter (\<lambda>x. s_timestamp x < s_timestamp s) (series_of (ctx_series ctx) s))
         else ref)"

definition rate_change :: "rate_change_rule \<Rightarrow> signal \<Rightarrow> rule_ctx \<Rightarrow> string \<Rightarrow> rule_hit option" where
  "rate_change r s ctx rid =
     (case s_value s of
        None \<Rightarrow> None
      | Some value \<Rightarrow>
          let samples = rate_reference s ctx in
          if samples = [] then None
          else
            let reference = (case rc_reference r of RefMedian \<Rightarrow> median samples | RefMean \<Rightarrow> fmean samples) in
            if reference \<le> rc_min_reference r then None
            else
              let hit = (case rc_direction r of
                           Increase \<Rightarrow> value \<ge> reference * rc_factor r
                         | Decrease \<Rightarrow> value \<le> reference / rc_factor r)
              in if \<not> hit then None
                 else Some \<lparr>h_rule_id = rid,
                   h_reason = reason_or (rc_reason r) (RRate (s_name s) (rc_direction r)
                     (case rc_direction r of
                        Increase \<Rightarrow> value / reference
                      | Decrease \<Rightarrow> reference / max value (1 / 10 ^ 9))),
                   h_z = None\<rparr>)"

section \<open>Event presence\<close>

definition event_presence :: "event_presence_rule \<Rightarrow> signal \<Rightarrow> string list \<Rightarrow> string \<Rightarrow> rule_hit option" where
  "event_presence r s allowed rid =
     (let names = (case ep_names r of Some ns \<Rightarrow> ns | None \<Rightarrow> allowed)
      in if s_name s \<notin> set names then None
         else if s_severity s < ep_min_severity r then None
         else Some \<lparr>h_rule_id = rid,
           h_reason = reason_or (ep_reason r) (RPresence (s_name s) (s_severity s)), h_z = None\<rparr>)"

section \<open>Dispatch\<close>

fun evaluate :: "rule \<Rightarrow> signal \<Rightarrow> rule_ctx \<Rightarrow> string \<Rightarrow> string list \<Rightarrow> rule_error + rule_hit option" where
  "evaluate (Threshold r) s ctx rid names = threshold r s rid"
| "evaluate (StateEquals r) s ctx rid names = state_equals r s rid"
| "evaluate (ZScoreBaseline r) s ctx rid names = zscore_baseline r s ctx rid"
| "evaluate (RateChange r) s ctx rid names = Inr (rate_change r s ctx rid)"
| "evaluate (EventPresence r) s ctx rid names = Inr (event_presence r s names rid)"

section \<open>Baseline utilities\<close>

definition compute_z_score :: "real \<Rightarrow> entity_baseline \<Rightarrow> real" where
  "compute_z_score value b = (if b_std b \<le> 0 then 0 else \<bar>value - b_mean b\<bar> / b_std b)"

definition is_anomalous :: "real \<Rightarrow> entity_baseline \<Rightarrow> real \<Rightarrow> bool" where
  "is_anomalous value b z = (if b_std b \<le> 0 then False else compute_z_score value b > z)"


section \<open>When a rule cannot raise\<close>

definition field_ok :: "string \<Rightarrow> bool" where
  "field_ok path \<longleftrightarrow> path \<in> {''value'', ''name'', ''entity_id'', ''entity_type''}
     \<or> starts_with ''attributes.'' path \<or> starts_with ''labels.'' path"

definition threshold_safe :: "threshold_rule \<Rightarrow> bool" where
  "threshold_safe r \<longleftrightarrow> field_ok (th_field r) \<and> (\<forall>p. th_per r = Some p \<longrightarrow> field_ok p)
     \<and> (case th_op r of Between \<Rightarrow> th_min r \<noteq> None \<and> th_max r \<noteq> None | _ \<Rightarrow> th_value r \<noteq> None)"

definition baseline_template_ok :: "string \<Rightarrow> bool" where
  "baseline_template_ok t \<longleftrightarrow>
     (let source = after_char CHR ''='' t
      in source \<in> {''entity_id'', ''entity_type'', ''region''} \<or> CHR '':'' \<in> set source)"

fun rule_safe :: "rule \<Rightarrow> bool" where
  "rule_safe (Threshold r) = threshold_safe r"
| "rule_safe (StateEquals r) = field_ok (se_field r)"
| "rule_safe (ZScoreBaseline r) =
     (list_all baseline_template_ok (zs_keys r) \<and> (\<forall>fb. zs_fallback r = Some fb \<longrightarrow> threshold_safe fb))"
| "rule_safe (RateChange r) = True"
| "rule_safe (EventPresence r) = True"

lemma field_value_ok: "field_ok p \<Longrightarrow> \<exists>v. field_value s p = Inr v"
  by (auto simp: field_ok_def field_value_def)

lemma field_value_bad: "\<not> field_ok p \<Longrightarrow> field_value s p = Inl (UnsupportedField p)"
  by (auto simp: field_ok_def field_value_def)

lemma threshold_scaled_safe: "threshold_safe r \<Longrightarrow> \<exists>v. threshold_scaled r s = Inr v"
proof -
  assume safe: "threshold_safe r"
  then obtain v where v: "field_value s (th_field r) = Inr v"
    using field_value_ok [of "th_field r" s] by (auto simp: threshold_safe_def)
  show ?thesis
  proof (cases "th_per r")
    case None
    with v show ?thesis by (auto simp: threshold_scaled_def Let_def split: option.splits)
  next
    case (Some p)
    with safe obtain d where "field_value s p = Inr d"
      using field_value_ok [of p s] by (auto simp: threshold_safe_def)
    with v Some show ?thesis by (auto simp: threshold_scaled_def Let_def split: option.splits)
  qed
qed

lemma threshold_total: "threshold_safe r \<Longrightarrow> \<exists>h. threshold r s rid = Inr h"
  using threshold_scaled_safe [of r s]
  by (auto simp: threshold_def threshold_safe_def split: option.splits threshold_op.splits)

lemma store_baseline_total:
  "list_all baseline_template_ok ts \<Longrightarrow> \<exists>b. store_baseline look ctx s m ts = Inr b"
proof (induction ts)
  case (Cons t ts)
  then have "\<exists>k. baseline_key (ctx_str ctx) t s (ctx_region ctx) = Inr k"
    by (auto simp: baseline_key_def baseline_template_ok_def Let_def)
  with Cons show ?case by (auto split: option.splits)
qed simp

lemma zscore_fallback_total:
  "(\<And>fb. zs_fallback r = Some fb \<Longrightarrow> threshold_safe fb) \<Longrightarrow> \<exists>h. zscore_fallback r s ctx rid = Inr h"
  by (auto simp: zscore_fallback_def threshold_total split: option.splits)

lemma zscore_total: "rule_safe (ZScoreBaseline z) \<Longrightarrow> \<exists>h. zscore_baseline z s ctx rid = Inr h"
proof -
  assume safe: "rule_safe (ZScoreBaseline z)"
  have fb: "\<exists>h. zscore_fallback z s ctx rid = Inr h"
    using safe by (intro zscore_fallback_total) simp
  show ?thesis
  proof (cases "ctx_lookup ctx")
    case None
    with fb show ?thesis by (auto simp: zscore_baseline_def Let_def split: option.splits)
  next
    case (Some look)
    from safe obtain b where
      "store_baseline look ctx s (str_or (zs_metric z) (s_name s)) (zs_keys z) = Inr b"
      using store_baseline_total [of "zs_keys z" look ctx s "str_or (zs_metric z) (s_name s)"] by auto
    with Some fb show ?thesis
      by (cases b) (auto simp: zscore_baseline_def Let_def split: option.splits)
  qed
qed

lemma evaluate_total: "rule_safe r \<Longrightarrow> \<exists>h. evaluate r s ctx rid names = Inr h"
proof (cases r)
  case (StateEquals x)
  moreover assume "rule_safe r"
  ultimately obtain v where "field_value s (se_field x) = Inr v"
    using field_value_ok [of "se_field x" s] by auto
  with StateEquals show ?thesis by (simp add: state_equals_def Let_def)
qed (auto intro: threshold_total zscore_total)

lemma evaluate_unsupported_field:
  "\<not> field_ok (se_field r) \<Longrightarrow> evaluate (StateEquals r) s ctx rid names = Inl (UnsupportedField (se_field r))"
  by (simp add: state_equals_def field_value_bad)

section \<open>What the rules decide\<close>

lemma z_hit_iff: "z_hit r s rid v (b_mean b) (b_std b) \<noteq> None \<longleftrightarrow> is_anomalous v b (zs_threshold r)"
  by (simp add: z_hit_def is_anomalous_def compute_z_score_def Let_def)

lemma z_hit_zero_std: "z_hit r s rid v m 0 = None"
  by (simp add: z_hit_def)

lemma sample_values_rescale:
  "sample_values (map (\<lambda>x. x\<lparr>s_value := map_option f (s_value x)\<rparr>) ss) = map f (sample_values ss)"
  by (induction ss) (auto simp: sample_values_def List.map_filter_def)

lemma fmean_affine: "xs \<noteq> [] \<Longrightarrow> fmean (map (\<lambda>x. a * x + c) xs) = a * fmean xs + c"
  by (simp add: fmean_def sum_list_addf sum_list_const_mult sum_list_triv add_divide_distrib)

lemma pvariance_affine: "pvariance (map (\<lambda>x. a * x + c) xs) = a\<^sup>2 * pvariance xs"
proof (cases "xs = []")
  case False
  have "(a * x + c - (a * fmean xs + c))\<^sup>2 = a\<^sup>2 * (x - fmean xs)\<^sup>2" for x
    by (simp add: power2_eq_square algebra_simps)
  then show ?thesis
    by (simp add: pvariance_def fmean_affine [OF False] o_def sum_list_const_mult)
qed (simp add: pvariance_def)

lemma pvariance_nonneg: "0 \<le> pvariance xs"
  by (auto simp: pvariance_def intro!: divide_nonneg_nonneg sum_list_nonneg)

lemma pstdev_affine: "0 < a \<Longrightarrow> pstdev (map (\<lambda>x. a * x + c) xs) = a * pstdev xs"
  by (simp add: pstdev_def pvariance_affine real_sqrt_mult)

lemma z_hit_affine:
  assumes "0 < a"
  shows "z_hit r s rid (a * v + c) (a * m + c) (a * d) = z_hit r s rid v m d"
proof -
  have "a * v + c - (a * m + c) = a * (v - m)" by (simp add: algebra_simps)
  then have "\<bar>a * v + c - (a * m + c)\<bar> / (a * d) = \<bar>v - m\<bar> / d"
    using assms by (simp add: abs_mult)
  moreover have "a * d \<le> 0 \<longleftrightarrow> d \<le> 0" using assms by (simp add: mult_le_0_iff)
  ultimately show ?thesis by (simp add: z_hit_def)
qed

definition rescale :: "real \<Rightarrow> real \<Rightarrow> signal \<Rightarrow> signal" where
  "rescale a c s = s\<lparr>s_value := map_option (\<lambda>x. a * x + c) (s_value s)\<rparr>"

definition rescale_ctx :: "real \<Rightarrow> real \<Rightarrow> rule_ctx \<Rightarrow> rule_ctx" where
  "rescale_ctx a c ctx =
     ctx\<lparr>ctx_baseline_series := map (\<lambda>(k, ss). (k, map (rescale a c) ss)) (ctx_baseline_series ctx)\<rparr>"

lemma rescale_fields [simp]:
  "s_name (rescale a c s) = s_name s" "s_entity (rescale a c s) = s_entity s"
  "s_value (rescale a c s) = map_option (\<lambda>x. a * x + c) (s_value s)"
  "series_key (rescale a c s) = series_key s"
  by (simp_all add: rescale_def series_key_def)

lemma map_of_map_snd: "map_of (map (\<lambda>(k, v). (k, f v)) d) k = map_option f (map_of d k)"
  by (induction d) auto

lemma sample_values_series_rescale:
  "sample_values (series_of (ctx_baseline_series (rescale_ctx a c ctx)) (rescale a c s))
   = map (\<lambda>x. a * x + c) (sample_values (series_of (ctx_baseline_series ctx) s))"
proof -
  have empty: "sample_values [] = []" by (simp add: sample_values_def List.map_filter_def)
  have "sample_values (map (rescale a c) ss) = map (\<lambda>x. a * x + c) (sample_values ss)" for ss
    by (simp add: rescale_def [abs_def] sample_values_rescale)
  then show ?thesis
    by (simp add: series_of_def rescale_ctx_def map_of_map_snd empty split: option.splits)
qed

lemma z_hit_signal_irrelevant: "s_name s = s_name s' \<Longrightarrow> z_hit r s rid v m d = z_hit r s' rid v m d"
  by (simp add: z_hit_def Let_def)

section \<open>Properties\<close>

definition ex_entity :: entity where
  "ex_entity = \<lparr>e_type = ''tunnel'', e_id = ''t1'', e_labels = []\<rparr>"

definition ex_signal :: signal where
  "ex_signal = \<lparr>s_type = Metric, s_timestamp = 100, s_observed_at = 100, s_entity = ex_entity,
     s_name = ''loss'', s_value = Some 9, s_unit = None, s_severity = Info, s_domain = ''metrics'',
     s_source = ''sim'', s_attributes = [], s_evidence_ref = None\<rparr>"

definition ex_threshold :: threshold_rule where
  "ex_threshold = \<lparr>th_id = None, th_reason = None, th_op = Gt, th_value = Some 5, th_min = None,
     th_max = None, th_field = ''value'', th_per = None, th_scale = 1\<rparr>"

text \<open>
  With too few samples in the baseline window, a baseline found in the store decides the
  z-score rule exactly as \<open>providers.baseline_utils.is_anomalous\<close> does (so a zero-variance
  baseline never flags), and the legacy fallback is not consulted.
\<close>

lemma zscore_store_agrees_with_utils:
  assumes "s_value s = Some v"
    and "length (sample_values (series_of (ctx_baseline_series ctx) s)) < zs_min_samples r"
    and "ctx_lookup ctx = Some look"
    and "store_baseline look ctx s (str_or (zs_metric r) (s_name s)) (zs_keys r) = Inr (Some b)"
  shows "\<exists>h. evaluate (ZScoreBaseline r) s ctx rid names = Inr h
           \<and> (h \<noteq> None \<longleftrightarrow> is_anomalous v b (zs_threshold r))"
  using assms z_hit_iff [of r s rid v b] by (simp add: zscore_baseline_def Let_def)

text \<open>
  A z-score against the baseline window does not depend on the unit a metric is reported
  in: rescaling the value and every sample by \<open>x \<mapsto> a x + c\<close> with \<open>a > 0\<close> gives the same
  answer, the z included.
\<close>
lemma zscore_unit_independent:
  assumes "0 < a"
    and "sample_values (series_of (ctx_baseline_series ctx) s) \<noteq> []"
    and "zs_min_samples r \<le> length (sample_values (series_of (ctx_baseline_series ctx) s))"
  shows "evaluate (ZScoreBaseline r) (rescale a c s) (rescale_ctx a c ctx) rid names
       = evaluate (ZScoreBaseline r) s ctx rid names"
  using assms
  by (auto simp: zscore_baseline_def Let_def sample_values_series_rescale fmean_affine pstdev_affine
      z_hit_affine z_hit_signal_irrelevant [of "rescale a c s" s] split: option.splits)

text \<open>
  One reference level cannot look like a rise and a fall at once: for the same factor
  (above 1) and a non-negative minimum reference, an increase rule and the matching decrease
  rule never both fire on a signal.
\<close>

lemma rate_change_exclusive:
  assumes "1 < rc_factor r" and "0 \<le> rc_min_reference r"
  shows "\<not> (rate_change (r\<lparr>rc_direction := Increase\<rparr>) s ctx rid \<noteq> None
          \<and> rate_change (r\<lparr>rc_direction := Decrease\<rparr>) s ctx rid' \<noteq> None)"
proof
  assume both: "rate_change (r\<lparr>rc_direction := Increase\<rparr>) s ctx rid \<noteq> None
          \<and> rate_change (r\<lparr>rc_direction := Decrease\<rparr>) s ctx rid' \<noteq> None"
  define ref where "ref = (case rc_reference r of RefMedian \<Rightarrow> median (rate_reference s ctx)
                                                | RefMean \<Rightarrow> fmean (rate_reference s ctx))"
  from both obtain v where v: "ref * rc_factor r \<le> v" "v \<le> ref / rc_factor r" "rc_min_reference r < ref"
    by (auto simp: rate_change_def ref_def Let_def split: option.splits if_splits)
  with assms have "0 < ref" by linarith
  with assms have "ref / rc_factor r < ref" "ref < ref * rc_factor r"
    by (simp_all add: divide_less_eq)
  with v show False by linarith
qed

end
