(* ===== verification/Findings.thy ===== *)
theory Findings
  imports Rules
begin

text \<open>
  What agents report and exchange (\<open>models/schemas.py\<close>): incidents, findings with their
  evidence rows, key events and entity states, messages, ranked causes and the final report.
  Rows the code keeps as dictionaries with a fixed set of keys are records here.
\<close>

section \<open>Incidents\<close>

datatype incident_severity = SevLow | SevMedium | SevHigh | SevCritical

record incident_request =
  in_id :: string
  in_scenario :: "int option"
  in_description :: string
  in_region :: string
  in_reported_at :: time
  in_severity :: incident_severity
  in_source_system :: "string option"
  in_external_id :: "string option"
  in_alarm_entities :: "node list"

section \<open>Findings\<close>

datatype via = ViaValidation | ViaHypothesis

record rule_fired =
  rf_signal :: string
  rf_rule :: string
  rf_reason :: reason
  rf_ref :: "string option"

record evidence_row =
  ev_type :: string
  ev_id :: string
  ev_signals :: "string list"
  ev_role :: "role option"
  ev_severity :: severity
  ev_first_seen :: time
  ev_last_seen :: time
  ev_onset :: "time option"
  ev_count :: nat
  ev_rules_fired :: "rule_fired list"
  ev_refs :: "string list"
  ev_via :: "via option"
  ev_requested_by :: "string option"
  ev_request_id :: "string option"
  ev_why :: string

record key_event =
  ke_fields :: "(string, pyval) dict"
  ke_rules :: "rule_fired list"
  ke_refs :: "string list"
  ke_count :: nat

datatype live_state = Firing | Cleared | UnknownState

record entity_status =
  st_type :: string
  st_id :: string
  st_state :: live_state
  st_episodes :: nat
  st_transitions :: nat

record unclassified_row =
  un_name :: string
  un_signal_type :: signal_type
  un_source :: string
  un_entity :: node
  un_value :: "real option"
  un_severity :: severity
  un_timestamp :: time
  un_ref :: "string option"
  un_text :: "string option"
  un_count :: nat
  un_last_seen :: time
  un_min :: "real option"
  un_max :: "real option"
  un_refs :: "string list"

record agent_finding =
  af_agent :: string
  af_domain :: string
  af_anomaly :: bool
  af_summary :: string
  af_key_events :: "key_event list"
  af_start :: time
  af_end :: time
  af_confidence :: real
  af_revised :: bool
  af_revision_count :: nat
  af_degraded :: bool
  af_unclassified :: "unclassified_row list"
  af_evidence :: "evidence_row list"
  af_status :: "entity_status list"

abbreviation ev_node :: "evidence_row \<Rightarrow> node" where
  "ev_node r \<equiv> (ev_type r, ev_id r)"

text \<open>
  The key under which a row counts as known evidence, and the key events' own accessors:
  \<open>event.get(field)\<close> reads any key of the event, the rule and reference lists included.
\<close>

definition row_key :: "evidence_row \<Rightarrow> string \<times> string \<times> string list" where
  "row_key r = (ev_type r, ev_id r, ev_signals r)"

definition ref_val :: "string option \<Rightarrow> pyval" where
  "ref_val r = (case r of None \<Rightarrow> PNone | Some s \<Rightarrow> PStr s)"

definition rules_fired_val :: "(reason \<Rightarrow> string) \<Rightarrow> rule_fired list \<Rightarrow> pyval" where
  "rules_fired_val R rs =
     PList (map (\<lambda>r. PDict [(''signal'', PStr (rf_signal r)), (''rule'', PStr (rf_rule r)),
        (''reason'', PStr (R (rf_reason r))), (''evidence_ref'', ref_val (rf_ref r))]) rs)"

definition count_field :: "key_event \<Rightarrow> (string, pyval) dict" where
  "count_field e = (if ke_count e > 1 then [(''count'', PNum (real (ke_count e)))] else [])"

text \<open>The event as the dictionary the code builds; \<open>R\<close> gives the text of a reason.\<close>

definition ke_dict :: "(reason \<Rightarrow> string) \<Rightarrow> key_event \<Rightarrow> (string, pyval) dict" where
  "ke_dict R e =
     dict_merge (ke_fields e)
       ([(''rules_fired'', rules_fired_val R (ke_rules e)), (''evidence_refs'', PList (map PStr (ke_refs e)))]
        @ count_field e)"

definition ke_get :: "(reason \<Rightarrow> string) \<Rightarrow> key_event \<Rightarrow> string \<Rightarrow> pyval option" where
  "ke_get R e k = map_of (ke_dict R e) k"

section \<open>Hypotheses and questions\<close>

record hypothesis =
  hy_id :: string
  hy_rule_id :: string
  hy_domain :: string
  hy_signal :: string
  hy_entity :: node
  hy_rule :: rule
  hy_refs :: "string list"
  hy_role :: "role option"
  hy_why :: string
  hy_signal_type :: "signal_type option"
  hy_name :: string
  hy_description :: string
  hy_pattern :: "string option"
  hy_examples :: "string list"

datatype origin = FromEvidence | FromLead | FromAlarm | FromHypothesis

record request =
  rq_id :: string
  rq_target :: string
  rq_sender :: "string option"
  rq_entity :: node
  rq_filters :: "node list"
  rq_start :: time
  rq_end :: time
  rq_anchor :: node
  rq_origin :: origin
  rq_path :: "node list"
  rq_hops :: nat
  rq_hypothesis :: "hypothesis option"

record lead =
  ld_node :: node
  ld_seen_at :: "time option"

datatype verdict = Supported | Refuted | Inconclusive

section \<open>Causes and reports\<close>

record features =
  fe_evidence :: real
  fe_topology :: real
  fe_precedence :: real
  fe_role :: real

record ranked_cause =
  rk_id :: string
  rk_type :: string
  rk_entity :: string
  rk_domain :: string
  rk_signals :: "string list"
  rk_refs :: "string list"
  rk_first_seen :: time
  rk_score :: real
  rk_features :: features
  rk_chain :: "node list"
  rk_aliases :: "string list"
  rk_via_validation :: bool
  rk_via_hypothesis :: bool

datatype status = Ongoing | Recovered | Flapping | UnknownStatus

end
