(* ===== verification/Templates.thy ===== *)
theory Templates
  imports Rules
begin

text \<open>
  Safe rendering of catalog text templates (\<open>detection/templates.py\<close>) and the placeholder
  check the loader runs on them (\<open>_template_roots\<close> in \<open>contract/catalog_loader.py\<close>). A
  template is parsed the way \<open>string.Formatter\<close> does: literal text, doubled braces, and
  fields \<open>{name!c:spec}\<close>. Replacement fields nested inside a field and the automatic
  numbering of empty field names are not modelled (the first is a parse error here, the
  second renders as a missing value in both).
\<close>

datatype template_error = Malformed string | UnsupportedPlaceholder string | BadFormat string

datatype piece = Lit string | Field string string

text \<open>What is left to the runtime: the text of values and of reasons, and number formats.\<close>

record printer =
  pr_val :: "pyval \<Rightarrow> string"
  pr_format :: "string \<Rightarrow> real \<Rightarrow> string option"
  pr_reason :: "reason \<Rightarrow> string"

section \<open>Parsing\<close>

definition field_end :: "char \<Rightarrow> bool" where
  "field_end c \<longleftrightarrow> c = CHR '':'' \<or> c = CHR ''!''"

definition parse_field :: "string \<Rightarrow> template_error + piece" where
  "parse_field body =
     (let name = takeWhile (\<lambda>c. \<not> field_end c) body
      in case dropWhile (\<lambda>c. \<not> field_end c) body of
           [] \<Rightarrow> Inr (Field name [])
         | c # rest \<Rightarrow>
             if c = CHR '':'' then Inr (Field name rest)
             else (case rest of
                     [k] \<Rightarrow> Inr (Field name [])
                   | k # d # spec \<Rightarrow> if d = CHR '':'' then Inr (Field name spec) else Inl (Malformed body)
                   | [] \<Rightarrow> Inl (Malformed body)))"

definition cons_lit :: "char \<Rightarrow> template_error + piece list \<Rightarrow> template_error + piece list" where
  "cons_lit c r =
     (case r of
        Inl e \<Rightarrow> Inl e
      | Inr (Lit s # ps) \<Rightarrow> Inr (Lit (c # s) # ps)
      | Inr ps \<Rightarrow> Inr (Lit [c] # ps))"

definition cons_piece :: "template_error + piece \<Rightarrow> template_error + piece list \<Rightarrow> template_error + piece list" where
  "cons_piece p r = (case p of Inl e \<Rightarrow> Inl e | Inr q \<Rightarrow> (case r of Inl e \<Rightarrow> Inl e | Inr qs \<Rightarrow> Inr (q # qs)))"

function (sequential) parse_template :: "string \<Rightarrow> template_error + piece list" where
  "parse_template [] = Inr []"
| "parse_template (c # s) =
     (if c = CHR ''{'' then
        (case s of
           [] \<Rightarrow> Inl (Malformed s)
         | d # r \<Rightarrow>
             if d = CHR ''{'' then cons_lit c (parse_template r)
             else
               let body = takeWhile (\<lambda>x. x \<noteq> CHR ''}'') s; rest = dropWhile (\<lambda>x. x \<noteq> CHR ''}'') s
               in if rest = [] \<or> CHR ''{'' \<in> set body then Inl (Malformed s)
                  else cons_piece (parse_field body) (parse_template (tl rest)))
      else if c = CHR ''}'' then
        (case s of
           d # r \<Rightarrow> if d = CHR ''}'' then cons_lit c (parse_template r) else Inl (Malformed s)
         | [] \<Rightarrow> Inl (Malformed s))
      else cons_lit c (parse_template s))"
  by pat_completeness auto
termination
proof (relation "measure length", goal_cases)
  case (3 c s d r body rest)
  have "length (tl rest) \<le> length rest" by simp
  also have "\<dots> \<le> length s" using 3 length_dropWhile_le [of "\<lambda>x. x \<noteq> CHR ''}''" s] by (simp del: dropWhile.simps)
  finally show ?case by simp
qed auto

section \<open>Rendering\<close>

definition MISSING :: string where "MISSING = ''unknown''"

fun split_dots :: "string \<Rightarrow> string \<Rightarrow> string list" where
  "split_dots w [] = [rev w]"
| "split_dots w (c # cs) = (if c = CHR ''.'' then rev w # split_dots [] cs else split_dots (c # w) cs)"

text \<open>\<open>get_field\<close>: dictionary lookups along the path, nothing else.\<close>

fun lookup_path :: "string list \<Rightarrow> pyval \<Rightarrow> pyval option" where
  "lookup_path [] v = Some v"
| "lookup_path (p # ps) (PDict d) =
     (case map_of d p of None \<Rightarrow> None | Some PNone \<Rightarrow> None | Some v \<Rightarrow> lookup_path ps v)"
| "lookup_path (p # ps) _ = None"

definition get_field :: "string \<Rightarrow> (string, pyval) dict \<Rightarrow> template_error + pyval" where
  "get_field name ctx =
     (if CHR ''['' \<in> set name \<or> CHR ''('' \<in> set name then Inl (UnsupportedPlaceholder name)
      else Inr (case lookup_path (split_dots [] name) (PDict ctx) of None \<Rightarrow> PStr MISSING | Some v \<Rightarrow> v))"

definition format_field :: "printer \<Rightarrow> pyval \<Rightarrow> string \<Rightarrow> template_error + string" where
  "format_field P v spec =
     (case v of
        PNum x \<Rightarrow> if spec = [] then Inr (py_str (pr_val P) v)
                  else (case pr_format P spec x of None \<Rightarrow> Inl (BadFormat spec) | Some s \<Rightarrow> Inr s)
      | _ \<Rightarrow> Inr (py_str (pr_val P) v))"

fun render_pieces :: "printer \<Rightarrow> piece list \<Rightarrow> (string, pyval) dict \<Rightarrow> template_error + string" where
  "render_pieces P [] ctx = Inr []"
| "render_pieces P (Lit s # ps) ctx =
     (case render_pieces P ps ctx of Inl e \<Rightarrow> Inl e | Inr t \<Rightarrow> Inr (s @ t))"
| "render_pieces P (Field name spec # ps) ctx =
     (case get_field name ctx of
        Inl e \<Rightarrow> Inl e
      | Inr v \<Rightarrow> (case format_field P v spec of
          Inl e \<Rightarrow> Inl e
        | Inr s \<Rightarrow> (case render_pieces P ps ctx of Inl e \<Rightarrow> Inl e | Inr t \<Rightarrow> Inr (s @ t))))"

definition render :: "printer \<Rightarrow> string \<Rightarrow> (string, pyval) dict \<Rightarrow> template_error + string" where
  "render P tmpl ctx =
     (case parse_template tmpl of Inl e \<Rightarrow> Inl e | Inr ps \<Rightarrow> render_pieces P ps ctx)"

text \<open>\<open>_template_roots\<close>: the first component of every placeholder.\<close>

definition root_of :: "string \<Rightarrow> string" where
  "root_of name = before_char CHR ''['' (before_char CHR ''.'' name)"

definition template_roots :: "string \<Rightarrow> template_error + string list" where
  "template_roots tmpl =
     (case parse_template tmpl of
        Inl e \<Rightarrow> Inl e
      | Inr ps \<Rightarrow> Inr (concat (map (\<lambda>p. case p of Lit _ \<Rightarrow> [] | Field n _ \<Rightarrow> [root_of n]) ps)))"

section \<open>Facts about rendering\<close>

definition plain_field :: "piece \<Rightarrow> bool" where
  "plain_field p = (case p of Lit _ \<Rightarrow> True | Field n spec \<Rightarrow> CHR ''['' \<notin> set n \<and> CHR ''('' \<notin> set n \<and> spec = [])"

lemma format_field_plain: "\<exists>s. format_field P v [] = Inr s"
  by (cases v) (simp_all add: format_field_def)

lemma format_field_non_number: "\<nexists>x. v = PNum x \<Longrightarrow> \<exists>s. format_field P v spec = Inr s"
  by (cases v) (simp_all add: format_field_def)

lemma render_pieces_total: "list_all plain_field ps \<Longrightarrow> \<exists>s. render_pieces P ps ctx = Inr s"
proof (induction ps)
  case (Cons p ps)
  then obtain t where t: "render_pieces P ps ctx = Inr t" by auto
  show ?case
  proof (cases p)
    case (Field n spec)
    with Cons.prems have n: "\<exists>v. get_field n ctx = Inr v" "spec = []"
      by (auto simp: plain_field_def get_field_def)
    with Field t show ?thesis using format_field_plain [of P] by (auto split: sum.splits) (metis Inl_Inr_False)
  qed (simp add: t)
qed simp

text \<open>Literal text at the start of a template is kept as it is.\<close>

definition brace_free :: "string \<Rightarrow> bool" where
  "brace_free s \<longleftrightarrow> CHR ''{'' \<notin> set s \<and> CHR ''}'' \<notin> set s"

lemma cons_lit_render:
  "(case cons_lit c r of Inl e \<Rightarrow> Inl e | Inr ps \<Rightarrow> render_pieces P ps ctx) =
   (case r of Inl e \<Rightarrow> Inl e | Inr ps \<Rightarrow>
      (case render_pieces P ps ctx of Inl e \<Rightarrow> Inl e | Inr t \<Rightarrow> Inr (c # t)))"
  unfolding cons_lit_def
  by (auto split: sum.splits list.splits piece.splits)

lemma render_literal:
  "brace_free p \<Longrightarrow> render P (p @ t) ctx =
     (case render P t ctx of Inl e \<Rightarrow> Inl e | Inr s \<Rightarrow> Inr (p @ s))"
proof (induction p)
  case Nil
  then show ?case by (simp split: sum.splits)
next
  case (Cons c p)
  then have c: "c \<noteq> CHR ''{''" "c \<noteq> CHR ''}''" and p: "brace_free p" by (auto simp: brace_free_def)
  have "render P ((c # p) @ t) ctx =
      (case render P (p @ t) ctx of Inl e \<Rightarrow> Inl e | Inr s \<Rightarrow> Inr (c # s))"
    using c by (simp add: render_def cons_lit_render split: sum.splits)
  then show ?case using Cons.IH [OF p] by (simp split: sum.splits)
qed

lemma render_starts:
  "brace_free p \<Longrightarrow> starts_with p tmpl \<Longrightarrow> render P tmpl ctx = Inr s \<Longrightarrow> starts_with p s"
  unfolding starts_with_iff by (auto simp: render_literal split: sum.splits)

end
