(* ===== verification/Correlation.thy ===== *)
theory Correlation
  imports Findings Templates
begin

text \<open>
  Two catalog driven judgements about findings: the incident text filter
  (\<open>detection/relevance.py\<close>) and cross-domain reconsideration
  (\<open>detection/correlation.py\<close>), which applies the first rule of a finding's domain whose
  conditions hold and leaves a marker in the summary so that a rule of that kind never
  applies again.
\<close>

section \<open>Relevance to the incident text\<close>

definition tokenize :: "string \<Rightarrow> int \<Rightarrow> string list \<Rightarrow> string list" where
  "tokenize s min_len stop =
     filter (\<lambda>t. min_len \<le> int (length t) \<and> t \<notin> set stop)
       (split_ws [] (map (\<lambda>c. if is_alnum c then c else CHR '' '') (lower s)))"

fun flatten_val :: "(pyval \<Rightarrow> string) \<Rightarrow> pyval \<Rightarrow> string" where
  "flatten_val F (PDict d) = join_with '' '' (map (\<lambda>(k, v). k @ '' '' @ flatten_val F v) d)"
| "flatten_val F (PList xs) = join_with '' '' (map (flatten_val F) xs)"
| "flatten_val F PNone = []"
| "flatten_val F v = py_str F v"

definition is_relevant :: "(pyval \<Rightarrow> string) \<Rightarrow> relevance_spec \<Rightarrow> signal \<Rightarrow> string \<Rightarrow> rule_error + bool" where
  "is_relevant F spec s description =
     (if strip description = [] then Inr True
      else
        let tokens = tokenize description (rv_min_token_length spec) (rv_stopwords spec) in
        if tokens = [] then Inr True
        else
          (case traverse (field_value s) (rv_text_fields spec) of
             Inl e \<Rightarrow> Inl e
           | Inr vs \<Rightarrow>
               let blob = join_with '' '' (map (flatten_val F) vs) in
               if set tokens \<inter> set (tokenize blob (rv_min_token_length spec) (rv_stopwords spec)) \<noteq> {}
               then Inr True
               else
                 (case rv_symptom_match spec of
                    None \<Rightarrow> Inr False
                  | Some (field, values) \<Rightarrow>
                      if list_ex (\<lambda>term. contains_str term (lower description)) (rv_symptom_terms spec)
                      then (case field_value s field of
                              Inl e \<Rightarrow> Inl e
                            | Inr v \<Rightarrow> Inr (py_str F v \<in> set values))
                      else Inr False)))"

definition relevance_safe :: "relevance_spec \<Rightarrow> bool" where
  "relevance_safe spec \<longleftrightarrow> list_all field_ok (rv_text_fields spec)
     \<and> (case rv_symptom_match spec of None \<Rightarrow> True | Some (field, _) \<Rightarrow> field_ok field)"

lemma is_relevant_total: "relevance_safe spec \<Longrightarrow> \<exists>b. is_relevant F spec s d = Inr b"
proof -
  assume safe: "relevance_safe spec"
  then have "\<exists>vs. traverse (field_value s) (rv_text_fields spec) = Inr vs"
    by (intro traverse_total) (auto simp: relevance_safe_def list_all_iff intro: field_value_ok)
  moreover have "\<exists>v. field_value s (fst m) = Inr v" if "rv_symptom_match spec = Some m" for m
    using safe that by (auto simp: relevance_safe_def intro!: field_value_ok)
  ultimately show ?thesis
    by (auto simp: is_relevant_def Let_def split: option.splits)
qed

section \<open>Conditions\<close>

definition MARKERS :: "effect_kind \<Rightarrow> string" where
  "MARKERS k = (case k of Corroboration \<Rightarrow> ''Peer corroboration:'' | Contradiction \<Rightarrow> ''Peer contradiction:'')"

definition scope_findings :: "peer_scope \<Rightarrow> agent_finding \<Rightarrow> agent_finding list \<Rightarrow> agent_finding list" where
  "scope_findings spec me peers =
     (if ps_scope spec = ScopeSelf then [me]
      else filter (\<lambda>p. (case ps_domains spec of None \<Rightarrow> True | Some ds \<Rightarrow> af_domain p \<in> set ds)
                       \<and> (\<not> ps_peer_anomaly spec \<or> af_anomaly p)) peers)"

definition is_str :: "pyval \<Rightarrow> bool" where
  "is_str v = (case v of PStr _ \<Rightarrow> True | _ \<Rightarrow> False)"

definition compare_val :: "(pyval \<Rightarrow> string) \<Rightarrow> pyval option \<Rightarrow> cmp_op \<Rightarrow> pyval \<Rightarrow> bool" where
  "compare_val F actual op expected =
     (case actual of
        None \<Rightarrow> False
      | Some PNone \<Rightarrow> False
      | Some a \<Rightarrow>
          (case op of
             OpLt \<Rightarrow> (case (py_float a, py_float expected) of (Some x, Some y) \<Rightarrow> x < y | _ \<Rightarrow> False)
           | OpGt \<Rightarrow> (case (py_float a, py_float expected) of (Some x, Some y) \<Rightarrow> x > y | _ \<Rightarrow> False)
           | OpContains \<Rightarrow> contains_str (lower (py_str F expected)) (lower (py_str F a))
           | OpEq \<Rightarrow> if is_str expected \<or> is_str a then lower (py_str F a) = lower (py_str F expected)
                     else py_eq a expected))"

definition key_event_match :: "printer \<Rightarrow> key_event_condition \<Rightarrow> agent_finding list \<Rightarrow> bool" where
  "key_event_match P c fs =
     list_ex (\<lambda>f. list_ex (\<lambda>e. compare_val (pr_val P) (ke_get (pr_reason P) e (kc_field c)) (kc_op c) (kc_value c))
       (af_key_events f)) fs"

function (sequential) holds :: "printer \<Rightarrow> condition \<Rightarrow> agent_finding \<Rightarrow> agent_finding list \<Rightarrow> bool" where
  "holds P (Condition (Some ke) _ _ _ _) me peers = key_event_match P ke (scope_findings (kc_scope ke) me peers)"
| "holds P (Condition None (Some (sc, t)) _ _ _) me peers =
     list_ex (\<lambda>f. contains_str (lower t) (lower (af_summary f))) (scope_findings sc me peers)"
| "holds P (Condition None None (Some wanted) _ _) me peers =
     list_ex (\<lambda>p. af_anomaly p \<and> (case wanted of None \<Rightarrow> True | Some ds \<Rightarrow> af_domain p \<in> set ds)) peers"
| "holds P (Condition None None None (Some cs) _) me peers = list_ex (\<lambda>c. holds P c me peers) cs"
| "holds P (Condition None None None None (Some cs)) me peers = list_all (\<lambda>c. holds P c me peers) cs"
| "holds P (Condition None None None None None) me peers = False"
  by pat_completeness auto
termination
  by (relation "measure (\<lambda>(_, c, _, _). size c)")
     (auto simp: less_Suc_eq_le dest: size_list_estimation' [OF _ order_refl, of _ _ size] intro: le_trans)

section \<open>Reconsideration\<close>

definition anomaly_domains :: "agent_finding list \<Rightarrow> string" where
  "anomaly_domains peers = join_with '', '' (sorted_set (map af_domain (filter af_anomaly peers)))"

definition new_confidence :: "effect \<Rightarrow> real \<Rightarrow> real" where
  "new_confidence ef c =
     (case ef_op ef of
        AtLeast \<Rightarrow> max c (ef_value ef)
      | AddTo \<Rightarrow> (case ef_cap ef of None \<Rightarrow> c + ef_value ef | Some cap \<Rightarrow> min cap (c + ef_value ef)))"

definition apply_effect :: "printer \<Rightarrow> effect \<Rightarrow> agent_finding list \<Rightarrow> agent_finding \<Rightarrow> template_error + agent_finding" where
  "apply_effect P ef peers f =
     (case render P (ef_note ef) [(''peer_anomaly_domains'', PStr (anomaly_domains peers))] of
        Inl e \<Rightarrow> Inl e
      | Inr text \<Rightarrow> Inr (f\<lparr>af_confidence := new_confidence ef (af_confidence f), af_revised := True,
          af_revision_count := Suc (af_revision_count f), af_summary := af_summary f @ ''. '' @ text\<rparr>))"

definition rule_applies :: "printer \<Rightarrow> correlation_rule \<Rightarrow> agent_finding \<Rightarrow> agent_finding list \<Rightarrow> bool" where
  "rule_applies P r f peers \<longleftrightarrow>
     co_self_anomaly r = af_anomaly f
     \<and> \<not> contains_str (MARKERS (ef_kind (co_effect r))) (af_summary f)
     \<and> list_all (\<lambda>c. holds P c f peers) (co_when r)"

definition reconsider :: "printer \<Rightarrow> agent_finding \<Rightarrow> agent_finding list \<Rightarrow> catalog \<Rightarrow> template_error + agent_finding" where
  "reconsider P f peers cat =
     (case find (\<lambda>(_, r). rule_applies P r f peers) (correlation_rules cat (af_domain f)) of
        None \<Rightarrow> Inr f
      | Some (_, r) \<Rightarrow> apply_effect P (co_effect r) peers f)"

text \<open>A collaboration: one reconsideration per round, against that round's peers.\<close>

definition reconsider_rounds :: "printer \<Rightarrow> catalog \<Rightarrow> agent_finding list list \<Rightarrow> agent_finding \<Rightarrow> template_error + agent_finding" where
  "reconsider_rounds P cat rounds f = fold_sum (\<lambda>peers f. reconsider P f peers cat) rounds f"

section \<open>Facts about reconsideration\<close>

definition notes_marked :: "catalog \<Rightarrow> bool" where
  "notes_marked cat \<longleftrightarrow> list_all (\<lambda>(_, r). starts_with (MARKERS (ef_kind (co_effect r))) (ef_note (co_effect r)))
     (cat_correlation cat)"

definition note_safe :: "string \<Rightarrow> bool" where
  "note_safe note = (case parse_template note of
      Inl _ \<Rightarrow> False
    | Inr ps \<Rightarrow> list_all (\<lambda>p. case p of Lit _ \<Rightarrow> True | Field n _ \<Rightarrow>
        n = ''peer_anomaly_domains'') ps)"

lemma reconsider_cases:
  assumes "reconsider P f peers cat = Inr f'"
  obtains "f' = f" | rid r where "(rid, r) \<in> set (cat_correlation cat)" "rule_applies P r f peers"
    "apply_effect P (co_effect r) peers f = Inr f'"
  using assms unfolding reconsider_def
  by (auto split: option.splits dest!: find_SomeD simp: set_correlation_rules)

lemma apply_effect_fields:
  assumes "apply_effect P ef peers f = Inr f'"
  shows "af_revision_count f' = Suc (af_revision_count f)" "af_evidence f' = af_evidence f"
    "af_anomaly f' = af_anomaly f" "af_domain f' = af_domain f"
    "af_confidence f' = new_confidence ef (af_confidence f)"
    "\<exists>text. render P (ef_note ef) [(''peer_anomaly_domains'', PStr (anomaly_domains peers))] = Inr text
       \<and> af_summary f' = af_summary f @ ''. '' @ text"
  using assms by (auto simp: apply_effect_def split: sum.splits)

lemma marker_brace_free: "brace_free (MARKERS k)"
  by (cases k) (simp_all add: MARKERS_def brace_free_def)

lemma apply_effect_marks:
  assumes "apply_effect P ef peers f = Inr f'" and "starts_with (MARKERS (ef_kind ef)) (ef_note ef)"
  shows "contains_str (MARKERS (ef_kind ef)) (af_summary f')"
    and "contains_str m (af_summary f) \<Longrightarrow> contains_str m (af_summary f')"
proof -
  obtain msg where t: "render P (ef_note ef) [(''peer_anomaly_domains'', PStr (anomaly_domains peers))] = Inr msg"
    "af_summary f' = af_summary f @ ''. '' @ msg"
    using apply_effect_fields(6) [OF assms(1)] by blast
  have "starts_with (MARKERS (ef_kind ef)) msg"
    by (rule render_starts [OF marker_brace_free assms(2) t(1)])
  then show "contains_str (MARKERS (ef_kind ef)) (af_summary f')"
    unfolding t(2) by (intro contains_str_appendI contains_str_starts)
  show "contains_str m (af_summary f) \<Longrightarrow> contains_str m (af_summary f')"
    unfolding t(2) by (rule contains_str_appendI)
qed

text \<open>How many kinds of rule may still apply to a finding.\<close>

definition open_kinds :: "agent_finding \<Rightarrow> nat" where
  "open_kinds f = length (filter (\<lambda>k. \<not> contains_str (MARKERS k) (af_summary f)) [Corroboration, Contradiction])"

lemma open_kinds_le: "open_kinds f \<le> 2"
  unfolding open_kinds_def by (rule le_trans [OF length_filter_le]) simp

lemma reconsider_progress:
  assumes "notes_marked cat" and "reconsider P f peers cat = Inr f'"
  shows "f' = f \<or> af_revision_count f' = Suc (af_revision_count f) \<and> open_kinds f' < open_kinds f"
proof (cases rule: reconsider_cases [OF assms(2)])
  case (2 rid r)
  let ?k = "ef_kind (co_effect r)"
  have marked: "starts_with (MARKERS ?k) (ef_note (co_effect r))"
    using assms(1) 2(1) by (auto simp: notes_marked_def list_all_iff)
  have absent: "\<not> contains_str (MARKERS ?k) (af_summary f)" using 2(2) by (simp add: rule_applies_def)
  have there: "contains_str (MARKERS ?k) (af_summary f')" and keep: "contains_str m (af_summary f) \<Longrightarrow> contains_str m (af_summary f')" for m
    using apply_effect_marks [OF 2(3) marked] by blast+
  have "open_kinds f' < open_kinds f"
    using absent there keep [of "MARKERS Corroboration"] keep [of "MARKERS Contradiction"]
    by (cases ?k) (auto simp: open_kinds_def)
  then show ?thesis using apply_effect_fields(1) [OF 2(3)] by simp
qed simp

lemma reconsider_keeps:
  assumes "reconsider P f peers cat = Inr f'"
  shows "af_evidence f' = af_evidence f \<and> af_anomaly f' = af_anomaly f \<and> af_domain f' = af_domain f"
  by (cases rule: reconsider_cases [OF assms]) (simp_all add: apply_effect_fields)

lemma rounds_progress:
  assumes "notes_marked cat" and "reconsider_rounds P cat rounds f = Inr f'"
  shows "af_revision_count f' + open_kinds f' \<le> af_revision_count f + open_kinds f
    \<and> af_evidence f' = af_evidence f \<and> af_anomaly f' = af_anomaly f"
proof -
  let ?P = "\<lambda>h. af_revision_count h + open_kinds h \<le> af_revision_count f + open_kinds f
      \<and> af_evidence h = af_evidence f \<and> af_anomaly h = af_anomaly f"
  have step: "?P h'" if "?P h" "reconsider P h peers cat = Inr h'" for peers h h'
    using reconsider_progress [OF assms(1) that(2)] reconsider_keeps [OF that(2)] that(1) by auto
  show "?P f'"
    by (rule fold_sum_invariant [where P = ?P, OF assms(2) [unfolded reconsider_rounds_def]])
       (simp, rule step)
qed

lemma render_note_total:
  assumes "note_safe note"
  shows "\<exists>s. render P note [(''peer_anomaly_domains'', PStr d)] = Inr s"
proof -
  let ?ctx = "[(''peer_anomaly_domains'', PStr d)]"
  have look: "get_field ''peer_anomaly_domains'' ?ctx = Inr (PStr d)" by code_simp
  obtain ps where ps: "parse_template note = Inr ps"
    "list_all (\<lambda>p. case p of Lit _ \<Rightarrow> True | Field n _ \<Rightarrow> n = ''peer_anomaly_domains'') ps"
    using assms by (auto simp: note_safe_def split: sum.splits)
  from ps(2) have "\<exists>s. render_pieces P ps ?ctx = Inr s"
    by (induction ps) (auto simp: look format_field_def split: piece.splits)
  then show ?thesis by (simp add: render_def ps(1))
qed

section \<open>Properties\<close>

text \<open>
  Collaboration cannot inflate a finding: over any number of rounds, with any peers, rules of
  one kind apply at most once, so at most two corrections are ever made; the finding's
  evidence and its anomaly flag stay as they were.
\<close>

lemma reconsider_rounds_bounded:
  assumes "notes_marked cat" and "reconsider_rounds P cat rounds f = Inr f'"
  shows "af_revision_count f' \<le> af_revision_count f + 2
    \<and> af_evidence f' = af_evidence f \<and> af_anomaly f' = af_anomaly f"
  using rounds_progress [OF assms] open_kinds_le [of f] by linarith

definition ex_corr_rule :: correlation_rule where
  "ex_corr_rule = \<lparr>co_domain = ''net'', co_priority = 10, co_self_anomaly = True,
     co_when = [Condition None None (Some None) None None],
     co_effect = \<lparr>ef_kind = Corroboration, ef_op = AddTo, ef_value = 1 / 20, ef_cap = Some (93 / 100),
       ef_note = ''Peer corroboration: aligned anomalies from [{peer_anomaly_domains}]''\<rparr>\<rparr>"

definition ex_corr_finding :: "string \<Rightarrow> real \<Rightarrow> agent_finding" where
  "ex_corr_finding d c = \<lparr>af_agent = d, af_domain = d, af_anomaly = True, af_summary = ''s'', af_key_events = [],
     af_start = 0, af_end = 0, af_confidence = c, af_revised = False, af_revision_count = 0,
     af_degraded = False, af_unclassified = [], af_evidence = [], af_status = []\<rparr>"

definition ex_corr_cat :: catalog where
  "ex_corr_cat = \<lparr>cat_entities = \<lparr>ent_types = [], ent_relationships = []\<rparr>,
     cat_signals = [], cat_domains = [], cat_degradation = [], cat_correlation = [(''r'', ex_corr_rule)], cat_sources = [],
     cat_investigation = \<lparr>iv_probes = [], iv_signal_roles = [], iv_role_with = [], iv_lead_patterns = [],
       iv_max_hops = 5, iv_lookback_minutes = 15, iv_max_requests = 12, iv_w_evidence = 1,
       iv_w_topology = 1, iv_w_precedence = 1, iv_w_role = 1\<rparr>\<rparr>"

definition ex_printer :: printer where
  "ex_printer = \<lparr>pr_val = \<lambda>_. [], pr_format = \<lambda>_ _. None, pr_reason = \<lambda>_. []\<rparr>"

lemma ex_corr_finding_sel [simp]:
  "af_domain (ex_corr_finding d c) = d" "af_anomaly (ex_corr_finding d c)" "af_summary (ex_corr_finding d c) = ''s''"
  "af_confidence (ex_corr_finding d c) = c" "af_revision_count (ex_corr_finding d c) = 0"
  by (simp_all add: ex_corr_finding_def)

text \<open>Bounded effects: what keeps a confidence a probability.\<close>

definition effect_bounded :: "effect \<Rightarrow> bool" where
  "effect_bounded ef =
     (case ef_op ef of
        AtLeast \<Rightarrow> ef_value ef \<le> 1
      | AddTo \<Rightarrow> 0 \<le> ef_value ef \<and> (case ef_cap ef of None \<Rightarrow> False | Some cap \<Rightarrow> 0 \<le> cap \<and> cap \<le> 1))"

definition correlation_safe :: "catalog \<Rightarrow> bool" where
  "correlation_safe cat = list_all (\<lambda>(_, r). note_safe (ef_note (co_effect r)) \<and> effect_bounded (co_effect r))
     (cat_correlation cat)"

lemma new_confidence_unit:
  "effect_bounded ef \<Longrightarrow> 0 \<le> c \<Longrightarrow> c \<le> 1 \<Longrightarrow> 0 \<le> new_confidence ef c \<and> new_confidence ef c \<le> 1"
  by (auto simp: effect_bounded_def new_confidence_def split: confidence_op.splits option.splits)

lemma reconsider_safe:
  assumes "correlation_safe cat" and "0 \<le> af_confidence f" "af_confidence f \<le> 1"
  shows "\<exists>f'. reconsider P f peers cat = Inr f' \<and> 0 \<le> af_confidence f' \<and> af_confidence f' \<le> 1"
proof (cases "find (\<lambda>(_, r). rule_applies P r f peers) (correlation_rules cat (af_domain f))")
  case None
  with assms show ?thesis by (simp add: reconsider_def)
next
  case (Some x)
  obtain rid r where x: "x = (rid, r)" by force
  with Some have "(rid, r) \<in> set (cat_correlation cat)"
    by (auto dest: find_SomeD simp: set_correlation_rules)
  with assms(1) have safe: "note_safe (ef_note (co_effect r))" "effect_bounded (co_effect r)"
    by (auto simp: correlation_safe_def list_all_iff)
  obtain msg where "render P (ef_note (co_effect r)) [(''peer_anomaly_domains'', PStr (anomaly_domains peers))] = Inr msg"
    using render_note_total [OF safe(1)] by blast
  with Some x new_confidence_unit [OF safe(2) assms(2,3)] show ?thesis
    by (simp add: reconsider_def apply_effect_def)
qed

text \<open>
  Under a catalog whose notes use only the one placeholder and whose effects are bounded, no
  sequence of rounds ever raises, and a confidence in [0, 1] stays there.
\<close>

lemma reconsider_rounds_safe:
  assumes "correlation_safe cat" and "0 \<le> af_confidence f \<and> af_confidence f \<le> 1"
  shows "\<exists>f'. reconsider_rounds P cat rounds f = Inr f' \<and> 0 \<le> af_confidence f' \<and> af_confidence f' \<le> 1"
  using assms(2)
proof (induction rounds arbitrary: f)
  case (Cons peers rounds)
  with reconsider_safe [OF assms(1), of f P peers] obtain g where
    "reconsider P f peers cat = Inr g" "0 \<le> af_confidence g \<and> af_confidence g \<le> 1" by blast
  with Cons.IH [of g] show ?case by (simp add: reconsider_rounds_def)
qed (simp add: reconsider_rounds_def)

text \<open>
  A corroborating peer can lower a confidence: a cap below the finding's own confidence
  replaces it.
\<close>

lemma corroboration_can_lower:
  "ef_kind (co_effect ex_corr_rule) = Corroboration \<and> new_confidence (co_effect ex_corr_rule) (95 / 100) < 95 / 100"
  by (simp add: ex_corr_rule_def new_confidence_def)

text \<open>
  A placeholder with an index passes the loader's root check and makes rendering raise.
\<close>

lemma indexed_placeholder_raises:
  "template_roots ''Peer corroboration: {peer_anomaly_domains[0]}'' = Inr [''peer_anomaly_domains'']"
  "render P ''Peer corroboration: {peer_anomaly_domains[0]}'' ctx = Inl (UnsupportedPlaceholder ''peer_anomaly_domains[0]'')"
proof -
  show "template_roots ''Peer corroboration: {peer_anomaly_domains[0]}'' = Inr [''peer_anomaly_domains'']"
    by code_simp
  have "parse_template ''Peer corroboration: {peer_anomaly_domains[0]}''
      = Inr [Lit ''Peer corroboration: '', Field ''peer_anomaly_domains[0]'' []]" by code_simp
  then show "render P ''Peer corroboration: {peer_anomaly_domains[0]}'' ctx
      = Inl (UnsupportedPlaceholder ''peer_anomaly_domains[0]'')"
    by (simp add: render_def get_field_def)
qed

end
