(* ===== verification/Topology.thy ===== *)
theory Topology
  imports Catalog
begin

text \<open>
  The topology graph (\<open>TopologyGraph\<close> in \<open>detection/investigate.py\<close>): undirected adjacency
  for walking, \<open>depends\<close> edges from the end that depends to the end it depends on, and
  resolution of an entity by its id or by any label value (an alias). The breadth-first
  \<open>walk\<close> and the bounded \<open>depends_on\<close> search are shown to compute shortest paths and
  bounded reachability. A Python set is kept as a duplicate free list; \<open>sorted(set)\<close> is
  \<open>sort\<close>.
\<close>

section \<open>Adjacency\<close>

type_synonym 'a adj = "('a, 'a list) dict"

definition nbrs :: "'a adj \<Rightarrow> 'a \<Rightarrow> 'a list" where
  "nbrs d x = (case map_of d x of None \<Rightarrow> [] | Some ys \<Rightarrow> ys)"

definition set_add :: "'a \<Rightarrow> 'a list \<Rightarrow> 'a list" where
  "set_add x xs = (if x \<in> set xs then xs else xs @ [x])"

text \<open>\<open>d.setdefault(a, set()).add(b)\<close>.\<close>

definition add_edge :: "'a \<Rightarrow> 'a \<Rightarrow> 'a adj \<Rightarrow> 'a adj" where
  "add_edge a b d = AList.update a (set_add b (nbrs d a)) d"

lemma set_set_add [simp]: "set (set_add x xs) = insert x (set xs)"
  by (auto simp: set_add_def)

lemma nbrs_add_edge_list: "nbrs (add_edge a b d) x = (if x = a then set_add b (nbrs d a) else nbrs d x)"
  by (simp add: nbrs_def add_edge_def map_of_AList_update)

lemma nbrs_add_edge: "set (nbrs (add_edge a b d) x) = (if x = a then insert b (set (nbrs d a)) else set (nbrs d x))"
  by (simp add: nbrs_add_edge_list)

lemma nbrs_Nil [simp]: "nbrs [] x = []"
  by (simp add: nbrs_def)

section \<open>Walks of a given length\<close>

fun hops :: "('a \<Rightarrow> 'a list) \<Rightarrow> nat \<Rightarrow> 'a \<Rightarrow> 'a \<Rightarrow> bool" where
  "hops s 0 x y = (x = y)"
| "hops s (Suc n) x y = (\<exists>z\<in>set (s x). hops s n z y)"

lemma hops_snoc: "hops s (Suc n) x z \<longleftrightarrow> (\<exists>y. hops s n x y \<and> z \<in> set (s y))"
proof (induction n arbitrary: x)
  case (Suc n)
  have "hops s (Suc (Suc n)) x z \<longleftrightarrow> (\<exists>w\<in>set (s x). hops s (Suc n) w z)" by simp
  also have "\<dots> \<longleftrightarrow> (\<exists>w\<in>set (s x). \<exists>y. hops s n w y \<and> z \<in> set (s y))"
    using Suc.IH by blast
  also have "\<dots> \<longleftrightarrow> (\<exists>y. hops s (Suc n) x y \<and> z \<in> set (s y))" by auto
  finally show ?case .
qed auto

lemma hops_mono: "(\<And>v. set (s v) \<subseteq> set (s' v)) \<Longrightarrow> hops s n x y \<Longrightarrow> hops s' n x y"
  by (induction n arbitrary: x) auto

section \<open>Breadth-first walk\<close>

text \<open>The body of the inner loop: a neighbour not seen before gets its path and is queued.\<close>

definition visit :: "'a list \<Rightarrow> 'a \<Rightarrow> 'a list \<times> ('a, 'a list) dict \<Rightarrow> 'a list \<times> ('a, 'a list) dict" where
  "visit p nxt qp =
     (let (q, paths) = qp
      in if nxt \<in> set (keys paths) then (q, paths) else (q @ [nxt], paths @ [(nxt, p @ [nxt])]))"

definition path_of :: "('a, 'a list) dict \<Rightarrow> 'a \<Rightarrow> 'a list" where
  "path_of paths v = (case map_of paths v of None \<Rightarrow> [] | Some p \<Rightarrow> p)"

definition news :: "('a, 'a list) dict \<Rightarrow> 'a list \<Rightarrow> 'a list" where
  "news paths ns = uniq (filter (\<lambda>n. n \<notin> set (keys paths)) ns)"

lemma uniq_filter_snoc:
  "uniq (xs @ [x]) = (if x \<in> set xs then uniq xs else uniq xs @ [x])"
  by (simp add: uniq_def)

lemma fold_visit:
  "fold (visit p) ns (q, paths) =
     (q @ news paths ns, paths @ map (\<lambda>n. (n, p @ [n])) (news paths ns))"
proof (induction ns rule: rev_induct)
  case Nil
  then show ?case by (simp add: news_def)
next
  case (snoc n ns)
  have "set (keys (paths @ map (\<lambda>n. (n, p @ [n])) (news paths ns)))
        = set (keys paths) \<union> set (news paths ns)"
    by (auto simp: keys_def)
  moreover have "set (news paths ns) = set ns - set (keys paths)"
    by (auto simp: news_def)
  ultimately have "visit p n (q @ news paths ns, paths @ map (\<lambda>n. (n, p @ [n])) (news paths ns))
      = (q @ news paths (ns @ [n]), paths @ map (\<lambda>n. (n, p @ [n])) (news paths (ns @ [n])))"
    by (auto simp: visit_def news_def uniq_filter_snoc)
  then show ?case by (simp add: snoc.IH)
qed

definition universe :: "'a adj \<Rightarrow> 'a set" where
  "universe d = (\<Union>ys\<in>snd ` set d. set ys)"

lemma finite_universe [simp]: "finite (universe d)"
  by (simp add: universe_def)

lemma nbrs_universe: "set (nbrs d x) \<subseteq> universe d"
proof (cases "map_of d x")
  case (Some ys)
  then have "(x, ys) \<in> set d" by (rule map_of_SomeD)
  with Some show ?thesis by (force simp: nbrs_def universe_def)
qed (simp add: nbrs_def)

lemma set_news: "set (news paths ns) = set ns - set (keys paths)"
  by (auto simp: news_def)

lemma distinct_news [simp]: "distinct (news paths ns)"
  by (simp add: news_def)

lemma walk_measure:
  fixes d :: "('a::linorder) adj"
  defines "m \<equiv> \<lambda>q paths. 2 * card (universe d - set (keys paths)) + length q"
  shows "m (q @ news paths (sort (nbrs d c)))
           (paths @ map (\<lambda>n. (n, p @ [n])) (news paths (sort (nbrs d c)))) < Suc (m q paths)"
proof -
  let ?N = "news paths (sort (nbrs d c))" and ?U = "universe d - set (keys paths)"
  have sub: "set ?N \<subseteq> ?U" using nbrs_universe [of d c] by (auto simp: set_news)
  have "universe d - set (keys (paths @ map (\<lambda>n. (n, p @ [n])) ?N)) = ?U - set ?N"
    by (auto simp: keys_def)
  moreover have "card (?U - set ?N) = card ?U - length ?N"
    using sub by (simp add: card_Diff_subset distinct_card)
  moreover have "length ?N \<le> card ?U"
    using card_mono [OF _ sub] by (simp add: distinct_card)
  ultimately show ?thesis by (simp add: m_def)
qed

function walk_loop :: "('a::linorder) adj \<Rightarrow> nat \<Rightarrow> 'a list \<Rightarrow> ('a, 'a list) dict \<Rightarrow> ('a, 'a list) dict" where
  "walk_loop d h [] paths = paths"
| "walk_loop d h (c # q) paths =
     (if length (path_of paths c) > h then walk_loop d h q paths
      else (case fold (visit (path_of paths c)) (sort (nbrs d c)) (q, paths) of
              (q', paths') \<Rightarrow> walk_loop d h q' paths'))"
  by pat_completeness auto
termination
proof (relation "measure (\<lambda>(d, h, q, paths). 2 * card (universe d - set (keys paths)) + length q)", goal_cases)
  case (3 d h c q paths q' paths')
  then have "q' = q @ news paths (sort (nbrs d c))"
    "paths' = paths @ map (\<lambda>n. (n, path_of paths c @ [n])) (news paths (sort (nbrs d c)))"
    by (simp_all add: fold_visit)
  with walk_measure [where d = d and q = q and paths = paths and p = "path_of paths c" and c = c] show ?case by simp
qed auto

definition walk_adj :: "('a::linorder) adj \<Rightarrow> 'a \<Rightarrow> nat \<Rightarrow> ('a, 'a list) dict" where
  "walk_adj d start h = walk_loop d h [start] [(start, [start])]"

subsection \<open>Correctness of the walk\<close>

definition plen :: "('a, 'a list) dict \<Rightarrow> 'a \<Rightarrow> nat" where
  "plen paths v = length (path_of paths v)"

definition path_ok :: "'a adj \<Rightarrow> 'a \<Rightarrow> nat \<Rightarrow> 'a \<Rightarrow> 'a list \<Rightarrow> bool" where
  "path_ok d s h v p \<longleftrightarrow> p \<noteq> [] \<and> hd p = s \<and> last p = v \<and> length p \<le> Suc h
     \<and> successively (\<lambda>x y. y \<in> set (nbrs d x)) p"


definition bfs_inv :: "'a adj \<Rightarrow> nat \<Rightarrow> 'a \<Rightarrow> 'a list \<Rightarrow> ('a, 'a list) dict \<Rightarrow> bool" where
  "bfs_inv d h s q paths \<longleftrightarrow>
     distinct (keys paths) \<and> distinct q \<and> set q \<subseteq> set (keys paths) \<and> map_of paths s = Some [s]
     \<and> (\<forall>v p. map_of paths v = Some p \<longrightarrow> path_ok d s h v p)
     \<and> sorted (map (plen paths) q)
     \<and> (\<forall>v\<in>set q. plen paths v \<le> Suc (plen paths (hd q)))
     \<and> (\<forall>v\<in>set (keys paths) - set q. \<forall>w\<in>set q. plen paths v \<le> plen paths w)
     \<and> (\<forall>v\<in>set (keys paths) - set q. plen paths v \<le> h \<longrightarrow>
          (\<forall>w\<in>set (nbrs d v). w \<in> set (keys paths) \<and> plen paths w \<le> Suc (plen paths v)))"


lemma bfs_inv_start: "bfs_inv d h s [s] [(s, [s])]"
  by (auto simp: bfs_inv_def keys_def path_ok_def)

lemma bfs_inv_edge:
  "bfs_inv d h s q paths \<Longrightarrow> v \<in> set (keys paths) \<Longrightarrow> v \<notin> set q \<Longrightarrow> plen paths v \<le> h
    \<Longrightarrow> w \<in> set (nbrs d v) \<Longrightarrow> w \<in> set (keys paths) \<and> plen paths w \<le> Suc (plen paths v)"
  by (simp add: bfs_inv_def)

lemma bfs_inv_order:
  "bfs_inv d h s q paths \<Longrightarrow> v \<in> set (keys paths) \<Longrightarrow> v \<notin> set q \<Longrightarrow> w \<in> set q
    \<Longrightarrow> plen paths v \<le> plen paths w"
  by (simp add: bfs_inv_def)

lemma bfs_inv_skip:
  assumes "bfs_inv d h s (c # q) paths" and "plen paths c > h"
  shows "bfs_inv d h s q paths"
proof -
  have cq: "\<forall>v\<in>set q. plen paths c \<le> plen paths v \<and> plen paths v \<le> Suc (plen paths c)"
    using assms(1) by (auto simp: bfs_inv_def)
  have "\<forall>v\<in>set q. plen paths v \<le> Suc (plen paths (hd q))"
    using cq by (cases q) (auto intro: le_trans)
  moreover have "\<forall>v\<in>set (keys paths) - set q. \<forall>w\<in>set q. plen paths v \<le> plen paths w"
  proof (intro ballI)
    fix v w
    assume "v \<in> set (keys paths) - set q" "w \<in> set q"
    then show "plen paths v \<le> plen paths w"
      using cq by (cases "v = c") (auto intro!: bfs_inv_order [OF assms(1)])
  qed
  moreover have "\<forall>v\<in>set (keys paths) - set q. plen paths v \<le> h \<longrightarrow>
      (\<forall>w\<in>set (nbrs d v). w \<in> set (keys paths) \<and> plen paths w \<le> Suc (plen paths v))"
  proof (intro ballI impI)
    fix v w
    assume v: "v \<in> set (keys paths) - set q" "plen paths v \<le> h" "w \<in> set (nbrs d v)"
    with assms(2) have "v \<noteq> c" by auto
    with v show "w \<in> set (keys paths) \<and> plen paths w \<le> Suc (plen paths v)"
      by (intro bfs_inv_edge [OF assms(1)]) auto
  qed
  moreover have "distinct (keys paths)" "distinct q" "set q \<subseteq> set (keys paths)" "map_of paths s = Some [s]"
    "\<forall>v p. map_of paths v = Some p \<longrightarrow> path_ok d s h v p" "sorted (map (plen paths) q)"
    using assms(1) by (simp_all add: bfs_inv_def)
  ultimately show ?thesis unfolding bfs_inv_def by blast
qed

lemma path_of_grow:
  assumes "map_of paths v \<noteq> None"
  shows "path_of (paths @ xs) v = path_of paths v"
  using assms by (auto simp: path_of_def map_add_def split: option.splits)

lemma map_of_news:
  "map_of (map (\<lambda>n. (n, p @ [n])) ns) v = (if v \<in> set ns then Some (p @ [v]) else None)"
  by (induction ns) auto

lemma map_of_grow:
  "map_of (paths @ map (\<lambda>n. (n, p @ [n])) (news paths ns)) v =
     (if v \<in> set (keys paths) then map_of paths v
      else if v \<in> set ns then Some (p @ [v]) else None)"
proof -
  have "v \<in> set (keys paths) \<longleftrightarrow> map_of paths v \<noteq> None"
    by (simp add: keys_def map_of_eq_None_iff)
  then show ?thesis
    by (auto simp: map_add_def map_of_news set_news split: option.splits)
qed

lemma bfs_inv_visit:
  fixes ns
  assumes inv: "bfs_inv d h s (c # q) paths" and le: "plen paths c \<le> h" and ns: "set ns = set (nbrs d c)"
  defines "p \<equiv> path_of paths c"
  defines "paths' \<equiv> paths @ map (\<lambda>n. (n, p @ [n])) (news paths ns)"
  defines "q' \<equiv> q @ news paths ns"
  shows "bfs_inv d h s q' paths'"
proof -
  let ?N = "set ns - set (keys paths)"
  have k: "set (keys paths) = dom (map_of paths)"
    by (simp add: keys_def dom_map_of_conv_image_fst)
  have K': "set (keys paths') = set (keys paths) \<union> ?N"
    by (auto simp: paths'_def keys_def set_news image_image)
  have m': "map_of paths' v = (if v \<in> set (keys paths) then map_of paths v
      else if v \<in> set ns then Some (p @ [v]) else None)" for v
    unfolding paths'_def by (rule map_of_grow)
  have old: "plen paths' v = plen paths v" if "v \<in> set (keys paths)" for v
    using that by (simp add: plen_def path_of_def m')
  have new: "plen paths' v = Suc (plen paths c)" if "v \<in> ?N" for v
    using that by (simp add: plen_def path_of_def m' p_def)
  have c: "c \<in> set (keys paths)" "c \<notin> set q" using inv by (auto simp: bfs_inv_def)
  then obtain pc where pc: "map_of paths c = Some pc" using k by auto
  then have p: "p = pc" "plen paths c = length pc" by (simp_all add: p_def path_of_def plen_def)
  have okc: "path_ok d s h c pc" using inv pc by (simp add: bfs_inv_def)
  have q: "set q \<subseteq> set (keys paths)" "set q' = set q \<union> ?N"
    using inv by (auto simp: bfs_inv_def q'_def set_news)
  have cq: "plen paths c \<le> plen paths v" "plen paths v \<le> Suc (plen paths c)" if "v \<in> set q" for v
    using inv that by (auto simp: bfs_inv_def)
  have older: "plen paths v \<le> plen paths c" if "v \<in> set (keys paths)" "v \<notin> set q" for v
    using inv that by (cases "v = c") (auto simp: bfs_inv_def)
  have range: "plen paths c \<le> plen paths' v \<and> plen paths' v \<le> Suc (plen paths c)" if "v \<in> set q'" for v
    using that q cq old new by (cases "v \<in> set q") auto
  have "distinct (keys paths')"
  proof -
    have "keys paths' = keys paths @ news paths ns"
      by (simp add: paths'_def keys_def comp_def)
    moreover have "distinct (keys paths)" using inv by (simp add: bfs_inv_def)
    ultimately show ?thesis by (auto simp: set_news)
  qed
  moreover have "distinct q'" using inv by (auto simp: bfs_inv_def q'_def set_news)
  moreover have "set q' \<subseteq> set (keys paths')" using q K' by auto
  moreover have "map_of paths' s = Some [s]"
    using inv k by (auto simp: bfs_inv_def m')
  moreover have "\<forall>v pv. map_of paths' v = Some pv \<longrightarrow> path_ok d s h v pv"
  proof (intro allI impI)
    fix v pv
    assume v: "map_of paths' v = Some pv"
    show "path_ok d s h v pv"
    proof (cases "v \<in> set (keys paths)")
      case True
      with v inv show ?thesis by (auto simp: m' bfs_inv_def)
    next
      case False
      with v have "v \<in> set ns" "pv = pc @ [v]" by (auto simp: m' p split: if_splits)
      then show ?thesis using okc le ns p
        by (auto simp: path_ok_def successively_append_iff)
    qed
  qed
  moreover have "sorted (map (plen paths') q')"
  proof -
    have "map (plen paths') q = map (plen paths) q" using old q by auto
    moreover have "\<forall>v\<in>set (news paths ns). plen paths' v = Suc (plen paths c)"
      using new by (simp add: set_news)
    then have "map (plen paths') (news paths ns) = replicate (length (news paths ns)) (Suc (plen paths c))"
      by (intro replicate_eqI) (auto simp: in_set_conv_nth)
    moreover have "sorted (map (plen paths) q)" using inv by (simp add: bfs_inv_def)
    ultimately show ?thesis using cq by (simp add: q'_def sorted_append del: map_eq_conv)
  qed
  moreover have "\<forall>v\<in>set q'. plen paths' v \<le> Suc (plen paths' (hd q'))"
  proof
    fix v assume v: "v \<in> set q'"
    then have "hd q' \<in> set q'" by (cases q') auto
    then show "plen paths' v \<le> Suc (plen paths' (hd q'))"
      using range [OF v] range [of "hd q'"] by auto
  qed
  moreover have "\<forall>v\<in>set (keys paths') - set q'. \<forall>w\<in>set q'. plen paths' v \<le> plen paths' w"
  proof (intro ballI)
    fix v w
    assume v: "v \<in> set (keys paths') - set q'" and w: "w \<in> set q'"
    then have v': "v \<in> set (keys paths)" "v \<notin> set q" using K' q by auto
    then have "plen paths' v \<le> plen paths c" using older old by simp
    with range [OF w] show "plen paths' v \<le> plen paths' w" by linarith
  qed
  moreover have "\<forall>v\<in>set (keys paths') - set q'. plen paths' v \<le> h \<longrightarrow>
      (\<forall>w\<in>set (nbrs d v). w \<in> set (keys paths') \<and> plen paths' w \<le> Suc (plen paths' v))"
  proof (intro ballI impI)
    fix v w
    assume v: "v \<in> set (keys paths') - set q'" and h: "plen paths' v \<le> h" and w: "w \<in> set (nbrs d v)"
    then have v': "v \<in> set (keys paths)" "v \<notin> set q" using K' q by auto
    show "w \<in> set (keys paths') \<and> plen paths' w \<le> Suc (plen paths' v)"
    proof (cases "v = c")
      case True
      then have "w \<in> set (keys paths) \<or> w \<in> ?N" using w ns by auto
      then show ?thesis
      proof
        assume *: "w \<in> set (keys paths)"
        then have "plen paths w \<le> Suc (plen paths c)"
          using cq older by (cases "w \<in> set q") (auto intro: le_SucI)
        with * True c K' old show ?thesis by auto
      next
        assume "w \<in> ?N"
        with True c K' old new show ?thesis by auto
      qed
    next
      case False
      with v' h w old have "w \<in> set (keys paths) \<and> plen paths w \<le> Suc (plen paths v)"
        by (intro bfs_inv_edge [OF inv]) auto
      with v' K' old show ?thesis by auto
    qed
  qed
  ultimately show ?thesis unfolding bfs_inv_def by blast
qed

lemma walk_loop_inv: "bfs_inv d h s q paths \<Longrightarrow> bfs_inv d h s [] (walk_loop d h q paths)"
proof (induction d h q paths rule: walk_loop.induct)
  case (1 d h paths)
  then show ?case by simp
next
  case (2 d h c q paths)
  show ?case
  proof (cases "length (path_of paths c) > h")
    case True
    then have "bfs_inv d h s q paths" using bfs_inv_skip [OF "2.prems"] by (simp add: plen_def)
    with True "2.IH"(1) show ?thesis by simp
  next
    case False
    let ?ns = "sort (nbrs d c)"
    have "bfs_inv d h s (q @ news paths ?ns)
        (paths @ map (\<lambda>n. (n, path_of paths c @ [n])) (news paths ?ns))"
      using False by (intro bfs_inv_visit [OF "2.prems"]) (auto simp: plen_def)
    with False "2.IH"(2) [OF False] show ?thesis
      by (simp add: fold_visit)
  qed
qed

lemma walk_adj_inv: "bfs_inv d h s [] (walk_adj d s h)"
  unfolding walk_adj_def by (rule walk_loop_inv [OF bfs_inv_start])

lemma map_of_walk_adj: "(v, p) \<in> set (walk_adj d s h) \<longleftrightarrow> map_of (walk_adj d s h) v = Some p"
  using walk_adj_inv [of d h s] by (auto simp: bfs_inv_def keys_def)

lemma walk_adj_path: "(v, p) \<in> set (walk_adj d s h) \<Longrightarrow> path_ok d s h v p"
  using walk_adj_inv [of d h s] unfolding map_of_walk_adj by (simp add: bfs_inv_def)

lemma walk_adj_reaches:
  "hops (nbrs d) n s v \<Longrightarrow> n \<le> h \<Longrightarrow> \<exists>p. (v, p) \<in> set (walk_adj d s h) \<and> length p \<le> Suc n"
proof (induction n arbitrary: v)
  case 0
  then have "v = s" by simp
  moreover have "map_of (walk_adj d s h) s = Some [s]"
    using walk_adj_inv [of d h s] by (simp add: bfs_inv_def)
  ultimately show ?case by (auto simp: map_of_walk_adj)
next
  case (Suc n)
  from Suc.prems(1) obtain y where y: "hops (nbrs d) n s y" "v \<in> set (nbrs d y)"
    unfolding hops_snoc by blast
  with Suc.IH Suc.prems(2) obtain p where p: "map_of (walk_adj d s h) y = Some p" "length p \<le> Suc n"
    by (auto simp: map_of_walk_adj)
  then have "y \<in> set (keys (walk_adj d s h))" "plen (walk_adj d s h) y = length p"
    by (auto simp: keys_def plen_def path_of_def dest: map_of_SomeD intro: rev_image_eqI)
  with walk_adj_inv [of d h s] y(2) p(2) Suc.prems(2)
  have v: "v \<in> set (keys (walk_adj d s h))" "plen (walk_adj d s h) v \<le> Suc (length p)"
    by (auto simp: bfs_inv_def)
  then obtain pv where "map_of (walk_adj d s h) v = Some pv"
    by (auto simp: keys_def map_of_eq_None_iff dest: map_of_eq_None_iff [THEN iffD1] split: option.splits)
       (metis map_of_eq_None_iff not_Some_eq rev_image_eqI fst_conv)
  with v p(2) show ?case by (auto simp: map_of_walk_adj plen_def path_of_def)
qed

lemma successively_hops:
  "successively (\<lambda>x y. y \<in> set (nbrs d x)) p \<Longrightarrow> p \<noteq> [] \<Longrightarrow> hops (nbrs d) (length p - 1) (hd p) (last p)"
proof (induction p rule: induct_list012)
  case (3 x y zs)
  then have "hops (nbrs d) (length (y # zs) - 1) y (last (y # zs))" by auto
  with "3.prems"(1) show ?case by auto
qed auto

lemma path_ok_hops: "path_ok d s h v p \<Longrightarrow> hops (nbrs d) (length p - 1) s v"
  using successively_hops [of d p] by (auto simp: path_ok_def)


section \<open>Bounded dependency search\<close>

text \<open>
  One level of \<open>depends_on\<close>: \<open>None\<close> is the early \<open>return True\<close>, otherwise the nodes seen
  so far and the next frontier. The two nested loops run over the concatenation of the
  dependencies of the frontier.
\<close>

fun scan_level :: "'a \<Rightarrow> 'a list \<Rightarrow> 'a list \<Rightarrow> 'a list \<Rightarrow> ('a list \<times> 'a list) option" where
  "scan_level t [] seen nxt = Some (seen, nxt)"
| "scan_level t (dep # ds) seen nxt =
     (if dep = t then None
      else if dep \<notin> set seen then scan_level t ds (seen @ [dep]) (nxt @ [dep])
      else scan_level t ds seen nxt)"

fun depends_loop :: "'a adj \<Rightarrow> 'a \<Rightarrow> nat \<Rightarrow> 'a list \<Rightarrow> 'a list \<Rightarrow> bool" where
  "depends_loop d t 0 seen frontier = False"
| "depends_loop d t (Suc n) seen frontier =
     (case scan_level t (concat (map (nbrs d) frontier)) seen [] of
        None \<Rightarrow> True
      | Some (seen', nxt) \<Rightarrow> depends_loop d t n seen' nxt)"

definition depends_adj :: "'a adj \<Rightarrow> 'a \<Rightarrow> 'a \<Rightarrow> nat \<Rightarrow> bool" where
  "depends_adj d a b h = depends_loop d b h [a] [a]"

lemma scan_level_None: "scan_level t ds seen nxt = None \<longleftrightarrow> t \<in> set ds"
  by (induction ds arbitrary: seen nxt) auto

lemma scan_level_Some:
  "scan_level t ds seen nxt = Some (seen', nxt') \<Longrightarrow>
     set seen' = set seen \<union> set ds \<and> set nxt' = set nxt \<union> (set ds - set seen)"
  by (induction ds arbitrary: seen nxt) (auto split: if_splits)

lemma hops_leave:
  assumes "\<And>x. x \<in> S - F \<Longrightarrow> set (s x) \<subseteq> S \<and> t \<notin> set (s x)" and "F \<subseteq> S"
  shows "hops s n x t \<Longrightarrow> x \<in> S \<Longrightarrow> 1 \<le> n \<Longrightarrow>
    \<exists>f\<in>F. t \<in> set (s f) \<or> (\<exists>y\<in>set (s f) - S. \<exists>m. 1 \<le> m \<and> Suc m \<le> n \<and> hops s m y t)"
proof (induction n arbitrary: x)
  case (Suc n)
  then obtain z where z: "z \<in> set (s x)" "hops s n z t" by auto
  show ?case
  proof (cases "n = 0")
    case True
    with z have "t \<in> set (s x)" by simp
    with assms Suc.prems(2) show ?thesis by blast
  next
    case False
    show ?thesis
    proof (cases "z \<in> S")
      case True
      with Suc.IH [OF z(2)] False show ?thesis by (meson le_SucI less_one linorder_not_le)
    next
      case out: False
      with z(1) assms(1) [of x] Suc.prems(2) have "x \<in> F" by blast
      with out z False show ?thesis
        by (intro bexI [of _ x] disjI2 bexI [of _ z] exI [of _ n]) auto
    qed
  qed
qed simp

lemma depends_loop_sound:
  "depends_loop d t n seen F \<Longrightarrow> \<exists>f\<in>set F. \<exists>m. 1 \<le> m \<and> m \<le> n \<and> hops (nbrs d) m f t"
proof (induction n arbitrary: seen F)
  case (Suc n)
  let ?ds = "concat (map (nbrs d) F)"
  show ?case
  proof (cases "scan_level t ?ds seen []")
    case None
    then obtain f where f: "f \<in> set F" "t \<in> set (nbrs d f)" by (auto simp: scan_level_None)
    then have "hops (nbrs d) 1 f t" by simp
    with f show ?thesis by (intro bexI [of _ f] exI [of _ 1]) auto
  next
    case (Some p)
    then obtain seen' nxt where p: "scan_level t ?ds seen [] = Some (seen', nxt)" by (cases p) auto
    with Suc.prems have "depends_loop d t n seen' nxt" by simp
    then obtain y m where y: "y \<in> set nxt" "1 \<le> m" "m \<le> n" "hops (nbrs d) m y t"
      using Suc.IH by blast
    with scan_level_Some [OF p] obtain f where "f \<in> set F" "y \<in> set (nbrs d f)" by auto
    with y have "f \<in> set F" "hops (nbrs d) (Suc m) f t" by auto
    with y show ?thesis by (intro bexI [of _ f] exI [of _ "Suc m"]) auto
  qed
qed simp

lemma depends_loop_complete:
  assumes "set F \<subseteq> set seen"
    and "\<And>x. x \<in> set seen - set F \<Longrightarrow> set (nbrs d x) \<subseteq> set seen \<and> t \<notin> set (nbrs d x)"
    and "x \<in> set seen" "1 \<le> m" "m \<le> n" "hops (nbrs d) m x t"
  shows "depends_loop d t n seen F"
  using assms
proof (induction n arbitrary: seen F x m)
  case (Suc n)
  let ?ds = "concat (map (nbrs d) F)"
  show ?case
  proof (cases "scan_level t ?ds seen []")
    case None
    then show ?thesis by simp
  next
    case (Some p)
    then obtain seen' nxt where p: "scan_level t ?ds seen [] = Some (seen', nxt)" by (cases p) auto
    then have notin: "t \<notin> set ?ds" using scan_level_None [of t ?ds seen "[]"] by simp
    have sets: "set seen' = set seen \<union> set ?ds" "set nxt = set ?ds - set seen"
      using scan_level_Some [OF p] by auto
    obtain f where f: "f \<in> set F" "t \<in> set (nbrs d f) \<or>
        (\<exists>y\<in>set (nbrs d f) - set seen. \<exists>k. 1 \<le> k \<and> Suc k \<le> m \<and> hops (nbrs d) k y t)"
      using hops_leave [OF Suc.prems(2) Suc.prems(1) Suc.prems(6) Suc.prems(3) Suc.prems(4)] by blast
    with notin obtain y k where y: "y \<in> set nxt" "1 \<le> k" "Suc k \<le> m" "hops (nbrs d) k y t"
      using sets by auto
    have "depends_loop d t n seen' nxt"
    proof (rule Suc.IH)
      show "set nxt \<subseteq> set seen'" using sets by auto
      show "set (nbrs d v) \<subseteq> set seen' \<and> t \<notin> set (nbrs d v)" if "v \<in> set seen' - set nxt" for v
      proof (cases "v \<in> set F")
        case True
        then have "set (nbrs d v) \<subseteq> set ?ds" by auto
        with notin sets show ?thesis by auto
      next
        case False
        with that sets have "v \<in> set seen - set F" by auto
        with Suc.prems(2) sets show ?thesis by blast
      qed
      show "y \<in> set seen'" "1 \<le> k" "k \<le> n" "hops (nbrs d) k y t"
        using y sets Suc.prems(5) by auto
    qed
    with p show ?thesis by simp
  qed
qed simp

lemma depends_adj_iff:
  "depends_adj d a b h \<longleftrightarrow> (\<exists>n. 1 \<le> n \<and> n \<le> h \<and> hops (nbrs d) n a b)"
  unfolding depends_adj_def
  using depends_loop_sound [of d b h "[a]" "[a]"] depends_loop_complete [of "[a]" "[a]" d b a _ h]
  by auto

section \<open>The graph\<close>

record graph =
  g_nodes :: "(node, (string, string) dict) dict"
  g_adjacent :: "node adj"
  g_depends :: "node adj"
  g_alias :: "(node, node) dict"

definition empty_graph :: graph where
  "empty_graph = \<lparr>g_nodes = [], g_adjacent = [], g_depends = [], g_alias = []\<rparr>"

text \<open>
  \<open>_add\<close>: labels already known win, the exact id always names the node itself, and a label
  value names it only if nothing else claimed the name before.
\<close>

definition graph_add :: "entity \<Rightarrow> graph \<Rightarrow> graph" where
  "graph_add e g =
     (let node = entity_node e;
          merged = dict_merge (e_labels e) (case map_of (g_nodes g) node of None \<Rightarrow> [] | Some ls \<Rightarrow> ls)
      in g\<lparr>g_nodes := AList.update node merged (g_nodes g),
           g_alias := fold (\<lambda>v. set_default (e_type e, v) node) (vals merged)
                        (AList.update node node (g_alias g))\<rparr>)"

definition dependent_of :: "catalog \<Rightarrow> string \<Rightarrow> dependent" where
  "dependent_of cat rel =
     (case map_of (ent_relationships (cat_entities cat)) rel of
        None \<Rightarrow> DepBoth | Some r \<Rightarrow> rel_dependent r)"

definition graph_edge :: "catalog \<Rightarrow> topology_edge \<Rightarrow> graph \<Rightarrow> graph" where
  "graph_edge cat ed g0 =
     (let g = graph_add (t_target ed) (graph_add (t_source ed) g0);
          a = entity_node (t_source ed);
          b = entity_node (t_target ed);
          dep = dependent_of cat (t_rel ed);
          d1 = (if dep = DepSource \<or> dep = DepBoth then add_edge a b (g_depends g) else g_depends g);
          d2 = (if dep = DepTarget \<or> dep = DepBoth then add_edge b a d1 else d1)
      in g\<lparr>g_adjacent := add_edge b a (add_edge a b (g_adjacent g)), g_depends := d2\<rparr>)"

definition build_graph :: "catalog \<Rightarrow> topology_response option \<Rightarrow> graph" where
  "build_graph cat topo =
     (case topo of
        None \<Rightarrow> empty_graph
      | Some t \<Rightarrow> fold (graph_edge cat) (tr_relationships t)
                    (fold graph_add (tr_entities t) empty_graph))"

definition graph_bool :: "graph \<Rightarrow> bool" where
  "graph_bool g \<longleftrightarrow> g_nodes g \<noteq> []"

definition resolve :: "graph \<Rightarrow> string \<Rightarrow> string \<Rightarrow> node option" where
  "resolve g etype eid = map_of (g_alias g) (etype, eid)"

definition aliases :: "graph \<Rightarrow> node \<Rightarrow> string list" where
  "aliases g node =
     snd node # sorted_set (filter (\<lambda>v. v \<noteq> [] \<and> v \<noteq> snd node)
       (vals (case map_of (g_nodes g) node of None \<Rightarrow> [] | Some ls \<Rightarrow> ls)))"

definition walk :: "graph \<Rightarrow> node \<Rightarrow> nat \<Rightarrow> (node, node list) dict" where
  "walk g start max_hops = walk_adj (g_adjacent g) start max_hops"

definition depends_on :: "graph \<Rightarrow> node \<Rightarrow> node \<Rightarrow> nat \<Rightarrow> bool" where
  "depends_on g a b max_hops = depends_adj (g_depends g) a b max_hops"

subsection \<open>Invariant\<close>

definition alias_inv :: "graph \<Rightarrow> bool" where
  "alias_inv g \<longleftrightarrow>
     (\<forall>n\<in>set (keys (g_nodes g)). map_of (g_alias g) n = Some n)
     \<and> (\<forall>k n. map_of (g_alias g) k = Some n \<longrightarrow> n \<in> set (keys (g_nodes g)) \<and> fst n = fst k)"

definition adjacent_inv :: "graph \<Rightarrow> bool" where
  "adjacent_inv g \<longleftrightarrow>
     (\<forall>x y. y \<in> set (nbrs (g_adjacent g) x) \<longrightarrow>
        x \<in> set (nbrs (g_adjacent g) y) \<and> x \<in> set (keys (g_nodes g)) \<and> y \<in> set (keys (g_nodes g)))"

definition depends_inv :: "graph \<Rightarrow> bool" where
  "depends_inv g \<longleftrightarrow> (\<forall>x. set (nbrs (g_depends g) x) \<subseteq> set (nbrs (g_adjacent g) x))"

definition graph_inv :: "graph \<Rightarrow> bool" where
  "graph_inv g \<longleftrightarrow> alias_inv g \<and> adjacent_inv g \<and> depends_inv g"

lemmas graph_inv_defs = graph_inv_def alias_inv_def adjacent_inv_def depends_inv_def

lemma graph_inv_empty: "graph_inv empty_graph"
  by (simp add: graph_inv_defs empty_graph_def keys_def)

lemma map_of_alias_fold:
  "map_of (fold (\<lambda>v. set_default (t, v) node) vs d) k =
     (case map_of d k of Some n \<Rightarrow> Some n
      | None \<Rightarrow> if fst k = t \<and> snd k \<in> set vs then Some node else None)"
proof (induction vs arbitrary: d)
  case (Cons v vs)
  show ?case
    by (simp add: Cons.IH dict_simps) (auto split: option.splits)
qed (auto split: option.splits)

lemma graph_add_nodes: "set (keys (g_nodes (graph_add e g))) = insert (entity_node e) (set (keys (g_nodes g)))"
  by (simp add: graph_add_def Let_def keys_update)

lemma graph_add_frame [simp]:
  "g_adjacent (graph_add e g) = g_adjacent g" "g_depends (graph_add e g) = g_depends g"
  by (simp_all add: graph_add_def Let_def)

lemma graph_add_alias:
  "\<exists>vs. map_of (g_alias (graph_add e g)) k =
     (if k = entity_node e then Some (entity_node e)
      else case map_of (g_alias g) k of Some n \<Rightarrow> Some n
           | None \<Rightarrow> if fst k = e_type e \<and> snd k \<in> set vs then Some (entity_node e) else None)"
  unfolding graph_add_def Let_def
  by (simp add: map_of_alias_fold map_of_AList_update) (metis)

lemma alias_inv_add: "alias_inv g \<Longrightarrow> alias_inv (graph_add e g)"
proof -
  assume inv: "alias_inv g"
  let ?g = "graph_add e g"
  have known: "map_of (g_alias g) n = Some n" if "n \<in> set (keys (g_nodes g))" for n
    using inv that unfolding alias_inv_def by blast
  have bk: "n \<in> set (keys (g_nodes g)) \<and> fst n = fst k" if "map_of (g_alias g) k = Some n" for n k
    using inv that unfolding alias_inv_def by blast
  have "map_of (g_alias ?g) n = Some n" if n: "n \<in> set (keys (g_nodes ?g))" for n
    using graph_add_alias [of e g n] n known [of n]
    by (cases "n = entity_node e") (auto simp: graph_add_nodes)
  moreover have "n \<in> set (keys (g_nodes ?g)) \<and> fst n = fst k" if a: "map_of (g_alias ?g) k = Some n" for k n
  proof (cases "map_of (g_alias g) k")
    case None
    with a graph_add_alias [of e g k] show ?thesis
      by (auto simp: graph_add_nodes split: if_splits)
  next
    case (Some m)
    with a graph_add_alias [of e g k] bk [OF Some] show ?thesis
      by (auto simp: graph_add_nodes split: if_splits)
  qed
  ultimately show ?thesis unfolding alias_inv_def by blast
qed

lemma graph_inv_add: "graph_inv g \<Longrightarrow> graph_inv (graph_add e g)"
  by (auto simp: graph_inv_def alias_inv_add adjacent_inv_def depends_inv_def graph_add_nodes)

lemma nbrs_add_both:
  "set (nbrs (add_edge b a (add_edge a b d)) x) =
     set (nbrs d x) \<union> (if x = a then {b} else {}) \<union> (if x = b then {a} else {})"
  by (auto simp: nbrs_add_edge)

lemma graph_inv_edge: "graph_inv g \<Longrightarrow> graph_inv (graph_edge cat ed g)"
proof -
  assume "graph_inv g"
  define g' where "g' = graph_add (t_target ed) (graph_add (t_source ed) g)"
  let ?a = "entity_node (t_source ed)" and ?b = "entity_node (t_target ed)"
  have inv: "graph_inv g'" using \<open>graph_inv g\<close> by (simp add: g'_def graph_inv_add)
  have nodes: "?a \<in> set (keys (g_nodes g'))" "?b \<in> set (keys (g_nodes g'))"
    by (simp_all add: g'_def graph_add_nodes)
  let ?g = "graph_edge cat ed g"
  have frame: "g_nodes ?g = g_nodes g'" "g_alias ?g = g_alias g'"
    "g_adjacent ?g = add_edge ?b ?a (add_edge ?a ?b (g_adjacent g'))"
    by (simp_all add: graph_edge_def Let_def g'_def)
  have dep: "set (nbrs (g_depends ?g) x) \<subseteq>
      set (nbrs (g_depends g') x) \<union> (if x = ?a then {?b} else {}) \<union> (if x = ?b then {?a} else {})" for x
    by (auto simp: graph_edge_def Let_def g'_def nbrs_add_edge)
  have "alias_inv ?g" using inv by (simp add: graph_inv_def alias_inv_def frame)
  moreover have "adjacent_inv ?g"
    using inv nodes by (auto simp: graph_inv_def adjacent_inv_def frame nbrs_add_both)
  moreover have "depends_inv ?g"
    unfolding depends_inv_def frame nbrs_add_both
  proof
    fix x
    have "set (nbrs (g_depends g') x) \<subseteq> set (nbrs (g_adjacent g') x)"
      using inv unfolding graph_inv_def depends_inv_def by blast
    with dep [of x] show "set (nbrs (g_depends ?g) x) \<subseteq> set (nbrs (g_adjacent g') x)
        \<union> (if x = ?a then {?b} else {}) \<union> (if x = ?b then {?a} else {})" by blast
  qed
  ultimately show ?thesis by (simp add: graph_inv_def)
qed

lemma graph_inv_build: "graph_inv (build_graph cat topo)"
proof -
  have "graph_inv (fold graph_add es g)" if "graph_inv g" for es g
    using that by (induction es arbitrary: g) (auto simp: graph_inv_add)
  moreover have "graph_inv (fold (graph_edge cat) es g)" if "graph_inv g" for es g
    using that by (induction es arbitrary: g) (auto simp: graph_inv_edge)
  ultimately show ?thesis
    by (auto simp: build_graph_def graph_inv_empty split: option.splits)
qed


section \<open>The topology interface\<close>

text \<open>
  What the planner, the ranker and the hypothesis checks rely on: names resolve to nodes of
  their type, walks give shortest connecting paths within the hop limit, and what a node
  depends on within the limit is also within walking distance.
\<close>

locale topology_view =
  fixes known :: "node \<Rightarrow> bool"
    and find_node :: "string \<Rightarrow> string \<Rightarrow> node option"
    and edge :: "node \<Rightarrow> node list"
    and upstream :: "node \<Rightarrow> node \<Rightarrow> nat \<Rightarrow> bool"
    and walk_from :: "node \<Rightarrow> nat \<Rightarrow> (node, node list) dict"
  assumes find_known: "find_node t i = Some n \<Longrightarrow> known n \<and> fst n = t"
    and find_self: "known n \<Longrightarrow> find_node (fst n) (snd n) = Some n"
    and walk_sound: "(v, p) \<in> set (walk_from s h) \<Longrightarrow>
          p \<noteq> [] \<and> hd p = s \<and> last p = v \<and> length p \<le> Suc h \<and> successively (\<lambda>x y. y \<in> set (edge x)) p"
    and walk_shortest: "hops edge k s v \<Longrightarrow> k \<le> h \<Longrightarrow>
          \<exists>p. (v, p) \<in> set (walk_from s h) \<and> length p \<le> Suc k"
    and walk_functional: "(v, p) \<in> set (walk_from s h) \<Longrightarrow> (v, p') \<in> set (walk_from s h) \<Longrightarrow> p = p'"
    and upstream_walk: "upstream a b h \<Longrightarrow> \<exists>k. 1 \<le> k \<and> k \<le> h \<and> hops edge k a b"
begin

lemma walk_start: "(s, [s]) \<in> set (walk_from s h)"
proof -
  obtain p where "(s, p) \<in> set (walk_from s h)" "length p \<le> 1"
    using walk_shortest [of 0 s s h] by auto
  then show ?thesis using walk_sound [of s p s h] by (cases p) auto
qed

lemma walk_minimal:
  assumes "(v, p) \<in> set (walk_from s h)" and "hops edge k s v"
  shows "length p \<le> Suc k"
proof (cases "k \<le> h")
  case True
  with assms walk_shortest walk_functional show ?thesis by blast
next
  case False
  with walk_sound [OF assms(1)] show ?thesis by linarith
qed

lemma upstream_in_walk: "upstream a b h \<Longrightarrow> \<exists>p. (b, p) \<in> set (walk_from a h)"
  using upstream_walk walk_shortest by blast

lemma find_twice: "find_node t i = Some n \<Longrightarrow> find_node (fst n) (snd n) = Some n"
  using find_known find_self by blast

end

lemma depends_on_hops: "depends_on g a b h \<longleftrightarrow> (\<exists>k. 1 \<le> k \<and> k \<le> h \<and> hops (nbrs (g_depends g)) k a b)"
  by (simp add: depends_on_def depends_adj_iff)

interpretation topo: topology_view
  "\<lambda>n. n \<in> set (keys (g_nodes (build_graph cat t)))" "resolve (build_graph cat t)"
  "nbrs (g_adjacent (build_graph cat t))" "depends_on (build_graph cat t)" "walk (build_graph cat t)"
  for cat t
proof
  let ?g = "build_graph cat t"
  have inv: "alias_inv ?g" "depends_inv ?g"
    using graph_inv_build [of cat t] by (simp_all add: graph_inv_def)
  show "n \<in> set (keys (g_nodes ?g)) \<and> fst n = ty" if "resolve ?g ty i = Some n" for ty i n
    using inv(1) that unfolding alias_inv_def resolve_def by (metis fst_conv)
  show "resolve ?g (fst n) (snd n) = Some n" if "n \<in> set (keys (g_nodes ?g))" for n
    using inv(1) that unfolding alias_inv_def resolve_def prod.collapse by blast
  show "p \<noteq> [] \<and> hd p = s \<and> last p = v \<and> length p \<le> Suc h
      \<and> successively (\<lambda>x y. y \<in> set (nbrs (g_adjacent ?g) x)) p" if "(v, p) \<in> set (walk ?g s h)" for v p s h
    using walk_adj_path that unfolding walk_def path_ok_def by blast
  show "\<exists>p. (v, p) \<in> set (walk ?g s h) \<and> length p \<le> Suc k"
    if "hops (nbrs (g_adjacent ?g)) k s v" "k \<le> h" for k s v h
    using walk_adj_reaches that unfolding walk_def by blast
  show "p = p'" if "(v, p) \<in> set (walk ?g s h)" "(v, p') \<in> set (walk ?g s h)" for v p p' s h
    using that unfolding walk_def map_of_walk_adj by simp
  show "\<exists>k. 1 \<le> k \<and> k \<le> h \<and> hops (nbrs (g_adjacent ?g)) k a b" if "depends_on ?g a b h" for a b h
    using that hops_mono [of "nbrs (g_depends ?g)" "nbrs (g_adjacent ?g)"] inv(2)
    unfolding depends_on_hops depends_inv_def by blast
qed

section \<open>Properties\<close>

definition ex_topo :: topology_response where
  "ex_topo = \<lparr>tr_region = ''us-east-1'', tr_entities = [],
     tr_relationships =
       [\<lparr>t_rel = ''r'', t_source = ex_ent ''a'' ''1'', t_target = ex_ent ''b'' ''2'', t_attributes = []\<rparr>,
        \<lparr>t_rel = ''r'', t_source = ex_ent ''b'' ''2'', t_target = ex_ent ''c'' ''3'', t_attributes = []\<rparr>],
     tr_coverage = []\<rparr>"

text \<open>
  C36: The walk is a correct breadth-first search of any topology: it lists a node exactly when
  some path of at most \<open>max_hops\<close> relationships connects it to the start, and the path it
  records runs from the start to the node along relationships and is a shortest one.
\<close>
theorem walk_is_shortest_path_search:
  "(v \<in> fst ` set (walk (build_graph cat t) s h)
      \<longleftrightarrow> (\<exists>k\<le>h. hops (nbrs (g_adjacent (build_graph cat t))) k s v))
   \<and> ((v, p) \<in> set (walk (build_graph cat t) s h) \<longrightarrow>
       path_ok (g_adjacent (build_graph cat t)) s h v p
       \<and> hops (nbrs (g_adjacent (build_graph cat t))) (length p - 1) s v
       \<and> (\<forall>k. hops (nbrs (g_adjacent (build_graph cat t))) k s v \<longrightarrow> length p - 1 \<le> k))"
  (is "?dom \<and> ?path")
proof
  let ?g = "g_adjacent (build_graph cat t)" and ?w = "walk (build_graph cat t) s h"
  have ok: "path_ok ?g s h v q" if "(v, q) \<in> set ?w" for q
    using walk_adj_path that by (simp add: walk_def)
  have hp: "hops (nbrs ?g) (length q - 1) s v" if "(v, q) \<in> set ?w" for q
    by (rule path_ok_hops [OF ok [OF that]])
  show ?dom
  proof
    assume "v \<in> fst ` set ?w"
    then obtain q where q: "(v, q) \<in> set ?w" by force
    have "length q - 1 \<le> h" using ok [OF q] unfolding path_ok_def by linarith
    with hp [OF q] show "\<exists>k\<le>h. hops (nbrs ?g) k s v" by blast
  next
    assume "\<exists>k\<le>h. hops (nbrs ?g) k s v"
    then obtain q where "(v, q) \<in> set ?w" using topo.walk_shortest by blast
    then show "v \<in> fst ` set ?w" by (rule image_eqI [rotated]) simp
  qed
  show ?path
  proof
    assume p: "(v, p) \<in> set ?w"
    have "length p - 1 \<le> k" if "hops (nbrs ?g) k s v" for k
      using topo.walk_minimal [OF p that] by linarith
    with ok [OF p] hp [OF p]
    show "path_ok ?g s h v p \<and> hops (nbrs ?g) (length p - 1) s v
        \<and> (\<forall>k. hops (nbrs ?g) k s v \<longrightarrow> length p - 1 \<le> k)"
      by blast
  qed
qed

theorem walk_is_shortest_path_search_witness:
  "(''c'', ''3'') \<in> fst ` set (walk (build_graph ex_cat (Some ex_topo)) (''a'', ''1'') 2)
    \<and> path_ok (g_adjacent (build_graph ex_cat (Some ex_topo))) (''a'', ''1'') 2 (''c'', ''3'')
        [(''a'', ''1''), (''b'', ''2''), (''c'', ''3'')]"
proof -
  have mem: "((''c'', ''3''), [(''a'', ''1''), (''b'', ''2''), (''c'', ''3'')])
      \<in> set (walk (build_graph ex_cat (Some ex_topo)) (''a'', ''1'') 2)"
    by code_simp
  then show ?thesis
    using walk_is_shortest_path_search [of "(''c'', ''3'')" ex_cat "Some ex_topo" "(''a'', ''1'')" 2
        "[(''a'', ''1''), (''b'', ''2''), (''c'', ''3'')]"] by force
qed

text \<open>
  \<open>depends_on\<close> answers exactly "is the second node reachable from the first along one to
  \<open>max_hops\<close> dependency edges": the seen set and the early return lose nothing.
\<close>

lemma depends_on_iff_reachable:
  "depends_on g a b h \<longleftrightarrow> (\<exists>k. 1 \<le> k \<and> k \<le> h \<and> hops (nbrs (g_depends g)) k a b)"
  by (rule depends_on_hops)

text \<open>
  In every graph built from a topology, aliases never shadow entities: a name resolves to a
  node of the type asked for, an entity's own id resolves to that entity whatever label of
  another entity equals it, adjacency is symmetric, and dependencies are a subset of it.
\<close>

lemma build_graph_well_formed:
  "graph_inv (build_graph cat t)"
  by (rule graph_inv_build)

end
