(* ===== verification/Investigate.thy ===== *)
theory Investigate
  imports Findings Topology
begin

text \<open>
  Collaboration reasoning over topology (\<open>detection/investigate.py\<close>): which questions an
  agent asks, how a scoped answer is read and absorbed, how candidate causes are ranked and
  what the incident's live status is. The request id, a SHA-1 digest of target, node and
  window, is the parameter \<open>digest\<close>; the question's prose is not modelled.
\<close>

section \<open>Questions\<close>

type_synonym digest = "string \<Rightarrow> node \<Rightarrow> time \<Rightarrow> time \<Rightarrow> string"

record anchor =
  an_node :: node
  an_first_seen :: time
  an_origin :: origin

definition anchor_rows :: "agent_finding \<Rightarrow> evidence_row list" where
  "anchor_rows f = filter (\<lambda>r. ev_type r \<noteq> [] \<and> ev_id r \<noteq> []) (af_evidence f)"

definition covered :: "agent_finding list \<Rightarrow> string \<Rightarrow> graph \<Rightarrow> node \<Rightarrow> bool" where
  "covered peers domain g n =
     list_ex (\<lambda>p. af_domain p = domain \<and> list_ex (\<lambda>r. resolve g (ev_type r) (ev_id r) = Some n) (af_evidence p)) peers"

definition probes_of :: "catalog \<Rightarrow> string \<Rightarrow> string list" where
  "probes_of cat etype =
     (case map_of (iv_probes (cat_investigation cat)) etype of None \<Rightarrow> [] | Some ds \<Rightarrow> ds)"

definition evidence_anchors :: "graph \<Rightarrow> agent_finding option \<Rightarrow> anchor list" where
  "evidence_anchors g own =
     (case own of
        None \<Rightarrow> []
      | Some f \<Rightarrow> if \<not> af_anomaly f then [] else
          List.map_filter (\<lambda>r. map_option
            (\<lambda>n. \<lparr>an_node = n, an_first_seen = ev_first_seen r, an_origin = FromEvidence\<rparr>)
            (resolve g (ev_type r) (ev_id r))) (anchor_rows f))"

definition lead_anchors :: "graph \<Rightarrow> time \<Rightarrow> lead list \<Rightarrow> anchor list" where
  "lead_anchors g wend ls =
     List.map_filter (\<lambda>l. map_option
       (\<lambda>n. \<lparr>an_node = n, an_first_seen = (case ld_seen_at l of None \<Rightarrow> wend | Some t \<Rightarrow> t), an_origin = FromLead\<rparr>)
       (resolve g (fst (ld_node l)) (snd (ld_node l)))) ls"

definition alarm_anchors :: "catalog \<Rightarrow> graph \<Rightarrow> string \<Rightarrow> time \<Rightarrow> anchor list \<Rightarrow> node list \<Rightarrow> anchor list" where
  "alarm_anchors cat g domain wend known alarms =
     List.map_filter (\<lambda>e. case resolve g (fst e) (snd e) of
         None \<Rightarrow> None
       | Some n \<Rightarrow> if n \<notin> an_node ` set known \<and> domain \<in> set (probes_of cat (fst n))
                  then Some \<lparr>an_node = n, an_first_seen = wend, an_origin = FromAlarm\<rparr> else None) alarms"

definition anchors_of :: "catalog \<Rightarrow> graph \<Rightarrow> string \<Rightarrow> agent_finding option \<Rightarrow> lead list \<Rightarrow> time \<Rightarrow> node list \<Rightarrow> anchor list" where
  "anchors_of cat g domain own leads wend alarms =
     (let known = evidence_anchors g own @ lead_anchors g wend leads
      in known @ alarm_anchors cat g domain wend known alarms)"

record plan_env =
  pe_domain :: string
  pe_peers :: "agent_finding list"
  pe_wstart :: time
  pe_wend :: time
  pe_asked :: "string list"

definition question_start :: "catalog \<Rightarrow> plan_env \<Rightarrow> anchor \<Rightarrow> time" where
  "question_start cat env a =
     min (an_first_seen a) (pe_wstart env) - minutes (int (iv_lookback_minutes (cat_investigation cat)))"

definition mk_request :: "digest \<Rightarrow> catalog \<Rightarrow> graph \<Rightarrow> plan_env \<Rightarrow> anchor \<Rightarrow> node list \<Rightarrow> node \<Rightarrow> string \<Rightarrow> request" where
  "mk_request dg cat g env a path n target =
     \<lparr>rq_id = dg target n (question_start cat env a) (pe_wend env), rq_target = target, rq_sender = None,
      rq_entity = n, rq_filters = map (\<lambda>al. (fst n, al)) (aliases g n),
      rq_start = question_start cat env a, rq_end = pe_wend env,
      rq_anchor = an_node a, rq_origin = an_origin a, rq_path = path, rq_hops = length path - 1,
      rq_hypothesis = None\<rparr>"

text \<open>The innermost loop body: what is asked about one entity from one anchor, per domain.\<close>

definition plan_step :: "digest \<Rightarrow> catalog \<Rightarrow> graph \<Rightarrow> plan_env \<Rightarrow> anchor \<times> node \<times> node list \<times> string
    \<Rightarrow> (string \<times> node, request) dict \<Rightarrow> (string \<times> node, request) dict" where
  "plan_step dg cat g env x cands =
     (case x of (a, n, path, target) \<Rightarrow>
        if target = pe_domain env \<or> map_of (cat_domains cat) target = None then cands
        else if covered (pe_peers env) target g n then cands
        else
          let r = mk_request dg cat g env a path n target in
          if rq_id r \<in> set (pe_asked env) then cands
          else (case map_of cands (target, n) of
                  Some k \<Rightarrow> if rq_hops k \<le> rq_hops r then cands else AList.update (target, n) r cands
                | None \<Rightarrow> AList.update (target, n) r cands))"

definition plan_items :: "catalog \<Rightarrow> graph \<Rightarrow> anchor list \<Rightarrow> (anchor \<times> node \<times> node list \<times> string) list" where
  "plan_items cat g as =
     concat (map (\<lambda>a. concat (map (\<lambda>(n, path).
         if length path - 1 \<noteq> 0 \<and> \<not> depends_on g (an_node a) n (iv_max_hops (cat_investigation cat)) then []
         else map (\<lambda>t. (a, n, path, t)) (probes_of cat (fst n)))
       (walk g (an_node a) (iv_max_hops (cat_investigation cat))))) as)"

definition request_order :: "request \<Rightarrow> nat \<times> string \<times> string \<times> string" where
  "request_order r = (rq_hops r, rq_target r, fst (rq_entity r), snd (rq_entity r))"

definition plan_requests :: "digest \<Rightarrow> string \<Rightarrow> agent_finding option \<Rightarrow> agent_finding list
    \<Rightarrow> topology_response option \<Rightarrow> catalog \<Rightarrow> time \<Rightarrow> time \<Rightarrow> node list \<Rightarrow> lead list \<Rightarrow> string list \<Rightarrow> request list" where
  "plan_requests dg domain own peers topo cat wstart wend alarms leads asked =
     (let g = build_graph cat topo in
      if \<not> graph_bool g then []
      else
        let env = \<lparr>pe_domain = domain, pe_peers = peers, pe_wstart = wstart, pe_wend = wend, pe_asked = asked\<rparr>;
            as = anchors_of cat g domain own leads wend alarms;
            cands = fold (plan_step dg cat g env) (plan_items cat g as) []
        in take (iv_max_requests (cat_investigation cat)) (sort_key request_order (vals cands)))"

section \<open>Reading answers\<close>

definition read_verdict :: "agent_finding \<Rightarrow> verdict" where
  "read_verdict f =
     (if af_degraded f \<and> \<not> af_anomaly f then Inconclusive
      else if af_anomaly f \<and> af_evidence f \<noteq> [] then Supported else Refuted)"

text \<open>Every string inside a value, as \<open>_strings\<close> yields them.\<close>

fun strings_in :: "(pyval \<Rightarrow> string) \<Rightarrow> pyval \<Rightarrow> string list" where
  "strings_in F (PDict d) = concat (map (\<lambda>(k, v). strings_in F v) d)"
| "strings_in F (PList xs) = concat (map (strings_in F) xs)"
| "strings_in F PNone = []"
| "strings_in F v = [py_str F v]"

text \<open>
  \<open>find_leads\<close>: \<open>findall p text\<close> are the matches of the regular expression \<open>p\<close> (parameter).
  The event's timestamp is its \<open>seen_at\<close>.
\<close>

definition event_time :: "key_event \<Rightarrow> time option" where
  "event_time e = (case map_of (ke_fields e) ''timestamp'' of Some (PTime t) \<Rightarrow> Some t | _ \<Rightarrow> None)"

definition event_leads :: "(string \<Rightarrow> string \<Rightarrow> string list) \<Rightarrow> (pyval \<Rightarrow> string) \<Rightarrow> catalog \<Rightarrow> key_event \<Rightarrow> lead list" where
  "event_leads findall F cat e =
     (if ke_rules e = [] then []
      else concat (map (\<lambda>text. concat (map (\<lambda>(pattern, etype).
             map (\<lambda>m. \<lparr>ld_node = (etype, m), ld_seen_at = event_time e\<rparr>) (findall pattern text))
             (iv_lead_patterns (cat_investigation cat))))
           (strings_in F (PDict (filter (\<lambda>(k, _). k \<noteq> ''rules_fired'' \<and> k \<noteq> ''evidence_refs'')
             (dict_merge (ke_fields e) (count_field e)))))))"

definition find_leads :: "(string \<Rightarrow> string \<Rightarrow> string list) \<Rightarrow> (pyval \<Rightarrow> string) \<Rightarrow> agent_finding \<Rightarrow> catalog
    \<Rightarrow> node list \<Rightarrow> lead list" where
  "find_leads findall F f cat exclude =
     (let found = map (\<lambda>r. \<lparr>ld_node = ev_node r, ld_seen_at = Some (ev_first_seen r)\<rparr>) (af_evidence f)
                  @ concat (map (event_leads findall F cat) (af_key_events f))
      in vals (fold (\<lambda>l. set_default (ld_node l) l) (filter (\<lambda>l. ld_node l \<notin> set exclude) found) []))"

section \<open>Absorbing answers\<close>

record absorb_state =
  as_finding :: agent_finding
  as_known :: "(string \<times> string \<times> string list) list"
  as_refs :: "string list"
  as_notes :: "string list"

definition new_rows :: "absorb_state \<Rightarrow> agent_finding \<Rightarrow> evidence_row list" where
  "new_rows st scoped = filter (\<lambda>r. row_key r \<notin> set (as_known st)) (af_evidence scoped)"

definition tag_row :: "request \<Rightarrow> evidence_row \<Rightarrow> evidence_row" where
  "tag_row rq r = r\<lparr>ev_via := (case ev_via r of None \<Rightarrow> Some ViaValidation | Some v \<Rightarrow> Some v),
     ev_requested_by := rq_sender rq, ev_request_id := Some (rq_id rq)\<rparr>"

fun add_key_events :: "key_event list \<Rightarrow> key_event list \<times> string list \<Rightarrow> key_event list \<times> string list" where
  "add_key_events [] st = st"
| "add_key_events (e # es) (kes, refs) =
     add_key_events es
       (if ke_rules e \<noteq> [] \<and> set (ke_refs e) \<inter> set refs = {} then (kes @ [e], refs @ ke_refs e) else (kes, refs))"

text \<open>The note names the entity, the asker and the new signals; its prose is a parameter.\<close>

type_synonym note_text = "request \<Rightarrow> string list \<Rightarrow> string"

definition absorb_one :: "note_text \<Rightarrow> request \<times> agent_finding \<Rightarrow> absorb_state \<Rightarrow> absorb_state" where
  "absorb_one prose ans st =
     (case ans of (rq, scoped) \<Rightarrow>
        let rows = new_rows st scoped in
        if rows = [] then st
        else
          let f = as_finding st;
              (kes, refs) = add_key_events (af_key_events scoped) (af_key_events f, as_refs st);
              f1 = f\<lparr>af_evidence := af_evidence f @ map (tag_row rq) rows, af_key_events := kes\<rparr>;
              f2 = (if \<not> af_anomaly f1
                    then f1\<lparr>af_anomaly := True, af_confidence := af_confidence scoped,
                            af_start := af_start scoped, af_end := af_end scoped\<rparr>
                    else f1\<lparr>af_confidence := max (af_confidence f1) (af_confidence scoped),
                            af_start := min (af_start f1) (af_start scoped)\<rparr>)
          in \<lparr>as_finding = f2, as_known = as_known st @ map row_key rows, as_refs = refs,
              as_notes = as_notes st @ [prose rq (sorted_set (concat (map ev_signals rows)))]\<rparr>)"

definition absorb_start :: "agent_finding \<Rightarrow> absorb_state" where
  "absorb_start f = \<lparr>as_finding = f, as_known = map row_key (af_evidence f),
     as_refs = concat (map ke_refs (af_key_events f)), as_notes = []\<rparr>"

definition cause_first :: "catalog \<Rightarrow> key_event \<Rightarrow> nat" where
  "cause_first cat e = (if list_ex (\<lambda>r. signal_role cat (rf_signal r) = Some Cause) (ke_rules e) then 0 else 1)"

definition absorb :: "note_text \<Rightarrow> agent_finding \<Rightarrow> (request \<times> agent_finding) list \<Rightarrow> catalog \<Rightarrow> nat option \<Rightarrow> agent_finding" where
  "absorb prose f answers cat limit =
     (let st = fold (absorb_one prose) answers (absorb_start f)
      in if as_notes st = [] then f
         else
           let r = as_finding st;
               kes = sort_key (cause_first cat) (af_key_events r);
               kes' = (case limit of None \<Rightarrow> kes | Some l \<Rightarrow> take (max l 1 + length (as_notes st)) kes)
           in r\<lparr>af_key_events := kes',
                af_summary := af_summary r @ ''. Peer validation: '' @ join_with ''; '' (as_notes st),
                af_revised := True, af_revision_count := Suc (af_revision_count r)\<rparr>)"

section \<open>Ranking causes\<close>

definition targets_of :: "agent_finding list \<Rightarrow> graph \<Rightarrow> node list \<Rightarrow> node list" where
  "targets_of fs g alarms =
     (let ns = uniq (List.map_filter (\<lambda>e. resolve g (fst e) (snd e)) alarms)
      in if ns \<noteq> [] then ns
         else uniq (concat (map (\<lambda>f. List.map_filter (\<lambda>r. if ev_role r = Some Symptom
                       then resolve g (ev_type r) (ev_id r) else None) (af_evidence f)) fs)))"

definition PRECEDENCE_FULL_SECONDS :: real where "PRECEDENCE_FULL_SECONDS = 300"
definition CONNECTED_ONLY :: real where "CONNECTED_ONLY = 1 / 10"
definition PRECEDENCE_SLACK_SECONDS :: real where "PRECEDENCE_SLACK_SECONDS = 120"

definition precedence :: "time \<Rightarrow> time \<Rightarrow> real" where
  "precedence first_seen onset =
     (let before = real_of_int (onset - first_seen) / 1000000
      in if before < - PRECEDENCE_SLACK_SECONDS then 0
         else if before \<le> PRECEDENCE_FULL_SECONDS then 1
         else py_round 3 (PRECEDENCE_FULL_SECONDS / before))"

fun severity_score :: "severity \<Rightarrow> real" where
  "severity_score Debug = 1 / 10"
| "severity_score Info = 1 / 4"
| "severity_score Warning = 1 / 2"
| "severity_score Error = 3 / 4"
| "severity_score Critical = 1"

fun role_score :: "role option \<Rightarrow> real" where
  "role_score (Some Cause) = 1"
| "role_score None = 1 / 2"
| "role_score (Some Symptom) = 0"

record group =
  gr_rows :: "evidence_row list"
  gr_confidence :: real

definition add_row :: "graph \<Rightarrow> agent_finding \<Rightarrow> evidence_row \<Rightarrow> (node \<times> string, group) dict
    \<Rightarrow> (node \<times> string, group) dict" where
  "add_row g f r d =
     (case resolve g (ev_type r) (ev_id r) of
        None \<Rightarrow> d
      | Some n \<Rightarrow>
          (let gr = (case map_of d (n, af_domain f) of
                       None \<Rightarrow> \<lparr>gr_rows = [], gr_confidence = af_confidence f\<rparr> | Some gr \<Rightarrow> gr)
           in AList.update (n, af_domain f) (gr\<lparr>gr_rows := gr_rows gr @ [r]\<rparr>) d))"

definition group_rows :: "agent_finding list \<Rightarrow> graph \<Rightarrow> (node \<times> string, group) dict" where
  "group_rows fs g = fold (\<lambda>f. fold (add_row g f) (af_evidence f)) fs []"

definition row_onset :: "evidence_row \<Rightarrow> time" where
  "row_onset r = (case ev_onset r of None \<Rightarrow> ev_first_seen r | Some t \<Rightarrow> t)"

text \<open>\<open>latest\<close> and \<open>min\<close> over a non-empty list of rows.\<close>

definition latest :: "evidence_row list \<Rightarrow> time" where
  "latest rows = (case map row_onset rows of [] \<Rightarrow> 0 | t # ts \<Rightarrow> max_list t ts)"

definition first_seen :: "evidence_row list \<Rightarrow> time" where
  "first_seen rows = (case map ev_first_seen rows of [] \<Rightarrow> 0 | t # ts \<Rightarrow> min_list1 t ts)"

definition incident_onset :: "(node \<times> string, group) dict \<Rightarrow> node list \<Rightarrow> time option" where
  "incident_onset grouped targets =
     (let per_target = map (\<lambda>((n, _), gr). latest (gr_rows gr)) (filter (\<lambda>((n, _), _). n \<in> set targets) grouped);
          per = (if per_target = []
                 then concat (map (\<lambda>(_, gr). List.map_filter (\<lambda>r. if ev_role r = Some Symptom then Some (row_onset r) else None)
                        (gr_rows gr)) grouped)
                 else per_target)
      in case per of [] \<Rightarrow> None | t # ts \<Rightarrow> Some (min_list1 t ts))"

definition group_role :: "evidence_row list \<Rightarrow> role option" where
  "group_role rows =
     (let roles = ev_role ` set rows
      in if Some Cause \<in> roles then Some Cause else if None \<in> roles then None else Some Symptom)"

definition evidence_score :: "group \<Rightarrow> nat \<Rightarrow> real" where
  "evidence_score gr nsignals =
     (let sev = (case map (severity_score \<circ> ev_severity) (gr_rows gr) of [] \<Rightarrow> 0 | x # xs \<Rightarrow> max_list x xs)
      in min 1 (1 / 2 * sev + 15 / 100 * real (min nsignals 2) + 1 / 4 * gr_confidence gr))"

definition topo_step :: "graph \<Rightarrow> nat \<Rightarrow> node \<Rightarrow> node \<Rightarrow> real \<times> node list option \<Rightarrow> real \<times> node list option" where
  "topo_step g h n t st =
     (case st of (topo, best) \<Rightarrow>
        let best' = (case map_of (walk g t h) n of
                       None \<Rightarrow> best
                     | Some p \<Rightarrow> (case best of None \<Rightarrow> Some p | Some b \<Rightarrow> if length p < length b then Some p else Some b))
        in (if depends_on g t n h then 1 else topo, best'))"

definition topo_score :: "graph \<Rightarrow> nat \<Rightarrow> node list \<Rightarrow> node \<Rightarrow> real \<times> node list" where
  "topo_score g h targets n =
     (if targets = [] then (1 / 2, [])
      else if n \<in> set targets then (3 / 10, [])
      else (case fold (topo_step g h n) targets (0, None) of
              (topo, None) \<Rightarrow> (topo, [])
            | (topo, Some best) \<Rightarrow> (max topo CONNECTED_ONLY, rev best)))"

definition weighted_score :: "investigation \<Rightarrow> features \<Rightarrow> real" where
  "weighted_score iv f =
     (let total = iv_w_evidence iv + iv_w_topology iv + iv_w_precedence iv + iv_w_role iv
      in (iv_w_evidence iv * fe_evidence f + iv_w_topology iv * fe_topology f
          + iv_w_precedence iv * fe_precedence f + iv_w_role iv * fe_role f) / (if total = 0 then 1 else total))"

definition cause_id :: "nat \<Rightarrow> string" where "cause_id i = CHR ''C'' # nat_str i"

definition score_group :: "catalog \<Rightarrow> graph \<Rightarrow> node list \<Rightarrow> time option \<Rightarrow> (node \<times> string) \<times> group \<Rightarrow> ranked_cause" where
  "score_group cat g targets onset x =
     (case x of ((n, domain), gr) \<Rightarrow>
        let rows = gr_rows gr;
            iv = cat_investigation cat;
            signals = sorted_set (concat (map ev_signals rows));
            (topo, chain) = topo_score g (iv_max_hops iv) targets n;
            feats = \<lparr>fe_evidence = py_round 3 (evidence_score gr (length signals)),
                     fe_topology = topo,
                     fe_precedence = (case onset of None \<Rightarrow> 1 / 2 | Some t \<Rightarrow> precedence (latest rows) t),
                     fe_role = role_score (group_role rows)\<rparr>
        in \<lparr>rk_id = [], rk_type = fst n, rk_entity = snd n, rk_domain = domain, rk_signals = signals,
            rk_refs = take 10 (uniq (concat (map ev_refs rows))), rk_first_seen = first_seen rows,
            rk_score = py_round 3 (weighted_score iv feats), rk_features = feats, rk_chain = chain,
            rk_aliases = drop 1 (aliases g n),
            rk_via_validation = list_ex (\<lambda>r. ev_via r = Some ViaValidation) rows,
            rk_via_hypothesis = list_ex (\<lambda>r. ev_via r = Some ViaHypothesis) rows\<rparr>)"

definition cause_order :: "ranked_cause \<Rightarrow> real \<times> time \<times> string \<times> string" where
  "cause_order c = (- rk_score c, rk_first_seen c, rk_type c, rk_entity c)"

definition number_causes :: "ranked_cause list \<Rightarrow> ranked_cause list" where
  "number_causes cs = map (\<lambda>(i, c). c\<lparr>rk_id := cause_id (Suc i)\<rparr>) (zip [0..<length cs] cs)"

definition rank_causes :: "agent_finding list \<Rightarrow> topology_response option \<Rightarrow> catalog \<Rightarrow> node list \<Rightarrow> ranked_cause list" where
  "rank_causes fs topo cat alarms =
     (let g = build_graph cat topo in
      if \<not> graph_bool g then []
      else
        let targets = targets_of fs g alarms;
            grouped = group_rows fs g
        in if grouped = [] then []
           else number_causes (sort_key cause_order
                  (map (score_group cat g targets (incident_onset grouped targets)) grouped)))"

section \<open>Live status\<close>

definition incident_status :: "agent_finding list \<Rightarrow> nat \<Rightarrow> status" where
  "incident_status fs flap_episodes =
     (let rows = concat (map af_status (filter af_anomaly fs)) in
      if list_ex (\<lambda>r. st_episodes r \<ge> flap_episodes) rows then Flapping
      else
        let states = st_state ` set rows - {UnknownState}
        in if Firing \<in> states then Ongoing
           else if states \<noteq> {} then Recovered else UnknownStatus)"

section \<open>What a round of questions contains\<close>

definition eligible :: "digest \<Rightarrow> catalog \<Rightarrow> graph \<Rightarrow> plan_env \<Rightarrow> anchor \<times> node \<times> node list \<times> string \<Rightarrow> bool" where
  "eligible dg cat g env x =
     (case x of (a, n, path, target) \<Rightarrow>
        target \<noteq> pe_domain env \<and> map_of (cat_domains cat) target \<noteq> None
        \<and> \<not> covered (pe_peers env) target g n
        \<and> rq_id (mk_request dg cat g env a path n target) \<notin> set (pe_asked env))"

definition keep_nearer :: "string \<times> node \<Rightarrow> request \<Rightarrow> (string \<times> node, request) dict \<Rightarrow> (string \<times> node, request) dict" where
  "keep_nearer k r cands =
     (case map_of cands k of
        Some old \<Rightarrow> if rq_hops old \<le> rq_hops r then cands else AList.update k r cands
      | None \<Rightarrow> AList.update k r cands)"

lemma plan_step_eq:
  "plan_step dg cat g env (a, n, path, t) c =
     (if eligible dg cat g env (a, n, path, t)
      then keep_nearer (t, n) (mk_request dg cat g env a path n t) c else c)"
  by (simp add: plan_step_def eligible_def keep_nearer_def Let_def split del: option.splits)

definition cand_inv :: "digest \<Rightarrow> catalog \<Rightarrow> graph \<Rightarrow> plan_env \<Rightarrow> (anchor \<times> node \<times> node list \<times> string) set
    \<Rightarrow> (string \<times> node, request) dict \<Rightarrow> bool" where
  "cand_inv dg cat g env X c \<longleftrightarrow>
     distinct (keys c)
     \<and> (\<forall>k r. map_of c k = Some r \<longrightarrow> (\<exists>a n p t. (a, n, p, t) \<in> X \<and> eligible dg cat g env (a, n, p, t)
            \<and> k = (t, n) \<and> r = mk_request dg cat g env a p n t))
     \<and> (\<forall>a n p t. (a, n, p, t) \<in> X \<longrightarrow> eligible dg cat g env (a, n, p, t) \<longrightarrow>
            (\<exists>r. map_of c (t, n) = Some r \<and> rq_hops r \<le> length p - 1))"

lemma cand_invD:
  assumes "cand_inv dg cat g env X c"
  shows "distinct (keys c)"
    and "map_of c k = Some r \<Longrightarrow> \<exists>a n p t. (a, n, p, t) \<in> X \<and> eligible dg cat g env (a, n, p, t)
            \<and> k = (t, n) \<and> r = mk_request dg cat g env a p n t"
    and "(a, n, p, t) \<in> X \<Longrightarrow> eligible dg cat g env (a, n, p, t) \<Longrightarrow>
            \<exists>r. map_of c (t, n) = Some r \<and> rq_hops r \<le> length p - 1"
  using assms unfolding cand_inv_def by blast+

lemma map_of_keep_nearer:
  "map_of (keep_nearer k r c) k' =
     (if k' = k \<and> (\<forall>old. map_of c k = Some old \<longrightarrow> rq_hops r < rq_hops old) then Some r else map_of c k')"
  by (auto simp: keep_nearer_def dict_simps not_le split: option.splits)

lemma distinct_keep_nearer: "distinct (keys c) \<Longrightarrow> distinct (keys (keep_nearer k r c))"
  by (simp add: keep_nearer_def dict_simps split: option.split)

lemma rq_hops_mk [simp]: "rq_hops (mk_request dg cat g env a p n t) = length p - 1"
  by (simp add: mk_request_def)

lemma cand_inv_step:
  assumes inv: "cand_inv dg cat g env X c"
  shows "cand_inv dg cat g env (insert x X) (plan_step dg cat g env x c)"
proof -
  obtain a n p t where x: "x = (a, n, p, t)" by (cases x)
  note D = cand_invD [OF inv]
  show ?thesis
  proof (cases "eligible dg cat g env x")
    case False
    then have "plan_step dg cat g env x c = c" by (simp add: x plan_step_eq)
    moreover have "(a', n', p', t') \<in> X"
      if "(a', n', p', t') \<in> insert x X" "eligible dg cat g env (a', n', p', t')" for a' n' p' t'
      using that False by auto
    ultimately show ?thesis
      unfolding cand_inv_def using D by (simp only: insert_iff) blast
  next
    case True
    let ?r = "mk_request dg cat g env a p n t"
    have c': "plan_step dg cat g env x c = keep_nearer (t, n) ?r c"
      using True by (simp add: x plan_step_eq)
    have one: "\<exists>a' n' p' t'. (a', n', p', t') \<in> insert x X \<and> eligible dg cat g env (a', n', p', t')
        \<and> k = (t', n') \<and> r = mk_request dg cat g env a' p' n' t'"
      if "map_of (keep_nearer (t, n) ?r c) k = Some r" for k r
    proof (cases "k = (t, n) \<and> (\<forall>old. map_of c (t, n) = Some old \<longrightarrow> rq_hops ?r < rq_hops old)")
      case new: True
      with that have "k = (t, n)" "r = ?r" unfolding map_of_keep_nearer by simp_all
      with True x show ?thesis by blast
    next
      case False
      with that have "map_of c k = Some r" unfolding map_of_keep_nearer by (simp only: if_not_P if_False split: if_splits)
      from D(2) [OF this] show ?thesis by blast
    qed
    have two: "\<exists>r. map_of (keep_nearer (t, n) ?r c) (t', n') = Some r \<and> rq_hops r \<le> length p' - 1"
      if "(a', n', p', t') \<in> insert x X" "eligible dg cat g env (a', n', p', t')" for a' n' p' t'
    proof (cases "(a', n', p', t') = x")
      case True
      then show ?thesis unfolding map_of_keep_nearer x
        by (cases "map_of c (t, n)") (auto simp: not_less)
    next
      case False
      with that D(3) obtain r where "map_of c (t', n') = Some r" "rq_hops r \<le> length p' - 1" by blast
      then show ?thesis unfolding map_of_keep_nearer by auto
    qed
    show ?thesis unfolding c' cand_inv_def
      using distinct_keep_nearer [OF D(1)] one two by blast
  qed
qed

lemma cand_inv_fold: "cand_inv dg cat g env (set xs) (fold (plan_step dg cat g env) xs [])"
proof (induction xs rule: rev_induct)
  case Nil
  then show ?case by (simp add: cand_inv_def keys_def)
next
  case (snoc x xs)
  then show ?case using cand_inv_step [OF snoc.IH, of x] by simp
qed

lemma plan_items_iff:
  "(a, n, p, t) \<in> set (plan_items cat g as) \<longleftrightarrow>
     a \<in> set as \<and> (n, p) \<in> set (walk g (an_node a) (iv_max_hops (cat_investigation cat)))
     \<and> (length p - 1 = 0 \<or> depends_on g (an_node a) n (iv_max_hops (cat_investigation cat)))
     \<and> t \<in> set (probes_of cat (fst n))"
proof -
  have mem: "x \<in> set (concat (map f ys)) \<longleftrightarrow> (\<exists>y\<in>set ys. x \<in> set (f y))"
    for x :: "anchor \<times> node \<times> node list \<times> string" and f :: "'c \<Rightarrow> _ list" and ys
    by (simp only: set_concat set_map UN_iff image_image bex_simps)
  have body: "(a, n, p, t) \<in> set (if c then [] else map (\<lambda>t. (a', m, q, t)) ps)
      \<longleftrightarrow> \<not> c \<and> a = a' \<and> n = m \<and> p = q \<and> t \<in> set ps" for c a' m q ps
    by auto
  have pair: "(\<exists>y\<in>S. P y) \<longleftrightarrow> (\<exists>m q. (m, q) \<in> S \<and> P (m, q))"
    for S :: "(node \<times> node list) set" and P
    by auto
  show ?thesis
    unfolding plan_items_def mem pair prod.case body
    by (cases n) (auto intro!: bexI [of _ a])
qed

lemma no_anchors: "\<not> graph_bool (build_graph cat topo) \<Longrightarrow> anchors_of cat (build_graph cat topo) domain own leads we alarms = []"
proof -
  assume "\<not> graph_bool (build_graph cat topo)"
  then have none: "resolve (build_graph cat topo) t i = None" for t i
    using topo.find_known [of cat topo t i]
    by (cases "resolve (build_graph cat topo) t i") (auto simp: graph_bool_def keys_def)
  have map_filter_None: "List.map_filter (\<lambda>_. None) xs = []" for xs :: "'z list"
    by (simp add: List.map_filter_def)
  show ?thesis
    by (simp add: anchors_of_def evidence_anchors_def lead_anchors_def alarm_anchors_def none map_filter_None
        split: option.splits)
qed

definition plan_env_of :: "string \<Rightarrow> agent_finding list \<Rightarrow> time \<Rightarrow> time \<Rightarrow> string list \<Rightarrow> plan_env" where
  "plan_env_of domain peers wstart wend asked =
     \<lparr>pe_domain = domain, pe_peers = peers, pe_wstart = wstart, pe_wend = wend, pe_asked = asked\<rparr>"

text \<open>The table the loops build, before it is sorted and cut.\<close>

definition cand_table :: "digest \<Rightarrow> string \<Rightarrow> agent_finding option \<Rightarrow> agent_finding list
    \<Rightarrow> topology_response option \<Rightarrow> catalog \<Rightarrow> time \<Rightarrow> time \<Rightarrow> node list \<Rightarrow> lead list \<Rightarrow> string list
    \<Rightarrow> (string \<times> node, request) dict" where
  "cand_table dg domain own peers topo cat ws we alarms leads asked =
     (let g = build_graph cat topo
      in fold (plan_step dg cat g (plan_env_of domain peers ws we asked))
           (plan_items cat g (anchors_of cat g domain own leads we alarms)) [])"

lemma plan_requests_table:
  "plan_requests dg domain own peers topo cat ws we alarms leads asked =
     take (iv_max_requests (cat_investigation cat))
       (sort_key request_order (vals (cand_table dg domain own peers topo cat ws we alarms leads asked)))"
  by (simp add: plan_requests_def cand_table_def plan_env_of_def Let_def no_anchors plan_items_def vals_def)

lemma cand_table_inv:
  "cand_inv dg cat (build_graph cat topo) (plan_env_of domain peers ws we asked)
     (set (plan_items cat (build_graph cat topo) (anchors_of cat (build_graph cat topo) domain own leads we alarms)))
     (cand_table dg domain own peers topo cat ws we alarms leads asked)"
  unfolding cand_table_def Let_def by (rule cand_inv_fold)

lemma mk_request_sel [simp]:
  "rq_target (mk_request dg cat g env a p n t) = t" "rq_entity (mk_request dg cat g env a p n t) = n"
  "rq_anchor (mk_request dg cat g env a p n t) = an_node a" "rq_path (mk_request dg cat g env a p n t) = p"
  "rq_origin (mk_request dg cat g env a p n t) = an_origin a"
  by (simp_all add: mk_request_def)

lemma plan_env_sel [simp]:
  "pe_domain (plan_env_of domain peers ws we asked) = domain"
  "pe_peers (plan_env_of domain peers ws we asked) = peers"
  "pe_asked (plan_env_of domain peers ws we asked) = asked"
  by (simp_all add: plan_env_of_def)

lemma plan_requests_origin:
  assumes "r \<in> set (plan_requests dg domain own peers topo cat ws we alarms leads asked)"
  defines "g \<equiv> build_graph cat topo"
  shows "\<exists>a n p t. a \<in> set (anchors_of cat g domain own leads we alarms)
    \<and> (n, p) \<in> set (walk g (an_node a) (iv_max_hops (cat_investigation cat)))
    \<and> (length p - 1 = 0 \<or> depends_on g (an_node a) n (iv_max_hops (cat_investigation cat)))
    \<and> t \<in> set (probes_of cat (fst n))
    \<and> eligible dg cat g (plan_env_of domain peers ws we asked) (a, n, p, t)
    \<and> r = mk_request dg cat g (plan_env_of domain peers ws we asked) a p n t"
proof -
  let ?c = "cand_table dg domain own peers topo cat ws we alarms leads asked"
  note inv = cand_table_inv [of dg cat topo domain peers ws we asked own leads alarms]
  have "r \<in> set (vals ?c)"
    using assms(1) unfolding plan_requests_table by (auto dest: in_set_takeD)
  then obtain k where "map_of ?c k = Some r"
    using map_of_vals [OF cand_invD(1) [OF inv]] by blast
  from cand_invD(2) [OF inv this] show ?thesis unfolding plan_items_iff g_def by blast
qed

lemma plan_requests_distinct:
  "distinct (map (\<lambda>r. (rq_target r, rq_entity r)) (plan_requests dg domain own peers topo cat ws we alarms leads asked))"
proof -
  let ?c = "cand_table dg domain own peers topo cat ws we alarms leads asked"
  let ?k = "\<lambda>r. (rq_target r, rq_entity r)"
  note inv = cand_table_inv [of dg cat topo domain peers ws we asked own leads alarms]
  have "k = ?k r" if "(k, r) \<in> set ?c" for k r
    using that cand_invD(1) [OF inv] cand_invD(2) [OF inv, of k r] by (auto simp: keys_def)
  then have "map ?k (vals ?c) = keys ?c" by (auto simp: vals_def keys_def)
  with cand_invD(1) [OF inv] have "distinct (map ?k (vals ?c))" by simp
  then have "distinct (map ?k (sort_key request_order (vals ?c)))" by (simp add: distinct_map)
  then show ?thesis unfolding plan_requests_table
    by (simp only: take_map [symmetric] distinct_take)
qed

lemma plan_requests_covers:
  assumes "a \<in> set (anchors_of cat (build_graph cat topo) domain own leads we alarms)"
    and "(n, p) \<in> set (walk (build_graph cat topo) (an_node a) (iv_max_hops (cat_investigation cat)))"
    and "length p - 1 = 0 \<or> depends_on (build_graph cat topo) (an_node a) n (iv_max_hops (cat_investigation cat))"
    and "t \<in> set (probes_of cat (fst n))"
    and "eligible dg cat (build_graph cat topo) (plan_env_of domain peers ws we asked) (a, n, p, t)"
  defines "rs \<equiv> plan_requests dg domain own peers topo cat ws we alarms leads asked"
  shows "(\<exists>r\<in>set rs. rq_target r = t \<and> rq_entity r = n \<and> rq_hops r \<le> length p - 1)
    \<or> length rs = iv_max_requests (cat_investigation cat) \<and> (\<forall>r\<in>set rs. rq_hops r \<le> length p - 1)"
proof -
  let ?c = "cand_table dg domain own peers topo cat ws we alarms leads asked"
  note inv = cand_table_inv [of dg cat topo domain peers ws we asked own leads alarms]
  have "(a, n, p, t) \<in> set (plan_items cat (build_graph cat topo)
      (anchors_of cat (build_graph cat topo) domain own leads we alarms))"
    using assms(1-4) unfolding plan_items_iff by blast
  from cand_invD(3) [OF inv this assms(5)] obtain r
    where r: "map_of ?c (t, n) = Some r" "rq_hops r \<le> length p - 1" by blast
  from cand_invD(2) [OF inv r(1)] have k: "rq_target r = t" "rq_entity r = n" by auto
  have "r \<in> set (vals ?c)" using r(1) map_of_vals [OF cand_invD(1) [OF inv]] by blast
  from take_sort_key_cases [OF this, of "iv_max_requests (cat_investigation cat)" request_order]
  have "r \<in> set rs \<or> length rs = iv_max_requests (cat_investigation cat)
      \<and> (\<forall>y\<in>set rs. request_order y \<le> request_order r)"
    unfolding rs_def plan_requests_table .
  moreover have "rq_hops y \<le> length p - 1" if "request_order y \<le> request_order r" for y
    using that r(2) by (auto simp: request_order_def less_eq_prod_def)
  ultimately show ?thesis using r(2) k by blast
qed

section \<open>Absorbing is idempotent and only adds\<close>

lemma row_key_tag [simp]: "row_key (tag_row rq r) = row_key r"
  by (simp add: row_key_def tag_row_def)

definition absorb_inv :: "absorb_state \<Rightarrow> bool" where
  "absorb_inv st \<longleftrightarrow> as_known st = map row_key (af_evidence (as_finding st))"

lemma absorb_inv_start: "absorb_inv (absorb_start f)"
  by (simp add: absorb_inv_def absorb_start_def)

lemma absorb_one_cases:
  obtains "new_rows st (snd ans) = []" "absorb_one prose ans st = st"
  | "new_rows st (snd ans) \<noteq> []"
    "af_evidence (as_finding (absorb_one prose ans st))
       = af_evidence (as_finding st) @ map (tag_row (fst ans)) (new_rows st (snd ans))"
    "as_known (absorb_one prose ans st) = as_known st @ map row_key (new_rows st (snd ans))"
    "as_notes (absorb_one prose ans st) \<noteq> []"
    "af_anomaly (as_finding (absorb_one prose ans st))"
    "af_anomaly (as_finding st) \<Longrightarrow> af_confidence (as_finding (absorb_one prose ans st))
        = max (af_confidence (as_finding st)) (af_confidence (snd ans))"
    "\<not> af_anomaly (as_finding st) \<Longrightarrow>
        af_confidence (as_finding (absorb_one prose ans st)) = af_confidence (snd ans)"
proof (cases "new_rows st (snd ans) = []")
  case True
  then show ?thesis using that(1) by (cases ans) (simp add: absorb_one_def)
next
  case False
  then show ?thesis
    by (rule that(2); cases ans) (simp_all add: absorb_one_def Let_def case_prod_unfold)
qed

lemma absorb_inv_one: "absorb_inv st \<Longrightarrow> absorb_inv (absorb_one prose ans st)"
  by (cases rule: absorb_one_cases [of st ans prose]) (simp_all add: absorb_inv_def)

lemma absorb_inv_fold: "absorb_inv st \<Longrightarrow> absorb_inv (fold (absorb_one prose) answers st)"
  by (induction answers arbitrary: st) (auto simp: absorb_inv_one)

lemma absorb_known_one:
  "set (as_known st) \<subseteq> set (as_known (absorb_one prose ans st))
   \<and> row_key ` set (af_evidence (snd ans)) \<subseteq> set (as_known (absorb_one prose ans st))"
proof (cases rule: absorb_one_cases [of st ans prose])
  case 1
  then show ?thesis by (auto simp: new_rows_def filter_empty_conv)
next
  case 2
  then show ?thesis by (auto simp: new_rows_def)
qed

lemma absorb_known_fold:
  "set (as_known st) \<subseteq> set (as_known (fold (absorb_one prose) answers st))
   \<and> (\<forall>ans\<in>set answers. row_key ` set (af_evidence (snd ans)) \<subseteq> set (as_known (fold (absorb_one prose) answers st)))"
proof (induction answers arbitrary: st)
  case (Cons ans answers)
  show ?case
    using Cons.IH [of "absorb_one prose ans st"] absorb_known_one [of st prose ans]
    by (simp del: image_subset_iff) blast
qed simp

lemma absorb_known_noop:
  "\<forall>ans\<in>set answers. row_key ` set (af_evidence (snd ans)) \<subseteq> set (as_known st)
    \<Longrightarrow> fold (absorb_one prose) answers st = st"
proof (induction answers)
  case (Cons ans answers)
  then have "new_rows st (snd ans) = []" by (auto simp: new_rows_def filter_empty_conv)
  then have "absorb_one prose ans st = st"
    by (cases rule: absorb_one_cases [of st ans prose]) auto
  with Cons show ?case by simp
qed simp

lemma absorb_evidence:
  "af_evidence (absorb prose f answers cat limit) =
     (let st = fold (absorb_one prose) answers (absorb_start f)
      in if as_notes st = [] then af_evidence f else af_evidence (as_finding st))"
  by (simp add: absorb_def Let_def)

lemma absorb_no_notes:
  "as_notes (fold (absorb_one prose) answers st) = [] \<Longrightarrow> fold (absorb_one prose) answers st = st"
proof (induction answers rule: rev_induct)
  case (snoc ans answers)
  let ?s = "fold (absorb_one prose) answers st"
  show ?case
    using snoc by (cases rule: absorb_one_cases [of ?s ans prose]) auto
qed simp

lemma absorb_fold_adds:
  "\<exists>rows. af_evidence (as_finding (fold (absorb_one prose) answers st)) = af_evidence (as_finding st) @ rows
     \<and> (\<forall>r\<in>set rows. \<exists>(rq, scoped)\<in>set answers. \<exists>r0\<in>set (af_evidence scoped).
            r = tag_row rq r0 \<and> row_key r0 \<notin> set (as_known st))"
proof (induction answers arbitrary: st)
  case (Cons ans answers)
  obtain rows where rows: "af_evidence (as_finding (fold (absorb_one prose) answers (absorb_one prose ans st)))
      = af_evidence (as_finding (absorb_one prose ans st)) @ rows"
    "\<forall>r\<in>set rows. \<exists>(rq, scoped)\<in>set answers. \<exists>r0\<in>set (af_evidence scoped).
            r = tag_row rq r0 \<and> row_key r0 \<notin> set (as_known (absorb_one prose ans st))"
    using Cons.IH by blast
  have old: "\<forall>r\<in>set rows. \<exists>(rq, scoped)\<in>set (ans # answers). \<exists>r0\<in>set (af_evidence scoped).
            r = tag_row rq r0 \<and> row_key r0 \<notin> set (as_known st)"
    using rows(2) absorb_known_one [of st prose ans] by fastforce
  show ?case
  proof (cases rule: absorb_one_cases [of st ans prose])
    case 1
    with rows(1) old show ?thesis by auto
  next
    case 2
    have new: "\<forall>r\<in>set (map (tag_row (fst ans)) (new_rows st (snd ans))). \<exists>(rq, scoped)\<in>set (ans # answers).
        \<exists>r0\<in>set (af_evidence scoped). r = tag_row rq r0 \<and> row_key r0 \<notin> set (as_known st)"
      by (cases ans) (auto simp: new_rows_def)
    show ?thesis
      using 2(2) rows(1) old new
      by (intro exI [of _ "map (tag_row (fst ans)) (new_rows st (snd ans)) @ rows"]) (simp only: fold_simps append_assoc set_append, blast)
  qed
qed simp

lemma absorb_fold_confidence:
  "(af_anomaly (as_finding st) \<longrightarrow> af_anomaly (as_finding (fold (absorb_one prose) answers st))
      \<and> af_confidence (as_finding st) \<le> af_confidence (as_finding (fold (absorb_one prose) answers st)))
   \<and> (as_notes (fold (absorb_one prose) answers st) \<noteq> as_notes st \<longrightarrow>
      af_anomaly (as_finding (fold (absorb_one prose) answers st)))"
proof (induction answers rule: rev_induct)
  case (snoc ans answers)
  let ?s = "fold (absorb_one prose) answers st"
  show ?case
    using snoc by (cases rule: absorb_one_cases [of ?s ans prose]) auto
qed simp

lemma absorb_revision [simp]:
  "af_revision_count (as_finding (fold (absorb_one prose) answers st)) = af_revision_count (as_finding st)"
proof (induction answers arbitrary: st)
  case (Cons ans answers)
  have "af_revision_count (as_finding (absorb_one prose ans st)) = af_revision_count (as_finding st)"
    by (cases ans) (simp add: absorb_one_def Let_def split: prod.split)
  with Cons show ?case by simp
qed simp

lemma absorb_start_finding [simp]: "as_finding (absorb_start f) = f"
  by (simp add: absorb_start_def)

lemma absorb_fold_notes:
  "fold (absorb_one prose) answers st \<noteq> st \<Longrightarrow> as_notes (fold (absorb_one prose) answers st) \<noteq> []"
  using absorb_no_notes by blast

section \<open>Ranked causes\<close>

lemma precedence_unit [bounds_intros]: "0 \<le> precedence f t" "precedence f t \<le> 1"
proof -
  let ?b = "real_of_int (t - f) / 1000000"
  have "0 \<le> 300 / ?b" "300 / ?b \<le> 1" if "\<not> ?b \<le> 300" using that by (auto simp: field_simps)
  then show "0 \<le> precedence f t" "precedence f t \<le> 1"
    by (auto simp: precedence_def Let_def PRECEDENCE_FULL_SECONDS_def intro!: py_round_unit)
qed

lemma severity_score_unit [bounds_intros]: "0 \<le> severity_score s" "severity_score s \<le> 1"
  by (cases s; simp)+

lemma role_score_unit [bounds_intros]: "0 \<le> role_score r" "role_score r \<le> 1"
  by (cases r rule: role_score.cases; simp)+

lemma topo_fold_unit:
  "fst st \<in> {0, 1} \<Longrightarrow> fst (fold (topo_step g h n) ts st) \<in> {0, 1}"
proof (induction ts arbitrary: st)
  case (Cons t ts)
  have "fst (topo_step g h n t st) \<in> {0, 1}"
    using Cons.prems by (auto simp: topo_step_def Let_def split: prod.splits)
  from Cons.IH [OF this] show ?case by simp
qed simp

lemma topo_score_unit [bounds_intros]: "0 \<le> fst (topo_score g h ts n)" "fst (topo_score g h ts n) \<le> 1"
proof -
  have *: "fst (fold (topo_step g h n) ts (0, None)) \<in> {0, 1}" by (rule topo_fold_unit) simp
  then show "0 \<le> fst (topo_score g h ts n)" "fst (topo_score g h ts n) \<le> 1"
    by (auto simp: topo_score_def CONNECTED_ONLY_def split: prod.splits option.splits)
qed

lemma evidence_score_unit:
  assumes "0 \<le> gr_confidence gr"
  shows "0 \<le> evidence_score gr k" "evidence_score gr k \<le> 1"
proof -
  let ?sev = "case map (severity_score \<circ> ev_severity) (gr_rows gr) of [] \<Rightarrow> 0 | x # xs \<Rightarrow> max_list x xs"
  have "0 \<le> ?sev"
  proof (cases "map (severity_score \<circ> ev_severity) (gr_rows gr)")
    case (Cons x xs)
    then have "\<forall>y\<in>insert x (set xs). 0 \<le> y"
      by (metis (no_types, lifting) comp_apply imageE list.set_map list.simps(15) severity_score_unit(1))
    with Cons max_list_mem [of x xs] show ?thesis by auto
  qed simp
  with assms show "0 \<le> evidence_score gr k" by (simp add: evidence_score_def Let_def)
  show "evidence_score gr k \<le> 1" by (simp add: evidence_score_def Let_def)
qed

definition weights_ok :: "investigation \<Rightarrow> bool" where
  "weights_ok iv \<longleftrightarrow> 0 \<le> iv_w_evidence iv \<and> 0 \<le> iv_w_topology iv \<and> 0 \<le> iv_w_precedence iv \<and> 0 \<le> iv_w_role iv"

definition features_unit :: "features \<Rightarrow> bool" where
  "features_unit f \<longleftrightarrow> fe_evidence f \<in> {0..1} \<and> fe_topology f \<in> {0..1} \<and> fe_precedence f \<in> {0..1} \<and> fe_role f \<in> {0..1}"

lemma weighted_score_unit:
  assumes "weights_ok iv" "features_unit f"
  shows "0 \<le> weighted_score iv f" "weighted_score iv f \<le> 1"
proof -
  have part: "0 \<le> w * x \<and> w * x \<le> w" if "0 \<le> w" "x \<in> {0..1}" for w x :: real
    using that mult_left_mono [of x 1 w] by auto
  have w: "0 \<le> iv_w_evidence iv" "0 \<le> iv_w_topology iv" "0 \<le> iv_w_precedence iv" "0 \<le> iv_w_role iv"
    using assms(1) by (simp_all add: weights_ok_def)
  have f: "fe_evidence f \<in> {0..1}" "fe_topology f \<in> {0..1}" "fe_precedence f \<in> {0..1}" "fe_role f \<in> {0..1}"
    using assms(2) by (simp_all only: features_unit_def)
  note ts = part [OF w(1) f(1)] part [OF w(2) f(2)] part [OF w(3) f(3)] part [OF w(4) f(4)]
  show "0 \<le> weighted_score iv f" "weighted_score iv f \<le> 1"
    unfolding weighted_score_def Let_def using ts w by (auto simp: field_simps divide_le_eq)
qed

lemma score_group_sel:
  "rk_type (score_group cat g ts onset ((n, d), gr)) = fst n"
  "rk_entity (score_group cat g ts onset ((n, d), gr)) = snd n"
  "rk_domain (score_group cat g ts onset ((n, d), gr)) = d"
  by (simp_all add: score_group_def Let_def split: prod.split)

lemma score_group_unit:
  assumes "weights_ok (cat_investigation cat)" "0 \<le> gr_confidence (snd x)"
  shows "features_unit (rk_features (score_group cat g ts onset x))"
    and "rk_score (score_group cat g ts onset x) \<in> {0..1}"
proof -
  obtain n d gr where x: "x = ((n, d), gr)" by (cases x) auto
  let ?c = "score_group cat g ts onset x"
  obtain topo chain where t: "topo_score g (iv_max_hops (cat_investigation cat)) ts n = (topo, chain)" by force
  have u: "0 \<le> topo" "topo \<le> 1"
    using topo_score_unit [of g "iv_max_hops (cat_investigation cat)" ts n] t by simp_all
  show f: "features_unit (rk_features ?c)"
    using assms(2) u
    by (auto simp: x score_group_def t Let_def features_unit_def
        intro!: py_round_unit evidence_score_unit precedence_unit role_score_unit split: option.splits)
  have "rk_score ?c = py_round 3 (weighted_score (cat_investigation cat) (rk_features ?c))"
    by (simp add: x score_group_def t Let_def)
  then show "rk_score ?c \<in> {0..1}"
    using weighted_score_unit [OF assms(1) f] by (auto intro: py_round_unit)
qed

text \<open>The groups: one per node and domain, exactly for the rows the topology knows.\<close>

definition grouped_keys :: "graph \<Rightarrow> agent_finding \<Rightarrow> (node \<times> string) set" where
  "grouped_keys g f = {(n, d). d = af_domain f \<and> (\<exists>r\<in>set (af_evidence f). resolve g (ev_type r) (ev_id r) = Some n)}"

definition groups_ok :: "(node \<times> string, group) dict \<Rightarrow> bool" where
  "groups_ok d \<longleftrightarrow> distinct (keys d) \<and> (\<forall>(k, gr)\<in>set d. 0 \<le> gr_confidence gr \<and> gr_rows gr \<noteq> [])"

lemma groups_ok_update:
  assumes "groups_ok d" "0 \<le> gr_confidence gr" "gr_rows gr \<noteq> []"
  shows "groups_ok (AList.update k gr d)"
proof -
  have "distinct (keys (AList.update k gr d))" using assms(1) by (simp add: groups_ok_def dict_simps)
  moreover have "0 \<le> gr_confidence v \<and> gr_rows v \<noteq> []" if "(k', v) \<in> set (AList.update k gr d)" for k' v
  proof -
    from that calculation have "map_of (AList.update k gr d) k' = Some v" by (simp add: keys_def)
    then show ?thesis using assms by (auto simp: dict_simps groups_ok_def split: if_splits dest: map_of_SomeD)
  qed
  ultimately show ?thesis unfolding groups_ok_def by blast
qed

lemma add_row_ok:
  assumes "groups_ok d" "0 \<le> af_confidence f"
  shows "groups_ok (add_row g f r d)"
proof (cases "resolve g (ev_type r) (ev_id r)")
  case None
  with assms show ?thesis by (simp add: add_row_def)
next
  case (Some n)
  have "0 \<le> gr_confidence gr" if "map_of d (n, af_domain f) = Some gr" for gr
    using map_of_SomeD [OF that] assms(1) by (auto simp: groups_ok_def)
  with Some assms show ?thesis
    by (auto simp: add_row_def Let_def intro!: groups_ok_update split: option.splits)
qed

lemma keys_add_row:
  "set (keys (add_row g f r d)) = set (keys d) \<union> {(n, af_domain f) | n. resolve g (ev_type r) (ev_id r) = Some n}"
  by (auto simp: add_row_def Let_def dict_simps split: option.splits)

lemma fold_add_row:
  "groups_ok d \<Longrightarrow> 0 \<le> af_confidence f \<Longrightarrow> groups_ok (fold (add_row g f) rs d)"
  by (induction rs arbitrary: d) (auto simp: add_row_ok)

lemma keys_fold_add_row:
  "set (keys (fold (add_row g f) rs d))
     = set (keys d) \<union> {(n, af_domain f) | n. \<exists>r\<in>set rs. resolve g (ev_type r) (ev_id r) = Some n}"
  by (induction rs arbitrary: d) (auto simp: keys_add_row)

lemma group_rows_keys: "set (keys (group_rows fs g)) = (\<Union>f\<in>set fs. grouped_keys g f)"
proof -
  have "set (keys (fold (\<lambda>f. fold (add_row g f) (af_evidence f)) fs d))
      = set (keys d) \<union> (\<Union>f\<in>set fs. grouped_keys g f)" for d
    by (induction fs arbitrary: d) (auto simp: keys_fold_add_row grouped_keys_def)
  then show ?thesis by (simp add: group_rows_def keys_def)
qed

lemma group_rows_ok:
  assumes "\<forall>f\<in>set fs. 0 \<le> af_confidence f"
  shows "groups_ok (group_rows fs g)"
proof -
  have "\<forall>f\<in>set fs. 0 \<le> af_confidence f \<Longrightarrow> groups_ok d
      \<Longrightarrow> groups_ok (fold (\<lambda>f. fold (add_row g f) (af_evidence f)) fs d)" for d
    by (induction fs arbitrary: d) (auto simp: fold_add_row)
  moreover have "groups_ok []" by (simp add: groups_ok_def keys_def)
  ultimately show ?thesis unfolding group_rows_def using assms by blast
qed

lemma distinct_group_rows: "distinct (keys (group_rows fs g))"
proof -
  have one: "distinct (keys d) \<Longrightarrow> distinct (keys (add_row g f r d))" for f r d
    by (simp add: add_row_def Let_def dict_simps split: option.split)
  have "distinct (keys d) \<Longrightarrow> distinct (keys (fold (add_row g f) rs d))" for f rs d
    by (induction rs arbitrary: d) (auto simp: one)
  then have "distinct (keys d) \<Longrightarrow> distinct (keys (fold (\<lambda>f. fold (add_row g f) (af_evidence f)) fs d))" for d
    by (induction fs arbitrary: d) auto
  then show ?thesis by (simp add: group_rows_def keys_def)
qed

lemma group_rows_empty:
  "\<not> graph_bool (build_graph cat t) \<Longrightarrow> group_rows fs (build_graph cat t) = []"
proof -
  assume "\<not> graph_bool (build_graph cat t)"
  then have "resolve (build_graph cat t) ty i = None" for ty i
    using topo.find_known [of cat t ty i]
    by (cases "resolve (build_graph cat t) ty i") (auto simp: graph_bool_def keys_def)
  then have "set (keys (group_rows fs (build_graph cat t))) = {}"
    by (simp add: group_rows_keys grouped_keys_def)
  then show ?thesis by (simp add: keys_def)
qed

text \<open>The ranking without its early returns, which give the same empty list.\<close>

definition scored :: "agent_finding list \<Rightarrow> topology_response option \<Rightarrow> catalog \<Rightarrow> node list \<Rightarrow> ranked_cause list" where
  "scored fs topo cat alarms =
     (let g = build_graph cat topo; targets = targets_of fs g alarms; grouped = group_rows fs g
      in map (score_group cat g targets (incident_onset grouped targets)) grouped)"

lemma rank_causes_scored: "rank_causes fs topo cat alarms = number_causes (sort_key cause_order (scored fs topo cat alarms))"
  by (simp add: rank_causes_def scored_def Let_def group_rows_empty number_causes_def)

lemma number_causes_nth:
  "i < length cs \<Longrightarrow> number_causes cs ! i = (cs ! i)\<lparr>rk_id := cause_id (Suc i)\<rparr>"
  "length (number_causes cs) = length cs"
  by (simp_all add: number_causes_def)

lemma number_causes_map:
  assumes "\<And>c x. f (c\<lparr>rk_id := x\<rparr>) = f c"
  shows "map f (number_causes cs) = map f cs"
  by (rule nth_equalityI) (simp_all add: number_causes_nth assms)

lemma number_causes_ids: "map rk_id (number_causes cs) = map (\<lambda>i. cause_id (Suc i)) [0..<length cs]"
  by (rule nth_equalityI) (simp_all add: number_causes_nth)

definition cause_key :: "ranked_cause \<Rightarrow> node \<times> string" where
  "cause_key c = ((rk_type c, rk_entity c), rk_domain c)"

lemma scored_keys: "map cause_key (scored fs topo cat alarms) = keys (group_rows fs (build_graph cat topo))"
  by (auto simp: scored_def Let_def keys_def cause_key_def score_group_sel)

lemma rank_causes_image:
  assumes "\<And>c x. f (c\<lparr>rk_id := x\<rparr>) = f c"
  shows "f ` set (rank_causes fs topo cat alarms) = f ` set (scored fs topo cat alarms)"
proof -
  have "map f (rank_causes fs topo cat alarms) = map f (sort_key cause_order (scored fs topo cat alarms))"
    unfolding rank_causes_scored using assms by (rule number_causes_map)
  from arg_cong [OF this, of set] show ?thesis by (simp only: set_map set_sort)
qed

lemma rank_causes_keys:
  "map cause_key (rank_causes fs topo cat alarms) = map cause_key (sort_key cause_order (scored fs topo cat alarms))"
  "cause_key ` set (rank_causes fs topo cat alarms) = (\<Union>f\<in>set fs. grouped_keys (build_graph cat topo) f)"
proof -
  show k: "map cause_key (rank_causes fs topo cat alarms) = map cause_key (sort_key cause_order (scored fs topo cat alarms))"
    unfolding rank_causes_scored by (rule number_causes_map) (simp add: cause_key_def)
  have "cause_key ` set (rank_causes fs topo cat alarms) = set (map cause_key (scored fs topo cat alarms))"
    unfolding set_map by (rule rank_causes_image) (simp add: cause_key_def)
  then show "cause_key ` set (rank_causes fs topo cat alarms) = (\<Union>f\<in>set fs. grouped_keys (build_graph cat topo) f)"
    by (simp only: scored_keys group_rows_keys)
qed

section \<open>Properties\<close>

text \<open>A small deployment: \<open>net\<close> sees \<open>a:1\<close>, which depends on \<open>b:2\<close> and through it on \<open>c:3\<close>.\<close>

definition ex_plan_cat :: catalog where
  "ex_plan_cat = ex_cat\<lparr>cat_domains := [(''net'', ex_domain), (''ctl'', ex_domain)],
     cat_investigation := (cat_investigation ex_cat)
       \<lparr>iv_probes := [(''a'', [''net'', ''ctl'']), (''b'', [''ctl'']), (''c'', [''ctl''])]\<rparr>\<rparr>"

definition ex_row :: "string \<Rightarrow> string \<Rightarrow> evidence_row" where
  "ex_row t i = \<lparr>ev_type = t, ev_id = i, ev_signals = [''sig''], ev_role = Some Symptom, ev_severity = Error,
     ev_first_seen = 100, ev_last_seen = 100, ev_onset = None, ev_count = 1, ev_rules_fired = [], ev_refs = [''r1''],
     ev_via = None, ev_requested_by = None, ev_request_id = None, ev_why = []\<rparr>"

definition ex_finding :: "string \<Rightarrow> evidence_row list \<Rightarrow> agent_finding" where
  "ex_finding d rows = \<lparr>af_agent = d, af_domain = d, af_anomaly = True, af_summary = [], af_key_events = [],
     af_start = 100, af_end = 200, af_confidence = 3 / 5, af_revised = False, af_revision_count = 0,
     af_degraded = False, af_unclassified = [], af_evidence = rows, af_status = []\<rparr>"

definition ex_digest :: digest where "ex_digest t n s e = t @ snd n"

definition ex_plan :: "request list" where
  "ex_plan = plan_requests ex_digest ''net'' (Some (ex_finding ''net'' [ex_row ''a'' ''1''])) []
     (Some ex_topo) ex_plan_cat 100 200 [] [] []"

text \<open>
  C13: Every question a round sends is a permitted one: it goes to another, existing domain that
  probes the entity's type, has no evidence on the entity yet and was not asked that question
  before, and the entity is an anchor or something the anchor depends on within the hop
  limit; the path sent along is a real path from the anchor to it.
\<close>
theorem plan_requests_sound:
  assumes "r \<in> set (plan_requests dg domain own peers topo cat ws we alarms leads asked)"
  shows "rq_target r \<noteq> domain \<and> rq_target r \<in> set (keys (cat_domains cat))
    \<and> rq_target r \<in> set (probes_of cat (fst (rq_entity r)))
    \<and> \<not> covered peers (rq_target r) (build_graph cat topo) (rq_entity r)
    \<and> rq_id r \<notin> set asked
    \<and> rq_anchor r \<in> an_node ` set (anchors_of cat (build_graph cat topo) domain own leads we alarms)
    \<and> (rq_entity r = rq_anchor r
        \<or> depends_on (build_graph cat topo) (rq_anchor r) (rq_entity r) (iv_max_hops (cat_investigation cat)))
    \<and> path_ok (g_adjacent (build_graph cat topo)) (rq_anchor r) (iv_max_hops (cat_investigation cat))
        (rq_entity r) (rq_path r)"
proof -
  let ?g = "build_graph cat topo" and ?h = "iv_max_hops (cat_investigation cat)"
  obtain a n p t where *: "a \<in> set (anchors_of cat ?g domain own leads we alarms)"
    "(n, p) \<in> set (walk ?g (an_node a) ?h)" "length p - 1 = 0 \<or> depends_on ?g (an_node a) n ?h"
    "t \<in> set (probes_of cat (fst n))" "eligible dg cat ?g (plan_env_of domain peers ws we asked) (a, n, p, t)"
    "r = mk_request dg cat ?g (plan_env_of domain peers ws we asked) a p n t"
    using plan_requests_origin [OF assms] by blast
  have path: "path_ok (g_adjacent ?g) (an_node a) ?h n p"
    using walk_adj_path *(2) unfolding walk_def by blast
  have "n = an_node a" if "length p - 1 = 0"
    using path that by (cases p) (auto simp: path_ok_def)
  moreover have "t \<in> set (keys (cat_domains cat))"
    using *(5) by (auto simp: eligible_def in_keys_iff)
  ultimately show ?thesis using * path by (auto simp: eligible_def)
qed

theorem plan_requests_sound_witness:
  "\<exists>r\<in>set ex_plan. rq_entity r = (''c'', ''3'')
    \<and> depends_on (build_graph ex_plan_cat (Some ex_topo)) (rq_anchor r) (rq_entity r) 5"
proof -
  have len: "length ex_plan = 3" "rq_entity (ex_plan ! 2) = (''c'', ''3'')" "rq_anchor (ex_plan ! 2) = (''a'', ''1'')"
    "iv_max_hops (cat_investigation ex_plan_cat) = 5"
    by code_simp+
  then have "ex_plan ! 2 \<in> set ex_plan" by simp
  with plan_requests_sound [OF this [unfolded ex_plan_def]] len show ?thesis
    unfolding ex_plan_def by force
qed

text \<open>
  C33: No question is lost: the requests of a round are distinct (domain, entity) pairs, nearest
  first, at most \<open>max_requests_per_round\<close>; and for every permitted question from any anchor
  either it is asked, over a path no longer than that one, or the round is full with
  questions about entities at least as near.
\<close>
theorem plan_requests_complete:
  "distinct (map (\<lambda>r. (rq_target r, rq_entity r)) (plan_requests dg domain own peers topo cat ws we alarms leads asked))
   \<and> sorted (map request_order (plan_requests dg domain own peers topo cat ws we alarms leads asked))
   \<and> length (plan_requests dg domain own peers topo cat ws we alarms leads asked) \<le> iv_max_requests (cat_investigation cat)
   \<and> (\<forall>a n p t.
        a \<in> set (anchors_of cat (build_graph cat topo) domain own leads we alarms)
        \<and> (n, p) \<in> set (walk (build_graph cat topo) (an_node a) (iv_max_hops (cat_investigation cat)))
        \<and> (length p - 1 = 0 \<or> depends_on (build_graph cat topo) (an_node a) n (iv_max_hops (cat_investigation cat)))
        \<and> t \<in> set (probes_of cat (fst n))
        \<and> eligible dg cat (build_graph cat topo) (plan_env_of domain peers ws we asked) (a, n, p, t)
      \<longrightarrow> (\<exists>r\<in>set (plan_requests dg domain own peers topo cat ws we alarms leads asked).
              rq_target r = t \<and> rq_entity r = n \<and> rq_hops r \<le> length p - 1)
          \<or> length (plan_requests dg domain own peers topo cat ws we alarms leads asked)
                = iv_max_requests (cat_investigation cat)
            \<and> (\<forall>r\<in>set (plan_requests dg domain own peers topo cat ws we alarms leads asked). rq_hops r \<le> length p - 1))"
proof (intro conjI allI impI, goal_cases)
  case 1
  show ?case by (rule plan_requests_distinct)
next
  case 2
  show ?case unfolding plan_requests_table by (rule sorted_take_sort_key)
next
  case 3
  show ?case by (simp add: plan_requests_table)
next
  case (4 a n p t)
  then show ?case by (intro plan_requests_covers) blast+
qed

theorem plan_requests_complete_witness:
  "\<exists>r\<in>set ex_plan. rq_target r = ''ctl'' \<and> rq_entity r = (''b'', ''2'') \<and> rq_hops r \<le> 1"
proof -
  let ?a = "\<lparr>an_node = (''a'', ''1''), an_first_seen = 100, an_origin = FromEvidence\<rparr>"
  have "?a \<in> set (anchors_of ex_plan_cat (build_graph ex_plan_cat (Some ex_topo)) ''net''
      (Some (ex_finding ''net'' [ex_row ''a'' ''1''])) [] 200 [])
    \<and> ((''b'', ''2''), [(''a'', ''1''), (''b'', ''2'')])
        \<in> set (walk (build_graph ex_plan_cat (Some ex_topo)) (an_node ?a) (iv_max_hops (cat_investigation ex_plan_cat)))
    \<and> depends_on (build_graph ex_plan_cat (Some ex_topo)) (an_node ?a) (''b'', ''2'') (iv_max_hops (cat_investigation ex_plan_cat))
    \<and> ''ctl'' \<in> set (probes_of ex_plan_cat ''b'')
    \<and> eligible ex_digest ex_plan_cat (build_graph ex_plan_cat (Some ex_topo)) (plan_env_of ''net'' [] 100 200 [])
        (?a, (''b'', ''2''), [(''a'', ''1''), (''b'', ''2'')], ''ctl'')
    \<and> length ex_plan < iv_max_requests (cat_investigation ex_plan_cat)"
    by code_simp
  with plan_requests_complete [of ex_digest "''net''" "Some (ex_finding ''net'' [ex_row ''a'' ''1''])" "[]"
      "Some ex_topo" ex_plan_cat 100 200 "[]" "[]" "[]", folded ex_plan_def]
  show ?thesis by fastforce
qed

text \<open>
  Absorbing a round's answers is idempotent: absorbing them again leaves the revised finding
  exactly as it was, whatever the answers and the limit.
\<close>

lemma absorb_idempotent:
  "absorb prose (absorb prose f answers cat limit) answers cat limit = absorb prose f answers cat limit"
proof (cases "as_notes (fold (absorb_one prose) answers (absorb_start f)) = []")
  case True
  then show ?thesis by (simp add: absorb_def Let_def)
next
  case False
  let ?st = "fold (absorb_one prose) answers (absorb_start f)" and ?f = "absorb prose f answers cat limit"
  have "as_known (absorb_start ?f) = as_known ?st"
    using absorb_inv_fold [OF absorb_inv_start, of prose answers f] False
    by (simp add: absorb_inv_def absorb_start_def absorb_evidence)
  then have "fold (absorb_one prose) answers (absorb_start ?f) = absorb_start ?f"
    using absorb_known_fold [of "absorb_start f" prose answers] by (intro absorb_known_noop) simp
  then show ?thesis by (simp only: absorb_def [of prose ?f]) (simp add: absorb_start_def)
qed

text \<open>
  Absorbing never loses or alters evidence and never clears an anomaly: the finding keeps its
  own rows in place, every added row is one an answer holds under a key the finding did not
  know, marked as coming from validation or from a hypothesis check and with the request
  that brought it; confidence does not fall, and a finding that changed is anomalous.
\<close>

lemma absorb_only_adds:
  "(\<exists>rows. af_evidence (absorb prose f answers cat limit) = af_evidence f @ rows
      \<and> (\<forall>r\<in>set rows. ev_via r \<noteq> None \<and> (\<exists>(rq, scoped)\<in>set answers. ev_request_id r = Some (rq_id rq)
            \<and> row_key r \<in> row_key ` set (af_evidence scoped) \<and> row_key r \<notin> row_key ` set (af_evidence f))))
   \<and> (af_anomaly f \<longrightarrow> af_anomaly (absorb prose f answers cat limit)
        \<and> af_confidence f \<le> af_confidence (absorb prose f answers cat limit))
   \<and> (absorb prose f answers cat limit \<noteq> f \<longrightarrow>
        af_anomaly (absorb prose f answers cat limit)
        \<and> af_revision_count (absorb prose f answers cat limit) = Suc (af_revision_count f))"
  (is "?rows \<and> ?kept \<and> ?changed")
proof (intro conjI)
  let ?st = "fold (absorb_one prose) answers (absorb_start f)" and ?f = "absorb prose f answers cat limit"
  obtain rows where rows: "af_evidence (as_finding ?st) = af_evidence f @ rows"
    "\<forall>r\<in>set rows. \<exists>(rq, scoped)\<in>set answers. \<exists>r0\<in>set (af_evidence scoped).
        r = tag_row rq r0 \<and> row_key r0 \<notin> row_key ` set (af_evidence f)"
    using absorb_fold_adds [of prose answers "absorb_start f"] by (auto simp: absorb_start_def)
  have "\<forall>r\<in>set rows. ev_via r \<noteq> None \<and> (\<exists>(rq, scoped)\<in>set answers. ev_request_id r = Some (rq_id rq)
      \<and> row_key r \<in> row_key ` set (af_evidence scoped) \<and> row_key r \<notin> row_key ` set (af_evidence f))"
  proof
    fix r assume "r \<in> set rows"
    with rows(2) obtain rq scoped r0 where "(rq, scoped) \<in> set answers" "r0 \<in> set (af_evidence scoped)"
      "r = tag_row rq r0" "row_key r0 \<notin> row_key ` set (af_evidence f)" by blast
    moreover have "ev_via (tag_row rq r0) \<noteq> None \<and> ev_request_id (tag_row rq r0) = Some (rq_id rq)"
      by (simp add: tag_row_def split: option.split)
    ultimately show "ev_via r \<noteq> None \<and> (\<exists>(rq, scoped)\<in>set answers. ev_request_id r = Some (rq_id rq)
        \<and> row_key r \<in> row_key ` set (af_evidence scoped) \<and> row_key r \<notin> row_key ` set (af_evidence f))"
      by force
  qed
  with rows(1) show ?rows unfolding absorb_evidence Let_def by (auto intro: exI [of _ "[]"])
  note conf = absorb_fold_confidence [of "absorb_start f" prose answers]
  show ?kept using conf by (simp add: absorb_def Let_def)
  have "as_notes (absorb_start f) = []" by (simp add: absorb_start_def)
  with conf show ?changed by (simp add: absorb_def Let_def)
qed

definition ex_request :: request where
  "ex_request = hd ex_plan"

definition ex_answer :: "request \<times> agent_finding" where
  "ex_answer = (ex_request, ex_finding ''ctl'' [ex_row ''b'' ''2''])"

text \<open>
  C31: The ranking covers exactly the evidence the topology knows: one cause per (entity, domain)
  pair that has a row resolving to the entity, no pair twice, ordered by score, then first
  seen, then name, and numbered C1, C2, ... without repetition.
\<close>
theorem rank_causes_complete:
  "cause_key ` set (rank_causes fs topo cat alarms) = (\<Union>f\<in>set fs. grouped_keys (build_graph cat topo) f)
   \<and> distinct (map cause_key (rank_causes fs topo cat alarms))
   \<and> sorted (map cause_order (rank_causes fs topo cat alarms))
   \<and> map rk_id (rank_causes fs topo cat alarms) = map (\<lambda>i. cause_id (Suc i)) [0..<length (rank_causes fs topo cat alarms)]
   \<and> distinct (map rk_id (rank_causes fs topo cat alarms))"
proof (intro conjI)
  let ?s = "scored fs topo cat alarms"
  show "cause_key ` set (rank_causes fs topo cat alarms) = (\<Union>f\<in>set fs. grouped_keys (build_graph cat topo) f)"
    by (rule rank_causes_keys(2))
  show "distinct (map cause_key (rank_causes fs topo cat alarms))"
    unfolding rank_causes_keys(1) distinct_map_sort_key scored_keys by (rule distinct_group_rows)
  have "map cause_order (rank_causes fs topo cat alarms) = map cause_order (sort_key cause_order ?s)"
    unfolding rank_causes_scored by (rule number_causes_map) (simp add: cause_order_def)
  then show "sorted (map cause_order (rank_causes fs topo cat alarms))" by simp
  show ids: "map rk_id (rank_causes fs topo cat alarms)
      = map (\<lambda>i. cause_id (Suc i)) [0..<length (rank_causes fs topo cat alarms)]"
    unfolding rank_causes_scored number_causes_ids by (simp add: number_causes_nth)
  show "distinct (map rk_id (rank_causes fs topo cat alarms))"
    unfolding ids by (auto simp: distinct_map inj_on_def cause_id_def nat_str_inj)
qed

text \<open>
  Scores are comparable: with weights and finding confidences that are not negative every
  feature and every score lies between 0 and 1.
\<close>

lemma rank_causes_bounded:
  assumes "weights_ok (cat_investigation cat)" and "\<forall>f\<in>set fs. 0 \<le> af_confidence f"
    and "c \<in> set (rank_causes fs topo cat alarms)"
  shows "0 \<le> rk_score c \<and> rk_score c \<le> 1 \<and> features_unit (rk_features c)"
proof -
  let ?g = "build_graph cat topo"
  have ok: "groups_ok (group_rows fs ?g)" by (rule group_rows_ok [OF assms(2)])
  have "(\<lambda>c. (rk_score c, rk_features c)) ` set (rank_causes fs topo cat alarms)
      = (\<lambda>c. (rk_score c, rk_features c)) ` set (scored fs topo cat alarms)"
    by (rule rank_causes_image) simp
  with assms(3) obtain c' where c': "c' \<in> set (scored fs topo cat alarms)"
    "(rk_score c, rk_features c) = (rk_score c', rk_features c')" by blast
  then obtain x ts onset where x: "x \<in> set (group_rows fs ?g)" "c' = score_group cat ?g ts onset x"
    by (auto simp: scored_def Let_def)
  have "0 \<le> gr_confidence (snd x)" using ok x(1) by (auto simp: groups_ok_def)
  with x(2) c'(2) score_group_unit [OF assms(1), of x ?g ts onset] show ?thesis by simp
qed

end
