(* ===== verification/Analyze.thy ===== *)
theory Analyze
  imports Correlation Investigate
begin

text \<open>
  Domain analysis (\<open>detection/analyze.py\<close>): a telemetry response becomes a finding. Signals
  are classified against the catalog, grouped into observations, judged by their rules,
  counted per entity, and reported as key events, evidence rows, a rendered summary, a
  confidence and the live state of every hit entity. An exception of the code is an
  \<open>analysis_error\<close>. Object identity (\<open>events[id(obs)]\<close>) is recomputation of the event.
\<close>

datatype analysis_error =
    RuleError rule_error
  | TemplateError template_error
  | NoDomain string
  | NoSignal string
  | NoVariant

definition lift_rule :: "rule_error + 'a \<Rightarrow> analysis_error + 'a" where
  "lift_rule r = (case r of Inl e \<Rightarrow> Inl (RuleError e) | Inr v \<Rightarrow> Inr v)"

definition lift_template :: "template_error + 'a \<Rightarrow> analysis_error + 'a" where
  "lift_template r = (case r of Inl e \<Rightarrow> Inl (TemplateError e) | Inr v \<Rightarrow> Inr v)"

definition MAX_UNCLASSIFIED :: nat where "MAX_UNCLASSIFIED = 20"
definition MAX_EVIDENCE :: nat where "MAX_EVIDENCE = 50"
definition MAX_REFS_PER_ROW :: nat where "MAX_REFS_PER_ROW = 5"
definition MAX_UNCLASSIFIED_TEXT :: nat where "MAX_UNCLASSIFIED_TEXT = 300"

fun role_rank :: "role option \<Rightarrow> nat" where
  "role_rank (Some Cause) = 0"
| "role_rank None = 1"
| "role_rank (Some Symptom) = 2"

section \<open>Observations\<close>

record obs_hit =
  oh_signal :: signal
  oh_name :: string
  oh_hit :: rule_hit

record observation =
  ob_signals :: "signal list"
  ob_names :: "string list"
  ob_candidate :: bool
  ob_hits :: "obs_hit list"

record derived_hit =
  dh_entity :: entity
  dh_hit :: rule_hit

text \<open>\<open>signals[0]\<close>: an observation is never empty.\<close>

definition ob_entity :: "observation \<Rightarrow> entity" where "ob_entity ob = s_entity (hd (ob_signals ob))"
definition ob_time :: "observation \<Rightarrow> time" where "ob_time ob = s_timestamp (hd (ob_signals ob))"
abbreviation ob_node :: "observation \<Rightarrow> node" where "ob_node ob \<equiv> entity_node (ob_entity ob)"

type_synonym group_key = "time \<times> string \<times> string \<times> (string, string) dict \<times> pyval option"

definition group_key :: "signal \<Rightarrow> group_key" where
  "group_key s = (s_timestamp s, e_type (s_entity s), e_id (s_entity s), e_labels (s_entity s),
     map_of (s_attributes s) ''region'')"

definition signal_text :: "(pyval \<Rightarrow> string) \<Rightarrow> string list \<Rightarrow> signal \<Rightarrow> string option" where
  "signal_text F attrs s =
     (case List.map_filter (map_of (s_attributes s)) attrs of [] \<Rightarrow> None | v # _ \<Rightarrow> Some (py_str F v))"

definition EVENT_TEXT :: "string list" where "EVENT_TEXT = [''message'', ''sample'', ''details'']"
definition UNCLASSIFIED_TEXT :: "string list" where
  "UNCLASSIFIED_TEXT = [''message'', ''sample'', ''details'', ''request'']"

text \<open>\<open>_DIGITS.sub("#", text)\<close>: every run of digits becomes one \<open>#\<close>.\<close>

fun blank_digits :: "bool \<Rightarrow> string \<Rightarrow> string" where
  "blank_digits inrun [] = []"
| "blank_digits inrun (c # cs) =
     (if is_digit c then (if inrun then blank_digits True cs else CHR ''#'' # blank_digits True cs)
      else c # blank_digits False cs)"

definition text_key :: "(pyval \<Rightarrow> string) \<Rightarrow> observation \<Rightarrow> string" where
  "text_key F ob =
     (case List.map_filter (signal_text F EVENT_TEXT) (ob_signals ob) of [] \<Rightarrow> [] | t # _ \<Rightarrow> blank_digits False t)"

definition hit_signals :: "observation \<Rightarrow> string list" where
  "hit_signals ob = sorted_set (map (s_name \<circ> oh_signal) (ob_hits ob))"

type_synonym dedupe_key = "bool \<times> string list \<times> string \<times> string \<times> (string, string) dict \<times> string"

definition dedupe_key :: "(pyval \<Rightarrow> string) \<Rightarrow> observation \<Rightarrow> dedupe_key" where
  "dedupe_key F ob =
     (ob_hits ob \<noteq> [], if ob_hits ob \<noteq> [] then hit_signals ob else sorted_set (ob_names ob),
      e_type (ob_entity ob), e_id (ob_entity ob), sort (e_labels (ob_entity ob)), text_key F ob)"

definition override_role :: "(string, role) dict \<Rightarrow> string list \<Rightarrow> role option" where
  "override_role ov present = map_option snd (find (\<lambda>(other, _). other \<in> set present) ov)"

definition roles_of :: "catalog \<Rightarrow> string list \<Rightarrow> role option list" where
  "roles_of cat names =
     map (\<lambda>n. let ov = (case map_of (iv_role_with (cat_investigation cat)) n of None \<Rightarrow> [] | Some d \<Rightarrow> d)
              in case override_role ov names of Some r \<Rightarrow> Some r | None \<Rightarrow> signal_role cat n) names"

definition role_of :: "catalog \<Rightarrow> string list \<Rightarrow> role option" where
  "role_of cat names =
     (let roles = set (roles_of cat names)
      in if Some Cause \<in> roles then Some Cause else if Some Symptom \<in> roles then Some Symptom else None)"

definition obs_role :: "catalog \<Rightarrow> observation \<Rightarrow> role option" where
  "obs_role cat ob = role_of cat (map (s_name \<circ> oh_signal) (ob_hits ob) @ map oh_name (ob_hits ob))"

section \<open>Key events\<close>

definition fired_of :: "obs_hit \<Rightarrow> rule_fired" where
  "fired_of h = \<lparr>rf_signal = s_name (oh_signal h), rf_rule = h_rule_id (oh_hit h),
     rf_reason = h_reason (oh_hit h), rf_ref = s_evidence_ref (oh_signal h)\<rparr>"

text \<open>A reference is kept when it is a non-empty string.\<close>

definition ref_of :: "signal \<Rightarrow> string option" where
  "ref_of s = (case s_evidence_ref s of None \<Rightarrow> None | Some r \<Rightarrow> if r = [] then None else Some r)"

definition event_fields :: "observation \<Rightarrow> domain_def \<Rightarrow> (string, pyval) dict" where
  "event_fields ob dd =
     (let e = ob_entity ob;
          d0 = [(''timestamp'', PTime (ob_time ob))];
          d1 = (case d_entity_field dd of None \<Rightarrow> d0 | Some f \<Rightarrow> if f = [] then d0 else AList.update f (PStr (e_id e)) d0);
          d2 = fold (\<lambda>s d. case s_value s of None \<Rightarrow> d | Some v \<Rightarrow> AList.update (s_name s) (PNum v) d) (ob_signals ob) d1;
          d3 = fold (\<lambda>s. fold (\<lambda>(k, v). set_default k v) (s_attributes s)) (ob_signals ob) d2;
          d4 = (if e_labels e = [] then d3 else AList.update ''tags'' (PDict (map (\<lambda>(k, v). (k, PStr v)) (e_labels e))) d3);
          d5 = AList.update ''entity_id'' (PStr (e_id e)) (AList.update ''entity_type'' (PStr (e_type e)) d4)
      in case ob_signals ob of
           [s] \<Rightarrow> AList.update ''severity'' (PStr (severity_name (s_severity s))) (AList.update ''name'' (PStr (s_name s)) d5)
         | _ \<Rightarrow> d5)"

definition key_event_of :: "observation \<Rightarrow> domain_def \<Rightarrow> key_event" where
  "key_event_of ob dd =
     \<lparr>ke_fields = event_fields ob dd, ke_rules = map fired_of (ob_hits ob),
      ke_refs = List.map_filter ref_of (ob_signals ob), ke_count = 1\<rparr>"

definition template_view :: "printer \<Rightarrow> observation \<Rightarrow> domain_def \<Rightarrow> pyval" where
  "template_view P ob dd =
     PDict (AList.update ''reasons''
       (PStr (join_with '', '' (uniq (map (pr_reason P \<circ> h_reason \<circ> oh_hit) (ob_hits ob)))))
       (ke_dict (pr_reason P) (key_event_of ob dd)))"

section \<open>Evidence rows\<close>

definition obs_severity :: "observation \<Rightarrow> severity" where
  "obs_severity ob = (case map (s_severity \<circ> oh_signal) (ob_hits ob) of [] \<Rightarrow> Debug | x # xs \<Rightarrow> max_by severity_rank x xs)"

definition new_row :: "catalog \<Rightarrow> observation \<Rightarrow> evidence_row" where
  "new_row cat ob = \<lparr>ev_type = e_type (ob_entity ob), ev_id = e_id (ob_entity ob), ev_signals = hit_signals ob,
     ev_role = obs_role cat ob, ev_severity = obs_severity ob, ev_first_seen = ob_time ob, ev_last_seen = ob_time ob,
     ev_onset = None, ev_count = 0, ev_rules_fired = map fired_of (ob_hits ob), ev_refs = [],
     ev_via = None, ev_requested_by = None, ev_request_id = None, ev_why = []\<rparr>"

definition add_ref :: "obs_hit \<Rightarrow> string list \<Rightarrow> string list" where
  "add_ref h refs =
     (case ref_of (oh_signal h) of
        None \<Rightarrow> refs
      | Some r \<Rightarrow> if r \<notin> set refs \<and> length refs < MAX_REFS_PER_ROW then refs @ [r] else refs)"

definition bump_row :: "observation \<Rightarrow> evidence_row \<Rightarrow> evidence_row" where
  "bump_row ob r =
     r\<lparr>ev_count := Suc (ev_count r), ev_first_seen := min (ev_first_seen r) (ob_time ob),
       ev_last_seen := max (ev_last_seen r) (ob_time ob),
       ev_severity := (if severity_rank (obs_severity ob) > severity_rank (ev_severity r) then obs_severity ob else ev_severity r),
       ev_refs := fold add_ref (ob_hits ob) (ev_refs r)\<rparr>"

definition add_evidence :: "(pyval \<Rightarrow> string) \<Rightarrow> catalog \<Rightarrow> observation \<Rightarrow> (dedupe_key, evidence_row) dict
    \<Rightarrow> (dedupe_key, evidence_row) dict" where
  "add_evidence F cat ob rows =
     (let row = (case map_of rows (dedupe_key F ob) of None \<Rightarrow> new_row cat ob | Some r \<Rightarrow> r)
      in AList.update (dedupe_key F ob) (bump_row ob row) rows)"

definition row_order :: "evidence_row \<Rightarrow> nat \<times> int \<times> time" where
  "row_order r = (role_rank (ev_role r), - int (severity_rank (ev_severity r)), ev_first_seen r)"

definition evidence_rows :: "(pyval \<Rightarrow> string) \<Rightarrow> catalog \<Rightarrow> observation list \<Rightarrow> evidence_row list" where
  "evidence_rows F cat hit_obs =
     take MAX_EVIDENCE (sort_key row_order (vals (fold (add_evidence F cat) hit_obs [])))"

section \<open>Firing state\<close>

type_synonym series_id = "string \<times> string \<times> string"  \<comment> \<open>entity type, entity id, catalog name\<close>
type_synonym firing = "(series_id, (time \<times> bool) list) dict"

definition add_sample :: "series_id \<Rightarrow> time \<times> bool \<Rightarrow> firing \<Rightarrow> firing" where
  "add_sample k x fr = AList.update k ((case map_of fr k of None \<Rightarrow> [] | Some xs \<Rightarrow> xs) @ [x]) fr"

text \<open>The times at which a series goes bad, and how often it changes.\<close>

fun edges :: "bool \<Rightarrow> (time \<times> bool) list \<Rightarrow> time list" where
  "edges bad [] = []"
| "edges bad ((t, hit) # xs) = (if hit \<and> \<not> bad then t # edges hit xs else edges hit xs)"

fun flips :: "bool list \<Rightarrow> nat" where
  "flips (a # b # xs) = (if a \<noteq> b then 1 else 0) + flips (b # xs)"
| "flips _ = 0"

definition by_time :: "(time \<times> bool) list \<Rightarrow> (time \<times> bool) list" where
  "by_time xs = sort_key fst xs"

definition cats_of :: "observation list \<Rightarrow> string \<Rightarrow> string \<Rightarrow> string \<Rightarrow> string list" where
  "cats_of hit_obs t i name =
     concat (map (\<lambda>ob. if ob_node ob = (t, i)
                        then map oh_name (filter (\<lambda>h. s_name (oh_signal h) = name) (ob_hits ob)) else []) hit_obs)"

definition onset_candidates :: "observation list \<Rightarrow> firing \<Rightarrow> series_id list \<Rightarrow> evidence_row \<Rightarrow> time list" where
  "onset_candidates hit_obs fr stateful r =
     concat (map (\<lambda>name. concat (map (\<lambda>c.
         let k = (ev_type r, ev_id r, c) in
         if k \<notin> set stateful then []
         else (case rev (edges False (by_time (case map_of fr k of None \<Rightarrow> [] | Some xs \<Rightarrow> xs))) of
                 [] \<Rightarrow> [] | t # _ \<Rightarrow> [t]))
       (cats_of hit_obs (ev_type r) (ev_id r) name))) (ev_signals r))"

definition with_onset :: "observation list \<Rightarrow> firing \<Rightarrow> series_id list \<Rightarrow> evidence_row \<Rightarrow> evidence_row" where
  "with_onset hit_obs fr stateful r =
     r\<lparr>ev_onset := Some (case onset_candidates hit_obs fr stateful r of [] \<Rightarrow> ev_first_seen r | t # ts \<Rightarrow> max_list t ts)\<rparr>"

definition series_samples :: "firing \<Rightarrow> series_id list \<Rightarrow> node \<Rightarrow> (time \<times> bool) list list" where
  "series_samples fr stateful n =
     map (by_time \<circ> snd) (filter (\<lambda>((t, i, c), _). (t, i) = n \<and> (t, i, c) \<in> set stateful) fr)"

definition live_of :: "(time \<times> bool) list list \<Rightarrow> live_state" where
  "live_of series =
     (case map last series of
        [] \<Rightarrow> UnknownState
      | x # xs \<Rightarrow> if snd (max_by fst x xs) then Firing else Cleared)"

definition status_of :: "firing \<Rightarrow> series_id list \<Rightarrow> node \<Rightarrow> entity_status" where
  "status_of fr stateful n =
     (let series = series_samples fr stateful n
      in \<lparr>st_type = fst n, st_id = snd n, st_state = live_of series,
          st_episodes = max_list 0 (map (length \<circ> edges False) series),
          st_transitions = sum_list (map (flips \<circ> map snd) series)\<rparr>)"

definition entity_statuses :: "observation list \<Rightarrow> firing \<Rightarrow> series_id list \<Rightarrow> entity_status list" where
  "entity_statuses hit_obs fr stateful = map (status_of fr stateful) (uniq (map ob_node hit_obs))"

section \<open>Unclassified signals\<close>

definition unclassified_row_of :: "(pyval \<Rightarrow> string) \<Rightarrow> signal \<Rightarrow> unclassified_row" where
  "unclassified_row_of F s = \<lparr>un_name = s_name s, un_signal_type = s_type s, un_source = s_source s,
     un_entity = entity_node (s_entity s), un_value = s_value s, un_severity = s_severity s,
     un_timestamp = s_timestamp s, un_ref = s_evidence_ref s,
     un_text = map_option (take MAX_UNCLASSIFIED_TEXT) (signal_text F UNCLASSIFIED_TEXT s),
     un_count = 0, un_last_seen = s_timestamp s, un_min = None, un_max = None, un_refs = []\<rparr>"

type_synonym unclassified_key = "string \<times> string \<times> string \<times> string"

definition unclassified_key :: "(pyval \<Rightarrow> string) \<Rightarrow> signal \<Rightarrow> unclassified_key" where
  "unclassified_key F s = (s_name s, e_type (s_entity s), e_id (s_entity s),
     (case signal_text F UNCLASSIFIED_TEXT s of None \<Rightarrow> [] | Some t \<Rightarrow> blank_digits False t))"

definition bump_unclassified :: "signal \<Rightarrow> unclassified_row \<Rightarrow> unclassified_row" where
  "bump_unclassified s r =
     (let r1 = r\<lparr>un_count := Suc (un_count r), un_last_seen := s_timestamp s\<rparr>;
          r2 = (case s_value s of
                  None \<Rightarrow> r1
                | Some v \<Rightarrow> r1\<lparr>un_value := Some v,
                     un_min := Some (case un_min r of None \<Rightarrow> v | Some m \<Rightarrow> min m v),
                     un_max := Some (case un_max r of None \<Rightarrow> v | Some m \<Rightarrow> max m v)\<rparr>);
          r3 = (if severity_rank (s_severity s) > severity_rank (un_severity r2) then r2\<lparr>un_severity := s_severity s\<rparr> else r2)
      in case ref_of s of
           None \<Rightarrow> r3
         | Some ref \<Rightarrow> if length (un_refs r3) < MAX_REFS_PER_ROW then r3\<lparr>un_refs := un_refs r3 @ [ref]\<rparr> else r3)"

definition add_unclassified :: "(pyval \<Rightarrow> string) \<Rightarrow> signal \<Rightarrow> (unclassified_key, unclassified_row) dict
    \<Rightarrow> (unclassified_key, unclassified_row) dict" where
  "add_unclassified F s rows =
     (let k = unclassified_key F s; row = (case map_of rows k of None \<Rightarrow> unclassified_row_of F s | Some r \<Rightarrow> r)
      in AList.update k (bump_unclassified s row) rows)"

definition unclassified_rows :: "(pyval \<Rightarrow> string) \<Rightarrow> signal list \<Rightarrow> unclassified_row list" where
  "unclassified_rows F sigs =
     take MAX_UNCLASSIFIED
       (sort_key (\<lambda>r. (- int (severity_rank (un_severity r)), un_timestamp r))
         (vals (fold (add_unclassified F) (sort_key s_timestamp sigs) [])))"

section \<open>The analysis\<close>

definition variant_matches :: "summary_variant \<Rightarrow> string list \<Rightarrow> nat \<Rightarrow> derived_hit list \<Rightarrow> bool" where
  "variant_matches v hit_names candidates derived =
     (case sv_when v of
        None \<Rightarrow> True
      | Some w \<Rightarrow>
          \<not> (case sc_hit_names_any w of None \<Rightarrow> False | Some ns \<Rightarrow> set hit_names \<inter> set ns = {})
          \<and> \<not> (case sc_candidates_present w of None \<Rightarrow> False | Some b \<Rightarrow> (candidates > 0) \<noteq> b)
          \<and> \<not> (case sc_derived_hits w of None \<Rightarrow> False | Some b \<Rightarrow> (derived \<noteq> []) \<noteq> b))"

definition pick :: "summary_variant list \<Rightarrow> string list \<Rightarrow> nat \<Rightarrow> derived_hit list \<Rightarrow> summary_variant list" where
  "pick vs hit_names candidates derived = filter (\<lambda>v. variant_matches v hit_names candidates derived) vs"

fun cov_status_name :: "cov_status \<Rightarrow> string" where
  "cov_status_name CovOk = ''ok''"
| "cov_status_name CovPartial = ''partial''"
| "cov_status_name CovFailed = ''failed''"

definition coverage_problem :: "tool_response \<Rightarrow> string" where
  "coverage_problem r =
     (let problems = map (\<lambda>c. c_source c @ '': '' @ str_or (c_error c) (cov_status_name (c_status c)))
                       (filter (\<lambda>c. c_status c \<noteq> CovOk) (r_coverage r));
          t = take 300 (join_with ''; '' problems)
      in if t = [] then ''no source reported coverage'' else t)"

record analysis_env =
  ae_region :: string
  ae_description :: string
  ae_lookup :: "(string \<Rightarrow> string \<Rightarrow> entity_baseline option) option"
  ae_legacy :: bool
  ae_now :: time
  ae_scoped :: bool
  ae_after :: "signal list"

text \<open>Step 1: known signals of the domain (before and in the window), and unknown ones.\<close>

definition owned :: "catalog \<Rightarrow> string \<Rightarrow> signal \<Rightarrow> bool" where
  "owned cat domain s = (case cat_signal cat (s_name s) of None \<Rightarrow> False | Some (_, sd) \<Rightarrow> sd_domain sd = domain)"

definition cat_name :: "catalog \<Rightarrow> signal \<Rightarrow> string" where
  "cat_name cat s = (case cat_signal cat (s_name s) of None \<Rightarrow> [] | Some (n, _) \<Rightarrow> n)"

definition current_signals :: "catalog \<Rightarrow> string \<Rightarrow> tool_response \<Rightarrow> (signal \<times> string) list" where
  "current_signals cat domain r =
     map (\<lambda>s. (s, cat_name cat s))
       (filter (\<lambda>s. owned cat domain s \<and> \<not> s_timestamp s < w_start (r_window r)) (r_signals r))"

definition baseline_signals :: "catalog \<Rightarrow> string \<Rightarrow> tool_response \<Rightarrow> signal list" where
  "baseline_signals cat domain r =
     filter (\<lambda>s. owned cat domain s \<and> s_timestamp s < w_start (r_window r)) (r_signals r)"

definition unknown_signals :: "catalog \<Rightarrow> tool_response \<Rightarrow> signal list" where
  "unknown_signals cat r = filter (\<lambda>s. cat_signal cat (s_name s) = None) (r_signals r)"

definition add_series :: "signal \<Rightarrow> (series_key, signal list) dict \<Rightarrow> (series_key, signal list) dict" where
  "add_series s d = AList.update (series_key s) (series_of d s @ [s]) d"

definition rule_context :: "printer \<Rightarrow> analysis_env \<Rightarrow> (signal \<times> string) list \<Rightarrow> signal list \<Rightarrow> rule_ctx" where
  "rule_context P env current base =
     \<lparr>ctx_region = ae_region env, ctx_series = fold add_series (sort_key s_timestamp (map fst current)) [],
      ctx_baseline_series = fold add_series (sort_key s_timestamp base) [], ctx_lookup = ae_lookup env,
      ctx_legacy_fallback = ae_legacy env, ctx_str = pr_val P\<rparr>"

text \<open>Step 2: observations.\<close>

definition add_grouped :: "signal \<times> string \<Rightarrow> (group_key, observation) dict \<Rightarrow> (group_key, observation) dict" where
  "add_grouped x d =
     (let k = group_key (fst x);
          ob = (case map_of d k of
                  None \<Rightarrow> \<lparr>ob_signals = [], ob_names = [], ob_candidate = False, ob_hits = []\<rparr> | Some ob \<Rightarrow> ob)
      in AList.update k (ob\<lparr>ob_signals := ob_signals ob @ [fst x], ob_names := ob_names ob @ [snd x]\<rparr>) d)"

definition observe :: "domain_def \<Rightarrow> (signal \<times> string) list \<Rightarrow> observation list" where
  "observe dd current =
     (if d_observation dd = ObsEntityTime then vals (fold add_grouped current [])
      else map (\<lambda>(s, n). \<lparr>ob_signals = [s], ob_names = [n], ob_candidate = False, ob_hits = []\<rparr>) current)"

text \<open>Step 3: rules and relevance.\<close>

definition filtered_out :: "printer \<Rightarrow> domain_def \<Rightarrow> analysis_env \<Rightarrow> string \<Rightarrow> signal \<Rightarrow> analysis_error + bool" where
  "filtered_out P dd env name s =
     (case d_relevance dd of
        None \<Rightarrow> Inr False
      | Some spec \<Rightarrow>
          if ae_scoped env \<or> name \<notin> set (rv_applies_to spec) then Inr False
          else (case is_relevant (pr_val P) spec s (ae_description env) of
                  Inl e \<Rightarrow> Inl (RuleError e) | Inr b \<Rightarrow> Inr (\<not> b)))"

definition judge :: "printer \<Rightarrow> catalog \<Rightarrow> domain_def \<Rightarrow> analysis_env \<Rightarrow> rule_ctx \<Rightarrow> signal \<times> string
    \<Rightarrow> observation \<Rightarrow> analysis_error + observation" where
  "judge P cat dd env ctx x ob =
     (case x of (s, name) \<Rightarrow>
        case map_of (cat_signals cat) name of
          None \<Rightarrow> Inl (NoSignal name)
        | Some sd \<Rightarrow>
            (case sd_rule sd of
               None \<Rightarrow> Inr ob
             | Some r \<Rightarrow>
                 let ob1 = ob\<lparr>ob_candidate := True\<rparr> in
                 (case evaluate r s ctx (rule_id name r) (name # sd_match_names sd) of
                    Inl e \<Rightarrow> Inl (RuleError e)
                  | Inr None \<Rightarrow> Inr ob1
                  | Inr (Some h) \<Rightarrow>
                      (case filtered_out P dd env name s of
                         Inl e \<Rightarrow> Inl e
                       | Inr True \<Rightarrow> Inr ob1
                       | Inr False \<Rightarrow> Inr (ob1\<lparr>ob_hits := ob_hits ob1 @ [\<lparr>oh_signal = s, oh_name = name, oh_hit = h\<rparr>]\<rparr>)))))"

definition judge_obs :: "printer \<Rightarrow> catalog \<Rightarrow> domain_def \<Rightarrow> analysis_env \<Rightarrow> rule_ctx \<Rightarrow> observation
    \<Rightarrow> analysis_error + observation" where
  "judge_obs P cat dd env ctx ob =
     fold_sum (judge P cat dd env ctx) (zip (ob_signals ob) (ob_names ob)) ob"

text \<open>Step 4: derived per-entity counts.\<close>

definition count_hit :: "observation \<Rightarrow> (node, entity \<times> nat \<times> signal) dict \<Rightarrow> (node, entity \<times> nat \<times> signal) dict" where
  "count_hit ob d =
     (let (e, n, s) = (case map_of d (ob_node ob) of None \<Rightarrow> (ob_entity ob, 0, hd (ob_signals ob)) | Some x \<Rightarrow> x)
      in AList.update (ob_node ob) (e, Suc n, s) d)"

definition synthetic :: "domain_def \<Rightarrow> analysis_env \<Rightarrow> string \<Rightarrow> entity \<times> nat \<times> signal \<Rightarrow> signal" where
  "synthetic dd env name x =
     (case x of (e, n, sample) \<Rightarrow>
        \<lparr>s_type = Metric, s_timestamp = s_timestamp sample, s_observed_at = s_observed_at sample, s_entity = e,
         s_name = name, s_value = Some (real n), s_unit = None, s_severity = Info, s_domain = d_telemetry dd,
         s_source = ''derived'',
         s_attributes = [(''region'', case map_of (s_attributes sample) ''region'' of
                                        None \<Rightarrow> PStr (ae_region env) | Some v \<Rightarrow> v)],
         s_evidence_ref = None\<rparr>)"

definition derive_one :: "domain_def \<Rightarrow> analysis_env \<Rightarrow> rule_ctx \<Rightarrow> string \<Rightarrow> signal_def
    \<Rightarrow> entity \<times> nat \<times> signal \<Rightarrow> derived_hit list \<Rightarrow> analysis_error + derived_hit list" where
  "derive_one dd env ctx name sd x acc =
     (case sd_rule sd of
        None \<Rightarrow> Inr acc
      | Some r \<Rightarrow>
          (case evaluate r (synthetic dd env name x) ctx (rule_id name r) [name] of
             Inl e \<Rightarrow> Inl (RuleError e)
           | Inr None \<Rightarrow> Inr acc
           | Inr (Some h) \<Rightarrow> Inr (acc @ [\<lparr>dh_entity = fst x, dh_hit = h\<rparr>])))"

definition derive_signal :: "catalog \<Rightarrow> domain_def \<Rightarrow> analysis_env \<Rightarrow> rule_ctx \<Rightarrow> observation list \<Rightarrow> string
    \<Rightarrow> derived_hit list \<Rightarrow> analysis_error + derived_hit list" where
  "derive_signal cat dd env ctx hit_obs name acc =
     (case map_of (cat_signals cat) name of
        None \<Rightarrow> Inl (NoSignal name)
      | Some sd \<Rightarrow> fold_sum (derive_one dd env ctx name sd) (vals (fold count_hit hit_obs [])) acc)"

text \<open>Step 5: key events, deduplicated and with causes first.\<close>

definition key_events_of :: "printer \<Rightarrow> catalog \<Rightarrow> domain_def \<Rightarrow> observation list \<Rightarrow> key_event list" where
  "key_events_of P cat dd obs =
     (let hit_obs = filter (\<lambda>ob. ob_hits ob \<noteq> []) obs;
          src = (case d_ke_source dd of KeAll \<Rightarrow> obs | KeHits \<Rightarrow> hit_obs
                 | KeHitsElseAll \<Rightarrow> if hit_obs \<noteq> [] then hit_obs else obs);
          F = pr_val P;
          deduped = fold (\<lambda>ob. set_default (dedupe_key F ob) ob) src [];
          ordered = sort_key (\<lambda>ob. role_rank (obs_role cat ob)) (vals deduped)
      in map (\<lambda>ob. (key_event_of ob dd)
             \<lparr>ke_count := length (filter (\<lambda>ob'. dedupe_key F ob' = dedupe_key F ob) src)\<rparr>)
           (take (d_ke_limit dd) ordered))"

text \<open>Step 7: firing state over the window and the samples after it.\<close>

definition firing_of_obs :: "node list \<Rightarrow> observation \<Rightarrow> firing \<times> series_id list \<Rightarrow> firing \<times> series_id list" where
  "firing_of_obs hit_nodes ob st =
     (if ob_node ob \<notin> set hit_nodes then st
      else fold (\<lambda>(s, name) (fr, stateful).
             let k = (e_type (ob_entity ob), e_id (ob_entity ob), name)
             in (add_sample k (ob_time ob, name \<in> oh_name ` set (ob_hits ob)) fr,
                 if s_type s \<noteq> Event then stateful @ [k] else stateful))
           (zip (ob_signals ob) (ob_names ob)) st)"

definition firing_of_after :: "catalog \<Rightarrow> string \<Rightarrow> rule_ctx \<Rightarrow> node list \<Rightarrow> signal
    \<Rightarrow> firing \<times> series_id list \<Rightarrow> analysis_error + (firing \<times> series_id list)" where
  "firing_of_after cat domain ctx hit_nodes s st =
     (if entity_node (s_entity s) \<notin> set hit_nodes then Inr st
      else case cat_signal cat (s_name s) of
        None \<Rightarrow> Inr st
      | Some (name, sd) \<Rightarrow>
          if sd_domain sd \<noteq> domain then Inr st
          else (case sd_rule sd of
              None \<Rightarrow> Inr st
            | Some r \<Rightarrow>
                (case evaluate r s ctx (rule_id name r) (name # sd_match_names sd) of
                   Inl e \<Rightarrow> Inl (RuleError e)
                 | Inr h \<Rightarrow>
                     let k = (e_type (s_entity s), e_id (s_entity s), name)
                     in Inr (add_sample k (s_timestamp s, h \<noteq> None) (fst st),
                             if s_type s \<noteq> Event then snd st @ [k] else snd st))))"

text \<open>The view the templates see.\<close>

definition rank_score :: "printer \<Rightarrow> domain_def \<Rightarrow> observation \<Rightarrow> real" where
  "rank_score P dd ob =
     sum_list (map (\<lambda>f. case map_of (ke_dict (pr_reason P) (key_event_of ob dd)) f of
         None \<Rightarrow> 0
       | Some v \<Rightarrow> if \<not> truthy v then 0 else (case py_float v of None \<Rightarrow> 0 | Some x \<Rightarrow> x)) (d_rank_by dd))"

definition z_or_0 :: "derived_hit \<Rightarrow> real" where
  "z_or_0 d = (case h_z (dh_hit d) of None \<Rightarrow> 0 | Some z \<Rightarrow> z)"

definition derived_view :: "printer \<Rightarrow> derived_hit list \<Rightarrow> (string \<times> pyval) list" where
  "derived_view P derived =
     (case derived of
        [] \<Rightarrow> []
      | d # ds \<Rightarrow>
          let top = max_by z_or_0 d ds
          in [(''entity_id'', PStr (e_id (dh_entity top))), (''entity_type'', PStr (e_type (dh_entity top))),
              (''z'', opt_val (h_z (dh_hit top))), (''reason'', PStr (pr_reason P (h_reason (dh_hit top))))])"

definition tally_of :: "observation list \<Rightarrow> (string, nat) dict" where
  "tally_of hit_obs =
     fold (\<lambda>ob d. AList.update (e_id (ob_entity ob)) (Suc (case map_of d (e_id (ob_entity ob)) of None \<Rightarrow> 0 | Some n \<Rightarrow> n)) d) hit_obs []"

definition hit_view :: "printer \<Rightarrow> domain_def \<Rightarrow> observation list \<Rightarrow> (string, pyval) dict" where
  "hit_view P dd hit_obs =
     (case hit_obs of
        [] \<Rightarrow> []
      | ob # obs \<Rightarrow>
          [(''top_entity'', PStr (case tally_of hit_obs of [] \<Rightarrow> [] | x # xs \<Rightarrow> fst (max_by snd x xs))),
           (''first'', template_view P ob dd),
           (''latest'', template_view P (max_by ob_time ob obs) dd),
           (''worst'', template_view P (max_by (rank_score P dd) ob obs) dd)])"

definition view_of :: "printer \<Rightarrow> string \<Rightarrow> domain_def \<Rightarrow> observation list \<Rightarrow> derived_hit list \<Rightarrow> (string, pyval) dict" where
  "view_of P domain dd obs derived =
     (let hit_obs = filter (\<lambda>ob. ob_hits ob \<noteq> []) obs
      in [(''domain'', PStr domain), (''hit_count'', PNum (real (length hit_obs))),
          (''candidate_count'', PNum (real (length (filter ob_candidate obs)))),
          (''observation_count'', PNum (real (length obs))),
          (''entity_count'', PNum (real (length (uniq (map (e_id \<circ> ob_entity) hit_obs))))),
          (''derived'', PDict (derived_view P derived))] @ hit_view P dd hit_obs)"

definition render_all :: "printer \<Rightarrow> summary_variant list \<Rightarrow> (string, pyval) dict \<Rightarrow> string \<Rightarrow> analysis_error + string" where
  "render_all P vs view start =
     fold_sum (\<lambda>v acc. case render P (sv_template v) view of Inl e \<Rightarrow> Inl (TemplateError e) | Inr t \<Rightarrow> Inr (acc @ t)) vs start"

definition summary_of :: "printer \<Rightarrow> string \<Rightarrow> domain_def \<Rightarrow> observation list \<Rightarrow> derived_hit list \<Rightarrow> analysis_error + string" where
  "summary_of P domain dd obs derived =
     (let hit_obs = filter (\<lambda>ob. ob_hits ob \<noteq> []) obs;
          names = concat (map (\<lambda>ob. map oh_name (ob_hits ob)) hit_obs)
                  @ concat (map (\<lambda>ob. map (s_name \<circ> oh_signal) (ob_hits ob)) hit_obs);
          candidates = length (filter ob_candidate obs);
          view = view_of P domain dd obs derived
      in if hit_obs \<noteq> [] then
           (case pick (ss_anomaly (d_summary dd)) names candidates derived of
              [] \<Rightarrow> Inl NoVariant
            | v # _ \<Rightarrow> render_all P (v # pick (ss_suffixes (d_summary dd)) names candidates derived) view [])
         else
           (case pick (ss_clean (d_summary dd)) names candidates derived of
              [] \<Rightarrow> Inl NoVariant
            | v # _ \<Rightarrow> render_all P [v] view []))"

definition confidence_of :: "domain_def \<Rightarrow> nat \<Rightarrow> derived_hit list \<Rightarrow> real" where
  "confidence_of dd hits derived =
     (let c = d_confidence dd in
      if hits \<noteq> 0 then
        min (cf_max c) (cf_base c + cf_per_hit c * real hits
          + cf_derived_z_weight c * (case map z_or_0 derived of [] \<Rightarrow> 0 | z # zs \<Rightarrow> max_list z zs))
      else cf_clean c)"

definition NOT_VERIFIED :: string where
  "NOT_VERIFIED = ''); no anomaly in the data that was retrieved, so this domain is NOT verified clean''"

definition degraded_summary :: "tool_response \<Rightarrow> bool \<Rightarrow> string \<Rightarrow> string" where
  "degraded_summary r anomaly summary =
     (if \<not> degraded (r_coverage r) then summary
      else if anomaly then summary @ ''; telemetry partially unavailable ('' @ coverage_problem r @ '')''
      else ''Telemetry incomplete for this window ('' @ coverage_problem r @ NOT_VERIFIED)"

text \<open>The judged observations and the derived hits of a response.\<close>

definition detect :: "printer \<Rightarrow> catalog \<Rightarrow> string \<Rightarrow> domain_def \<Rightarrow> analysis_env \<Rightarrow> tool_response
    \<Rightarrow> analysis_error + (observation list \<times> derived_hit list)" where
  "detect P cat domain dd env r =
     (let current = current_signals cat domain r;
          ctx = rule_context P env current (baseline_signals cat domain r)
      in case traverse (judge_obs P cat dd env ctx) (observe dd current) of
           Inl e \<Rightarrow> Inl e
         | Inr obs \<Rightarrow>
             (case fold_sum (derive_signal cat dd env ctx (filter (\<lambda>ob. ob_hits ob \<noteq> []) obs)) (d_derived dd) [] of
                Inl e \<Rightarrow> Inl e
              | Inr derived \<Rightarrow> Inr (obs, derived)))"

definition analyze_domain :: "printer \<Rightarrow> catalog \<Rightarrow> string \<Rightarrow> analysis_env \<Rightarrow> tool_response \<Rightarrow> analysis_error + agent_finding" where
  "analyze_domain P cat domain env r =
     (case cat_domain cat domain of
        None \<Rightarrow> Inl (NoDomain domain)
      | Some dd \<Rightarrow>
          (case detect P cat domain dd env r of
             Inl e \<Rightarrow> Inl e
           | Inr (obs, derived) \<Rightarrow>
               let current = current_signals cat domain r;
                   ctx = rule_context P env current (baseline_signals cat domain r);
                   hit_obs = filter (\<lambda>ob. ob_hits ob \<noteq> []) obs;
                   nodes = uniq (map ob_node hit_obs)
               in (case fold_sum (firing_of_after cat domain ctx nodes) (ae_after env)
                          (fold (firing_of_obs nodes) obs ([], [])) of
                     Inl e \<Rightarrow> Inl e
                   | Inr (fr, stateful) \<Rightarrow>
                       (case summary_of P domain dd obs derived of
                          Inl e \<Rightarrow> Inl e
                        | Inr summary \<Rightarrow>
                            let times = map ob_time (if d_time_range dd = RangeHitsElseAll \<and> hit_obs \<noteq> [] then hit_obs else obs)
                            in Inr \<lparr>af_agent = domain, af_domain = domain, af_anomaly = hit_obs \<noteq> [],
                                 af_summary = degraded_summary r (hit_obs \<noteq> []) summary,
                                 af_key_events = key_events_of P cat dd obs,
                                 af_start = (case times of [] \<Rightarrow> ae_now env | t # ts \<Rightarrow> min_list1 t ts),
                                 af_end = (case times of [] \<Rightarrow> ae_now env | t # ts \<Rightarrow> max_list t ts),
                                 af_confidence = confidence_of dd (length hit_obs) derived,
                                 af_revised = False, af_revision_count = 0,
                                 af_degraded = degraded (r_coverage r),
                                 af_unclassified = unclassified_rows (pr_val P) (unknown_signals cat r),
                                 af_evidence = map (with_onset hit_obs fr stateful) (evidence_rows (pr_val P) cat hit_obs),
                                 af_status = entity_statuses hit_obs fr stateful\<rparr>))))"

section \<open>Where hits come from\<close>

text \<open>Every (signal, catalog name) pair of an observation, and what grouping guarantees.\<close>

definition ob_pairs :: "observation \<Rightarrow> (signal \<times> string) list" where
  "ob_pairs ob = zip (ob_signals ob) (ob_names ob)"

definition fresh_obs :: "(signal \<times> string) set \<Rightarrow> observation \<Rightarrow> bool" where
  "fresh_obs X ob \<longleftrightarrow> ob_signals ob \<noteq> [] \<and> length (ob_names ob) = length (ob_signals ob) \<and> ob_hits ob = []
     \<and> set (ob_pairs ob) \<subseteq> X \<and> (\<forall>s\<in>set (ob_signals ob). s_timestamp s = ob_time ob \<and> entity_node (s_entity s) = ob_node ob)"

definition group_inv :: "(signal \<times> string) set \<Rightarrow> (group_key, observation) dict \<Rightarrow> bool" where
  "group_inv X d \<longleftrightarrow> distinct (keys d)
     \<and> (\<forall>k ob. map_of d k = Some ob \<longrightarrow> fresh_obs X ob \<and> (\<forall>s\<in>set (ob_signals ob). group_key s = k))"

lemma fresh_obs_mono: "fresh_obs X ob \<Longrightarrow> X \<subseteq> Y \<Longrightarrow> fresh_obs Y ob"
  by (auto simp: fresh_obs_def)

lemma fresh_single: "fresh_obs {(s, n)} \<lparr>ob_signals = [s], ob_names = [n], ob_candidate = False, ob_hits = []\<rparr>"
  by (simp add: fresh_obs_def ob_pairs_def ob_time_def ob_entity_def)

lemma fresh_extend:
  assumes "fresh_obs X ob" "\<forall>t\<in>set (ob_signals ob). group_key t = group_key s"
  shows "fresh_obs (insert (s, n) X) (ob\<lparr>ob_signals := ob_signals ob @ [s], ob_names := ob_names ob @ [n]\<rparr>)"
proof -
  have ne: "ob_signals ob \<noteq> []" and len: "length (ob_names ob) = length (ob_signals ob)"
    and sub: "set (ob_pairs ob) \<subseteq> X" and hits: "ob_hits ob = []"
    and same: "\<forall>t\<in>set (ob_signals ob). s_timestamp t = ob_time ob \<and> entity_node (s_entity t) = ob_node ob"
    using assms(1) unfolding fresh_obs_def by blast+
  have "group_key (hd (ob_signals ob)) = group_key s" using assms(2) ne by simp
  then have s: "s_timestamp s = ob_time ob \<and> entity_node (s_entity s) = ob_node ob"
    by (simp add: group_key_def ob_time_def ob_entity_def)
  have hd: "hd (ob_signals ob @ [s]) = hd (ob_signals ob)" using ne by simp
  have ent: "ob_entity (ob\<lparr>ob_signals := ob_signals ob @ [s], ob_names := ob_names ob @ [n]\<rparr>) = ob_entity ob"
    "ob_time (ob\<lparr>ob_signals := ob_signals ob @ [s], ob_names := ob_names ob @ [n]\<rparr>) = ob_time ob"
    by (simp_all add: ob_entity_def ob_time_def hd)
  have "set (ob_pairs (ob\<lparr>ob_signals := ob_signals ob @ [s], ob_names := ob_names ob @ [n]\<rparr>)) \<subseteq> insert (s, n) X"
    using sub len by (auto simp: ob_pairs_def)
  with s same len hits show ?thesis unfolding fresh_obs_def ent by auto
qed

lemma group_inv_step: "group_inv X d \<Longrightarrow> group_inv (insert x X) (add_grouped x d)"
proof -
  assume inv: "group_inv X d"
  obtain s n where x: "x = (s, n)" by force
  let ?old = "case map_of d (group_key s) of
      None \<Rightarrow> \<lparr>ob_signals = [], ob_names = [], ob_candidate = False, ob_hits = []\<rparr> | Some ob \<Rightarrow> ob"
  let ?new = "?old\<lparr>ob_signals := ob_signals ?old @ [s], ob_names := ob_names ?old @ [n]\<rparr>"
  have upd: "add_grouped x d = AList.update (group_key s) ?new d"
    by (simp add: add_grouped_def x Let_def)
  have new: "fresh_obs (insert x X) ?new \<and> (\<forall>t\<in>set (ob_signals ?new). group_key t = group_key s)"
  proof (cases "map_of d (group_key s)")
    case None
    then show ?thesis using fresh_obs_mono [OF fresh_single [of s n]] by (simp add: x)
  next
    case (Some ob)
    with inv have "fresh_obs X ob" "\<forall>t\<in>set (ob_signals ob). group_key t = group_key s"
      unfolding group_inv_def by blast+
    with Some show ?thesis using fresh_extend by (auto simp: x)
  qed
  have "fresh_obs (insert x X) ob \<and> (\<forall>t\<in>set (ob_signals ob). group_key t = k)"
    if "map_of (add_grouped x d) k = Some ob" for k ob
  proof (cases "k = group_key s")
    case True
    from that have "Some ?new = Some ob" unfolding True upd by (simp only: map_of_AList_update fun_upd_same)
    then have eq: "?new = ob" by (simp only: option.inject)
    show ?thesis using new unfolding eq True .
  next
    case False
    have "map_of d k = Some ob" using that unfolding upd map_of_AList_update fun_upd_other [OF False] .
    with inv show ?thesis unfolding group_inv_def by (blast intro: fresh_obs_mono)
  qed
  moreover have "distinct (keys (add_grouped x d))"
    using inv unfolding upd group_inv_def by (simp only: distinct_keys_update)
  ultimately show "group_inv (insert x X) (add_grouped x d)" unfolding group_inv_def by blast
qed

lemma group_inv_fold: "group_inv (set xs) (fold add_grouped xs [])"
proof (induction xs rule: rev_induct)
  case (snoc x xs)
  then show ?case using group_inv_step by simp
qed (simp add: group_inv_def keys_def)

lemma observe_fresh: "ob \<in> set (observe dd xs) \<Longrightarrow> fresh_obs (set xs) ob"
proof (cases "d_observation dd = ObsEntityTime")
  case True
  assume "ob \<in> set (observe dd xs)"
  with True have "ob \<in> set (vals (fold add_grouped xs []))" by (simp add: observe_def)
  moreover have "distinct (keys (fold add_grouped xs []))" using group_inv_fold by (simp add: group_inv_def)
  ultimately obtain k where "map_of (fold add_grouped xs []) k = Some ob" by (auto simp: map_of_vals)
  then show ?thesis using group_inv_fold unfolding group_inv_def by blast
next
  case False
  assume "ob \<in> set (observe dd xs)"
  with False obtain s n where "(s, n) \<in> set xs"
    "ob = \<lparr>ob_signals = [s], ob_names = [n], ob_candidate = False, ob_hits = []\<rparr>"
    by (auto simp: observe_def)
  then show ?thesis using fresh_obs_mono [OF fresh_single [of s n]] by simp
qed

text \<open>What a hit of a judged observation rests on.\<close>

definition hit_ok :: "printer \<Rightarrow> catalog \<Rightarrow> domain_def \<Rightarrow> analysis_env \<Rightarrow> rule_ctx \<Rightarrow> obs_hit \<Rightarrow> bool" where
  "hit_ok P cat dd env ctx h \<longleftrightarrow>
     (\<exists>sd r. map_of (cat_signals cat) (oh_name h) = Some sd \<and> sd_rule sd = Some r
        \<and> evaluate r (oh_signal h) ctx (rule_id (oh_name h) r) (oh_name h # sd_match_names sd) = Inr (Some (oh_hit h))
        \<and> filtered_out P dd env (oh_name h) (oh_signal h) = Inr False)"

definition judged :: "printer \<Rightarrow> catalog \<Rightarrow> domain_def \<Rightarrow> analysis_env \<Rightarrow> rule_ctx \<Rightarrow> observation \<Rightarrow> observation \<Rightarrow> bool" where
  "judged P cat dd env ctx ob0 ob \<longleftrightarrow> ob_signals ob = ob_signals ob0 \<and> ob_names ob = ob_names ob0
     \<and> (\<forall>h\<in>set (ob_hits ob). h \<in> set (ob_hits ob0) \<or>
          (oh_signal h, oh_name h) \<in> set (ob_pairs ob0) \<and> hit_ok P cat dd env ctx h)"




lemma judged_time [simp]: "judged P cat dd env ctx ob0 ob \<Longrightarrow> ob_time ob = ob_time ob0"
  and judged_entity [simp]: "judged P cat dd env ctx ob0 ob \<Longrightarrow> ob_entity ob = ob_entity ob0"
  by (simp_all add: judged_def ob_time_def ob_entity_def)

lemma current_signalsD:
  "(s, n) \<in> set (current_signals cat domain r) \<Longrightarrow>
     s \<in> set (r_signals r) \<and> owned cat domain s \<and> w_start (r_window r) \<le> s_timestamp s \<and> n = cat_name cat s"
  by (auto simp: current_signals_def)


section \<open>What the evidence rows say\<close>

definition row_fits :: "(pyval \<Rightarrow> string) \<Rightarrow> observation list \<Rightarrow> dedupe_key \<Rightarrow> evidence_row \<Rightarrow> bool" where
  "row_fits F X k r \<longleftrightarrow>
     (\<exists>ob\<in>set X. dedupe_key F ob = k)
     \<and> ev_count r = length (filter (\<lambda>ob. dedupe_key F ob = k) X)
     \<and> (\<forall>ob\<in>set X. dedupe_key F ob = k \<longrightarrow> ev_node r = ob_node ob \<and> ev_signals r = hit_signals ob
          \<and> ev_first_seen r \<le> ob_time ob \<and> ob_time ob \<le> ev_last_seen r
          \<and> severity_rank (obs_severity ob) \<le> severity_rank (ev_severity r))"

definition rows_inv :: "(pyval \<Rightarrow> string) \<Rightarrow> observation list \<Rightarrow> (dedupe_key, evidence_row) dict \<Rightarrow> bool" where
  "rows_inv F X d \<longleftrightarrow> distinct (keys d) \<and> set (keys d) = dedupe_key F ` set X
     \<and> (\<forall>k r. map_of d k = Some r \<longrightarrow> row_fits F X k r)"

lemma bump_row_fields [simp]:
  "ev_type (bump_row ob r) = ev_type r" "ev_id (bump_row ob r) = ev_id r" "ev_signals (bump_row ob r) = ev_signals r"
  "ev_count (bump_row ob r) = Suc (ev_count r)" "ev_first_seen (bump_row ob r) = min (ev_first_seen r) (ob_time ob)"
  "ev_last_seen (bump_row ob r) = max (ev_last_seen r) (ob_time ob)"
  "ev_role (bump_row ob r) = ev_role r"
  by (simp_all add: bump_row_def)

lemma bump_row_severity:
  "severity_rank (ev_severity r) \<le> severity_rank (ev_severity (bump_row ob r))"
  "severity_rank (obs_severity ob) \<le> severity_rank (ev_severity (bump_row ob r))"
  by (simp_all add: bump_row_def)

lemma new_row_fields [simp]:
  "ev_type (new_row cat ob) = e_type (ob_entity ob)" "ev_id (new_row cat ob) = e_id (ob_entity ob)"
  "ev_signals (new_row cat ob) = hit_signals ob" "ev_count (new_row cat ob) = 0"
  "ev_first_seen (new_row cat ob) = ob_time ob" "ev_last_seen (new_row cat ob) = ob_time ob"
  by (simp_all add: new_row_def)

lemma dedupe_key_same:
  "dedupe_key F a = dedupe_key F b \<Longrightarrow> ob_hits a \<noteq> [] \<Longrightarrow> ob_node a = ob_node b \<and> hit_signals a = hit_signals b"
  by (auto simp: dedupe_key_def split: if_splits)

lemma row_fits_old:
  "row_fits F X k r \<Longrightarrow> dedupe_key F ob \<noteq> k \<Longrightarrow> row_fits F (X @ [ob]) k r"
  by (simp add: row_fits_def)

lemma row_fits_new:
  assumes "dedupe_key F ob \<notin> dedupe_key F ` set X"
  shows "row_fits F (X @ [ob]) (dedupe_key F ob) (bump_row ob (new_row cat ob))"
proof -
  have "filter (\<lambda>o'. dedupe_key F o' = dedupe_key F ob) X = []"
    unfolding filter_empty_conv using assms by (metis rev_image_eqI)
  moreover have "dedupe_key F o' \<noteq> dedupe_key F ob" if "o' \<in> set X" for o'
    using assms that by (metis rev_image_eqI)
  ultimately show ?thesis using bump_row_severity(2) [of ob] by (auto simp: row_fits_def)
qed

lemma row_fits_bump:
  assumes "row_fits F X (dedupe_key F ob) r" "ob_hits ob \<noteq> []"
  shows "row_fits F (X @ [ob]) (dedupe_key F ob) (bump_row ob r)"
proof -
  obtain o1 where o1: "o1 \<in> set X" "dedupe_key F o1 = dedupe_key F ob"
    using assms(1) unfolding row_fits_def by blast
  with assms(1) have "ev_node r = ob_node o1" "ev_signals r = hit_signals o1"
    unfolding row_fits_def by blast+
  then have same: "ev_node r = ob_node ob" "ev_signals r = hit_signals ob"
    using dedupe_key_same [of F ob o1] o1(2) assms(2) by simp_all
  have "ev_node (bump_row ob r) = ob_node o2 \<and> ev_signals (bump_row ob r) = hit_signals o2
      \<and> ev_first_seen (bump_row ob r) \<le> ob_time o2 \<and> ob_time o2 \<le> ev_last_seen (bump_row ob r)
      \<and> severity_rank (obs_severity o2) \<le> severity_rank (ev_severity (bump_row ob r))"
    if "o2 \<in> set (X @ [ob])" "dedupe_key F o2 = dedupe_key F ob" for o2
  proof (cases "o2 = ob")
    case True
    then show ?thesis using same bump_row_severity(2) by simp
  next
    case False
    with that assms(1) have "ev_node r = ob_node o2 \<and> ev_signals r = hit_signals o2 \<and> ev_first_seen r \<le> ob_time o2
        \<and> ob_time o2 \<le> ev_last_seen r \<and> severity_rank (obs_severity o2) \<le> severity_rank (ev_severity r)"
      unfolding row_fits_def by auto
    then show ?thesis using bump_row_severity(1) [of r ob] by (simp add: min_le_iff_disj le_max_iff_disj)
  qed
  moreover have "ev_count (bump_row ob r) = length (filter (\<lambda>o'. dedupe_key F o' = dedupe_key F ob) (X @ [ob]))"
    using assms(1) by (simp add: row_fits_def)
  moreover have "ob \<in> set (X @ [ob])" by simp
  ultimately show ?thesis unfolding row_fits_def by blast
qed

lemma rows_invD:
  assumes "rows_inv F X d"
  shows "distinct (keys d)" "set (keys d) = dedupe_key F ` set X" "map_of d k = Some r \<Longrightarrow> row_fits F X k r"
  using assms unfolding rows_inv_def by blast+

lemma rows_inv_step:
  assumes inv: "rows_inv F X d" and hits: "ob_hits ob \<noteq> []"
  shows "rows_inv F (X @ [ob]) (add_evidence F cat ob d)"
proof -
  let ?k = "dedupe_key F ob"
  define row where "row = bump_row ob (case map_of d ?k of None \<Rightarrow> new_row cat ob | Some r \<Rightarrow> r)"
  have upd: "add_evidence F cat ob d = AList.update ?k row d"
    by (simp add: add_evidence_def row_def Let_def)
  note keys = rows_invD(2) [OF inv]
  have "row_fits F (X @ [ob]) ?k row"
  proof (cases "map_of d ?k")
    case None
    then have "?k \<notin> dedupe_key F ` set X" using keys in_keys_iff [of ?k d] by simp
    with None show ?thesis by (simp add: row_def row_fits_new)
  next
    case (Some r)
    then have "row_fits F X ?k r" by (rule rows_invD(3) [OF inv])
    with Some hits show ?thesis by (simp add: row_def row_fits_bump)
  qed
  moreover have "row_fits F (X @ [ob]) k r" if "k \<noteq> ?k" "map_of d k = Some r" for k r
    by (rule row_fits_old [OF rows_invD(3) [OF inv that(2)] that(1) [symmetric]])
  ultimately have "\<forall>k r. map_of (add_evidence F cat ob d) k = Some r \<longrightarrow> row_fits F (X @ [ob]) k r"
    unfolding upd map_of_AList_update by (metis fun_upd_apply option.inject)
  moreover have "distinct (keys (add_evidence F cat ob d))" "set (keys (add_evidence F cat ob d)) = dedupe_key F ` set (X @ [ob])"
    using rows_invD(1,2) [OF inv] unfolding upd by (simp_all add: keys_update distinct_keys_update)
  ultimately show ?thesis unfolding rows_inv_def by blast
qed

lemma rows_inv_fold: "\<forall>ob\<in>set X. ob_hits ob \<noteq> [] \<Longrightarrow> rows_inv F X (fold (add_evidence F cat) X [])"
proof (induction X rule: rev_induct)
  case (snoc ob X)
  then show ?case using rows_inv_step [of F X] by simp
qed (simp add: rows_inv_def keys_def)



lemma evidence_rows_complete:
  assumes "\<forall>ob\<in>set X. ob_hits ob \<noteq> []" "ob \<in> set X"
  shows "length (evidence_rows F cat X) = MAX_EVIDENCE
    \<or> (\<exists>r\<in>set (evidence_rows F cat X). ev_node r = ob_node ob \<and> ev_signals r = hit_signals ob
         \<and> ev_first_seen r \<le> ob_time ob \<and> ob_time ob \<le> ev_last_seen r)"
proof -
  let ?d = "fold (add_evidence F cat) X []"
  note inv = rows_inv_fold [OF assms(1), of F cat]
  have "dedupe_key F ob \<in> set (keys ?d)" using rows_invD(2) [OF inv] assms(2) by blast
  then obtain r where r: "map_of ?d (dedupe_key F ob) = Some r" unfolding in_keys_iff by blast
  then have "row_fits F X (dedupe_key F ob) r" by (rule rows_invD(3) [OF inv])
  then have fits: "ev_node r = ob_node ob \<and> ev_signals r = hit_signals ob \<and> ev_first_seen r \<le> ob_time ob \<and> ob_time ob \<le> ev_last_seen r"
    using assms(2) unfolding row_fits_def by blast
  have "r \<in> set (vals ?d)" using r map_of_vals [OF rows_invD(1) [OF inv]] by blast
  from take_sort_key_cases [OF this, of MAX_EVIDENCE row_order] fits show ?thesis
    unfolding evidence_rows_def by blast
qed

lemma evidence_rows_empty: "\<forall>ob\<in>set X. ob_hits ob \<noteq> [] \<Longrightarrow> evidence_rows F cat X = [] \<longleftrightarrow> X = []"
proof
  assume "\<forall>ob\<in>set X. ob_hits ob \<noteq> []" "evidence_rows F cat X = []"
  with evidence_rows_complete [of X _ F cat] show "X = []"
    by (cases X) (auto simp: MAX_EVIDENCE_def)
qed (simp add: evidence_rows_def vals_def)

text \<open>Every hit observation is counted once: the counts add up.\<close>

lemma sum_counts:
  assumes "rows_inv F X d"
  shows "sum_list (map ev_count (vals d)) = length X"
proof -
  have "sum_list (map ev_count (vals d)) = (\<Sum>(k, r)\<leftarrow>d. ev_count r)"
    by (simp add: vals_def comp_def case_prod_unfold)
  also have "\<dots> = (\<Sum>k\<leftarrow>keys d. length (filter (\<lambda>ob. dedupe_key F ob = k) X))"
  proof -
    have "ev_count r = length (filter (\<lambda>ob. dedupe_key F ob = k) X)" if "(k, r) \<in> set d" for k r
    proof -
      have "map_of d k = Some r" using that rows_invD(1) [OF assms] by (simp add: keys_def)
      from rows_invD(3) [OF assms this] show ?thesis unfolding row_fits_def by blast
    qed
    then have "map (\<lambda>(k, r). ev_count r) d = map (\<lambda>k. length (filter (\<lambda>ob. dedupe_key F ob = k) X)) (keys d)"
      by (auto simp: keys_def)
    then show ?thesis by (rule arg_cong)
  qed
  also have "\<dots> = (\<Sum>k\<in>set (keys d). length (filter (\<lambda>ob. dedupe_key F ob = k) X))"
    using rows_invD(1) [OF assms] by (rule sum_list_distinct_conv_sum_set)
  also have "\<dots> = length X"
    by (rule sum_filter_lengths) (simp_all add: rows_invD(2) [OF assms])
  finally show ?thesis .
qed

section \<open>Reading a finding back\<close>

text \<open>What \<open>analyze_domain\<close> returned, in terms of what was detected.\<close>

lemma analyze_Inr:
  assumes "analyze_domain P cat domain env r = Inr f"
  obtains dd obs derived fr stateful summary where
    "cat_domain cat domain = Some dd" "detect P cat domain dd env r = Inr (obs, derived)"
    "summary_of P domain dd obs derived = Inr summary"
    "af_anomaly f \<longleftrightarrow> filter (\<lambda>ob. ob_hits ob \<noteq> []) obs \<noteq> []"
    "af_evidence f = map (with_onset (filter (\<lambda>ob. ob_hits ob \<noteq> []) obs) fr stateful)
       (evidence_rows (pr_val P) cat (filter (\<lambda>ob. ob_hits ob \<noteq> []) obs))"
    "af_summary f = degraded_summary r (af_anomaly f) summary"
    "af_degraded f = degraded (r_coverage r)"
    "af_confidence f = confidence_of dd (length (filter (\<lambda>ob. ob_hits ob \<noteq> []) obs)) derived"
    "af_key_events f = key_events_of P cat dd obs"
proof -
  obtain dd where dd: "cat_domain cat domain = Some dd"
    using assms by (cases "cat_domain cat domain") (simp_all add: analyze_domain_def)
  obtain obs derived where det: "detect P cat domain dd env r = Inr (obs, derived)"
    using assms dd by (cases "detect P cat domain dd env r") (auto simp: analyze_domain_def)
  let ?X = "filter (\<lambda>ob. ob_hits ob \<noteq> []) obs"
  let ?ctx = "rule_context P env (current_signals cat domain r) (baseline_signals cat domain r)"
  let ?fold = "fold_sum (firing_of_after cat domain ?ctx (uniq (map ob_node ?X))) (ae_after env)
      (fold (firing_of_obs (uniq (map ob_node ?X))) obs ([], []))"
  obtain fr stateful where fr: "?fold = Inr (fr, stateful)"
    using assms dd det by (cases ?fold) (auto simp: analyze_domain_def Let_def)
  obtain summary where su: "summary_of P domain dd obs derived = Inr summary"
    using assms dd det fr by (cases "summary_of P domain dd obs derived") (auto simp: analyze_domain_def Let_def)
  show thesis
    by (rule that [OF dd det su, of fr stateful])
       (use assms in \<open>auto simp: analyze_domain_def dd det fr su Let_def\<close>)
qed

lemma with_onset_fields [simp]:
  "ev_type (with_onset hit_obs fr stf r) = ev_type r" "ev_id (with_onset hit_obs fr stf r) = ev_id r"
  "ev_signals (with_onset hit_obs fr stf r) = ev_signals r" "ev_first_seen (with_onset hit_obs fr stf r) = ev_first_seen r"
  "ev_last_seen (with_onset hit_obs fr stf r) = ev_last_seen r"
  by (simp_all add: with_onset_def)





section \<open>When the analysis cannot raise\<close>

definition template_safe :: "printer \<Rightarrow> string \<Rightarrow> bool" where
  "template_safe P t \<longleftrightarrow>
     (\<exists>ps. parse_template t = Inr ps
        \<and> (\<forall>n spec. Field n spec \<in> set ps \<longrightarrow> CHR ''['' \<notin> set n \<and> CHR ''('' \<notin> set n
              \<and> (spec = [] \<or> (\<forall>x. pr_format P spec x \<noteq> None))))"

definition variants_safe :: "printer \<Rightarrow> summary_variant list \<Rightarrow> bool" where
  "variants_safe P vs \<longleftrightarrow> (\<forall>v\<in>set vs. template_safe P (sv_template v))"

definition domain_safe :: "printer \<Rightarrow> catalog \<Rightarrow> domain_def \<Rightarrow> bool" where
  "domain_safe P cat dd \<longleftrightarrow>
     (\<forall>(name, sd)\<in>set (cat_signals cat). case sd_rule sd of None \<Rightarrow> True | Some r \<Rightarrow> rule_safe r)
     \<and> (case d_relevance dd of None \<Rightarrow> True | Some spec \<Rightarrow> relevance_safe spec)
     \<and> (\<forall>name\<in>set (d_derived dd). map_of (cat_signals cat) name \<noteq> None)
     \<and> variants_safe P (ss_anomaly (d_summary dd)) \<and> variants_safe P (ss_suffixes (d_summary dd))
     \<and> variants_safe P (ss_clean (d_summary dd))
     \<and> (\<exists>v\<in>set (ss_anomaly (d_summary dd)). sv_when v = None)
     \<and> (\<exists>v\<in>set (ss_clean (d_summary dd)). sv_when v = None)"

lemma render_safe:
  assumes "template_safe P t"
  shows "\<exists>s. render P t ctx = Inr s"
proof -
  obtain ps where ps: "parse_template t = Inr ps"
    "\<forall>n spec. Field n spec \<in> set ps \<longrightarrow> CHR ''['' \<notin> set n \<and> CHR ''('' \<notin> set n
       \<and> (spec = [] \<or> (\<forall>x. pr_format P spec x \<noteq> None))"
    using assms unfolding template_safe_def by blast
  from ps(2) have "\<exists>s. render_pieces P ps ctx = Inr s"
  proof (induction ps)
    case (Cons p ps)
    then obtain s where s: "render_pieces P ps ctx = Inr s" by auto
    show ?case
    proof (cases p)
      case (Field n spec)
      with Cons.prems have n: "CHR ''['' \<notin> set n" "CHR ''('' \<notin> set n" "spec = [] \<or> (\<forall>x. pr_format P spec x \<noteq> None)"
        by simp_all
      then obtain v where v: "get_field n ctx = Inr v" by (simp add: get_field_def)
      have "\<exists>u. format_field P v spec = Inr u"
      proof (cases "spec = []")
        case True
        then show ?thesis using format_field_plain by simp
      next
        case False
        have "\<exists>u. pr_format P spec x = Some u" for x using n(3) False by auto
        then obtain g where "pr_format P spec x = Some (g x)" for x by metis
        then show ?thesis by (cases v) (simp_all add: format_field_def)
      qed
      with Field s v show ?thesis by auto
    qed (simp add: s)
  qed simp
  with ps(1) show ?thesis by (simp add: render_def)
qed

lemma render_all_safe: "variants_safe P vs \<Longrightarrow> \<exists>s. render_all P vs view start = Inr s"
  unfolding render_all_def
proof (rule fold_sum_total)
  fix v acc
  assume "variants_safe P vs" "v \<in> set vs"
  then obtain s where "render P (sv_template v) view = Inr s"
    using render_safe unfolding variants_safe_def by blast
  then show "\<exists>s'. (case render P (sv_template v) view of Inl e \<Rightarrow> Inl (TemplateError e) | Inr t \<Rightarrow> Inr (acc @ t)) = Inr s'"
    by simp
qed

lemma rule_of_safe:
  "domain_safe P cat dd \<Longrightarrow> map_of (cat_signals cat) n = Some sd \<Longrightarrow> sd_rule sd = Some rl \<Longrightarrow> rule_safe rl"
  unfolding domain_safe_def by (auto dest!: map_of_SomeD)

lemma judge_total:
  assumes safe: "domain_safe P cat dd" and known: "map_of (cat_signals cat) n \<noteq> None"
  shows "\<exists>ob'. judge P cat dd env ctx (s, n) ob = Inr ob'"
proof -
  obtain sd where sd: "map_of (cat_signals cat) n = Some sd" using known by auto
  have flt: "\<exists>b. filtered_out P dd env n s = Inr b"
    using safe is_relevant_total [of _ "pr_val P" s "ae_description env"]
    by (auto simp: filtered_out_def domain_safe_def split: option.splits) fastforce
  show ?thesis
  proof (cases "sd_rule sd")
    case (Some rl)
    obtain h where "evaluate rl s ctx (rule_id n rl) (n # sd_match_names sd) = Inr h"
      using evaluate_total [OF rule_of_safe [OF safe sd Some]] by blast
    with flt sd Some show ?thesis by (auto simp: judge_def Let_def split: option.split bool.split)
  qed (simp add: judge_def sd)
qed

lemma current_known: "(s, n) \<in> set (current_signals cat domain r) \<Longrightarrow> map_of (cat_signals cat) n \<noteq> None"
proof -
  assume "(s, n) \<in> set (current_signals cat domain r)"
  then have "owned cat domain s" "n = cat_name cat s" using current_signalsD by blast+
  then obtain sd where "cat_signal cat (s_name s) = Some (n, sd)"
    by (auto simp: owned_def cat_name_def split: option.splits prod.splits)
  then have "(n, sd) \<in> set (cat_signals cat)" by (auto dest: cat_signal_SomeD)
  then have "n \<in> fst ` set (cat_signals cat)" by (rule image_eqI [rotated]) simp
  then show ?thesis unfolding map_of_eq_None_iff by blast
qed

lemma judge_obs_total:
  assumes "domain_safe P cat dd" and "ob \<in> set (observe dd (current_signals cat domain r))"
  shows "\<exists>ob'. judge_obs P cat dd env ctx ob = Inr ob'"
  unfolding judge_obs_def
proof (rule fold_sum_total)
  fix x ob1
  assume x: "x \<in> set (zip (ob_signals ob) (ob_names ob))"
  have "set (ob_pairs ob) \<subseteq> set (current_signals cat domain r)"
    using observe_fresh [OF assms(2)] by (simp add: fresh_obs_def)
  with x have "(fst x, snd x) \<in> set (current_signals cat domain r)" by (auto simp: ob_pairs_def)
  from judge_total [OF assms(1) current_known [OF this], of env ctx "fst x" ob1]
  show "\<exists>ob'. judge P cat dd env ctx x ob1 = Inr ob'" by simp
qed

lemma derive_signal_total:
  assumes "domain_safe P cat dd" "name \<in> set (d_derived dd)"
  shows "\<exists>acc'. derive_signal cat dd env ctx hit_obs name acc = Inr acc'"
proof -
  obtain sd where sd: "map_of (cat_signals cat) name = Some sd"
    using assms unfolding domain_safe_def by (metis not_Some_eq)
  have "\<exists>s'. derive_one dd env ctx name sd x s = Inr s'" for x s
  proof (cases "sd_rule sd")
    case (Some rl)
    obtain h where "evaluate rl (synthetic dd env name x) ctx (rule_id name rl) [name] = Inr h"
      using evaluate_total [OF rule_of_safe [OF assms(1) sd Some]] by blast
    with Some show ?thesis by (auto simp: derive_one_def split: option.split)
  qed (simp add: derive_one_def)
  then show ?thesis unfolding derive_signal_def sd option.case by (intro fold_sum_total) blast
qed

lemma detect_total:
  assumes "domain_safe P cat dd"
  shows "\<exists>obs derived. detect P cat domain dd env r = Inr (obs, derived)"
proof -
  let ?ctx = "rule_context P env (current_signals cat domain r) (baseline_signals cat domain r)"
  obtain obs where obs: "traverse (judge_obs P cat dd env ?ctx) (observe dd (current_signals cat domain r)) = Inr obs"
    using traverse_total [of "observe dd (current_signals cat domain r)" "judge_obs P cat dd env ?ctx"]
      judge_obs_total [OF assms] by blast
  obtain derived where "fold_sum (derive_signal cat dd env ?ctx (filter (\<lambda>ob. ob_hits ob \<noteq> []) obs)) (d_derived dd) [] = Inr derived"
    using fold_sum_total [of "d_derived dd" "derive_signal cat dd env ?ctx (filter (\<lambda>ob. ob_hits ob \<noteq> []) obs)"]
      derive_signal_total [OF assms] by blast
  with obs show ?thesis by (simp add: detect_def Let_def)
qed

lemma pick_unconditional: "\<exists>v\<in>set vs. sv_when v = None \<Longrightarrow> pick vs a b c \<noteq> []"
proof -
  assume "\<exists>v\<in>set vs. sv_when v = None"
  then obtain v where "v \<in> set vs" "variant_matches v a b c" by (auto simp: variant_matches_def)
  then show ?thesis unfolding pick_def filter_empty_conv by blast
qed

lemma variants_safe_pick: "variants_safe P vs \<Longrightarrow> variants_safe P (pick vs a b c)"
  by (simp add: variants_safe_def pick_def)

lemma summary_total:
  assumes "domain_safe P cat dd"
  shows "\<exists>s. summary_of P domain dd obs derived = Inr s"
proof -
  have safe: "variants_safe P (ss_anomaly (d_summary dd))" "variants_safe P (ss_suffixes (d_summary dd))"
    "variants_safe P (ss_clean (d_summary dd))"
    and ex: "\<exists>v\<in>set (ss_anomaly (d_summary dd)). sv_when v = None" "\<exists>v\<in>set (ss_clean (d_summary dd)). sv_when v = None"
    using assms unfolding domain_safe_def by blast+
  have go: "\<exists>s. (case pick vs a b c of [] \<Rightarrow> Inl NoVariant | v # _ \<Rightarrow> render_all P (v # ws) view []) = Inr s"
    if "variants_safe P vs" "\<exists>v\<in>set vs. sv_when v = None" "variants_safe P ws" for vs ws a b c view
  proof (cases "pick vs a b c")
    case Nil
    with pick_unconditional [OF that(2)] show ?thesis by simp
  next
    case (Cons v rest)
    with variants_safe_pick [OF that(1), of a b c] that(3) have "variants_safe P (v # ws)"
      by (simp add: variants_safe_def)
    from render_all_safe [OF this] show ?thesis by (simp add: Cons)
  qed
  have nil: "variants_safe P []" by (simp add: variants_safe_def)
  show ?thesis
    unfolding summary_of_def Let_def
    using go [OF safe(1) ex(1) variants_safe_pick [OF safe(2)]] go [OF safe(3) ex(2) nil]
    by (simp only: split: if_split) blast
qed

lemma firing_after_total:
  assumes "domain_safe P cat dd"
  shows "\<exists>st'. firing_of_after cat domain ctx nodes s st = Inr st'"
proof -
  have "\<exists>h. evaluate rl s ctx (rule_id n rl) (n # sd_match_names sd) = Inr h"
    if "cat_signal cat (s_name s) = Some (n, sd)" "sd_rule sd = Some rl" for n sd rl
  proof -
    have "(n, sd) \<in> set (cat_signals cat)" using cat_signal_SomeD [OF that(1)] by blast
    with assms that(2) have "rule_safe rl" unfolding domain_safe_def by force
    then show ?thesis by (rule evaluate_total)
  qed
  then show ?thesis
    by (fastforce simp: firing_of_after_def Let_def split: option.split prod.split sum.split)
qed

section \<open>Properties\<close>


text \<open>
  C30: No detection is lost: every observation whose rule fired is covered by an evidence row for
  its entity and its signals whose time range contains it, unless the finding already carries
  the maximum number of rows; and before the cut the rows' counts add up to the number of hit
  observations.
\<close>
theorem analyze_evidence_complete:
  assumes "analyze_domain P cat domain env r = Inr f"
  shows "\<exists>dd obs derived. cat_domain cat domain = Some dd \<and> detect P cat domain dd env r = Inr (obs, derived)
    \<and> (\<forall>ob\<in>set obs. ob_hits ob \<noteq> [] \<longrightarrow> length (af_evidence f) = MAX_EVIDENCE
         \<or> (\<exists>row\<in>set (af_evidence f). ev_node row = ob_node ob \<and> ev_signals row = hit_signals ob
              \<and> ev_first_seen row \<le> ob_time ob \<and> ob_time ob \<le> ev_last_seen row))
    \<and> sum_list (map ev_count (vals (fold (add_evidence (pr_val P) cat) (filter (\<lambda>ob. ob_hits ob \<noteq> []) obs) [])))
        = length (filter (\<lambda>ob. ob_hits ob \<noteq> []) obs)"
proof -
  obtain dd obs derived fr stf where dd: "cat_domain cat domain = Some dd"
    and det: "detect P cat domain dd env r = Inr (obs, derived)"
    and ev: "af_evidence f = map (with_onset (filter (\<lambda>ob. ob_hits ob \<noteq> []) obs) fr stf)
       (evidence_rows (pr_val P) cat (filter (\<lambda>ob. ob_hits ob \<noteq> []) obs))"
    using assms by (rule analyze_Inr)
  let ?X = "filter (\<lambda>ob. ob_hits ob \<noteq> []) obs"
  have hits: "\<forall>ob\<in>set ?X. ob_hits ob \<noteq> []" by simp
  have "length (af_evidence f) = MAX_EVIDENCE
      \<or> (\<exists>row\<in>set (af_evidence f). ev_node row = ob_node ob \<and> ev_signals row = hit_signals ob
           \<and> ev_first_seen row \<le> ob_time ob \<and> ob_time ob \<le> ev_last_seen row)"
    if "ob \<in> set obs" "ob_hits ob \<noteq> []" for ob
    using evidence_rows_complete [OF hits, of ob "pr_val P" cat] that unfolding ev by auto
  with dd det sum_counts [OF rows_inv_fold [OF hits]] show ?thesis by blast
qed

text \<open>
  C34: Missing data is never read as clean: whatever the signals, a finding from a degraded
  response is marked degraded, and when it shows no anomaly its summary says the domain is not
  verified and a peer that asked reads the answer as inconclusive, not as a refutation.
\<close>
theorem degraded_never_clean:
  assumes "analyze_domain P cat domain env r = Inr f" and "degraded (r_coverage r)"
  shows "af_degraded f \<and> read_verdict f \<noteq> Refuted
    \<and> (\<not> af_anomaly f \<longrightarrow> starts_with ''Telemetry incomplete for this window'' (af_summary f))"
proof -
  obtain summary where s: "af_summary f = degraded_summary r (af_anomaly f) summary" "af_degraded f = degraded (r_coverage r)"
    using assms(1) by (rule analyze_Inr)
  have "af_anomaly f \<longrightarrow> af_evidence f \<noteq> []"
  proof -
    obtain dd obs derived fr stf where an: "af_anomaly f \<longleftrightarrow> filter (\<lambda>ob. ob_hits ob \<noteq> []) obs \<noteq> []"
      and ev: "af_evidence f = map (with_onset (filter (\<lambda>ob. ob_hits ob \<noteq> []) obs) fr stf)
         (evidence_rows (pr_val P) cat (filter (\<lambda>ob. ob_hits ob \<noteq> []) obs))"
      using assms(1) by (rule analyze_Inr)
    have "\<forall>ob\<in>set (filter (\<lambda>ob. ob_hits ob \<noteq> []) obs). ob_hits ob \<noteq> []" by simp
    from evidence_rows_empty [OF this] show ?thesis unfolding an ev by simp
  qed
  with s assms(2) show ?thesis
    by (auto simp: read_verdict_def degraded_summary_def starts_with_iff)
qed

text \<open>Erasing what signals outside the catalog contribute.\<close>

definition without_unclassified :: "analysis_error + agent_finding \<Rightarrow> analysis_error + agent_finding" where
  "without_unclassified res = (case res of Inl e \<Rightarrow> Inl e | Inr f \<Rightarrow> Inr (f\<lparr>af_unclassified := []\<rparr>))"

text \<open>
  C38: Detection sees only the domain's own signals: dropping from the response every signal that
  is unknown to the catalog or belongs to another domain changes nothing in the result but the
  list of unclassified signals.
\<close>
theorem analyze_noninterference:
  "without_unclassified (analyze_domain P cat domain env (r\<lparr>r_signals := filter (owned cat domain) (r_signals r)\<rparr>))
   = without_unclassified (analyze_domain P cat domain env r)"
proof -
  let ?r = "r\<lparr>r_signals := filter (owned cat domain) (r_signals r)\<rparr>"
  have f1: "filter (\<lambda>s. owned cat domain s \<and> Q s) (filter (owned cat domain) xs) = filter (\<lambda>s. owned cat domain s \<and> Q s) xs"
    for Q xs by (induction xs) auto
  have same: "current_signals cat domain ?r = current_signals cat domain r"
    "baseline_signals cat domain ?r = baseline_signals cat domain r"
    by (simp_all add: current_signals_def baseline_signals_def f1 del: filter_filter)
  have det: "detect P cat domain dd env ?r = detect P cat domain dd env r" for dd
    unfolding detect_def same ..
  have deg: "degraded_summary ?r b t = degraded_summary r b t" for b t
    by (simp add: degraded_summary_def coverage_problem_def)
  show ?thesis
    unfolding analyze_domain_def same det deg without_unclassified_def
    by (auto simp: Let_def split: option.split sum.split prod.split)
qed

text \<open>
  Samples taken after the alarm never create evidence: with or without them the finding has
  the same anomaly flag, key events, summary and confidence and names the same entities and
  signals; they only inform onsets and live states.
\<close>

lemma after_samples_only_inform:
  assumes "analyze_domain P cat domain env r = Inr f"
    and "analyze_domain P cat domain (env\<lparr>ae_after := later\<rparr>) r = Inr f'"
  shows "af_anomaly f' = af_anomaly f \<and> af_key_events f' = af_key_events f \<and> af_summary f' = af_summary f
    \<and> af_confidence f' = af_confidence f
    \<and> map (\<lambda>row. row\<lparr>ev_onset := None\<rparr>) (af_evidence f') = map (\<lambda>row. row\<lparr>ev_onset := None\<rparr>) (af_evidence f)
    \<and> map (\<lambda>st. (st_type st, st_id st)) (af_status f') = map (\<lambda>st. (st_type st, st_id st)) (af_status f)"
proof -
  let ?env = "env\<lparr>ae_after := later\<rparr>"
  have ctx: "rule_context P ?env = rule_context P env" by (intro ext) (simp add: rule_context_def)
  have flt: "filtered_out P dd ?env = filtered_out P dd env" for dd
    by (intro ext) (simp add: filtered_out_def split: option.split)
  have "judge P cat dd ?env = judge P cat dd env" for dd
    by (intro ext) (simp only: judge_def flt)
  then have jo: "judge_obs P cat dd ?env = judge_obs P cat dd env" for dd
    by (intro ext) (simp only: judge_obs_def)
  have syn: "synthetic dd ?env = synthetic dd env" for dd
    by (intro ext) (simp add: synthetic_def split: prod.split option.split)
  then have "derive_one dd ?env = derive_one dd env" for dd
    by (intro ext) (simp only: derive_one_def)
  then have dv: "derive_signal cat dd ?env = derive_signal cat dd env" for dd
    by (intro ext) (simp only: derive_signal_def)
  have det: "detect P cat domain dd ?env r = detect P cat domain dd env r" for dd
    unfolding detect_def ctx jo dv ..
  have on: "(with_onset a b c row)\<lparr>ev_onset := None\<rparr> = row\<lparr>ev_onset := None\<rparr>" for a b c row
    by (simp add: with_onset_def)
  have st: "map (\<lambda>st. (st_type st, st_id st)) (entity_statuses a b c) = uniq (map ob_node a)" for a b c
    by (simp add: entity_statuses_def status_of_def comp_def Let_def)
  have "ae_after ?env = later" by simp
  with assms show ?thesis
    unfolding analyze_domain_def ctx det
    by (auto simp: Let_def on st comp_def split: option.splits sum.splits prod.splits)
qed

text \<open>
  On a domain whose rules, relevance fields, derived signals and summary templates are well
  formed and whose summaries have an unconditional variant, analysis returns a finding for
  every response: it never raises.
\<close>

lemma analyze_total:
  assumes "cat_domain cat domain = Some dd" and "domain_safe P cat dd"
  shows "\<exists>f. analyze_domain P cat domain env r = Inr f \<and> af_domain f = domain"
proof -
  obtain obs derived where det: "detect P cat domain dd env r = Inr (obs, derived)"
    using detect_total [OF assms(2)] by blast
  let ?X = "filter (\<lambda>ob. ob_hits ob \<noteq> []) obs"
  let ?ctx = "rule_context P env (current_signals cat domain r) (baseline_signals cat domain r)"
  have "\<exists>st'. fold_sum (firing_of_after cat domain ?ctx (uniq (map ob_node ?X))) (ae_after env)
      (fold (firing_of_obs (uniq (map ob_node ?X))) obs ([], [])) = Inr st'"
    by (rule fold_sum_total) (rule firing_after_total [OF assms(2)])
  then obtain fr stateful where "fold_sum (firing_of_after cat domain ?ctx (uniq (map ob_node ?X))) (ae_after env)
      (fold (firing_of_obs (uniq (map ob_node ?X))) obs ([], [])) = Inr (fr, stateful)"
    by (metis surj_pair)
  moreover obtain summary where "summary_of P domain dd obs derived = Inr summary"
    using summary_total [OF assms(2)] by blast
  ultimately show ?thesis by (simp add: analyze_domain_def assms(1) det Let_def)
qed

section \<open>A worked example\<close>

text \<open>One log line of an owned signal, a degraded and an empty response, and a later sample.\<close>

definition ex_log :: "time \<Rightarrow> signal" where
  "ex_log t = \<lparr>s_type = Event, s_timestamp = t, s_observed_at = t, s_entity = ex_ent ''a'' ''1'', s_name = ''sig'',
     s_value = None, s_unit = None, s_severity = Error, s_domain = ''net'', s_source = ''logs'',
     s_attributes = [(''message'', PStr ''peer 42 down'')], s_evidence_ref = Some ''ref1''\<rparr>"

definition ex_an_domain :: domain_def where
  "ex_an_domain = ex_domain\<lparr>d_summary := \<lparr>ss_anomaly = [\<lparr>sv_when = None, sv_template = ''hits on {top_entity}''\<rparr>],
     ss_suffixes = [], ss_clean = [\<lparr>sv_when = None, sv_template = ''clean''\<rparr>]\<rparr>\<rparr>"

definition ex_an_cat :: catalog where
  "ex_an_cat = ex_plan_cat\<lparr>cat_domains := [(''net'', ex_an_domain)],
     cat_signals := [(''sig'', \<lparr>sd_signal_type = Event, sd_domain = ''net'', sd_unit = None, sd_description = ''d'',
       sd_match_names = [], sd_entity_types = [], sd_derived = False,
       sd_rule = Some (EventPresence \<lparr>ep_id = None, ep_reason = None, ep_names = None, ep_min_severity = Info\<rparr>)\<rparr>)]\<rparr>"

definition ex_env :: analysis_env where
  "ex_env = \<lparr>ae_region = ''us-east-1'', ae_description = [], ae_lookup = None, ae_legacy = True, ae_now = 0,
     ae_scoped = False, ae_after = []\<rparr>"

definition ex_response :: "signal list \<Rightarrow> cov_status \<Rightarrow> tool_response" where
  "ex_response sigs st = \<lparr>r_version = CONTRACT_VERSION, r_window = \<lparr>w_start = 100, w_end = 200\<rparr>, r_baseline = None,
     r_coverage = [\<lparr>c_source = ''logs'', c_status = st, c_lag = None, c_truncated = False, c_error = None, c_required = True\<rparr>],
     r_signals = sigs, r_cursor = None\<rparr>"

lemma ex_an_domain_of: "cat_domain ex_an_cat ''net'' = Some ex_an_domain"
  by (simp add: cat_domain_def ex_an_cat_def)

definition ex_hit_result :: "analysis_error + agent_finding" where
  "ex_hit_result = analyze_domain ex_printer ex_an_cat ''net'' ex_env (ex_response [ex_log 150] CovOk)"

definition ex_degraded_result :: "analysis_error + agent_finding" where
  "ex_degraded_result = analyze_domain ex_printer ex_an_cat ''net'' ex_env (ex_response [] CovFailed)"

lemma case_Inr_obtain: "(case x of Inl _ \<Rightarrow> False | Inr f \<Rightarrow> Q f) \<Longrightarrow> \<exists>f. x = Inr f \<and> Q f"
  by (cases x) auto

lemma ex_hit_eval:
  "\<exists>f. ex_hit_result = Inr f \<and> af_anomaly f \<and> map ev_node (af_evidence f) = [(''a'', ''1'')] \<and> af_summary f = ''hits on 1''"
  by (rule case_Inr_obtain) code_simp

lemma ex_degraded_eval: "\<exists>f. ex_degraded_result = Inr f \<and> \<not> af_anomaly f"
  by (rule case_Inr_obtain) code_simp


theorem analyze_evidence_complete_witness:
  "\<exists>f obs derived. ex_hit_result = Inr f
     \<and> detect ex_printer ex_an_cat ''net'' ex_an_domain ex_env (ex_response [ex_log 150] CovOk) = Inr (obs, derived)"
proof -
  obtain f where f: "ex_hit_result = Inr f" using ex_hit_eval by (elim exE conjE) (rule that)
  from analyze_evidence_complete [OF f [unfolded ex_hit_result_def]] obtain dd obs derived where
    d: "cat_domain ex_an_cat ''net'' = Some dd"
      "detect ex_printer ex_an_cat ''net'' dd ex_env (ex_response [ex_log 150] CovOk) = Inr (obs, derived)"
    by (elim exE conjE) (rule that)
  have "dd = ex_an_domain" using d(1) unfolding ex_an_domain_of by (rule option.inject [THEN iffD1, symmetric])
  with f d(2) show ?thesis by blast
qed

theorem degraded_never_clean_witness:
  "\<exists>f. ex_degraded_result = Inr f \<and> starts_with ''Telemetry incomplete for this window'' (af_summary f)"
proof -
  obtain f where f: "ex_degraded_result = Inr f" "\<not> af_anomaly f" using ex_degraded_eval by blast
  have "degraded (r_coverage (ex_response [] CovFailed))" by code_simp
  from degraded_never_clean [OF f(1) [unfolded ex_degraded_result_def] this] f show ?thesis by blast
qed

end
