(* ===== verification/Hypotheses.thy ===== *)
theory Hypotheses
  imports Analyze
begin

text \<open>
  Hypotheses (\<open>detection/hypotheses.py\<close>, \<open>agents/triage.py\<close>): temporary rules a model proposes over
  evidence no catalog rule judged, validated against the closed rule set and checked by code on
  fresh reads. The rule schema's validator, the hashes and the regular expressions are
  parameters; the prompt's text is not modelled.
\<close>

section \<open>Temporary rules\<close>

definition MAX_PER_AGENT :: nat where "MAX_PER_AGENT = 3"

definition CHECKS :: "string list" where "CHECKS = [''grounded'', ''fires'', ''new'', ''placed'']"

definition rule_refusal :: "rule \<Rightarrow> string option" where
  "rule_refusal r =
     (case r of
        Threshold t \<Rightarrow>
          if th_op t \<noteq> Between \<and> th_value t = None then Some ''threshold rule needs a value''
          else if th_op t = Between \<and> (th_min t = None \<or> th_max t = None) then Some ''between needs min and max''
          else None
      | ZScoreBaseline _ \<Rightarrow> Some ''zscore_baseline needs a baseline store''
      | _ \<Rightarrow> None)"

definition parse_rule :: "((string, pyval) dict \<Rightarrow> rule option) \<Rightarrow> pyval \<Rightarrow> string + rule" where
  "parse_rule V raw =
     (case raw of
        PDict d \<Rightarrow>
          (case V (filter (\<lambda>(k, _). k \<noteq> ''id'') d) of
             None \<Rightarrow> Inl ''rule is not in the closed rule set''
           | Some r \<Rightarrow> (case rule_refusal r of None \<Rightarrow> Inr r | Some e \<Rightarrow> Inl e))
      | _ \<Rightarrow> Inl ''rule must be an object'')"

section \<open>Firing\<close>

definition matches :: "signal \<Rightarrow> string \<Rightarrow> node list \<Rightarrow> bool" where
  "matches s name als \<longleftrightarrow> s_name s = name \<and> entity_node (s_entity s) \<in> set als"

definition mine :: "string \<Rightarrow> node list \<Rightarrow> signal list \<Rightarrow> signal list" where
  "mine name als ss = sort_key s_timestamp (filter (\<lambda>s. matches s name als) ss)"

definition fire_context :: "(pyval \<Rightarrow> string) \<Rightarrow> string \<Rightarrow> signal list \<Rightarrow> rule_ctx" where
  "fire_context F region ss =
     \<lparr>ctx_region = region, ctx_series = fold add_series ss [], ctx_baseline_series = [], ctx_lookup = None,
      ctx_legacy_fallback = False, ctx_str = F\<rparr>"

definition fire_one :: "rule \<Rightarrow> rule_ctx \<Rightarrow> string \<Rightarrow> string \<Rightarrow> signal \<Rightarrow> rule_error + (signal \<times> rule_hit) option" where
  "fire_one r ctx rid name s =
     (case evaluate r s ctx rid [name] of
        Inl e \<Rightarrow> Inl e | Inr h \<Rightarrow> Inr (map_option (Pair s) h))"

definition fire :: "(pyval \<Rightarrow> string) \<Rightarrow> rule \<Rightarrow> string \<Rightarrow> string \<Rightarrow> signal list \<Rightarrow> node list \<Rightarrow> string
    \<Rightarrow> rule_error + (signal \<times> rule_hit) list" where
  "fire F r rid name ss als region =
     (let own = mine name als ss in
      case traverse (fire_one r (fire_context F region own) rid name) own of
        Inl e \<Rightarrow> Inl e
      | Inr hs \<Rightarrow> Inr (List.map_filter (\<lambda>x. x) hs))"

section \<open>Placement\<close>

definition placed :: "node \<Rightarrow> topology_response option \<Rightarrow> catalog \<Rightarrow> node list \<Rightarrow> agent_finding list \<Rightarrow> bool" where
  "placed e topo cat alarms fs =
     (let g = build_graph cat topo in
      if \<not> graph_bool g then False
      else (case resolve g (fst e) (snd e) of
              None \<Rightarrow> False
            | Some n \<Rightarrow> list_ex (\<lambda>t. n = t \<or> depends_on g t n (iv_max_hops (cat_investigation cat))) (targets_of fs g alarms)))"

section \<open>Evidence of a supported hypothesis\<close>

definition hyp_text_of :: "(pyval \<Rightarrow> string) \<Rightarrow> signal \<Rightarrow> string" where
  "hyp_text_of F s =
     (case find (\<lambda>a. map_of (s_attributes s) a \<noteq> None) [''message'', ''sample'', ''details'', ''request''] of
        None \<Rightarrow> []
      | Some a \<Rightarrow> py_str F (the (map_of (s_attributes s) a)))"

definition hyp_fired :: "hypothesis \<Rightarrow> signal \<times> rule_hit \<Rightarrow> rule_fired" where
  "hyp_fired h = (\<lambda>(s, hit).
     \<lparr>rf_signal = hy_signal h, rf_rule = hy_rule_id h, rf_reason = h_reason hit, rf_ref = s_evidence_ref s\<rparr>)"

definition nonempty_refs :: "signal list \<Rightarrow> string list" where
  "nonempty_refs ss = filter (\<lambda>r. r \<noteq> []) (List.map_filter s_evidence_ref ss)"

definition hyp_evidence_row :: "hypothesis \<Rightarrow> signal \<times> rule_hit \<Rightarrow> (signal \<times> rule_hit) list \<Rightarrow> evidence_row" where
  "hyp_evidence_row h x xs =
     (let ss = map fst (x # xs);
          first = min_list1 (s_timestamp (fst x)) (map (s_timestamp \<circ> fst) xs);
          last_seen = max_list (s_timestamp (fst x)) (map (s_timestamp \<circ> fst) xs)
      in \<lparr>ev_type = fst (hy_entity h), ev_id = snd (hy_entity h), ev_signals = [hy_signal h], ev_role = None,
          ev_severity = max_list (s_severity (fst x)) (map (s_severity \<circ> fst) xs),
          ev_first_seen = first, ev_last_seen = last_seen, ev_onset = Some first, ev_count = length ss,
          ev_rules_fired = [hyp_fired h x], ev_refs = take 5 (uniq (nonempty_refs ss)),
          ev_via = Some ViaHypothesis, ev_requested_by = None, ev_request_id = None, ev_why = hy_why h\<rparr>)"

definition hyp_key_event :: "(pyval \<Rightarrow> string) \<Rightarrow> hypothesis \<Rightarrow> signal \<times> rule_hit \<Rightarrow> (signal \<times> rule_hit) list \<Rightarrow> key_event" where
  "hyp_key_event F h x xs =
     (let s = fst x in
      \<lparr>ke_fields = [(''timestamp'', PTime (s_timestamp s)), (''entity_type'', PStr (e_type (s_entity s))),
         (''entity_id'', PStr (e_id (s_entity s))), (''name'', PStr (s_name s)),
         (''severity'', PStr (severity_name (s_severity s))), (''value'', opt_val (s_value s)),
         (''text'', PStr (take 300 (hyp_text_of F s))), (''via'', PStr ''hypothesis'')],
       ke_rules = [hyp_fired h x], ke_refs = take 5 (nonempty_refs (map fst (x # xs))), ke_count = length (x # xs)\<rparr>)"

text \<open>\<open>search p line\<close> is \<open>re.search\<close>, \<open>None\<close> when the pattern does not compile.\<close>

definition verify_pattern :: "(string \<Rightarrow> (string \<Rightarrow> bool) option) \<Rightarrow> string option \<Rightarrow> string list \<Rightarrow> string option" where
  "verify_pattern search p lines =
     (case p of
        None \<Rightarrow> None
      | Some pat \<Rightarrow>
          if pat = [] \<or> lines = [] then None
          else (case search pat of None \<Rightarrow> None | Some m \<Rightarrow> if list_all m lines then Some pat else None))"

definition window_before :: "time \<Rightarrow> time \<Rightarrow> int \<Rightarrow> time \<times> time" where
  "window_before start end1 lookback_minutes =
     (let span = end1 - start; earlier_end = start - minutes lookback_minutes in (earlier_end - span, earlier_end))"

section \<open>From the model's answer to requests\<close>

record proposal =
  pp_refs :: "string list"
  pp_rule :: pyval
  pp_role :: string
  pp_why :: string
  pp_name :: string
  pp_description :: string
  pp_pattern :: "string option"

text \<open>The runtime's part: schema validation, the two hashes.\<close>

record rule_env =
  re_validate :: "(string, pyval) dict \<Rightarrow> rule option"
  re_rule_hash :: "string \<Rightarrow> node \<Rightarrow> rule \<Rightarrow> string"
  re_request_hash :: "string \<Rightarrow> string \<Rightarrow> string"

text \<open>
  \<open>evidence_refs or [evidence_ref]\<close> of a row; a row an earlier line cited keeps no claim on a
  reference a later row shares.
\<close>

definition row_refs :: "unclassified_row \<Rightarrow> string list" where
  "row_refs u = filter (\<lambda>r. r \<noteq> []) (if un_refs u \<noteq> [] then un_refs u else (case un_ref u of None \<Rightarrow> [] | Some r \<Rightarrow> [r]))"

definition rows_by_ref :: "unclassified_row list \<Rightarrow> (string, unclassified_row) dict" where
  "rows_by_ref us = fold (\<lambda>u. fold (\<lambda>r. AList.update r u) (row_refs u)) us []"

definition role_of_name :: "string \<Rightarrow> role option" where
  "role_of_name s = (if s = ''cause'' then Some Cause else if s = ''symptom'' then Some Symptom else None)"

definition to_request :: "rule_env \<Rightarrow> string \<Rightarrow> (string, unclassified_row) dict \<Rightarrow> graph \<Rightarrow> time \<Rightarrow> time \<Rightarrow> proposal
    \<Rightarrow> request option" where
  "to_request V domain by_ref g wstart wend p =
     (let refs = filter (\<lambda>r. r \<noteq> []) (pp_refs p);
          rows = List.map_filter (map_of by_ref) refs
      in case rows of
           [] \<Rightarrow> None
         | u # us \<Rightarrow>
             if \<not> list_all (\<lambda>x. un_entity x = un_entity u \<and> un_name x = un_name u) us then None
             else (case parse_rule (re_validate V) (pp_rule p) of
                 Inl e \<Rightarrow> None
               | Inr r \<Rightarrow>
                   let entity = un_entity u;
                       rid = re_rule_hash V (un_name u) entity r;
                       als = (case (if graph_bool g then resolve g (fst entity) (snd entity) else None) of
                                None \<Rightarrow> [snd entity] | Some n \<Rightarrow> aliases g n);
                       hyp = \<lparr>hy_id = after_char CHR '':'' rid, hy_rule_id = rid, hy_domain = domain, hy_signal = un_name u,
                              hy_entity = entity, hy_rule = r, hy_refs = refs, hy_role = role_of_name (pp_role p),
                              hy_why = take 300 (pp_why p), hy_signal_type = Some (un_signal_type u),
                              hy_name = take 60 (pp_name p), hy_description = take 300 (pp_description p),
                              hy_pattern = pp_pattern p,
                              hy_examples = take 3 (filter (\<lambda>t. t \<noteq> []) (List.map_filter un_text rows))\<rparr>
                   in Some \<lparr>rq_id = re_request_hash V domain rid, rq_target = domain, rq_sender = Some domain,
                            rq_entity = entity, rq_filters = map (Pair (fst entity)) als,
                            rq_start = min_list1 wstart (map un_timestamp rows), rq_end = wend,
                            rq_anchor = entity, rq_origin = FromHypothesis, rq_path = [entity], rq_hops = 0,
                            rq_hypothesis = Some hyp\<rparr>))"

definition to_requests :: "rule_env \<Rightarrow> string \<Rightarrow> agent_finding \<Rightarrow> time \<Rightarrow> time \<Rightarrow> topology_response option \<Rightarrow> catalog
    \<Rightarrow> proposal list option \<Rightarrow> request list" where
  "to_requests V domain own wstart wend topo cat items =
     (case items of
        None \<Rightarrow> []
      | Some ps \<Rightarrow>
          List.map_filter (to_request V domain (rows_by_ref (af_unclassified own)) (build_graph cat topo) wstart wend)
            (take MAX_PER_AGENT ps))"

end
