(* ===== verification/Synthesis.thy ===== *)
theory Synthesis
  imports Investigate Correlation "HOL-Library.Multiset"
begin

text \<open>
  The report (\<open>agents/rca_synthesizer.py\<close>): the confidence score, the citable evidence, what an
  LLM's answer may change, and \<open>synthesize_report\<close>. The answer of the model is an argument
  (\<open>None\<close> when it is unavailable); the long constant text of the prompt is not modelled, the
  parts of it computed from the findings are. Texts of dates, numbers and dictionaries come
  from the record of printers.
\<close>

section \<open>Texts\<close>

record texts =
  tx_printer :: printer
  tx_time :: "time \<Rightarrow> string"        \<comment> \<open>a timestamp, in ISO form\<close>
  tx_clock :: "time \<Rightarrow> string"       \<comment> \<open>\<open>%H:%Mz\<close>\<close>
  tx_percent :: "real \<Rightarrow> string"     \<comment> \<open>\<open>:.0%\<close>\<close>
  tx_features :: "features \<Rightarrow> string"
  tx_event :: "key_event \<Rightarrow> string"
  tx_order :: "string list \<Rightarrow> string list"  \<comment> \<open>the order in which a set of names is listed\<close>

abbreviation val_text :: "texts \<Rightarrow> pyval \<Rightarrow> string" where
  "val_text T v \<equiv> py_str (pr_val (tx_printer T)) v"

definition node_text :: "node \<Rightarrow> string" where "node_text n = fst n @ '':'' @ snd n"

definition to_upper :: "char \<Rightarrow> char" where
  "to_upper c = (if CHR ''a'' \<le> c \<and> c \<le> CHR ''z'' then char_of (of_char c - (32 :: nat)) else c)"

definition capitalize :: "string \<Rightarrow> string" where
  "capitalize s = (case s of [] \<Rightarrow> [] | c # cs \<Rightarrow> to_upper c # lower cs)"

definition comma :: "string list \<Rightarrow> string" where "comma = join_with '', ''"

section \<open>Evidence an answer may cite\<close>

definition evidence_id :: "nat \<Rightarrow> string" where "evidence_id n = CHR ''E'' # nat_str n"

definition evidence_text :: "texts \<Rightarrow> agent_finding \<Rightarrow> evidence_row \<Rightarrow> string" where
  "evidence_text T f row =
     ''['' @ af_domain f @ ''] '' @ comma (ev_signals row) @ '' on '' @ node_text (ev_node row)
     @ '' first '' @ tx_time T (ev_first_seen row) @ '' x'' @ nat_str (ev_count row)
     @ '' ('' @ join_with ''; '' (map (pr_reason (tx_printer T) \<circ> rf_reason) (take 2 (ev_rules_fired row))) @ '')''
     @ (if ev_via row = Some ViaValidation then '' [found by peer validation]'' else [])
     @ (if ev_via row = Some ViaHypothesis then '' [LLM hypothesis verified by code: '' @ ev_why row @ '']'' else [])"

definition index_row :: "texts \<Rightarrow> agent_finding \<times> evidence_row \<Rightarrow> (string, string) dict \<Rightarrow> (string, string) dict" where
  "index_row T = (\<lambda>(f, row) index. AList.update (evidence_id (Suc (length index))) (evidence_text T f row) index)"

definition evidence_rows_of :: "agent_finding list \<Rightarrow> (agent_finding \<times> evidence_row) list" where
  "evidence_rows_of fs = concat (map (\<lambda>f. map (Pair f) (af_evidence f)) fs)"

definition evidence_index :: "texts \<Rightarrow> agent_finding list \<Rightarrow> (string, string) dict" where
  "evidence_index T fs = fold (index_row T) (evidence_rows_of fs) []"

text \<open>The other computed parts of the prompt.\<close>

definition or_none :: "string \<Rightarrow> string" where "or_none s = (if s = [] then ''none'' else s)"

definition glossary_step :: "catalog \<Rightarrow> rule_fired \<Rightarrow> (string, string) dict \<Rightarrow> (string, string) dict" where
  "glossary_step cat fired lines =
     (case cat_signal cat (rf_signal fired) of
        None \<Rightarrow> lines
      | Some (name, d) \<Rightarrow> set_default name (''  '' @ name @ '': '' @ sd_description d) lines)"

definition signal_glossary :: "catalog \<Rightarrow> agent_finding list \<Rightarrow> string" where
  "signal_glossary cat fs =
     or_none (join_with [CHR 0x0A]
       (vals (fold (glossary_step cat) (concat (map ke_rules (concat (map af_key_events fs)))) [])))"

definition opt_pyval :: "('a \<Rightarrow> pyval) \<Rightarrow> 'a option \<Rightarrow> pyval" where
  "opt_pyval f x = (case x of None \<Rightarrow> PNone | Some y \<Rightarrow> f y)"

definition unclassified_line :: "texts \<Rightarrow> agent_finding \<Rightarrow> unclassified_row \<Rightarrow> string" where
  "unclassified_line T f u =
     ''  ['' @ af_domain f @ ''] '' @ un_name u @ '' '' @ node_text (un_entity u)
     @ '' value='' @ val_text T (opt_pyval PNum (un_value u)) @ '' severity='' @ severity_name (un_severity u)
     @ '' source='' @ un_source u @ '' ref='' @ val_text T (opt_pyval PStr (un_ref u))
     @ (case un_text u of Some (c # cs) \<Rightarrow> '' text='' @ [CHR 0x22] @ (c # cs) @ [CHR 0x22] | _ \<Rightarrow> [])"

definition unclassified_text :: "texts \<Rightarrow> agent_finding list \<Rightarrow> string" where
  "unclassified_text T fs =
     or_none (join_with [CHR 0x0A] (take 30 (concat (map (\<lambda>f. map (unclassified_line T f) (af_unclassified f)) fs))))"

definition ranked_line :: "texts \<Rightarrow> ranked_cause \<Rightarrow> string" where
  "ranked_line T c =
     ''  '' @ rk_id c @ '': '' @ comma (rk_signals c) @ '' on '' @ rk_type c @ '':'' @ rk_entity c @ '' ('' @ rk_domain c
     @ '') first '' @ tx_time T (rk_first_seen c) @ '' score='' @ val_text T (PNum (rk_score c))
     @ '' features='' @ tx_features T (rk_features c)
     @ (if rk_chain c = [] then [] else '' chain='' @ join_with '' -> '' (map node_text (rk_chain c)))"

definition ranked_text :: "texts \<Rightarrow> ranked_cause list \<Rightarrow> string" where
  "ranked_text T cs = or_none (join_with [CHR 0x0A] (map (ranked_line T) (take 8 cs)))"

section \<open>Calling the model\<close>

datatype llm_reply =
    LlmText pyval        \<comment> \<open>the parsed JSON\<close>
  | LlmApiError int
  | LlmOtherError

definition RETRYABLE_STATUS_CODES :: "int list" where "RETRYABLE_STATUS_CODES = [429, 503]"
definition MAX_ATTEMPTS :: nat where "MAX_ATTEMPTS = 3"

definition json_object :: "pyval \<Rightarrow> (string, pyval) dict option" where
  "json_object v =
     (case v of
        PDict d \<Rightarrow> Some d
      | PList [PDict d] \<Rightarrow> Some d
      | _ \<Rightarrow> None)"

text \<open>The attempts of \<open>_call_gemini\<close>, from the replies to the attempts still allowed.\<close>

fun gemini_attempts :: "llm_reply list \<Rightarrow> (string, pyval) dict option" where
  "gemini_attempts [] = None"
| "gemini_attempts (r # rs) =
     (case r of
        LlmText v \<Rightarrow> json_object v
      | LlmApiError code \<Rightarrow> if code \<in> set RETRYABLE_STATUS_CODES \<and> rs \<noteq> [] then gemini_attempts rs else None
      | LlmOtherError \<Rightarrow> None)"

definition call_gemini :: "(nat \<Rightarrow> llm_reply) \<Rightarrow> (string, pyval) dict option" where
  "call_gemini replies = gemini_attempts (map replies [1..<Suc MAX_ATTEMPTS])"

section \<open>Confidence\<close>

definition agreement_weight :: "nat \<Rightarrow> real" where
  "agreement_weight n = (if n \<le> 1 then 1 / 2 else if n = 2 then 3 / 4 else if n = 3 then 9 / 10 else 1)"

definition compute_confidence :: "agent_finding list \<Rightarrow> nat \<Rightarrow> real \<times> nat \<times> bool" where
  "compute_confidence fs total_agents =
     (let total = max (max total_agents (length fs)) 1;
          corroborating = length (filter af_anomaly fs);
          conflict = (0 < corroborating \<and> corroborating < length fs);
          penalty = (if conflict then 1 / 10 else 0)
      in (py_round 2 (real corroborating / real total * agreement_weight corroborating * (1 - penalty)),
          corroborating, conflict))"

section \<open>What the model may change\<close>

definition coerce_str :: "(string, pyval) dict \<Rightarrow> string \<Rightarrow> string \<Rightarrow> string" where
  "coerce_str d key fallback = (case map_of d key of Some (PStr s) \<Rightarrow> s | _ \<Rightarrow> fallback)"

definition str_items :: "pyval list \<Rightarrow> string list option" where
  "str_items xs =
     (if list_all (\<lambda>x. case x of PStr _ \<Rightarrow> True | _ \<Rightarrow> False) xs
      then Some (map (\<lambda>x. case x of PStr s \<Rightarrow> s | _ \<Rightarrow> []) xs) else None)"

definition coerce_list :: "(string, pyval) dict \<Rightarrow> string \<Rightarrow> string list \<Rightarrow> string list" where
  "coerce_list d key fallback =
     (case map_of d key of
        Some (PList xs) \<Rightarrow> (case str_items xs of Some ys \<Rightarrow> ys | None \<Rightarrow> fallback)
      | _ \<Rightarrow> fallback)"

text \<open>\<open>_CITATION.findall\<close>: the ids in text of the form \<open>[E<digits>]\<close>, from left to right.\<close>

definition citation_at :: "string \<Rightarrow> string option" where
  "citation_at s =
     (case s of
        a # b # rest \<Rightarrow>
          (let ds = takeWhile is_digit rest in
           if a = CHR ''['' \<and> b = CHR ''E'' \<and> ds \<noteq> [] \<and> starts_with '']'' (dropWhile is_digit rest)
           then Some (CHR ''E'' # ds) else None)
      | _ \<Rightarrow> None)"

fun citations :: "string \<Rightarrow> string list" where
  "citations [] = []"
| "citations (c # cs) = (case citation_at (c # cs) of None \<Rightarrow> citations cs | Some e \<Rightarrow> e # citations cs)"

definition cited_ok :: "string \<Rightarrow> (string, string) dict \<Rightarrow> bool" where
  "cited_ok s evidence =
     (if evidence = [] then True
      else citations s \<noteq> [] \<and> list_all (\<lambda>c. c \<in> set (keys evidence)) (citations s))"

definition RERANK_MARGIN :: real where "RERANK_MARGIN = 5 / 100"

definition tied_leaders :: "ranked_cause list \<Rightarrow> ranked_cause list" where
  "tied_leaders ranked =
     (case ranked of [] \<Rightarrow> [] | best # _ \<Rightarrow> filter (\<lambda>c. rk_score c \<ge> rk_score best - RERANK_MARGIN) ranked)"

definition by_id :: "ranked_cause list \<Rightarrow> (string, ranked_cause) dict" where
  "by_id cs = fold (\<lambda>c. AList.update (rk_id c) c) cs []"

definition ranked_ids :: "(string, pyval) dict option \<Rightarrow> pyval option" where
  "ranked_ids llm = (case llm of None \<Rightarrow> None | Some d \<Rightarrow> map_of d ''ranked_cause_ids'')"

definition rerank :: "texts \<Rightarrow> ranked_cause list \<Rightarrow> (string, pyval) dict option \<Rightarrow> ranked_cause list" where
  "rerank T ranked llm =
     (case ranked_ids llm of
        Some (PList ids) \<Rightarrow>
          (let chosen = List.map_filter (map_of (by_id (tied_leaders ranked))) (uniq (map (val_text T) ids)) in
           if ranked = [] \<or> chosen = [] then ranked
           else chosen @ filter (\<lambda>c. c \<notin> set chosen) ranked)
      | _ \<Rightarrow> ranked)"

definition names_cause :: "string \<Rightarrow> ranked_cause \<Rightarrow> bool" where
  "names_cause s c =
     list_ex (\<lambda>n. n \<noteq> [] \<and> contains_str (lower n) (lower s)) ([rk_entity c] @ rk_aliases c @ rk_signals c)"

section \<open>The deterministic report\<close>

definition status_note :: "status \<Rightarrow> string" where
  "status_note s =
     (case s of
        Recovered \<Rightarrow> '' The affected entities have since recovered (no longer firing).''
      | Flapping \<Rightarrow> '' The affected entities are flapping (repeated down/up), not a steady outage.''
      | _ \<Rightarrow> [])"

definition deterministic_from_cause :: "texts \<Rightarrow> ranked_cause \<Rightarrow> agent_finding list \<Rightarrow> node list \<Rightarrow> string" where
  "deterministic_from_cause T best fs alarms =
     (let alarm = comma (map node_text alarms);
          where1 = (if rk_chain best = [] then [] else '' via '' @ join_with '' -> '' (map node_text (rk_chain best)));
          upstream =
            (if alarm \<noteq> [] \<and> fe_topology (rk_features best) \<ge> 1 then '', upstream of the alarm on '' @ alarm @ where1
             else if where1 \<noteq> [] then '', linked to the alarm'' @ where1 else []);
          found =
            (if rk_via_hypothesis best then '' (an LLM hypothesis the agents verified)''
             else if rk_via_validation best then '' (found by peer validation)'' else []);
          summary = (case find (\<lambda>f. af_domain f = rk_domain best) fs of None \<Rightarrow> [] | Some f \<Rightarrow> af_summary f)
      in capitalize (rk_domain best) @ '' domain: '' @ comma (rk_signals best) @ '' on '' @ rk_type best @ '' '' @ rk_entity best
         @ '' at '' @ tx_clock T (rk_first_seen best) @ found @ upstream @ '' - '' @ summary)"

text \<open>What the report says without the model: the fields in the order the code computes them.\<close>

record narrative =
  na_root :: string
  na_contributing :: "string list"
  na_chain :: "string list"
  na_affected :: "string list"
  na_summary :: string

definition inconclusive :: "string list \<Rightarrow> narrative" where
  "inconclusive domains =
     \<lparr>na_root = ''RCA inconclusive: telemetry could not be retrieved for '' @ comma domains @ '', so 'no anomaly' cannot be verified.'',
      na_contributing = map (\<lambda>d. d @ '': telemetry fetch failed or was degraded during this window'') domains,
      na_chain = [''Telemetry collection failed before analysis could complete''],
      na_affected = [],
      na_summary = ''One or more domains could not retrieve telemetry for this incident window, so this report reflects missing data rather than a verified absence of anomalies. Affected domains: ''
        @ comma domains @ ''.''\<rparr>"

definition all_clear :: narrative where
  "all_clear =
     \<lparr>na_root = ''No anomaly detected across all monitored domains.'',
      na_contributing = [''No corroborating anomalies across domains''],
      na_chain = [''Signals remained within baseline noise''],
      na_affected = [],
      na_summary = ''All domain agents reported metrics within normal baseline. No root cause was identified.''\<rparr>"

definition first_event_field :: "texts \<Rightarrow> agent_finding \<Rightarrow> string \<Rightarrow> pyval \<Rightarrow> pyval" where
  "first_event_field T f k dflt =
     (case af_key_events f of
        [] \<Rightarrow> dflt
      | e # _ \<Rightarrow> (case ke_get (pr_reason (tx_printer T)) e k of None \<Rightarrow> dflt | Some v \<Rightarrow> v))"

definition event_root :: "texts \<Rightarrow> agent_finding \<Rightarrow> string" where
  "event_root T best =
     (let component = first_event_field T best ''component'' (first_event_field T best ''path_id'' (PStr []));
          change = first_event_field T best ''change_type'' (PStr []);
          before = first_event_field T best ''before'' (PDict []);
          after = first_event_field T best ''after'' (PDict [])
      in if truthy component \<and> truthy change
         then capitalize (af_domain best) @ '' domain: '' @ val_text T change @ '' on '' @ val_text T component
              @ (if truthy before \<and> truthy after
                 then '' (changed from '' @ val_text T before @ '' to '' @ val_text T after @ '')'' else [])
              @ '' - '' @ af_summary best
         else capitalize (af_domain best) @ '' domain anomaly: '' @ af_summary best)"

definition affected_by :: "catalog \<Rightarrow> agent_finding \<Rightarrow> string list" where
  "affected_by cat f =
     (case cat_domain cat (af_domain f) of Some d \<Rightarrow> d_metrics_affected d | None \<Rightarrow> [af_domain f @ ''_state''])"

definition anomalous :: "agent_finding list \<Rightarrow> agent_finding list" where
  "anomalous fs = filter af_anomaly fs"

definition degraded_domains :: "agent_finding list \<Rightarrow> string list" where
  "degraded_domains fs = sorted_set (map af_domain (filter af_degraded fs))"

definition anomaly_narrative :: "texts \<Rightarrow> catalog \<Rightarrow> agent_finding list \<Rightarrow> ranked_cause list \<Rightarrow> node list \<Rightarrow> status
    \<Rightarrow> real \<Rightarrow> bool \<Rightarrow> agent_finding \<Rightarrow> agent_finding list \<Rightarrow> narrative" where
  "anomaly_narrative T cat fs ranked alarms st score conflict a as =
     (let afs = a # as;
          best = max_by af_confidence a as;
          dd = degraded_domains fs
      in \<lparr>na_root =
            (case ranked of [] \<Rightarrow> event_root T best | c # _ \<Rightarrow> deterministic_from_cause T c fs alarms) @ status_note st,
          na_contributing =
            map (\<lambda>f. af_domain f @ '' ('' @ tx_percent T (af_confidence f) @ '' confidence): '' @ af_summary f
                   @ (case af_key_events f of [] \<Rightarrow> [] | e # _ \<Rightarrow> '' - key event: '' @ tx_event T e)) afs,
          na_chain = map (\<lambda>f. tx_clock T (af_start f) @ '': '' @ af_domain f @ '' detected -- '' @ af_summary f) (sort_key af_start afs),
          na_affected = tx_order T (uniq (concat (map (affected_by cat) afs))),
          na_summary =
            ''The investigation found anomalies in '' @ nat_str (length afs) @ '' domain(s): '' @ comma (map af_domain afs)
            @ ''. The highest-confidence signal came from '' @ af_domain best @ '' ('' @ tx_percent T (af_confidence best) @ ''): ''
            @ af_summary best @ ''. Confidence score: '' @ tx_percent T score @ ''.''
            @ (if conflict then '' Conflicting signals were detected across domains.'' else [])
            @ (if dd = [] then []
               else '' Note: telemetry from ['' @ comma dd @ ''] could not be fully retrieved during this window.'')\<rparr>)"

definition deterministic :: "texts \<Rightarrow> catalog \<Rightarrow> agent_finding list \<Rightarrow> ranked_cause list \<Rightarrow> node list \<Rightarrow> status
    \<Rightarrow> real \<Rightarrow> bool \<Rightarrow> narrative" where
  "deterministic T cat fs ranked alarms st score conflict =
     (case anomalous fs of
        [] \<Rightarrow> if list_ex af_degraded fs then inconclusive (degraded_domains fs) else all_clear
      | a # as \<Rightarrow> anomaly_narrative T cat fs ranked alarms st score conflict a as)"

section \<open>The report\<close>

record ('m, 'h) rca_report =
  rp_incident :: string
  rp_root :: string
  rp_contributing :: "string list"
  rp_chain :: "string list"
  rp_affected :: "string list"
  rp_summary :: string
  rp_findings :: "agent_finding list"
  rp_messages :: "'m list"
  rp_confidence :: real
  rp_corroborating :: nat
  rp_conflict :: bool
  rp_timed_out :: "string list"
  rp_errored :: "string list"
  rp_degraded :: bool
  rp_unclassified :: "(string \<times> unclassified_row) list"
  rp_alarms :: "node list"
  rp_ranked :: "ranked_cause list"
  rp_status :: status
  rp_hypotheses :: "'h list"
  rp_generated :: time

record ('m, 'h) synthesis_input =
  sy_incident :: string
  sy_findings :: "agent_finding list"
  sy_messages :: "'m list"
  sy_description :: string
  sy_require_llm :: bool
  sy_total :: "nat option"
  sy_timed_out :: "string list"
  sy_errored :: "string list"
  sy_ranked :: "ranked_cause list"
  sy_alarms :: "node list"
  sy_status :: status
  sy_hypotheses :: "'h list"

definition MAX_UNCLASSIFIED_IN_REPORT :: nat where "MAX_UNCLASSIFIED_IN_REPORT = 50"

text \<open>The answer that is used: consulted only with a description and an anomaly to explain.\<close>

definition consulted :: "('m, 'h) synthesis_input \<Rightarrow> (string, pyval) dict option \<Rightarrow> (string, pyval) dict option" where
  "consulted inp answer = (if sy_description inp \<noteq> [] \<and> anomalous (sy_findings inp) \<noteq> [] then answer else None)"

definition drop_key :: "string \<Rightarrow> (string, pyval) dict \<Rightarrow> (string, pyval) dict" where
  "drop_key k d = filter (\<lambda>(k', _). k' \<noteq> k) d"

definition root_of_answer :: "(string, pyval) dict option \<Rightarrow> string option" where
  "root_of_answer llm =
     (case llm of None \<Rightarrow> None | Some d \<Rightarrow> (case map_of d ''root_cause'' of Some (PStr s) \<Rightarrow> Some s | _ \<Rightarrow> None))"

text \<open>An empty answer is falsy: it never changes anything but counts as an answer.\<close>

definition truthy_answer :: "(string, pyval) dict option \<Rightarrow> bool" where
  "truthy_answer llm = (case llm of None \<Rightarrow> False | Some d \<Rightarrow> d \<noteq> [])"

definition reject_root :: "bool \<Rightarrow> (string, pyval) dict option \<Rightarrow> (string, pyval) dict option" where
  "reject_root bad llm = (if bad then map_option (drop_key ''root_cause'') llm else llm)"

definition checked_answer :: "(string, string) dict \<Rightarrow> ranked_cause list \<Rightarrow> (string, pyval) dict option
    \<Rightarrow> (string, pyval) dict option" where
  "checked_answer evidence ranked llm =
     (let llm1 = reject_root (case root_of_answer llm of None \<Rightarrow> False | Some s \<Rightarrow> \<not> cited_ok s evidence) llm
      in reject_root (case ranked of [] \<Rightarrow> False
           | best # _ \<Rightarrow> (case root_of_answer llm1 of None \<Rightarrow> False | Some s \<Rightarrow> \<not> names_cause s best)) llm1)"

datatype synthesis_error = LlmRequired

definition synthesize_report :: "texts \<Rightarrow> catalog \<Rightarrow> time \<Rightarrow> (string, pyval) dict option \<Rightarrow> ('m, 'h) synthesis_input
    \<Rightarrow> synthesis_error + ('m, 'h) rca_report" where
  "synthesize_report T cat now answer inp =
     (let fs = sy_findings inp;
          (score, corroborating, conflict) = compute_confidence fs (case sy_total inp of None \<Rightarrow> length fs | Some n \<Rightarrow> n);
          det0 = deterministic T cat fs (sy_ranked inp) (sy_alarms inp) (sy_status inp) score conflict;
          evidence = evidence_index T fs;
          llm0 = consulted inp answer;
          use = truthy_answer llm0 \<and> sy_ranked inp \<noteq> [];
          ranked = (if use then rerank T (sy_ranked inp) llm0 else sy_ranked inp);
          det = (if use
                 then det0\<lparr>na_root := deterministic_from_cause T (hd ranked) fs (sy_alarms inp) @ status_note (sy_status inp)\<rparr>
                 else det0);
          llm = checked_answer evidence ranked llm0;
          d = (case llm of None \<Rightarrow> [] | Some d \<Rightarrow> d)
      in if sy_require_llm inp \<and> anomalous fs \<noteq> [] \<and> llm0 = None then Inl LlmRequired
         else Inr
           \<lparr>rp_incident = sy_incident inp,
            rp_root = coerce_str d ''root_cause'' (na_root det),
            rp_contributing = coerce_list d ''contributing_factors'' (na_contributing det),
            rp_chain = coerce_list d ''causal_chain'' (na_chain det),
            rp_affected = coerce_list d ''metrics_affected'' (na_affected det),
            rp_summary = coerce_str d ''human_readable_summary'' (na_summary det),
            rp_findings = fs, rp_messages = sy_messages inp, rp_confidence = score,
            rp_corroborating = corroborating, rp_conflict = conflict,
            rp_timed_out = sy_timed_out inp, rp_errored = sy_errored inp,
            rp_degraded = list_ex af_degraded fs,
            rp_unclassified = take MAX_UNCLASSIFIED_IN_REPORT (concat (map (\<lambda>f. map (Pair (af_domain f)) (af_unclassified f)) fs)),
            rp_alarms = sy_alarms inp, rp_ranked = ranked, rp_status = sy_status inp,
            rp_hypotheses = sy_hypotheses inp, rp_generated = now\<rparr>)"

section \<open>Lemmas\<close>

lemma evidence_id_inj [simp]: "evidence_id m = evidence_id n \<longleftrightarrow> m = n"
  by (simp add: evidence_id_def nat_str_inj)

lemma update_new_key: "k \<notin> set (keys d) \<Longrightarrow> AList.update k v d = d @ [(k, v)]"
  by (induction d) (auto simp: keys_def)

text \<open>Evidence id \<open>E\<close>n is the n-th rule-fired row of the findings.\<close>

lemma evidence_index_keys:
  "keys (evidence_index T fs) = map (\<lambda>i. evidence_id (Suc i)) [0..<length (evidence_rows_of fs)]"
proof -
  have "keys (fold (index_row T) rows []) = map (\<lambda>i. evidence_id (Suc i)) [0..<length rows]" for rows
  proof (induction rows rule: rev_induct)
    case Nil
    then show ?case by (simp add: keys_def)
  next
    case (snoc x rows)
    let ?d = "fold (index_row T) rows []"
    obtain f row where x: "x = (f, row)" by force
    have "length ?d = length (keys ?d)" by (simp add: keys_def)
    then have len: "length ?d = length rows" by (simp add: snoc)
    have "evidence_id (Suc (length rows)) \<notin> set (keys ?d)" unfolding snoc by auto
    moreover have "index_row T x d = AList.update (evidence_id (Suc (length d))) (evidence_text T f row) d" for d
      by (simp add: x index_row_def)
    ultimately have "index_row T x ?d = ?d @ [(evidence_id (Suc (length rows)), evidence_text T f row)]"
      using update_new_key [of "evidence_id (Suc (length rows))" ?d] by (simp only: len not_False_eq_True)
    then have "keys (index_row T x ?d) = keys ?d @ [evidence_id (Suc (length rows))]"
      by (simp only: keys_def map_append) simp
    then show ?case by (simp add: snoc)
  qed
  then show ?thesis by (simp add: evidence_index_def)
qed

interpretation cause_index: keyed_merge rk_id "\<lambda>y x. x"
  by unfold_locales simp

lemma by_id_merge: "by_id cs = merge_all rk_id (\<lambda>y x. x) cs"
proof -
  have "merge_add (rk_id :: ranked_cause \<Rightarrow> string) (\<lambda>y x. x) = (\<lambda>c. AList.update (rk_id c) c)"
    by (intro ext) (simp add: merge_add_def split: option.split)
  then show ?thesis by (simp add: by_id_def merge_all_def)
qed

lemma by_id_SomeD:
  assumes "map_of (by_id cs) i = Some c"
  shows "c \<in> set cs \<and> rk_id c = i"
proof -
  obtain y ys where f: "filter (\<lambda>x. rk_id x = i) cs = y # ys" and c: "c = foldl (\<lambda>y x. x) y ys"
    using assms by (auto simp: by_id_merge cause_index.merge_lookup split: list.splits)
  have "foldl (\<lambda>y x. x) y ys \<in> set (y # ys)" by (induction ys arbitrary: y) auto
  then have "c \<in> set (filter (\<lambda>x. rk_id x = i) cs)" unfolding f c .
  then show ?thesis by simp
qed

definition chosen_of :: "texts \<Rightarrow> ranked_cause list \<Rightarrow> pyval list \<Rightarrow> ranked_cause list" where
  "chosen_of T ranked ids = List.map_filter (map_of (by_id (tied_leaders ranked))) (uniq (map (val_text T) ids))"

lemma rerank_cases:
  obtains "rerank T ranked llm = ranked"
  | ids where "ranked \<noteq> []" "chosen_of T ranked ids \<noteq> []"
      "rerank T ranked llm = chosen_of T ranked ids @ filter (\<lambda>c. c \<notin> set (chosen_of T ranked ids)) ranked"
proof (cases "\<exists>ids. ranked_ids llm = Some (PList ids)")
  case True
  then obtain ids where "ranked_ids llm = Some (PList ids)" by blast
  then have r: "rerank T ranked llm = (if ranked = [] \<or> chosen_of T ranked ids = [] then ranked
      else chosen_of T ranked ids @ filter (\<lambda>c. c \<notin> set (chosen_of T ranked ids)) ranked)"
    by (simp add: rerank_def chosen_of_def Let_def)
  show ?thesis
    by (cases "ranked = [] \<or> chosen_of T ranked ids = []") (use r that in auto)
next
  case False
  with that(1) show ?thesis by (simp add: rerank_def split: option.split pyval.split)
qed

lemma map_filter_distinct:
  "distinct xs \<Longrightarrow> (\<And>x y c. f x = Some c \<Longrightarrow> f y = Some c \<Longrightarrow> x = y) \<Longrightarrow> distinct (List.map_filter f xs)"
proof (induction xs)
  case (Cons a xs)
  show ?case
  proof (cases "f a")
    case None
    with Cons show ?thesis by (simp add: List.map_filter_def)
  next
    case (Some c)
    have "f x \<noteq> Some c" if "x \<in> set xs" for x
      using Cons.prems(1) Cons.prems(2) [OF Some, of x] that by auto
    with Some Cons show ?thesis by (auto simp: List.map_filter_def)
  qed
qed (simp add: List.map_filter_def)

lemma set_map_filter: "set (List.map_filter f xs) = {c. \<exists>x\<in>set xs. f x = Some c}"
  by (force simp: List.map_filter_def)

lemma chosen_of_tied: "set (chosen_of T ranked ids) \<subseteq> set (tied_leaders ranked)"
  unfolding chosen_of_def set_map_filter using by_id_SomeD by blast

lemma chosen_of_distinct: "distinct (chosen_of T ranked ids)"
  unfolding chosen_of_def by (rule map_filter_distinct) (auto dest: by_id_SomeD)

lemma tied_leaders_subset: "set (tied_leaders ranked) \<subseteq> set ranked"
  by (auto simp: tied_leaders_def split: list.splits)

definition near_best :: "ranked_cause list \<Rightarrow> ranked_cause \<Rightarrow> bool" where
  "near_best ranked c \<longleftrightarrow> ranked \<noteq> [] \<and> rk_score (hd ranked) - RERANK_MARGIN \<le> rk_score c"

lemma tied_leaders_near: "c \<in> set (tied_leaders ranked) \<Longrightarrow> near_best ranked c"
  by (auto simp: tied_leaders_def near_best_def split: list.splits)

text \<open>The reordered list is a permutation, headed by a near-tied leader; the rest keeps its order.\<close>

lemma rerank_permutes:
  assumes d: "distinct ranked"
  shows "mset (rerank T ranked llm) = mset ranked
    \<and> filter (\<lambda>c. \<not> near_best ranked c) (rerank T ranked llm) = filter (\<lambda>c. \<not> near_best ranked c) ranked
    \<and> (ranked \<noteq> [] \<longrightarrow> near_best ranked (hd (rerank T ranked llm)))"
proof (cases rule: rerank_cases [of T ranked llm])
  case 1
  then show ?thesis by (simp add: near_best_def RERANK_MARGIN_def)
next
  case (2 ids)
  let ?c = "chosen_of T ranked ids"
  have sub: "set ?c \<subseteq> set ranked" using chosen_of_tied tied_leaders_subset by blast
  have near: "near_best ranked c" if "c \<in> set ?c" for c
    using that chosen_of_tied tied_leaders_near by blast
  have "set (?c @ filter (\<lambda>c. c \<notin> set ?c) ranked) = set ranked" using sub by auto
  moreover have "distinct (?c @ filter (\<lambda>c. c \<notin> set ?c) ranked)" using d chosen_of_distinct by auto
  ultimately have "mset (?c @ filter (\<lambda>c. c \<notin> set ?c) ranked) = mset ranked"
    using d by (simp only: set_eq_iff_mset_eq_distinct [symmetric])
  moreover have "filter (\<lambda>c. \<not> near_best ranked c) ?c = []" using near by (simp add: filter_empty_conv)
  moreover have "filter (\<lambda>c. \<not> near_best ranked c) (filter (\<lambda>c. c \<notin> set ?c) ranked) = filter (\<lambda>c. \<not> near_best ranked c) ranked"
    unfolding filter_filter by (rule filter_cong) (use near in auto)
  moreover have "near_best ranked (hd (?c @ filter (\<lambda>c. c \<notin> set ?c) ranked))"
    using 2(2) near by (simp add: hd_append)
  ultimately show ?thesis unfolding 2(3) by simp
qed

lemma agreement_weight_mono: "m \<le> n \<Longrightarrow> agreement_weight m \<le> agreement_weight n"
  by (auto simp: agreement_weight_def)

lemma agreement_weight_unit: "0 \<le> agreement_weight n" "agreement_weight n \<le> 1"
  by (auto simp: agreement_weight_def)

definition raw_confidence :: "nat \<Rightarrow> nat \<Rightarrow> nat \<Rightarrow> real" where
  "raw_confidence n responded k =
     real k / real (max (max n responded) 1) * agreement_weight k * (1 - (if 0 < k \<and> k < responded then 1 / 10 else 0))"

lemma compute_confidence_raw:
  "compute_confidence fs n = (py_round 2 (raw_confidence n (length fs) (length (anomalous fs))),
     length (anomalous fs), 0 < length (anomalous fs) \<and> length (anomalous fs) < length fs)"
  unfolding compute_confidence_def raw_confidence_def anomalous_def Let_def by simp

lemma raw_confidence_bounds:
  assumes "k \<le> responded"
  shows "0 \<le> raw_confidence n responded k" "raw_confidence n responded k \<le> 1"
proof -
  have unit: "0 \<le> x * y * z \<and> x * y * z \<le> 1" if "0 \<le> x" "x \<le> 1" "0 \<le> y" "y \<le> 1" "0 \<le> z" "z \<le> 1" for x y z :: real
    using that by (simp add: mult_le_one)
  let ?q = "real k / real (max (max n responded) 1)" and ?p = "1 - (if 0 < k \<and> k < responded then 1 / 10 else 0) :: real"
  have "0 \<le> ?q" "?q \<le> 1" using assms by (auto simp: divide_simps)
  moreover have "0 \<le> ?p" "?p \<le> 1" by auto
  ultimately have "0 \<le> ?q * agreement_weight k * ?p \<and> ?q * agreement_weight k * ?p \<le> 1"
    by (intro unit agreement_weight_unit)
  then show "0 \<le> raw_confidence n responded k" "raw_confidence n responded k \<le> 1"
    by (simp_all only: raw_confidence_def)
qed

lemma raw_confidence_mono:
  assumes "j \<le> k" "k \<le> responded"
  shows "raw_confidence n responded j \<le> raw_confidence n responded k"
proof (cases "j = 0")
  case True
  with raw_confidence_bounds [OF assms(2), of n] show ?thesis by (simp add: raw_confidence_def)
next
  case False
  let ?t = "real (max (max n responded) 1)"
  let ?p = "\<lambda>i. 1 - (if 0 < i \<and> i < responded then 1 / 10 else 0) :: real"
  have "?p j \<le> ?p k" "0 \<le> ?p j" using False assms by auto
  moreover have "real j / ?t \<le> real k / ?t" using assms by (intro divide_right_mono) auto
  ultimately show ?thesis
    unfolding raw_confidence_def using agreement_weight_mono [OF assms(1)] agreement_weight_unit(1) [of j]
      agreement_weight_unit(1) [of k]
    by (intro mult_mono) (auto intro!: mult_nonneg_nonneg)
qed

lemma length_filter_less_iff: "length (filter P xs) < length xs \<longleftrightarrow> (\<exists>x\<in>set xs. \<not> P x)"
  by (cases "\<forall>x\<in>set xs. P x") (auto simp: filter_True intro: length_filter_less)

lemma length_anomalous_le: "length (anomalous fs) \<le> length fs"
  by (simp add: anomalous_def)

lemma anomalous_mono:
  "list_all2 (\<lambda>f g. af_anomaly f \<longrightarrow> af_anomaly g) fs gs \<Longrightarrow> length (anomalous fs) \<le> length (anomalous gs)"
  by (induction rule: list_all2_induct) (auto simp: anomalous_def)

section \<open>Fields of a report\<close>

definition ranking_of :: "texts \<Rightarrow> (string, pyval) dict option \<Rightarrow> ('m, 'h) synthesis_input \<Rightarrow> ranked_cause list" where
  "ranking_of T answer inp =
     (let llm = consulted inp answer in
      if truthy_answer llm \<and> sy_ranked inp \<noteq> [] then rerank T (sy_ranked inp) llm else sy_ranked inp)"

text \<open>The deterministic sentence for a ranking.\<close>

definition rules_root :: "texts \<Rightarrow> ('m, 'h) synthesis_input \<Rightarrow> ranked_cause list \<Rightarrow> string" where
  "rules_root T inp ranked =
     (case anomalous (sy_findings inp) of
        [] \<Rightarrow> na_root (if list_ex af_degraded (sy_findings inp) then inconclusive (degraded_domains (sy_findings inp)) else all_clear)
      | a # as \<Rightarrow>
          (case ranked of
             [] \<Rightarrow> event_root T (max_by af_confidence a as)
           | c # _ \<Rightarrow> deterministic_from_cause T c (sy_findings inp) (sy_alarms inp)) @ status_note (sy_status inp))"

lemma consulted_None: "anomalous (sy_findings inp) = [] \<Longrightarrow> consulted inp answer = None"
  by (simp add: consulted_def)

lemma checked_None [simp]: "checked_answer ev ranked None = None"
  by (simp add: checked_answer_def reject_root_def Let_def root_of_answer_def split: list.splits)

lemma rerank_nonempty: "ranked \<noteq> [] \<Longrightarrow> rerank T ranked llm \<noteq> []"
  by (cases rule: rerank_cases [of T ranked llm]) auto

lemma map_of_drop_key [simp]: "map_of (drop_key k d) k' = (if k' = k then None else map_of d k')"
  unfolding drop_key_def by (induction d) auto

lemma coerce_str_root:
  "coerce_str (case llm of None \<Rightarrow> [] | Some d \<Rightarrow> d) ''root_cause'' s = (case root_of_answer llm of None \<Rightarrow> s | Some r \<Rightarrow> r)"
  by (auto simp: coerce_str_def root_of_answer_def split: option.splits pyval.splits)

lemma root_reject: "root_of_answer (reject_root bad llm) = (if bad then None else root_of_answer llm)"
  by (auto simp: reject_root_def root_of_answer_def split: option.splits)

lemma checked_root:
  "root_of_answer (checked_answer ev ranked llm) = Some s \<Longrightarrow>
     root_of_answer llm = Some s \<and> cited_ok s ev \<and> (ranked \<noteq> [] \<longrightarrow> names_cause s (hd ranked))"
  unfolding checked_answer_def Let_def root_reject
  by (auto split: if_splits option.splits list.splits simp: root_reject)

lemma report_fields:
  assumes "synthesize_report T cat now answer inp = Inr r"
  shows "rp_ranked r = ranking_of T answer inp" "rp_findings r = sy_findings inp"
    "rp_degraded r = list_ex af_degraded (sy_findings inp)"
    "rp_root r = (case root_of_answer (checked_answer (evidence_index T (sy_findings inp)) (ranking_of T answer inp) (consulted inp answer)) of
        None \<Rightarrow> rules_root T inp (ranking_of T answer inp) | Some s \<Rightarrow> s)"
proof -
  let ?use = "truthy_answer (consulted inp answer) \<and> sy_ranked inp \<noteq> []"
  obtain score corroborating conflict where c: "compute_confidence (sy_findings inp)
      (case sy_total inp of None \<Rightarrow> length (sy_findings inp) | Some n \<Rightarrow> n) = (score, corroborating, conflict)" by (metis prod_cases3)
  have root: "na_root (if ?use
        then (deterministic T cat (sy_findings inp) (sy_ranked inp) (sy_alarms inp) (sy_status inp) score conflict)
          \<lparr>na_root := deterministic_from_cause T (hd (ranking_of T answer inp)) (sy_findings inp) (sy_alarms inp) @ status_note (sy_status inp)\<rparr>
        else deterministic T cat (sy_findings inp) (sy_ranked inp) (sy_alarms inp) (sy_status inp) score conflict)
      = rules_root T inp (ranking_of T answer inp)"
  proof (cases ?use)
    case True
    then have "anomalous (sy_findings inp) \<noteq> []" by (auto simp: consulted_def truthy_answer_def split: if_splits)
    moreover have "ranking_of T answer inp \<noteq> []" using True rerank_nonempty by (simp add: ranking_of_def)
    ultimately show ?thesis using True by (cases "ranking_of T answer inp") (auto simp: rules_root_def split: list.splits)
  next
    case False
    then have "ranking_of T answer inp = sy_ranked inp" by (auto simp: ranking_of_def Let_def)
    then show ?thesis unfolding if_not_P [OF False]
      by (simp add: rules_root_def deterministic_def anomaly_narrative_def Let_def split: list.split)
  qed
  show "rp_ranked r = ranking_of T answer inp" "rp_findings r = sy_findings inp"
    "rp_degraded r = list_ex af_degraded (sy_findings inp)"
    using assms by (auto simp: synthesize_report_def c Let_def ranking_of_def split: if_splits)
  show "rp_root r = (case root_of_answer (checked_answer (evidence_index T (sy_findings inp)) (ranking_of T answer inp) (consulted inp answer)) of
        None \<Rightarrow> rules_root T inp (ranking_of T answer inp) | Some s \<Rightarrow> s)"
    using assms root unfolding coerce_str_root [symmetric]
    by (auto simp: synthesize_report_def c Let_def ranking_of_def split: if_splits)
qed

lemma ranking_of_permutes:
  "distinct (sy_ranked inp) \<Longrightarrow> mset (ranking_of T answer inp) = mset (sy_ranked inp)
    \<and> filter (\<lambda>c. \<not> near_best (sy_ranked inp) c) (ranking_of T answer inp) = filter (\<lambda>c. \<not> near_best (sy_ranked inp) c) (sy_ranked inp)
    \<and> (sy_ranked inp \<noteq> [] \<longrightarrow> near_best (sy_ranked inp) (hd (ranking_of T answer inp)))"
  using rerank_permutes [of "sy_ranked inp" T "consulted inp answer"]
  by (auto simp: ranking_of_def Let_def near_best_def RERANK_MARGIN_def)

section \<open>Properties\<close>

definition ex_texts :: texts where
  "ex_texts = \<lparr>tx_printer = ex_printer, tx_time = \<lambda>_. ''t'', tx_clock = \<lambda>_. ''12:00z'', tx_percent = \<lambda>_. ''60%'',
     tx_features = \<lambda>_. [], tx_event = \<lambda>_. [], tx_order = \<lambda>xs. xs\<rparr>"

definition ex_cause :: "string \<Rightarrow> string \<Rightarrow> real \<Rightarrow> ranked_cause" where
  "ex_cause i e score = \<lparr>rk_id = i, rk_type = ''a'', rk_entity = e, rk_domain = ''net'', rk_signals = [''sig''], rk_refs = [''r1''],
     rk_first_seen = 100, rk_score = score,
     rk_features = \<lparr>fe_evidence = 1, fe_topology = 1, fe_precedence = 1, fe_role = 1\<rparr>, rk_chain = [], rk_aliases = [],
     rk_via_validation = False, rk_via_hypothesis = False\<rparr>"

definition ex_synthesis :: "agent_finding list \<Rightarrow> (unit, unit) synthesis_input" where
  "ex_synthesis fs = \<lparr>sy_incident = ''INC-1'', sy_findings = fs, sy_messages = [], sy_description = ''packet loss'',
     sy_require_llm = True, sy_total = Some 4, sy_timed_out = [], sy_errored = [],
     sy_ranked = [ex_cause ''C1'' ''edge1'' (9 / 10), ex_cause ''C2'' ''edge2'' (87 / 100), ex_cause ''C3'' ''edge3'' (1 / 2)],
     sy_alarms = [], sy_status = Ongoing, sy_hypotheses = []\<rparr>"

definition ex_llm :: "string list \<Rightarrow> string \<Rightarrow> (string, pyval) dict" where
  "ex_llm ids sentence = [(''ranked_cause_ids'', PList (map PStr ids)), (''root_cause'', PStr sentence)]"

abbreviation ex_input :: "(unit, unit) synthesis_input" where
  "ex_input \<equiv> ex_synthesis [ex_finding ''net'' [ex_row ''a'' ''edge2'']]"

abbreviation ex_answer_of :: "(string, pyval) dict option" where
  "ex_answer_of \<equiv> Some (ex_llm [''C2'', ''C3''] ''edge2 lost its peer [E1]'')"

lemma ex_report: obtains r where "synthesize_report ex_texts ex_cat 0 ex_answer_of ex_input = Inr r"
proof -
  have "consulted ex_input ex_answer_of \<noteq> None"
    by (simp add: consulted_def ex_synthesis_def anomalous_def ex_finding_def)
  then show ?thesis
    using that by (cases "compute_confidence (sy_findings ex_input) 4") (simp add: synthesize_report_def Let_def ex_synthesis_def)
qed

lemma ex_ranking: "map rk_id (ranking_of ex_texts ex_answer_of ex_input) = [''C2'', ''C1'', ''C3'']"
  by code_simp

text \<open>
  C1: The root cause in a report is either the sentence the rules give for the cause ranked first in
  that report, or the model's sentence; and the model's sentence is only used when it names that
  cause and, if any rule fired, cites at least one evidence id and no id that does not belong to
  a rule-fired row of the findings.
\<close>
theorem report_root_grounded:
  assumes "synthesize_report T cat now answer inp = Inr r"
  shows "rp_root r = rules_root T inp (rp_ranked r)
    \<or> root_of_answer answer = Some (rp_root r)
      \<and> (rp_ranked r \<noteq> [] \<longrightarrow> names_cause (rp_root r) (hd (rp_ranked r)))
      \<and> (evidence_rows_of (rp_findings r) \<noteq> [] \<longrightarrow> citations (rp_root r) \<noteq> []
          \<and> (\<forall>e\<in>set (citations (rp_root r)). \<exists>n. 1 \<le> n \<and> n \<le> length (evidence_rows_of (rp_findings r)) \<and> e = evidence_id n))"
proof (cases "root_of_answer (checked_answer (evidence_index T (sy_findings inp)) (ranking_of T answer inp) (consulted inp answer))")
  case None
  then show ?thesis using report_fields [OF assms] by simp
next
  case (Some s)
  let ?ev = "evidence_index T (sy_findings inp)"
  from checked_root [OF Some] have c: "root_of_answer (consulted inp answer) = Some s" "cited_ok s ?ev"
    "ranking_of T answer inp \<noteq> [] \<longrightarrow> names_cause s (hd (ranking_of T answer inp))" by blast+
  have used: "root_of_answer answer = Some s" using c(1) by (simp add: consulted_def root_of_answer_def split: if_splits)
  have ne: "evidence_rows_of (sy_findings inp) \<noteq> [] \<Longrightarrow> ?ev \<noteq> []"
    using evidence_index_keys [of T "sy_findings inp"] by (auto simp: keys_def)
  have "citations s \<noteq> [] \<and> (\<forall>e\<in>set (citations s). \<exists>n. 1 \<le> n \<and> n \<le> length (evidence_rows_of (sy_findings inp)) \<and> e = evidence_id n)"
    if rows: "evidence_rows_of (sy_findings inp) \<noteq> []"
  proof -
    have "citations s \<noteq> []" "\<forall>e\<in>set (citations s). e \<in> set (keys ?ev)"
      using c(2) ne [OF rows] by (auto simp: cited_ok_def list_all_iff)
    then show ?thesis unfolding evidence_index_keys by (force simp: Suc_le_eq)
  qed
  then show ?thesis using report_fields [OF assms] Some used c(3) by simp
qed

theorem report_root_grounded_witness:
  "\<exists>r. synthesize_report ex_texts ex_cat 0 ex_answer_of ex_input = Inr r
    \<and> (rp_root r = rules_root ex_texts ex_input (rp_ranked r) \<or> names_cause (rp_root r) (hd (rp_ranked r)))"
proof (rule ex_report)
  fix r
  assume r: "synthesize_report ex_texts ex_cat 0 ex_answer_of ex_input = Inr r"
  have "rp_ranked r \<noteq> []" using ex_ranking report_fields(1) [OF r] by auto
  with report_root_grounded [OF r] r show ?thesis by blast
qed

text \<open>
  C26: The model can only break near ties: the report ranks exactly the causes the rules ranked, the
  one it puts first scores within \<open>RERANK_MARGIN\<close> of the rules' best, and the causes below
  the margin keep their order.
\<close>
theorem report_ranking_safe:
  assumes "synthesize_report T cat now answer inp = Inr r" and "distinct (map rk_id (sy_ranked inp))"
  shows "mset (rp_ranked r) = mset (sy_ranked inp)
    \<and> filter (\<lambda>c. \<not> near_best (sy_ranked inp) c) (rp_ranked r) = filter (\<lambda>c. \<not> near_best (sy_ranked inp) c) (sy_ranked inp)
    \<and> (sy_ranked inp \<noteq> [] \<longrightarrow> near_best (sy_ranked inp) (hd (rp_ranked r)))"
  unfolding report_fields(1) [OF assms(1)]
  using ranking_of_permutes [of inp T answer] assms(2) by (simp add: distinct_map)

theorem report_ranking_safe_witness:
  "\<exists>r. synthesize_report ex_texts ex_cat 0 ex_answer_of ex_input = Inr r
    \<and> mset (rp_ranked r) = mset (sy_ranked ex_input) \<and> map rk_id (rp_ranked r) = [''C2'', ''C1'', ''C3'']"
proof (rule ex_report)
  fix r
  assume r: "synthesize_report ex_texts ex_cat 0 ex_answer_of ex_input = Inr r"
  have "distinct (map rk_id (sy_ranked ex_input))" by code_simp
  from report_ranking_safe [OF r this] ex_ranking report_fields(1) [OF r] r show ?thesis by auto
qed

text \<open>
  C40: The confidence is a number in [0,1]; it counts the anomalous findings, flags a conflict exactly
  when some but not all of the agents that answered found an anomaly, and never drops when a
  finding turns anomalous.
\<close>
theorem compute_confidence_bounds:
  assumes "list_all2 (\<lambda>f g. af_anomaly f \<longrightarrow> af_anomaly g) fs gs"
  shows "case compute_confidence gs dispatched of (score, n, conflict) \<Rightarrow>
      0 \<le> score \<and> score \<le> 1 \<and> n = length (anomalous gs)
      \<and> (conflict \<longleftrightarrow> (\<exists>g\<in>set gs. af_anomaly g) \<and> (\<exists>g\<in>set gs. \<not> af_anomaly g))
      \<and> fst (compute_confidence fs dispatched) \<le> score"
proof -
  have len: "length fs = length gs" using assms by (rule list_all2_lengthD)
  have "raw_confidence dispatched (length fs) (length (anomalous fs)) \<le> raw_confidence dispatched (length gs) (length (anomalous gs))"
    unfolding len by (rule raw_confidence_mono [OF anomalous_mono [OF assms] length_anomalous_le])
  moreover have "length (anomalous gs) < length gs \<longleftrightarrow> (\<exists>g\<in>set gs. \<not> af_anomaly g)"
    unfolding anomalous_def by (rule length_filter_less_iff)
  moreover have "0 < length (anomalous gs) \<longleftrightarrow> (\<exists>g\<in>set gs. af_anomaly g)"
    by (auto simp: anomalous_def filter_empty_conv)
  ultimately show ?thesis
    using raw_confidence_bounds [OF length_anomalous_le, of dispatched gs]
    by (simp add: compute_confidence_raw py_round_mono py_round_unit)
qed

theorem compute_confidence_bounds_witness:
  "fst (compute_confidence [ex_finding ''net'' []] 4) \<le> 1"
proof -
  have "list_all2 (\<lambda>f g. af_anomaly f \<longrightarrow> af_anomaly g) [(ex_finding ''net'' [])\<lparr>af_anomaly := False\<rparr>] [ex_finding ''net'' []]"
    by simp
  from compute_confidence_bounds [OF this, of 4] show ?thesis
    by (cases "compute_confidence [ex_finding ''net'' []] 4") simp
qed

text \<open>
  C5: Missing data is never reported as health: with no anomalous finding the report says that no
  anomaly was found exactly when no finding is degraded, otherwise that the analysis is
  inconclusive, naming the degraded domains; the model is not consulted.
\<close>
theorem report_inconclusive_when_degraded:
  assumes "synthesize_report T cat now answer inp = Inr r" and "anomalous (rp_findings r) = []"
  shows "rp_root r = na_root (if rp_degraded r then inconclusive (degraded_domains (rp_findings r)) else all_clear)
    \<and> (rp_root r = na_root all_clear \<longleftrightarrow> (\<forall>f\<in>set (rp_findings r). \<not> af_degraded f))
    \<and> set (degraded_domains (rp_findings r)) = af_domain ` {f \<in> set (rp_findings r). af_degraded f}"
proof -
  note f = report_fields [OF assms(1)]
  have none: "anomalous (sy_findings inp) = []" using assms(2) f by simp
  have root: "rp_root r = na_root (if rp_degraded r then inconclusive (degraded_domains (rp_findings r)) else all_clear)"
    unfolding f consulted_None [OF none] checked_None using none by (simp add: root_of_answer_def rules_root_def)
  have "na_root (inconclusive ds) \<noteq> na_root all_clear" for ds
    by (simp add: inconclusive_def all_clear_def)
  with root have "rp_root r = na_root all_clear \<longleftrightarrow> \<not> rp_degraded r" by simp
  with root f show ?thesis by (auto simp: list_ex_iff degraded_domains_def)
qed

theorem report_inconclusive_when_degraded_witness:
  "\<exists>r. synthesize_report ex_texts ex_cat 0 None (ex_synthesis [(ex_finding ''net'' [])\<lparr>af_anomaly := False, af_degraded := True\<rparr>]) = Inr r
    \<and> rp_root r \<noteq> na_root all_clear"
proof -
  let ?f = "(ex_finding ''net'' [])\<lparr>af_anomaly := False, af_degraded := True\<rparr>"
  have a: "anomalous [?f] = []" by (simp add: anomalous_def)
  then obtain r where r: "synthesize_report ex_texts ex_cat 0 None (ex_synthesis [?f]) = Inr r"
    by (cases "compute_confidence [?f] 4") (simp add: synthesize_report_def Let_def ex_synthesis_def)
  have f: "rp_findings r = [?f]" using report_fields(2) [OF r] by (simp add: ex_synthesis_def)
  have "rp_root r = na_root all_clear \<longleftrightarrow> (\<forall>f\<in>set [?f]. \<not> af_degraded f)"
    using report_inconclusive_when_degraded [OF r] a unfolding f by blast
  then have "rp_root r \<noteq> na_root all_clear" by simp
  with r show ?thesis by blast
qed

end
