(* ===== verification/Endpoint.thy ===== *)
theory Endpoint
  imports Contract
begin

text \<open>
  Calling a telemetry endpoint (\<open>providers/resilience.py\<close>, \<open>providers/adapters/mcp_adapter.py\<close>):
  transport errors, retry policy, the circuit breaker as a state machine shared by concurrent
  calls, the retry loop of \<open>call_tool\<close> and the parsing of a tool's answer. The clock is an
  argument (\<open>real\<close> seconds); the MCP session itself, the JSON parser and the pydantic
  validators are parameters. Opening and closing sessions is not modelled.
\<close>

section \<open>Errors\<close>

datatype py_exc =
    TransportExc string
  | HttpStatus int
  | McpError int
  | ExcGroup "py_exc list"
  | CancelledExc
  | OtherExc string

text \<open>The two MCP error codes are constants of the SDK.\<close>

record mcp_codes =
  mc_closed :: int
  mc_timeout :: int

definition TRANSIENT_HTTP_STATUS :: "int list" where
  "TRANSIENT_HTTP_STATUS = [429, 502, 503, 504]"

fun is_transport_error :: "mcp_codes \<Rightarrow> py_exc \<Rightarrow> bool" where
  "is_transport_error K (ExcGroup es) = list_ex (is_transport_error K) es"
| "is_transport_error K (TransportExc s) = True"
| "is_transport_error K (HttpStatus n) = (n \<in> set TRANSIENT_HTTP_STATUS)"
| "is_transport_error K (McpError c) = (c = mc_closed K \<or> c = mc_timeout K)"
| "is_transport_error K CancelledExc = False"
| "is_transport_error K (OtherExc s) = False"

text \<open>\<open>_describe\<close> reports the first leaf of nested groups.\<close>

fun leaf_of :: "py_exc \<Rightarrow> py_exc" where
  "leaf_of (ExcGroup (e # es)) = leaf_of e"
| "leaf_of e = e"

section \<open>Retry policy\<close>

text \<open>A \<open>ValueError\<close> of the configuration, or the TypeError or AttributeError of a value of the wrong shape.\<close>

datatype config_error = ConfigError string | BadShape

record retry_policy =
  rp_max_attempts :: int
  rp_base_delay :: real
  rp_max_delay :: real

definition mk_retry_policy :: "retry_policy \<Rightarrow> config_error + retry_policy" where
  "mk_retry_policy p =
     (if rp_max_attempts p < 1 then Inl (ConfigError ''retry.max_attempts must be >= 1'')
      else if rp_base_delay p < 0 \<or> rp_max_delay p < 0 then Inl (ConfigError ''retry delays must be >= 0'')
      else Inr p)"

text \<open>Full jitter: \<open>u\<close> is the value the random generator gave.\<close>

definition delay :: "retry_policy \<Rightarrow> nat \<Rightarrow> real \<Rightarrow> real" where
  "delay p attempt u = min (rp_max_delay p) (rp_base_delay p * 2 ^ (attempt - 1)) * u"

section \<open>Circuit breaker\<close>

record breaker =
  bk_threshold :: int
  bk_reset :: real
  bk_failures :: nat
  bk_opened_at :: "real option"
  bk_trial :: bool

definition mk_breaker :: "int \<Rightarrow> real \<Rightarrow> config_error + breaker" where
  "mk_breaker threshold reset =
     (if threshold < 1 then Inl (ConfigError ''circuit_breaker.failure_threshold must be >= 1'')
      else if reset \<le> 0 then Inl (ConfigError ''circuit_breaker.reset_timeout_seconds must be > 0'')
      else Inr \<lparr>bk_threshold = threshold, bk_reset = reset, bk_failures = 0, bk_opened_at = None, bk_trial = False\<rparr>)"

datatype breaker_state = BClosed | BOpen | BHalfOpen

definition state_of :: "real \<Rightarrow> breaker \<Rightarrow> breaker_state" where
  "state_of now b =
     (case bk_opened_at b of
        None \<Rightarrow> BClosed
      | Some t \<Rightarrow> if bk_trial b \<or> now - t \<ge> bk_reset b then BHalfOpen else BOpen)"

text \<open>\<open>Inl retry_in\<close> is the \<open>CircuitOpenError\<close>.\<close>

definition before_call :: "real \<Rightarrow> breaker \<Rightarrow> real + (breaker \<times> bool)" where
  "before_call now b =
     (if state_of now b = BClosed then Inr (b, False)
      else if state_of now b = BHalfOpen \<and> \<not> bk_trial b then Inr (b\<lparr>bk_trial := True\<rparr>, True)
      else Inl (max 0 (bk_reset b - (now - (case bk_opened_at b of None \<Rightarrow> 0 | Some t \<Rightarrow> t)))))"

definition record_success :: "breaker \<Rightarrow> breaker" where
  "record_success b = b\<lparr>bk_failures := 0, bk_opened_at := None, bk_trial := False\<rparr>"

definition record_failure :: "real \<Rightarrow> breaker \<Rightarrow> breaker" where
  "record_failure now b =
     (let n = Suc (bk_failures b)
      in b\<lparr>bk_failures := n,
           bk_opened_at := (if bk_trial b \<or> int n \<ge> bk_threshold b then Some now else bk_opened_at b),
           bk_trial := False\<rparr>)"

definition release_trial :: "breaker \<Rightarrow> breaker" where
  "release_trial b = b\<lparr>bk_trial := False\<rparr>"

section \<open>One tool call\<close>

datatype 'p attempt = Payload 'p | Raised py_exc

datatype 'p call_result =
    Returned 'p
  | Failed py_exc
  | Unavailable py_exc nat
  | CallCancelled
  | CircuitOpen real

text \<open>What a call tells the breaker when it ends.\<close>

datatype settlement = SettledOk | SettledFailure | Unsettled

text \<open>
  The loop of \<open>call_tool\<close>. \<open>tries k\<close> is what attempt \<open>k\<close> gives (a timeout is a transport
  error), \<open>naps k\<close> whether the sleep after it is cancelled.
\<close>

function call_loop :: "mcp_codes \<Rightarrow> int \<Rightarrow> (nat \<Rightarrow> 'p attempt) \<Rightarrow> (nat \<Rightarrow> bool) \<Rightarrow> nat \<Rightarrow> 'p call_result \<times> settlement" where
  "call_loop K max_attempts tries naps attempt =
     (case tries attempt of
        Payload p \<Rightarrow> (Returned p, SettledOk)
      | Raised e \<Rightarrow>
          if e = CancelledExc then (CallCancelled, Unsettled)
          else if \<not> is_transport_error K e then (Failed e, SettledOk)
          else if int attempt < max_attempts then
            (if naps attempt then (CallCancelled, Unsettled) else call_loop K max_attempts tries naps (Suc attempt))
          else (Unavailable e attempt, SettledFailure))"
  by pat_completeness auto
termination
  by (relation "measure (\<lambda>(K, m, _, _, k). nat (m - int k))") auto

declare call_loop.simps [simp del]

definition settle :: "real \<Rightarrow> bool \<Rightarrow> settlement \<Rightarrow> breaker \<Rightarrow> breaker" where
  "settle now trial v b =
     (case v of
        SettledOk \<Rightarrow> record_success b
      | SettledFailure \<Rightarrow> record_failure now b
      | Unsettled \<Rightarrow> if trial then release_trial b else b)"

text \<open>A whole call with nobody else on the endpoint: \<open>later\<close> is the clock when it ends.\<close>

definition call_tool :: "mcp_codes \<Rightarrow> int \<Rightarrow> (nat \<Rightarrow> 'p attempt) \<Rightarrow> (nat \<Rightarrow> bool) \<Rightarrow> real \<Rightarrow> real \<Rightarrow> breaker
    \<Rightarrow> 'p call_result \<times> breaker" where
  "call_tool K max_attempts tries naps now later b =
     (case before_call now b of
        Inl wait \<Rightarrow> (CircuitOpen wait, b)
      | Inr (b', trial) \<Rightarrow>
          (case call_loop K max_attempts tries naps 1 of (res, v) \<Rightarrow> (res, settle later trial v b')))"

section \<open>Answers\<close>

datatype answer_error = ToolCallError string | VersionRefused contract_error | NotIterable

record tool_result =
  tl_is_error :: bool
  tl_texts :: "string option list"
  tl_structured :: "(string \<times> pyval) list option"

text \<open>
  \<open>_result_payload\<close>: \<open>parse\<close> is \<open>json.loads\<close>; a content block without a \<open>text\<close> is \<open>None\<close>.
\<close>

definition result_payload :: "(string \<Rightarrow> pyval option) \<Rightarrow> tool_result \<Rightarrow> answer_error + pyval" where
  "result_payload parse r =
     (if tl_is_error r then
        (let t = join_with '' '' (map (\<lambda>x. case x of None \<Rightarrow> [] | Some t \<Rightarrow> t) (tl_texts r)) in Inl (ToolCallError (if t = [] then ''tool call failed'' else t)))
      else case tl_structured r of
        Some d \<Rightarrow> Inr (PDict d)
      | None \<Rightarrow>
          (case tl_texts r of
             [] \<Rightarrow> Inl (ToolCallError ''unparseable tool result'')
           | None # _ \<Rightarrow> Inl (ToolCallError ''unparseable tool result'')
           | Some t # _ \<Rightarrow> (case parse t of None \<Rightarrow> Inl (ToolCallError ''unparseable tool result'') | Some v \<Rightarrow> Inr v)))"

definition pairs_or_empty :: "pyval option \<Rightarrow> pyval" where
  "pairs_or_empty v = (case v of None \<Rightarrow> PList [] | Some x \<Rightarrow> if truthy x then x else PList [])"

definition rows_in :: "pyval \<Rightarrow> answer_error + pyval list" where
  "rows_in v =
     (case v of
        PList xs \<Rightarrow> Inr xs
      | PDict d \<Rightarrow> Inr (map (PStr \<circ> fst) d)
      | PStr s \<Rightarrow> Inr (map (\<lambda>c. PStr [c]) s)
      | _ \<Rightarrow> Inl NotIterable)"

text \<open>
  \<open>parse_tool_response\<close>: \<open>sig\<close> and \<open>env\<close> are the pydantic validators of a signal and of the
  envelope. Malformed rows are dropped and counted.
\<close>

definition parse_tool_response :: "(pyval \<Rightarrow> string) \<Rightarrow> (pyval \<Rightarrow> signal option) \<Rightarrow> ((string, pyval) dict \<Rightarrow> tool_response option)
    \<Rightarrow> pyval \<Rightarrow> answer_error + (tool_response \<times> nat)" where
  "parse_tool_response F sig env payload =
     (case payload of
        PDict d \<Rightarrow>
          (case check_contract_version (case map_of d ''contract_version'' of None \<Rightarrow> [] | Some v \<Rightarrow> py_str F v) of
             Inl e \<Rightarrow> Inl (VersionRefused e)
           | Inr _ \<Rightarrow>
               (case rows_in (pairs_or_empty (map_of d ''signals'')) of
                  Inl e \<Rightarrow> Inl e
                | Inr rows \<Rightarrow>
                    (case env (AList.update ''signals'' (PList []) d) of
                       None \<Rightarrow> Inl (ToolCallError ''malformed ToolResponse envelope'')
                     | Some r \<Rightarrow>
                         Inr (r\<lparr>r_signals := List.map_filter sig rows\<rparr>,
                              length (filter (\<lambda>row. sig row = None) rows)))))
      | _ \<Rightarrow> Inl (ToolCallError ''expected a JSON object''))"

text \<open>\<open>_call_once\<close>: what the session gives, read as a payload; a \<open>ToolCallError\<close> is not a transport error.\<close>

definition call_once :: "(string \<Rightarrow> pyval option) \<Rightarrow> py_exc + tool_result \<Rightarrow> pyval attempt" where
  "call_once parse reply =
     (case reply of
        Inl e \<Rightarrow> Raised e
      | Inr r \<Rightarrow>
          (case result_payload parse r of
             Inl (ToolCallError s) \<Rightarrow> Raised (OtherExc s)
           | Inl _ \<Rightarrow> Raised (OtherExc [])
           | Inr v \<Rightarrow> Payload v))"

section \<open>Endpoint configuration\<close>

datatype auth_mode = AuthNone | AuthBearerEnv | AuthOidc | AuthOther string

record endpoint_config =
  ec_name :: string
  ec_url :: string
  ec_timeout :: real
  ec_auth :: auth_mode
  ec_token_env :: "string option"
  ec_required :: bool
  ec_retry :: retry_policy
  ec_threshold :: int
  ec_reset :: real

definition mk_endpoint :: "endpoint_config \<Rightarrow> config_error + endpoint_config" where
  "mk_endpoint c =
     (if ec_name c = [] then Inl (ConfigError ''telemetry endpoint needs a name'')
      else if ec_url c = [] then Inl (ConfigError ''telemetry endpoint needs a url'')
      else if ec_timeout c \<le> 0 then Inl (ConfigError ''timeout_seconds must be > 0'')
      else (case ec_auth c of
              AuthOther s \<Rightarrow> Inl (ConfigError ''auth must be none | bearer_env | oidc'')
            | AuthBearerEnv \<Rightarrow> if ec_token_env c \<noteq> None \<and> ec_token_env c \<noteq> Some [] then Inr c else Inl (ConfigError ''auth=bearer_env needs token_env'')
            | AuthOidc \<Rightarrow> Inl (ConfigError ''auth=oidc is not implemented yet'')
            | AuthNone \<Rightarrow> Inr c))"

section \<open>Fetching a domain's signals\<close>

definition DOMAIN_TOOLS :: "(string, string) dict" where
  "DOMAIN_TOOLS = [(''metrics'', ''get_metrics''), (''logs'', ''get_logs''),
     (''routing'', ''get_routing_events''), (''config'', ''get_config_changes'')]"

definition GENERIC_TOOL :: string where "GENERIC_TOOL = ''get_signals''"

definition select_tool :: "string \<Rightarrow> string option \<Rightarrow> string" where
  "select_tool domain tool =
     (case tool of
        Some (c # cs) \<Rightarrow> c # cs
      | _ \<Rightarrow> (case map_of DOMAIN_TOOLS domain of Some t \<Rightarrow> t | None \<Rightarrow> GENERIC_TOOL))"

definition fetch_arguments :: "(telemetry_query \<Rightarrow> (string, pyval) dict) \<Rightarrow> string \<Rightarrow> string \<Rightarrow> telemetry_query
    \<Rightarrow> (string, pyval) dict" where
  "fetch_arguments dump domain tool q =
     (let args = AList.update ''contract_version'' (PStr CONTRACT_VERSION) (dump q)
      in if tool = GENERIC_TOOL then AList.update ''domain'' (PStr domain) args else args)"

datatype fetch_outcome =
    Fetched tool_response nat
  | BadAnswer answer_error
  | NoAnswer "pyval call_result"

text \<open>
  \<open>fetch\<close>: \<open>srv t a k\<close> is the session's reply to attempt \<open>k\<close> at tool \<open>t\<close> with arguments \<open>a\<close>.
\<close>

record validators =
  v_str :: "pyval \<Rightarrow> string"
  v_json :: "string \<Rightarrow> pyval option"
  v_signal :: "pyval \<Rightarrow> signal option"
  v_envelope :: "(string, pyval) dict \<Rightarrow> tool_response option"
  v_dump :: "telemetry_query \<Rightarrow> (string, pyval) dict"

type_synonym server = "string \<Rightarrow> (string, pyval) dict \<Rightarrow> nat \<Rightarrow> py_exc + tool_result"

definition fetch :: "mcp_codes \<Rightarrow> validators \<Rightarrow> endpoint_config \<Rightarrow> server \<Rightarrow> (nat \<Rightarrow> bool) \<Rightarrow> real \<Rightarrow> real
    \<Rightarrow> string \<Rightarrow> telemetry_query \<Rightarrow> string option \<Rightarrow> breaker \<Rightarrow> fetch_outcome \<times> breaker" where
  "fetch K V cfg srv naps now later domain q tool b =
     (let t = select_tool domain tool;
          tries = (\<lambda>k. call_once (v_json V) (srv t (fetch_arguments (v_dump V) domain t q) k))
      in case call_tool K (rp_max_attempts (ec_retry cfg)) tries naps now later b of
           (Returned p, b') \<Rightarrow>
             (case parse_tool_response (v_str V) (v_signal V) (v_envelope V) p of
                Inl e \<Rightarrow> (BadAnswer e, b')
              | Inr (r, skipped) \<Rightarrow> (Fetched r skipped, b'))
         | (res, b') \<Rightarrow> (NoAnswer res, b'))"

section \<open>Concurrent calls on one breaker\<close>

text \<open>
  The breaker is shared by every call on the endpoint, and calls interleave at their awaits:
  \<open>wd_calls\<close> are the calls in flight, each with its \<open>is_trial\<close> flag, \<open>wd_log\<close> how the finished
  ones settled, newest first.
\<close>

record world =
  wd_breaker :: breaker
  wd_calls :: "bool list"
  wd_log :: "settlement list"
  wd_now :: real

inductive step :: "world \<Rightarrow> world \<Rightarrow> bool" where
  admitted: "before_call (wd_now w) (wd_breaker w) = Inr (b, trial) \<Longrightarrow>
     step w (w\<lparr>wd_breaker := b, wd_calls := wd_calls w @ [trial]\<rparr>)"
| finished: "i < length (wd_calls w) \<Longrightarrow>
     step w (w\<lparr>wd_breaker := settle (wd_now w) (wd_calls w ! i) v (wd_breaker w),
               wd_calls := take i (wd_calls w) @ drop (Suc i) (wd_calls w), wd_log := v # wd_log w\<rparr>)"
| ticked: "wd_now w \<le> t \<Longrightarrow> step w (w\<lparr>wd_now := t\<rparr>)"

inductive_cases stepE: "step w w'"

inductive reachable :: "int \<Rightarrow> real \<Rightarrow> world \<Rightarrow> bool" for threshold reset where
  start: "mk_breaker threshold reset = Inr b \<Longrightarrow>
     reachable threshold reset \<lparr>wd_breaker = b, wd_calls = [], wd_log = [], wd_now = t\<rparr>"
| more: "reachable threshold reset w \<Longrightarrow> step w w' \<Longrightarrow> reachable threshold reset w'"

text \<open>How many of the latest settled calls failed in a row.\<close>

definition failing_streak :: "settlement list \<Rightarrow> nat" where
  "failing_streak lg = length (takeWhile (\<lambda>v. v = SettledFailure) (filter (\<lambda>v. v \<noteq> Unsettled) lg))"

definition breaker_inv :: "int \<Rightarrow> real \<Rightarrow> world \<Rightarrow> bool" where
  "breaker_inv threshold reset w \<longleftrightarrow>
     (let b = wd_breaker w in
      0 < threshold \<and> 0 < reset \<and> bk_threshold b = threshold \<and> bk_reset b = reset
      \<and> bk_failures b = failing_streak (wd_log w)
      \<and> (bk_opened_at b \<noteq> None \<longleftrightarrow> threshold \<le> int (bk_failures b))
      \<and> (\<forall>t. bk_opened_at b = Some t \<longrightarrow> t \<le> wd_now w)
      \<and> (bk_trial b \<longrightarrow> bk_opened_at b \<noteq> None \<and> True \<in> set (wd_calls w)))"

lemma failing_streak_simps [simp]:
  "failing_streak [] = 0" "failing_streak (SettledOk # lg) = 0"
  "failing_streak (SettledFailure # lg) = Suc (failing_streak lg)" "failing_streak (Unsettled # lg) = failing_streak lg"
  by (simp_all add: failing_streak_def)

lemma before_call_Inr:
  "before_call now b = Inr (b', trial) \<longleftrightarrow>
     bk_opened_at b = None \<and> b' = b \<and> \<not> trial
     \<or> (\<exists>t. bk_opened_at b = Some t \<and> now - t \<ge> bk_reset b \<and> \<not> bk_trial b \<and> b' = b\<lparr>bk_trial := True\<rparr> \<and> trial)"
  by (auto simp: before_call_def state_of_def split: option.splits if_splits)

lemma settle_fields [simp]:
  "bk_threshold (settle now tr v b) = bk_threshold b" "bk_reset (settle now tr v b) = bk_reset b"
  by (cases v; simp add: settle_def record_success_def record_failure_def release_trial_def Let_def)+

lemma remains: "True \<in> set xs \<Longrightarrow> \<not> xs ! i \<Longrightarrow> i < length xs \<Longrightarrow> True \<in> set (take i xs @ drop (Suc i) xs)"
  by (metis Un_iff id_take_nth_drop list.set_intros(2) set_ConsD set_append)

lemma breaker_inv_start:
  "mk_breaker threshold reset = Inr b \<Longrightarrow>
     breaker_inv threshold reset \<lparr>wd_breaker = b, wd_calls = [], wd_log = [], wd_now = t\<rparr>"
  by (auto simp: mk_breaker_def breaker_inv_def split: if_splits)

lemma breaker_inv_finish:
  assumes inv: "breaker_inv threshold reset w" and i: "i < length (wd_calls w)"
  shows "breaker_inv threshold reset (w\<lparr>wd_breaker := settle (wd_now w) (wd_calls w ! i) v (wd_breaker w),
           wd_calls := take i (wd_calls w) @ drop (Suc i) (wd_calls w), wd_log := v # wd_log w\<rparr>)"
proof (cases v)
  case SettledOk
  with inv show ?thesis by (auto simp: breaker_inv_def settle_def record_success_def Let_def)
next
  case SettledFailure
  with inv show ?thesis by (auto simp: breaker_inv_def settle_def record_failure_def Let_def)
next
  case Unsettled
  with inv remains [of "wd_calls w" i] i show ?thesis
    by (cases "wd_calls w ! i") (auto simp: breaker_inv_def settle_def release_trial_def Let_def)
qed

lemma breaker_inv_step: "step w w' \<Longrightarrow> breaker_inv threshold reset w \<Longrightarrow> breaker_inv threshold reset w'"
proof (induction rule: step.induct)
  case (admitted w b trial)
  then show ?case by (auto simp: before_call_Inr breaker_inv_def Let_def)
next
  case (finished i w v)
  then show ?case by (intro breaker_inv_finish)
next
  case (ticked w t)
  then show ?case by (auto simp: breaker_inv_def Let_def intro: order_trans)
qed

lemma reachable_inv: "reachable threshold reset w \<Longrightarrow> breaker_inv threshold reset w"
  by (induction rule: reachable.induct) (auto intro: breaker_inv_start breaker_inv_step)

section \<open>Facts about one call\<close>

lemma call_loop_Payload: "tries k = Payload p \<Longrightarrow> call_loop K m tries naps k = (Returned p, SettledOk)"
  by (simp add: call_loop.simps [of K m tries naps k])

definition retried :: "mcp_codes \<Rightarrow> (nat \<Rightarrow> 'p attempt) \<Rightarrow> (nat \<Rightarrow> bool) \<Rightarrow> nat \<Rightarrow> bool" where
  "retried K tries naps k \<longleftrightarrow> (\<exists>e. tries k = Raised e \<and> is_transport_error K e) \<and> \<not> naps k"

definition final_attempt :: "mcp_codes \<Rightarrow> int \<Rightarrow> (nat \<Rightarrow> 'p attempt) \<Rightarrow> nat \<Rightarrow> 'p call_result \<times> settlement \<Rightarrow> bool" where
  "final_attempt K m tries n res \<longleftrightarrow>
     (case res of
        (Returned p, v) \<Rightarrow> tries n = Payload p \<and> v = SettledOk
      | (Failed e, v) \<Rightarrow> tries n = Raised e \<and> \<not> is_transport_error K e \<and> v = SettledOk
      | (Unavailable e k, v) \<Rightarrow> k = n \<and> int n = m \<and> tries n = Raised e \<and> is_transport_error K e \<and> v = SettledFailure
      | (CallCancelled, v) \<Rightarrow> v = Unsettled
      | (CircuitOpen _, _) \<Rightarrow> False)"

lemma call_loop_final:
  "int k \<le> m \<Longrightarrow> \<exists>n\<ge>k. int n \<le> m \<and> (\<forall>j. k \<le> j \<and> j < n \<longrightarrow> retried K tries naps j)
     \<and> final_attempt K m tries n (call_loop K m tries naps k)"
proof (induction K m tries naps k rule: call_loop.induct)
  case (1 K m tries naps k)
  show ?case
  proof (cases "\<exists>e. tries k = Raised e \<and> is_transport_error K e \<and> int k < m \<and> \<not> naps k")
    case True
    then obtain e where e: "tries k = Raised e" "is_transport_error K e" "int k < m" "\<not> naps k" by blast
    have ne: "e \<noteq> CancelledExc" using e(2) by auto
    have next_call: "call_loop K m tries naps k = call_loop K m tries naps (Suc k)"
      using e ne by (subst call_loop.simps) simp
    have "\<exists>n\<ge>Suc k. int n \<le> m \<and> (\<forall>j. Suc k \<le> j \<and> j < n \<longrightarrow> retried K tries naps j)
        \<and> final_attempt K m tries n (call_loop K m tries naps (Suc k))"
      using e ne by (intro "1.IH" [of e]) auto
    then obtain n where n: "n \<ge> Suc k" "int n \<le> m" "\<forall>j. Suc k \<le> j \<and> j < n \<longrightarrow> retried K tries naps j"
      "final_attempt K m tries n (call_loop K m tries naps (Suc k))" by blast
    have "retried K tries naps j" if "k \<le> j" "j < n" for j
      using that n(3) e by (cases "j = k") (auto simp: retried_def)
    with n show ?thesis unfolding next_call by (intro exI [of _ n]) auto
  next
    case False
    then have "final_attempt K m tries k (call_loop K m tries naps k)"
      using "1.prems" by (subst call_loop.simps)
        (auto simp: final_attempt_def split: attempt.splits)
    with "1.prems" show ?thesis by (intro exI [of _ k]) auto
  qed
qed

section \<open>The breaker as an abstract circuit\<close>

text \<open>What an uncontended caller may rely on: a circuit that is closed with a failure count or open since a time.\<close>

datatype circuit = CircClosed nat | CircOpen real

definition abs_breaker :: "breaker \<Rightarrow> circuit" where
  "abs_breaker b = (case bk_opened_at b of None \<Rightarrow> CircClosed (bk_failures b) | Some t \<Rightarrow> CircOpen t)"

fun circuit_call :: "int \<Rightarrow> real \<Rightarrow> real \<Rightarrow> real \<Rightarrow> settlement \<Rightarrow> circuit \<Rightarrow> bool \<times> circuit" where
  "circuit_call threshold reset now later v (CircClosed n) =
     (True, case v of
        SettledOk \<Rightarrow> CircClosed 0
      | SettledFailure \<Rightarrow> if int (Suc n) \<ge> threshold then CircOpen later else CircClosed (Suc n)
      | Unsettled \<Rightarrow> CircClosed n)"
| "circuit_call threshold reset now later v (CircOpen t) =
     (if now - t \<ge> reset
      then (True, case v of SettledOk \<Rightarrow> CircClosed 0 | SettledFailure \<Rightarrow> CircOpen later | Unsettled \<Rightarrow> CircOpen t)
      else (False, CircOpen t))"

definition was_admitted :: "'p call_result \<Rightarrow> bool" where
  "was_admitted res = (case res of CircuitOpen _ \<Rightarrow> False | _ \<Rightarrow> True)"

lemma call_loop_admitted: "int k \<le> m \<Longrightarrow> was_admitted (fst (call_loop K m tries naps k))"
proof -
  assume "int k \<le> m"
  then obtain n where "final_attempt K m tries n (call_loop K m tries naps k)"
    using call_loop_final by blast
  then show ?thesis
    by (cases "call_loop K m tries naps k") (auto simp: final_attempt_def was_admitted_def split: call_result.splits)
qed

section \<open>Properties\<close>

text \<open>
  C35: A call ends in one of five ways and no other: refused by an open circuit, which leaves the
  breaker alone; or, after at most \<open>max_attempts\<close> attempts all but the last of which failed at
  the transport level, with the payload or a reachable endpoint's error (both reset the
  breaker), with \<open>EndpointUnavailable\<close> after exactly \<open>max_attempts\<close> (counted as one failure),
  or cancelled (which gives a trial slot back).
\<close>
theorem call_tool_outcome:
  assumes "mk_retry_policy p = Inr p"
  shows "case before_call now b of
      Inl wait \<Rightarrow> call_tool K (rp_max_attempts p) tries naps now later b = (CircuitOpen wait, b)
    | Inr (b', trial) \<Rightarrow>
        \<exists>n v. 1 \<le> n \<and> int n \<le> rp_max_attempts p \<and> (\<forall>j. 1 \<le> j \<and> j < n \<longrightarrow> retried K tries naps j)
          \<and> final_attempt K (rp_max_attempts p) tries n (fst (call_tool K (rp_max_attempts p) tries naps now later b), v)
          \<and> snd (call_tool K (rp_max_attempts p) tries naps now later b) = settle later trial v b'"
proof (cases "before_call now b")
  case (Inl wait)
  then show ?thesis by (simp add: call_tool_def)
next
  case (Inr x)
  obtain b' trial where x: "x = (b', trial)" by force
  have "int 1 \<le> rp_max_attempts p" using assms by (auto simp: mk_retry_policy_def split: if_splits)
  from call_loop_final [OF this] obtain n where n: "n \<ge> 1" "int n \<le> rp_max_attempts p"
    "\<forall>j. 1 \<le> j \<and> j < n \<longrightarrow> retried K tries naps j"
    "final_attempt K (rp_max_attempts p) tries n (call_loop K (rp_max_attempts p) tries naps 1)" by blast
  obtain res v where rv: "call_loop K (rp_max_attempts p) tries naps 1 = (res, v)" by force
  have "call_tool K (rp_max_attempts p) tries naps now later b = (res, settle later trial v b')"
    by (simp add: call_tool_def Inr x rv [unfolded One_nat_def])
  with n show ?thesis unfolding Inr x rv by auto
qed

definition ex_codes :: mcp_codes where "ex_codes = \<lparr>mc_closed = -32000, mc_timeout = -32001\<rparr>"

definition ex_policy :: retry_policy where
  "ex_policy = \<lparr>rp_max_attempts = 2, rp_base_delay = 1 / 5, rp_max_delay = 2\<rparr>"

definition ex_breaker :: breaker where
  "ex_breaker = \<lparr>bk_threshold = 1, bk_reset = 30, bk_failures = 0, bk_opened_at = None, bk_trial = False\<rparr>"

theorem call_tool_outcome_witness:
  "\<exists>n v. int n \<le> 2 \<and> final_attempt ex_codes 2 (\<lambda>_. Raised (HttpStatus 503) :: unit attempt) n
      (fst (call_tool ex_codes 2 (\<lambda>_. Raised (HttpStatus 503) :: unit attempt) (\<lambda>_. False) 0 1 ex_breaker), v)"
proof -
  have ok: "mk_retry_policy ex_policy = Inr ex_policy" "rp_max_attempts ex_policy = 2"
    by (simp_all add: ex_policy_def mk_retry_policy_def)
  have "before_call 0 ex_breaker = Inr (ex_breaker, False)" by (simp add: ex_breaker_def before_call_def state_of_def)
  with call_tool_outcome [OF ok(1), where now = 0 and b = ex_breaker and K = ex_codes
      and tries = "\<lambda>_. Raised (HttpStatus 503) :: unit attempt" and naps = "\<lambda>_. False" and later = 1] ok(2)
  show ?thesis by auto
qed

text \<open>
  C6: Under any interleaving of calls, cancellations and clock ticks the breaker is open or half
  open exactly while the last \<open>failure_threshold\<close> settled calls all failed, and its half-open
  slot is only taken while a trial call is in flight.
\<close>
theorem breaker_open_iff_failing:
  assumes "reachable threshold reset w"
  shows "(bk_opened_at (wd_breaker w) \<noteq> None \<longleftrightarrow> threshold \<le> int (failing_streak (wd_log w)))
    \<and> (bk_trial (wd_breaker w) \<longrightarrow> True \<in> set (wd_calls w))"
  using reachable_inv [OF assms] by (simp add: breaker_inv_def Let_def)

lemma ex_breaker_ok: "mk_breaker 1 30 = Inr ex_breaker"
  by (simp add: mk_breaker_def ex_breaker_def)

definition ex_world :: "breaker \<Rightarrow> bool list \<Rightarrow> settlement list \<Rightarrow> real \<Rightarrow> world" where
  "ex_world b calls lg now = \<lparr>wd_breaker = b, wd_calls = calls, wd_log = lg, wd_now = now\<rparr>"

abbreviation ex_open :: "nat \<Rightarrow> real \<Rightarrow> bool \<Rightarrow> breaker" where
  "ex_open n t tr \<equiv> ex_breaker\<lparr>bk_failures := n, bk_opened_at := Some t, bk_trial := tr\<rparr>"

lemma world_admit:
  "reachable thr rs (ex_world b calls lg now) \<Longrightarrow> before_call now b = Inr (b', tr)
    \<Longrightarrow> reachable thr rs (ex_world b' (calls @ [tr]) lg now)"
  using reachable.more [OF _ step.admitted, of thr rs "ex_world b calls lg now" b' tr] by (simp add: ex_world_def)

lemma world_finish:
  "reachable thr rs (ex_world b calls lg now) \<Longrightarrow> i < length calls
    \<Longrightarrow> reachable thr rs (ex_world (settle now (calls ! i) v b) (take i calls @ drop (Suc i) calls) (v # lg) now)"
  using reachable.more [OF _ step.finished, of thr rs "ex_world b calls lg now" i v] by (simp add: ex_world_def)

lemma world_tick:
  "reachable thr rs (ex_world b calls lg now) \<Longrightarrow> now \<le> t \<Longrightarrow> reachable thr rs (ex_world b calls lg t)"
  using reachable.more [OF _ step.ticked, of thr rs "ex_world b calls lg now" t] by (simp add: ex_world_def)

lemma ex_opened: "reachable 1 30 (ex_world (ex_open 1 0 False) [False] [SettledFailure] 0)"
proof -
  have b: "before_call 0 ex_breaker = Inr (ex_breaker, False)"
    by (simp add: before_call_Inr) (simp add: ex_breaker_def)
  have "reachable 1 30 (ex_world ex_breaker [] [] 0)"
    unfolding ex_world_def by (rule reachable.start [OF ex_breaker_ok])
  from world_admit [OF world_admit [OF this b] b]
  have "reachable 1 30 (ex_world ex_breaker [False, False] [] 0)" by simp
  from world_finish [OF this, of 0 SettledFailure]
  show ?thesis by (simp add: settle_def record_failure_def Let_def) (simp add: ex_breaker_def)
qed

theorem breaker_open_iff_failing_witness:
  "bk_opened_at (wd_breaker (ex_world (ex_open 1 0 False) [False] [SettledFailure] 0)) \<noteq> None
    \<and> 1 \<le> int (failing_streak (wd_log (ex_world (ex_open 1 0 False) [False] [SettledFailure] 0)))"
  using breaker_open_iff_failing [OF ex_opened] by (simp add: ex_world_def)

text \<open>
  C37: An endpoint is never locked out: in every reachable state with no trial call in flight, once
  \<open>reset_timeout_seconds\<close> have passed since the breaker opened the next call is admitted as
  the trial, whatever calls were cancelled before, and its success closes the breaker.
\<close>
theorem breaker_recovers:
  assumes "reachable threshold reset w" and "True \<notin> set (wd_calls w)"
    and "bk_opened_at (wd_breaker w) = Some t" and "wd_now w - t \<ge> reset"
  shows "\<exists>b. before_call (wd_now w) (wd_breaker w) = Inr (b, True)
    \<and> state_of later (settle later True SettledOk b) = BClosed"
proof -
  have "\<not> bk_trial (wd_breaker w)" "bk_reset (wd_breaker w) = reset"
    using reachable_inv [OF assms(1)] assms(2) by (auto simp: breaker_inv_def Let_def)
  with assms(3,4) show ?thesis
    by (auto simp: before_call_Inr state_of_def settle_def record_success_def)
qed

theorem breaker_recovers_witness:
  "\<exists>b. before_call 31 (ex_open 1 0 False) = Inr (b, True) \<and> state_of 40 (settle 40 True SettledOk b) = BClosed"
proof -
  have "reachable 1 30 (ex_world (ex_open 1 0 False) [False] [SettledFailure] 31)"
    by (rule world_tick [OF ex_opened]) simp
  from breaker_recovers [OF this, where t = 0 and later = 40] show ?thesis by (simp add: ex_world_def)
qed

text \<open>
  C32: For a caller that is alone on the endpoint the breaker implements an abstract circuit: a
  call is admitted exactly when the circuit admits it, and the breaker it leaves behind
  represents the circuit's next state, with no trial pending.
\<close>
theorem breaker_refines_circuit:
  assumes "\<not> bk_trial b" and "1 \<le> m"
  shows "circuit_call (bk_threshold b) (bk_reset b) now later (snd (call_loop K m tries naps 1)) (abs_breaker b)
      = (was_admitted (fst (call_tool K m tries naps now later b)), abs_breaker (snd (call_tool K m tries naps now later b)))
    \<and> \<not> bk_trial (snd (call_tool K m tries naps now later b))"
proof -
  obtain res v where rv: "call_loop K m tries naps 1 = (res, v)" by force
  have adm: "was_admitted res"
    using call_loop_admitted [of 1 m K tries naps] assms(2) rv by simp
  show ?thesis
  proof (cases "bk_opened_at b")
    case None
    then have "call_tool K m tries naps now later b = (res, settle later False v b)"
      by (simp add: call_tool_def before_call_def state_of_def rv [unfolded One_nat_def])
    with None adm assms(1) show ?thesis
      by (cases v) (simp_all add: rv [unfolded One_nat_def] abs_breaker_def settle_def record_success_def record_failure_def Let_def)
  next
    case (Some t)
    show ?thesis
    proof (cases "now - t \<ge> bk_reset b")
      case True
      with Some assms(1) have "call_tool K m tries naps now later b = (res, settle later True v (b\<lparr>bk_trial := True\<rparr>))"
        by (simp add: call_tool_def before_call_def state_of_def rv [unfolded One_nat_def])
      with Some True adm show ?thesis
        by (cases v) (simp_all add: rv [unfolded One_nat_def] abs_breaker_def settle_def record_success_def record_failure_def
              release_trial_def Let_def)
    next
      case False
      with Some assms(1) show ?thesis
        by (simp add: call_tool_def before_call_def state_of_def abs_breaker_def was_admitted_def)
    qed
  qed
qed

theorem breaker_refines_circuit_witness:
  "circuit_call 1 30 0 1 (snd (call_loop ex_codes 1 (\<lambda>_. Payload ()) (\<lambda>_. False) 1)) (abs_breaker ex_breaker)
     = (True, abs_breaker (snd (call_tool ex_codes 1 (\<lambda>_. Payload ()) (\<lambda>_. False) 0 1 ex_breaker)))"
proof -
  have "\<not> bk_trial ex_breaker" by (simp add: ex_breaker_def)
  from breaker_refines_circuit [OF this, of 1 0 1 ex_codes "\<lambda>_. Payload ()" "\<lambda>_. False"]
  show ?thesis
    by (simp add: call_tool_def before_call_def state_of_def ex_breaker_def call_loop_Payload was_admitted_def)
qed

text \<open>
  The class comment's "exactly one trial call" does not hold under concurrency: a call admitted
  before the breaker opened that fails while the trial is still out clears the trial flag, so
  after another reset timeout a second trial is admitted beside the first.
\<close>

lemma two_trials_reachable:
  "reachable 1 30 (ex_world (ex_open 2 31 True) [True, True] [SettledFailure, SettledFailure] 62)"
proof -
  have "reachable 1 30 (ex_world (ex_open 1 0 False) [False] [SettledFailure] 31)"
    by (rule world_tick [OF ex_opened]) simp
  then have "reachable 1 30 (ex_world (ex_open 1 0 True) [False, True] [SettledFailure] 31)"
    using world_admit [of 1 30 "ex_open 1 0 False" "[False]" "[SettledFailure]" 31 "ex_open 1 0 True" True]
    by (simp add: before_call_Inr ex_breaker_def)
  from world_finish [OF this, of 0 SettledFailure]
  have "reachable 1 30 (ex_world (ex_open 2 31 False) [True] [SettledFailure, SettledFailure] 31)"
    by (simp add: settle_def record_failure_def ex_breaker_def Let_def numeral_2_eq_2)
  then have "reachable 1 30 (ex_world (ex_open 2 31 False) [True] [SettledFailure, SettledFailure] 62)"
    by (rule world_tick) simp
  then show ?thesis
    using world_admit [of 1 30 "ex_open 2 31 False" "[True]" "[SettledFailure, SettledFailure]" 62 "ex_open 2 31 True" True]
    by (simp add: before_call_Inr ex_breaker_def)
qed

text \<open>
  One bad row never discards an answer, and nothing is read from an endpoint that speaks
  another major version: an accepted answer declares a supported version, and its signals are
  exactly the rows that validate, in order, with the number of the others.
\<close>

lemma parse_tool_response_sound:
  assumes "parse_tool_response F sig env (PDict d) = Inr (r, skipped)"
  shows "check_contract_version (case map_of d ''contract_version'' of None \<Rightarrow> [] | Some v \<Rightarrow> py_str F v) = Inr ()
    \<and> (\<exists>rows. rows_in (pairs_or_empty (map_of d ''signals'')) = Inr rows
         \<and> map Some (r_signals r) = filter (\<lambda>x. x \<noteq> None) (map sig rows)
         \<and> length (r_signals r) + skipped = length rows)"
proof -
  obtain rows env_r where p: "check_contract_version (case map_of d ''contract_version'' of None \<Rightarrow> [] | Some v \<Rightarrow> py_str F v) = Inr ()"
    "rows_in (pairs_or_empty (map_of d ''signals'')) = Inr rows"
    "r = env_r\<lparr>r_signals := List.map_filter sig rows\<rparr>" "skipped = length (filter (\<lambda>row. sig row = None) rows)"
    using assms unfolding parse_tool_response_def by (auto split: sum.splits option.splits)
  have "map Some (List.map_filter sig rows) = filter (\<lambda>x. x \<noteq> None) (map sig rows)"
    "length (List.map_filter sig rows) + length (filter (\<lambda>row. sig row = None) rows) = length rows"
    by (induction rows) (auto simp: List.map_filter_def)
  with p show ?thesis by auto
qed

definition ex_envelope :: "(string, pyval) dict \<Rightarrow> tool_response option" where
  "ex_envelope d = Some \<lparr>r_version = ''2.0'', r_window = \<lparr>w_start = 0, w_end = 1\<rparr>, r_baseline = None,
     r_coverage = [], r_signals = [], r_cursor = None\<rparr>"

definition ex_answer :: "(string, pyval) dict" where
  "ex_answer = [(''contract_version'', PStr ''2.0''), (''signals'', PList [PNone, PBool True])]"

end
