(* ===== verification/Registry.thy ===== *)
theory Registry
  imports Endpoint Catalog
begin

text \<open>
  The telemetry registry of the RCA side (\<open>providers/factory.py\<close>): endpoint configuration
  from the parsed YAML, the clients shared between domains, \<open>fetch\<close> with its merge of the
  endpoints' answers and coverage, and the cached topology merge. The transports behind the
  clients and the clock are arguments of the operations.
\<close>

section \<open>Configuration\<close>

abbreviation DEFAULT_INPROC_URL :: string where "DEFAULT_INPROC_URL \<equiv> ''inproc://local''"

text \<open>\<open>d.get(k, {})\<close> used as a mapping, and \<open>d.get(k, {}) or {}\<close>.\<close>

definition mapping_at :: "string \<Rightarrow> (string, pyval) dict \<Rightarrow> config_error + (string, pyval) dict" where
  "mapping_at k d = (case map_of d k of None \<Rightarrow> Inr [] | Some (PDict e) \<Rightarrow> Inr e | Some _ \<Rightarrow> Inl BadShape)"

definition mapping_or_empty :: "pyval option \<Rightarrow> config_error + (string, pyval) dict" where
  "mapping_or_empty v =
     (case v of
        None \<Rightarrow> Inr []
      | Some (PDict e) \<Rightarrow> Inr e
      | Some x \<Rightarrow> if truthy x then Inl BadShape else Inr [])"

definition float_at :: "string \<Rightarrow> real \<Rightarrow> (string, pyval) dict \<Rightarrow> config_error + real" where
  "float_at k dflt d =
     (case map_of d k of
        None \<Rightarrow> Inr dflt
      | Some v \<Rightarrow> (case py_float v of None \<Rightarrow> Inl BadShape | Some x \<Rightarrow> Inr x))"

definition int_at :: "string \<Rightarrow> int \<Rightarrow> (string, pyval) dict \<Rightarrow> config_error + int" where
  "int_at k dflt d =
     (case map_of d k of
        None \<Rightarrow> Inr dflt
      | Some v \<Rightarrow> (case py_int_of v of None \<Rightarrow> Inl BadShape | Some x \<Rightarrow> Inr x))"

definition str_at :: "(pyval \<Rightarrow> string) \<Rightarrow> string \<Rightarrow> string \<Rightarrow> (string, pyval) dict \<Rightarrow> string" where
  "str_at F k dflt d = (case map_of d k of None \<Rightarrow> dflt | Some v \<Rightarrow> py_str F v)"

definition auth_of :: "string \<Rightarrow> auth_mode" where
  "auth_of s =
     (if s = ''none'' then AuthNone else if s = ''bearer_env'' then AuthBearerEnv
      else if s = ''oidc'' then AuthOidc else AuthOther s)"

definition token_at :: "(pyval \<Rightarrow> string) \<Rightarrow> (string, pyval) dict \<Rightarrow> string option" where
  "token_at F d =
     (case map_of d ''token_env'' of
        None \<Rightarrow> None
      | Some v \<Rightarrow> if truthy v then Some (py_str F v) else None)"

definition endpoint_of :: "(pyval \<Rightarrow> string) \<Rightarrow> (string, pyval) dict \<Rightarrow> (string, pyval) dict
    \<Rightarrow> config_error + endpoint_config" where
  "endpoint_of F raw defaults =
     (let merged = dict_merge defaults raw in
      and_then (mapping_at ''retry'' defaults) (\<lambda>rd.
      and_then (mapping_at ''retry'' raw) (\<lambda>rr.
      and_then (mapping_at ''circuit_breaker'' defaults) (\<lambda>bd.
      and_then (mapping_at ''circuit_breaker'' raw) (\<lambda>br.
      let retry = dict_merge rd rr; brk = dict_merge bd br in
      and_then (float_at ''timeout_seconds'' 8 merged) (\<lambda>timeout.
      and_then (int_at ''max_attempts'' 2 retry) (\<lambda>attempts.
      and_then (float_at ''base_delay_seconds'' (1 / 5) retry) (\<lambda>base.
      and_then (float_at ''max_delay_seconds'' 2 retry) (\<lambda>most.
      and_then (mk_retry_policy \<lparr>rp_max_attempts = attempts, rp_base_delay = base, rp_max_delay = most\<rparr>) (\<lambda>policy.
      and_then (int_at ''failure_threshold'' 3 brk) (\<lambda>threshold.
      and_then (float_at ''reset_timeout_seconds'' 30 brk) (\<lambda>reset.
        mk_endpoint
          \<lparr>ec_name = str_at F ''name'' [] merged,
           ec_url = str_at F ''url'' [] merged,
           ec_timeout = timeout,
           ec_auth = auth_of (str_at F ''auth'' ''none'' merged),
           ec_token_env = token_at F merged,
           ec_required = (case map_of merged ''required'' of None \<Rightarrow> True | Some v \<Rightarrow> truthy v),
           ec_retry = policy, ec_threshold = threshold, ec_reset = reset\<rparr>))))))))))))"

definition LEGACY_DOMAINS :: "string list" where
  "LEGACY_DOMAINS = [''metrics'', ''logs'', ''routing'', ''config'']"

definition local_endpoint :: pyval where
  "local_endpoint = PDict [(''name'', PStr ''local''), (''url'', PStr DEFAULT_INPROC_URL)]"

text \<open>The keys of the configuration format before version 2.\<close>

definition legacy_domain :: "(pyval \<Rightarrow> string) \<Rightarrow> (string, pyval) dict \<Rightarrow> (string, pyval) dict \<Rightarrow> string
    \<Rightarrow> config_error + (string \<times> pyval)" where
  "legacy_domain F modes eps domain =
     (let mode = lower (str_at F domain ''simulation'' modes) in
      if mode = ''simulation'' then Inr (domain, PDict [(''endpoints'', PList [local_endpoint])])
      else if mode = ''mcp'' then
        and_then (mapping_or_empty (map_of eps domain)) (\<lambda>ep.
          case map_of ep ''url'' of
            None \<Rightarrow> Inl (ConfigError ''mcp_endpoints url must be set'')
          | Some url \<Rightarrow>
              if \<not> truthy url then Inl (ConfigError ''mcp_endpoints url must be set'')
              else Inr (domain, PDict [(''endpoints'', PList [PDict
                     [(''name'', PStr ''telemetry''), (''url'', url),
                      (''timeout_seconds'', case map_of ep ''timeout_seconds'' of None \<Rightarrow> PNum 8 | Some t \<Rightarrow> t)]])]))
      else Inl (ConfigError ''providers must be simulation or mcp''))"

definition legacy_telemetry_section :: "(pyval \<Rightarrow> string) \<Rightarrow> (string, pyval) dict \<Rightarrow> config_error + (string, pyval) dict" where
  "legacy_telemetry_section F cfg =
     and_then (mapping_or_empty (map_of cfg ''providers'')) (\<lambda>modes.
     and_then (mapping_or_empty (map_of cfg ''mcp_endpoints'')) (\<lambda>eps.
     and_then (traverse (legacy_domain F modes eps) LEGACY_DOMAINS) (\<lambda>ds.
       Inr [(''domains'', PDict ds)])))"

definition telemetry_section :: "(pyval \<Rightarrow> string) \<Rightarrow> (string, pyval) dict \<Rightarrow> config_error + (string, pyval) dict" where
  "telemetry_section F cfg =
     (case map_of cfg ''telemetry'' of
        None \<Rightarrow> legacy_telemetry_section F cfg
      | Some (PDict d) \<Rightarrow> if d = [] then legacy_telemetry_section F cfg else Inr d
      | Some v \<Rightarrow> if truthy v then Inl BadShape else legacy_telemetry_section F cfg)"

definition endpoint_row :: "(pyval \<Rightarrow> string) \<Rightarrow> (string, pyval) dict \<Rightarrow> pyval \<Rightarrow> config_error + endpoint_config" where
  "endpoint_row F defaults raw = (case raw of PDict r \<Rightarrow> endpoint_of F r defaults | _ \<Rightarrow> Inl BadShape)"

definition raw_endpoints :: "(string, pyval) dict \<Rightarrow> config_error + pyval list" where
  "raw_endpoints section_of_domain =
     (case map_of section_of_domain ''endpoints'' of
        None \<Rightarrow> Inr [local_endpoint]
      | Some PNone \<Rightarrow> Inr [local_endpoint]
      | Some v \<Rightarrow>
          if \<not> truthy v then Inl (ConfigError ''endpoints must not be empty'')
          else (case v of PList rows \<Rightarrow> Inr rows | _ \<Rightarrow> Inl BadShape))"

definition domain_endpoints :: "(pyval \<Rightarrow> string) \<Rightarrow> (string, pyval) dict \<Rightarrow> (string, pyval) dict \<Rightarrow> string
    \<Rightarrow> config_error + (string \<times> endpoint_config list)" where
  "domain_endpoints F defaults domains_cfg domain =
     and_then (mapping_or_empty (map_of domains_cfg domain)) (\<lambda>sec.
     and_then (raw_endpoints sec) (\<lambda>rows.
     and_then (traverse (endpoint_row F defaults) rows) (\<lambda>eps.
     and_then (ensure (distinct (map ec_name eps)) (ConfigError ''duplicate endpoint names'')) (\<lambda>_.
       Inr (domain, eps)))))"

definition parse_endpoints :: "(pyval \<Rightarrow> string) \<Rightarrow> catalog \<Rightarrow> (string, pyval) dict
    \<Rightarrow> config_error + (string, endpoint_config list) dict" where
  "parse_endpoints F cat cfg =
     (let known = keys (telemetry_domains cat) in
      and_then (telemetry_section F cfg) (\<lambda>sec.
      and_then (mapping_or_empty (map_of sec ''defaults'')) (\<lambda>defaults.
      and_then (mapping_or_empty (map_of sec ''domains'')) (\<lambda>domains_cfg.
      and_then (ensure (set (keys domains_cfg) \<subseteq> set known) (ConfigError ''telemetry.domains has unknown domains'')) (\<lambda>_.
        traverse (domain_endpoints F defaults domains_cfg) known)))))"

section \<open>The registry\<close>

text \<open>
  A client is known by its endpoint's name and url: two domains that list the same pair share
  the client, so its settings are those of the first, and its breaker sees all their calls.
\<close>

type_synonym client_key = "string \<times> string"

abbreviation client_key_of :: "endpoint_config \<Rightarrow> client_key" where
  "client_key_of c \<equiv> (ec_name c, ec_url c)"

record registry =
  rg_endpoints :: "(string, endpoint_config list) dict"
  rg_tools :: "(string, string) dict"
  rg_topology :: "endpoint_config list"
  rg_breakers :: "(client_key, breaker) dict"
  rg_cache :: "(string \<times> int option, real \<times> topology_response) dict"

type_synonym clients = "(client_key, endpoint_config \<times> breaker) dict"

definition share_client :: "endpoint_config \<Rightarrow> clients \<Rightarrow> config_error + clients" where
  "share_client ep shared =
     (case map_of shared (client_key_of ep) of
        Some _ \<Rightarrow> Inr shared
      | None \<Rightarrow> and_then (mk_breaker (ec_threshold ep) (ec_reset ep)) (\<lambda>b. Inr (shared @ [(client_key_of ep, (ep, b))])))"

definition client_of :: "clients \<Rightarrow> endpoint_config \<Rightarrow> endpoint_config" where
  "client_of shared ep = (case map_of shared (client_key_of ep) of None \<Rightarrow> ep | Some (c, _) \<Rightarrow> c)"

definition topology_rows :: "(string, pyval) dict \<Rightarrow> config_error + pyval list" where
  "topology_rows sec =
     and_then (mapping_or_empty (map_of sec ''topology'')) (\<lambda>t.
       case map_of t ''endpoints'' of
         None \<Rightarrow> Inr []
       | Some (PList rows) \<Rightarrow> Inr rows
       | Some v \<Rightarrow> if truthy v then Inl BadShape else Inr [])"

definition known_endpoints :: "(string, endpoint_config list) dict \<Rightarrow> string \<Rightarrow> config_error + endpoint_config list" where
  "known_endpoints parsed d = (case map_of parsed d of None \<Rightarrow> Inl BadShape | Some eps \<Rightarrow> Inr eps)"

definition create_telemetry_provider :: "(pyval \<Rightarrow> string) \<Rightarrow> catalog \<Rightarrow> (string, pyval) dict \<Rightarrow> string list option
    \<Rightarrow> config_error + registry" where
  "create_telemetry_provider F cat cfg domains =
     (let tools = telemetry_domains cat;
          ds = (case domains of None \<Rightarrow> keys tools | Some xs \<Rightarrow> if xs = [] then keys tools else xs) in
      and_then (parse_endpoints F cat cfg) (\<lambda>parsed.
      and_then (telemetry_section F cfg) (\<lambda>sec.
      and_then (traverse (known_endpoints parsed) ds) (\<lambda>eps.
      and_then (fold_sum share_client (concat eps) []) (\<lambda>shared.
      and_then (topology_rows sec) (\<lambda>rows.
      and_then (mapping_or_empty (map_of sec ''defaults'')) (\<lambda>defaults.
      and_then (traverse (endpoint_row F defaults) rows) (\<lambda>topo.
      and_then (fold_sum share_client topo shared) (\<lambda>shared2.
        let endpoints = map (\<lambda>d. (d, map (client_of shared) (the (map_of parsed d)))) (uniq ds) in
        Inr \<lparr>rg_endpoints = endpoints,
             rg_tools = map (\<lambda>d. (d, the (map_of tools d))) (uniq ds),
             rg_topology = (if rows = [] then (case endpoints of [] \<Rightarrow> [] | (_, cs) # _ \<Rightarrow> cs)
                            else map (client_of shared2) topo),
             rg_breakers = map (\<lambda>(k, (_, b)). (k, b)) shared2,
             rg_cache = []\<rparr>)))))))))"

section \<open>Coverage of one endpoint\<close>

text \<open>
  \<open>_endpoint_coverage\<close>: one entry for the whole endpoint. \<open>None\<close> lags are ignored.
\<close>

definition status_name :: "cov_status \<Rightarrow> string" where
  "status_name s = (case s of CovOk \<Rightarrow> ''ok'' | CovPartial \<Rightarrow> ''partial'' | CovFailed \<Rightarrow> ''failed'')"

definition not_ok :: "coverage list \<Rightarrow> coverage list" where
  "not_ok cs = filter (\<lambda>c. c_status c \<noteq> CovOk) cs"

definition endpoint_errors :: "coverage list \<Rightarrow> nat \<Rightarrow> string list" where
  "endpoint_errors cs skipped =
     map (\<lambda>c. c_source c @ '': '' @ (case c_error c of Some (x # xs) \<Rightarrow> x # xs | _ \<Rightarrow> status_name (c_status c))) (not_ok cs)
     @ (if 0 < skipped then [nat_str skipped @ '' malformed signal(s) skipped''] else [])"

definition endpoint_coverage :: "endpoint_config \<Rightarrow> tool_response \<Rightarrow> nat \<Rightarrow> coverage" where
  "endpoint_coverage cl r skipped =
     (let cs = r_coverage r;
          status = response_status cs;
          errors = endpoint_errors cs skipped;
          lags = List.map_filter c_lag cs
      in \<lparr>c_source = ec_name cl,
          c_status = (if 0 < skipped \<and> status = CovOk then CovPartial else status),
          c_lag = (case lags of [] \<Rightarrow> None | x # xs \<Rightarrow> Some (max_list x xs)),
          c_truncated = (list_ex c_truncated cs \<or> r_cursor r \<noteq> None),
          c_error = (if errors = [] then None else Some (join_with ''; '' errors)),
          c_required = (ec_required cl \<and> (not_ok cs = [] \<or> list_ex c_required (not_ok cs) \<or> 0 < skipped))\<rparr>)"

section \<open>Fetch and merge\<close>

text \<open>
  What a client's task gives \<open>asyncio.gather\<close>; a cancellation is raised again, every other
  exception becomes a failed coverage entry.
\<close>

definition cancelled :: "fetch_outcome \<Rightarrow> bool" where
  "cancelled out = (case out of NoAnswer CallCancelled \<Rightarrow> True | _ \<Rightarrow> False)"

definition failed_coverage :: "(fetch_outcome \<Rightarrow> string) \<Rightarrow> endpoint_config \<Rightarrow> fetch_outcome \<Rightarrow> coverage" where
  "failed_coverage D cl out =
     \<lparr>c_source = ec_name cl, c_status = CovFailed, c_lag = None, c_truncated = False,
      c_error = Some (take 500 (D out)), c_required = ec_required cl\<rparr>"

record merged =
  mg_coverage :: "coverage list"
  mg_signals :: "signal list"
  mg_seen :: "(string \<times> string) list"
  mg_baseline :: "time_window option"

definition signal_key :: "signal \<Rightarrow> (string \<times> string) option" where
  "signal_key s = map_option (Pair (s_source s)) (s_evidence_ref s)"

definition merge_signal :: "signal \<Rightarrow> merged \<Rightarrow> merged" where
  "merge_signal s m =
     (case signal_key s of
        None \<Rightarrow> m\<lparr>mg_signals := mg_signals m @ [s]\<rparr>
      | Some k \<Rightarrow> if k \<in> set (mg_seen m) then m
                  else m\<lparr>mg_seen := k # mg_seen m, mg_signals := mg_signals m @ [s]\<rparr>)"

definition merge_answer :: "(fetch_outcome \<Rightarrow> string) \<Rightarrow> endpoint_config \<times> fetch_outcome \<Rightarrow> merged \<Rightarrow> merged" where
  "merge_answer D = (\<lambda>(cl, out) m.
     (case out of
        Fetched r skipped \<Rightarrow>
          fold merge_signal (r_signals r)
            (m\<lparr>mg_coverage := mg_coverage m @ [endpoint_coverage cl r skipped],
               mg_baseline := (case mg_baseline m of Some w \<Rightarrow> Some w | None \<Rightarrow> r_baseline r)\<rparr>)
      | _ \<Rightarrow> m\<lparr>mg_coverage := mg_coverage m @ [failed_coverage D cl out]\<rparr>))"

definition merge_answers :: "(fetch_outcome \<Rightarrow> string) \<Rightarrow> (endpoint_config \<times> fetch_outcome) list \<Rightarrow> merged" where
  "merge_answers D xs =
     fold (merge_answer D) xs \<lparr>mg_coverage = [], mg_signals = [], mg_seen = [], mg_baseline = None\<rparr>"

text \<open>
  The outside of one fan-out, per client: the server, which sleeps are cancelled, and the clock
  when the call starts and ends. The calls of one fan-out run on different clients, so each is a
  whole call on its own breaker.
\<close>

record outside =
  os_codes :: mcp_codes
  os_validators :: validators
  os_server :: "client_key \<Rightarrow> server"
  os_naps :: "client_key \<Rightarrow> nat \<Rightarrow> bool"
  os_start :: "client_key \<Rightarrow> real"
  os_end :: "client_key \<Rightarrow> real"
  os_describe :: "fetch_outcome \<Rightarrow> string"

definition breaker_of :: "registry \<Rightarrow> endpoint_config \<Rightarrow> breaker" where
  "breaker_of reg cl =
     (case map_of (rg_breakers reg) (client_key_of cl) of
        Some b \<Rightarrow> b
      | None \<Rightarrow> \<lparr>bk_threshold = ec_threshold cl, bk_reset = ec_reset cl, bk_failures = 0, bk_opened_at = None, bk_trial = False\<rparr>)"

definition client_fetch :: "outside \<Rightarrow> string \<Rightarrow> telemetry_query \<Rightarrow> string option \<Rightarrow> endpoint_config \<Rightarrow> registry
    \<Rightarrow> fetch_outcome \<times> registry" where
  "client_fetch X domain q tool cl reg =
     (let k = client_key_of cl in
      case fetch (os_codes X) (os_validators X) cl (os_server X k) (os_naps X k) (os_start X k) (os_end X k) domain q tool
             (breaker_of reg cl) of
        (out, b) \<Rightarrow> (out, reg\<lparr>rg_breakers := AList.update k b (rg_breakers reg)\<rparr>))"

fun gather :: "(endpoint_config \<Rightarrow> registry \<Rightarrow> 'o \<times> registry) \<Rightarrow> endpoint_config list \<Rightarrow> registry
    \<Rightarrow> 'o list \<times> registry" where
  "gather f [] reg = ([], reg)"
| "gather f (c # cs) reg =
     (case f c reg of (o1, reg1) \<Rightarrow> (case gather f cs reg1 of (os, reg2) \<Rightarrow> (o1 # os, reg2)))"

datatype fetch_error = UnknownDomain string | FetchCancelled

definition registry_fetch :: "outside \<Rightarrow> string \<Rightarrow> telemetry_query \<Rightarrow> registry \<Rightarrow> (fetch_error + tool_response) \<times> registry" where
  "registry_fetch X domain q reg =
     (case map_of (rg_endpoints reg) domain of
        None \<Rightarrow> (Inl (UnknownDomain domain), reg)
      | Some clients \<Rightarrow>
          (case gather (client_fetch X domain q (map_of (rg_tools reg) domain)) clients reg of
             (outs, reg') \<Rightarrow>
               if list_ex cancelled outs then (Inl FetchCancelled, reg')
               else (let m = merge_answers (os_describe X) (zip clients outs) in
                     (Inr \<lparr>r_version = CONTRACT_VERSION, r_window = query_window_of q, r_baseline = mg_baseline m,
                           r_coverage = mg_coverage m, r_signals = mg_signals m, r_cursor = None\<rparr>, reg'))))"

section \<open>Topology\<close>

definition TOPOLOGY_TTL_SECONDS :: real where "TOPOLOGY_TTL_SECONDS = 60"

text \<open>One endpoint's answer, after the pydantic validation of the payload.\<close>

datatype topology_outcome =
    TopoAnswer topology_response
  | TopoMalformed string
  | TopoFailed string
  | TopoCancelled

definition topology_status :: "coverage list \<Rightarrow> cov_status" where
  "topology_status cs = (if cs = [] then CovOk else response_status cs)"

definition topology_coverage :: "endpoint_config \<times> topology_outcome \<Rightarrow> coverage" where
  "topology_coverage = (\<lambda>(cl, out).
     \<lparr>c_source = ec_name cl,
      c_status = (case out of TopoAnswer r \<Rightarrow> topology_status (tr_coverage r) | _ \<Rightarrow> CovFailed),
      c_lag = None, c_truncated = False,
      c_error = (case out of TopoAnswer r \<Rightarrow> None | TopoMalformed e \<Rightarrow> Some (take 500 (''malformed topology: '' @ e))
                 | TopoFailed e \<Rightarrow> Some (take 500 e) | TopoCancelled \<Rightarrow> None),
      c_required = False\<rparr>)"

definition merge_labels :: "entity \<Rightarrow> entity \<Rightarrow> entity" where
  "merge_labels known e = known\<lparr>e_labels := dict_merge (e_labels e) (e_labels known)\<rparr>"

definition edge_key :: "topology_edge \<Rightarrow> string \<times> node \<times> node" where
  "edge_key ed = (t_rel ed, entity_node (t_source ed), entity_node (t_target ed))"

definition latest_edge :: "topology_edge \<Rightarrow> topology_edge \<Rightarrow> topology_edge" where
  "latest_edge known ed = ed"

definition answered :: "topology_outcome list \<Rightarrow> topology_response list" where
  "answered outs = List.map_filter (\<lambda>out. case out of TopoAnswer r \<Rightarrow> Some r | _ \<Rightarrow> None) outs"

definition merge_topology :: "string \<Rightarrow> (endpoint_config \<times> topology_outcome) list \<Rightarrow> topology_response" where
  "merge_topology region xs =
     (let rs = answered (map snd xs) in
      \<lparr>tr_region = region,
       tr_entities = vals (merge_all entity_node merge_labels (concat (map tr_entities rs))),
       tr_relationships = vals (merge_all edge_key latest_edge (concat (map tr_relationships rs))),
       tr_coverage = map topology_coverage xs\<rparr>)"

text \<open>
  \<open>topology\<close>: \<open>ask\<close> is what a client's call of \<open>get_topology\<close> gives, \<open>now\<close> and \<open>later\<close> the
  clock at the lookup and when the answers are in. A cancellation leaves the cache alone.
\<close>

definition registry_topology :: "(endpoint_config \<Rightarrow> registry \<Rightarrow> topology_outcome \<times> registry) \<Rightarrow> real \<Rightarrow> real
    \<Rightarrow> string \<Rightarrow> int option \<Rightarrow> registry \<Rightarrow> topology_response option \<times> registry" where
  "registry_topology ask now later region scenario reg =
     (let key = (region, scenario);
          cached = (case map_of (rg_cache reg) key of
                      Some (t, r) \<Rightarrow> if now - t < TOPOLOGY_TTL_SECONDS then Some r else None
                    | None \<Rightarrow> None)
      in case cached of
           Some r \<Rightarrow> (Some r, reg)
         | None \<Rightarrow>
             (case gather ask (rg_topology reg) reg of
                (outs, reg') \<Rightarrow>
                  if TopoCancelled \<in> set outs then (None, reg')
                  else (let m = merge_topology region (zip (rg_topology reg) outs)
                        in (Some m, reg'\<lparr>rg_cache := AList.update key (later, m) (rg_cache reg')\<rparr>))))"

definition topology_arguments :: "string \<Rightarrow> int option \<Rightarrow> (string, pyval) dict" where
  "topology_arguments region scenario =
     [(''region'', PStr region), (''contract_version'', PStr CONTRACT_VERSION)]
     @ (case scenario of None \<Rightarrow> [] | Some n \<Rightarrow> [(''scenario_id'', PNum (of_int n))])"

text \<open>The client's side of it: \<open>check\<close> is the validation of the payload.\<close>

definition client_topology :: "outside \<Rightarrow> (pyval \<Rightarrow> string + topology_response) \<Rightarrow> string \<Rightarrow> int option \<Rightarrow> endpoint_config
    \<Rightarrow> registry \<Rightarrow> topology_outcome \<times> registry" where
  "client_topology X check region scenario cl reg =
     (let k = client_key_of cl;
          tries = (\<lambda>n. call_once (v_json (os_validators X)) (os_server X k ''get_topology'' (topology_arguments region scenario) n))
      in case call_tool (os_codes X) (rp_max_attempts (ec_retry cl)) tries (os_naps X k) (os_start X k) (os_end X k)
               (breaker_of reg cl) of
           (res, b) \<Rightarrow>
             ((case res of
                 Returned p \<Rightarrow> (case check p of Inl e \<Rightarrow> TopoMalformed e | Inr r \<Rightarrow> TopoAnswer r)
               | CallCancelled \<Rightarrow> TopoCancelled
               | _ \<Rightarrow> TopoFailed (os_describe X (NoAnswer res))),
              reg\<lparr>rg_breakers := AList.update k b (rg_breakers reg)\<rparr>))"

interpretation entity_merge: keyed_merge entity_node merge_labels
  by unfold_locales (simp add: merge_labels_def)

interpretation edge_merge: keyed_merge edge_key latest_edge
  by unfold_locales (simp add: latest_edge_def)

section \<open>Query windows\<close>

definition DEFAULT_WINDOW_MINUTES :: int where "DEFAULT_WINDOW_MINUTES = 30"

definition query_window :: "time \<Rightarrow> int \<Rightarrow> time \<times> time" where
  "query_window reported_at window_minutes = (reported_at - minutes window_minutes, reported_at)"

text \<open>
  \<open>query_from_request\<close> on the parsed payload of an analyze request: \<open>now\<close> is the clock, the
  timestamps are parsed by the caller of the model.
\<close>

record analyze_payload =
  ap_region :: string
  ap_window_minutes :: "int option"
  ap_start :: "time option"
  ap_end :: "time option"
  ap_anchor :: "time option"
  ap_filters :: "entity_filter list option"
  ap_baseline :: bool
  ap_scenario :: "int option"

definition query_from_request :: "time \<Rightarrow> analyze_payload \<Rightarrow> contract_error + telemetry_query" where
  "query_from_request now d =
     (let window = (case ap_window_minutes d of None \<Rightarrow> DEFAULT_WINDOW_MINUTES | Some n \<Rightarrow> if n = 0 then DEFAULT_WINDOW_MINUTES else n);
          end1 = (case ap_end d of None \<Rightarrow> now | Some t \<Rightarrow> t);
          (start, end2) = (case ap_start d of None \<Rightarrow> query_window end1 window | Some t \<Rightarrow> (t, end1))
      in mk_query \<lparr>q_region = ap_region d, q_start = start, q_end = end2, q_filters = ap_filters d,
                   q_include_baseline = ap_baseline d, q_scenario = ap_scenario d, q_anchor = ap_anchor d\<rparr>)"

section \<open>Lemmas\<close>

lemma length_gather [simp]: "length (fst (gather f cs reg)) = length cs"
  by (induction f cs reg rule: gather.induct) (auto split: prod.splits)

lemma endpoint_coverage_degrades:
  "c_required (endpoint_coverage cl r k) \<and> c_status (endpoint_coverage cl r k) \<noteq> CovOk
    \<longleftrightarrow> ec_required cl \<and> (0 < k \<or> degraded (r_coverage r))"
proof (cases "0 < k")
  case True
  then show ?thesis by (auto simp: endpoint_coverage_def Let_def)
next
  case False
  have ok: "response_status (r_coverage r) = CovOk \<longleftrightarrow> r_coverage r \<noteq> [] \<and> not_ok (r_coverage r) = []"
    by (auto simp: response_status_ok_iff not_ok_def filter_empty_conv)
  have ex: "degraded (r_coverage r) \<longleftrightarrow> r_coverage r = [] \<or> list_ex c_required (not_ok (r_coverage r))"
    by (auto simp: degraded_def not_ok_def list_ex_iff)
  have "list_ex c_required (not_ok (r_coverage r)) \<Longrightarrow> not_ok (r_coverage r) \<noteq> []" by auto
  moreover have "r_coverage r = [] \<Longrightarrow> not_ok (r_coverage r) = []" by (simp add: not_ok_def)
  ultimately show ?thesis using False by (auto simp: endpoint_coverage_def Let_def ok ex)
qed

definition coverage_of :: "(fetch_outcome \<Rightarrow> string) \<Rightarrow> endpoint_config \<times> fetch_outcome \<Rightarrow> coverage" where
  "coverage_of D = (\<lambda>(cl, out). case out of Fetched r k \<Rightarrow> endpoint_coverage cl r k | _ \<Rightarrow> failed_coverage D cl out)"

definition signals_of :: "fetch_outcome \<Rightarrow> signal list" where
  "signals_of out = (case out of Fetched r _ \<Rightarrow> r_signals r | _ \<Rightarrow> [])"

text \<open>The reference for the merge: a signal stays unless an earlier one has the same key.\<close>

definition first_copies :: "signal list \<Rightarrow> signal list" where
  "first_copies ss =
     map (\<lambda>i. ss ! i) (filter (\<lambda>i. signal_key (ss ! i) = None \<or> (\<forall>j<i. signal_key (ss ! j) \<noteq> signal_key (ss ! i)))
       [0..<length ss])"

lemma first_copies_Nil [simp]: "first_copies [] = []"
  by (simp add: first_copies_def)

lemma first_copies_snoc:
  "first_copies (ss @ [s]) =
     first_copies ss @ (if signal_key s = None \<or> signal_key s \<notin> signal_key ` set ss then [s] else [])"
proof -
  have "filter (\<lambda>i. signal_key ((ss @ [s]) ! i) = None
           \<or> (\<forall>j<i. signal_key ((ss @ [s]) ! j) \<noteq> signal_key ((ss @ [s]) ! i))) [0..<length ss]
      = filter (\<lambda>i. signal_key (ss ! i) = None \<or> (\<forall>j<i. signal_key (ss ! j) \<noteq> signal_key (ss ! i))) [0..<length ss]"
    by (rule filter_cong) (auto simp: nth_append)
  moreover have "(\<forall>j<length ss. signal_key ((ss @ [s]) ! j) \<noteq> signal_key s) \<longleftrightarrow> signal_key s \<notin> signal_key ` set ss"
    by (auto simp: nth_append image_iff in_set_conv_nth) (metis nth_mem)
  ultimately show ?thesis by (auto simp: first_copies_def nth_append)
qed

definition merge_ok :: "merged \<Rightarrow> signal list \<Rightarrow> bool" where
  "merge_ok m ss \<longleftrightarrow> mg_signals m = first_copies ss \<and> Some ` set (mg_seen m) = signal_key ` set ss - {None}"

lemma merge_signal_ok: "merge_ok m ss \<Longrightarrow> merge_ok (merge_signal s m) (ss @ [s])"
proof (cases "signal_key s")
  case None
  assume "merge_ok m ss"
  with None show ?thesis by (auto simp: merge_ok_def merge_signal_def first_copies_snoc)
next
  case (Some k)
  assume ok: "merge_ok m ss"
  then have seen: "Some ` set (mg_seen m) = signal_key ` set ss - {None}" by (simp add: merge_ok_def)
  have "k \<in> set (mg_seen m) \<longleftrightarrow> Some k \<in> Some ` set (mg_seen m)" by auto
  also have "\<dots> \<longleftrightarrow> Some k \<in> signal_key ` set ss" unfolding seen by simp
  finally have known: "k \<in> set (mg_seen m) \<longleftrightarrow> Some k \<in> signal_key ` set ss" .
  show ?thesis
  proof (cases "k \<in> set (mg_seen m)")
    case True
    with known have mem: "Some k \<in> signal_key ` set ss" by simp
    then have "signal_key ` set (ss @ [s]) = signal_key ` set ss" using Some by auto
    with True Some ok mem show ?thesis by (simp add: merge_ok_def merge_signal_def first_copies_snoc)
  next
    case False
    with known have "Some k \<notin> signal_key ` set ss" by simp
    with False Some ok seen show ?thesis
      by (simp add: merge_ok_def merge_signal_def first_copies_snoc insert_Diff_if)
  qed
qed

lemma merge_signals_ok: "merge_ok m ss \<Longrightarrow> merge_ok (fold merge_signal xs m) (ss @ xs)"
proof (induction xs arbitrary: m ss)
  case (Cons x xs)
  from Cons.IH [OF merge_signal_ok [OF Cons.prems, of x]] show ?case by simp
qed simp

lemma merge_signal_rest [simp]:
  "mg_coverage (fold merge_signal xs m) = mg_coverage m" "mg_baseline (fold merge_signal xs m) = mg_baseline m"
  by (induction xs arbitrary: m) (auto simp: merge_signal_def split: option.splits)

lemma merge_answers_ok:
  "mg_coverage (merge_answers D xs) = map (coverage_of D) xs
    \<and> merge_ok (merge_answers D xs) (concat (map (\<lambda>x. signals_of (snd x)) xs))"
proof (induction xs rule: rev_induct)
  case Nil
  then show ?case by (simp add: merge_answers_def merge_ok_def)
next
  case (snoc x xs)
  obtain cl out where x: "x = (cl, out)" by force
  let ?m = "merge_answers D xs"
  have step: "merge_answers D (xs @ [(cl, out)]) = merge_answer D (cl, out) ?m" by (simp add: merge_answers_def)
  have keep: "merge_ok (?m\<lparr>mg_coverage := c, mg_baseline := b\<rparr>) (concat (map (\<lambda>x. signals_of (snd x)) xs))"
    "merge_ok (?m\<lparr>mg_coverage := c\<rparr>) (concat (map (\<lambda>x. signals_of (snd x)) xs))" for b c
    using snoc by (simp_all add: merge_ok_def)
  show ?case
  proof (cases out)
    case (Fetched r k)
    from merge_signals_ok [OF keep(1), of "r_signals r"] snoc show ?thesis
      by (simp add: step [unfolded Fetched] x Fetched merge_answer_def coverage_of_def signals_of_def)
  next
    case (BadAnswer e)
    with keep(2) snoc show ?thesis by (simp add: step [unfolded BadAnswer] x merge_answer_def coverage_of_def signals_of_def)
  next
    case (NoAnswer e)
    with keep(2) snoc show ?thesis by (simp add: step [unfolded NoAnswer] x merge_answer_def coverage_of_def signals_of_def)
  qed
qed

lemmas merge_answers_coverage = merge_answers_ok [THEN conjunct1]
lemmas merge_answers_signals = merge_answers_ok [THEN conjunct2, unfolded merge_ok_def, THEN conjunct1]

text \<open>What the outcomes of a fan-out are, and the shape of an answered fetch.\<close>

definition outcomes :: "outside \<Rightarrow> string \<Rightarrow> telemetry_query \<Rightarrow> registry \<Rightarrow> endpoint_config list \<Rightarrow> fetch_outcome list" where
  "outcomes X domain q reg clients = fst (gather (client_fetch X domain q (map_of (rg_tools reg) domain)) clients reg)"

lemma registry_fetch_InrD:
  assumes "registry_fetch X domain q reg = (Inr r, reg')"
  obtains clients where "map_of (rg_endpoints reg) domain = Some clients"
    "list_all (\<lambda>out. \<not> cancelled out) (outcomes X domain q reg clients)"
    "r_coverage r = map (coverage_of (os_describe X)) (zip clients (outcomes X domain q reg clients))"
    "r_signals r = first_copies (concat (map signals_of (outcomes X domain q reg clients)))"
    "r_window r = query_window_of q"
proof -
  obtain clients where c: "map_of (rg_endpoints reg) domain = Some clients"
    using assms by (auto simp: registry_fetch_def split: option.splits)
  let ?outs = "outcomes X domain q reg clients"
  have z: "map (\<lambda>x. signals_of (snd x)) (zip clients ?outs) = map signals_of ?outs"
    using map_snd_zip [of clients ?outs] by (simp add: outcomes_def flip: map_map [unfolded comp_def])
  have nc: "\<not> list_ex cancelled ?outs"
    and r: "r = \<lparr>r_version = CONTRACT_VERSION, r_window = query_window_of q,
        r_baseline = mg_baseline (merge_answers (os_describe X) (zip clients ?outs)),
        r_coverage = mg_coverage (merge_answers (os_describe X) (zip clients ?outs)),
        r_signals = mg_signals (merge_answers (os_describe X) (zip clients ?outs)), r_cursor = None\<rparr>"
    using assms c by (auto simp: registry_fetch_def outcomes_def Let_def split: prod.splits if_splits)
  have "list_all (\<lambda>out. \<not> cancelled out) ?outs" using nc by (simp add: list_ex_iff list_all_iff)
  then show ?thesis
    using c r by (intro that [OF c]) (simp_all add: merge_answers_coverage merge_answers_signals z)
qed

lemma map_of_rev_keys: "distinct (keys d) \<Longrightarrow> map_of (rev d) = map_of d"
  by (rule map_of_inject_set [THEN iffD2]) (simp_all add: keys_def rev_map [symmetric])

lemma distinct_keys_dict_merge: "distinct (keys d) \<Longrightarrow> distinct (keys (dict_merge d e))"
  by (induction e arbitrary: d) (auto simp: dict_merge_def dict_simps)

text \<open>The value of a label in a merged entity is the one the first entity that has it gives.\<close>

lemma merged_label:
  "distinct (keys (e_labels y)) \<Longrightarrow> \<forall>e\<in>set ys. distinct (keys (e_labels e)) \<Longrightarrow>
     map_of (e_labels (foldl merge_labels y ys)) l =
       (case filter (\<lambda>e. map_of (e_labels e) l \<noteq> None) (y # ys) of [] \<Rightarrow> None | e # _ \<Rightarrow> map_of (e_labels e) l)"
proof (induction ys arbitrary: y)
  case Nil
  then show ?case by simp
next
  case (Cons e ys)
  let ?m = "merge_labels y e"
  have d: "distinct (keys (e_labels ?m))"
    using Cons.prems by (simp add: merge_labels_def distinct_keys_dict_merge)
  have lab: "map_of (e_labels ?m) l = (case map_of (e_labels y) l of None \<Rightarrow> map_of (e_labels e) l | Some v \<Rightarrow> Some v)"
    using Cons.prems by (simp add: merge_labels_def dict_simps map_of_rev_keys map_add_def)
  show ?case
    using Cons.IH [OF d] Cons.prems lab by (auto split: option.splits list.splits)
qed

definition topology_answers :: "(endpoint_config \<Rightarrow> registry \<Rightarrow> topology_outcome \<times> registry) \<Rightarrow> registry \<Rightarrow> topology_response list" where
  "topology_answers ask reg = answered (fst (gather ask (rg_topology reg) reg))"

lemma registry_topology_fresh:
  assumes "map_of (rg_cache reg) (region, sc) = None" and "registry_topology ask now later region sc reg = (Some r, reg')"
  shows "r = merge_topology region (zip (rg_topology reg) (fst (gather ask (rg_topology reg) reg)))
    \<and> map_of (rg_cache reg') (region, sc) = Some (later, r)"
  using assms by (auto simp: registry_topology_def Let_def dict_simps split: prod.splits if_splits)

lemma merged_entities:
  "tr_entities (merge_topology region (zip cs outs)) =
     vals (merge_all entity_node merge_labels (concat (map tr_entities (answered outs))))" if "length outs = length cs"
  using that by (simp add: merge_topology_def Let_def)

lemma merged_edges:
  "tr_relationships (merge_topology region (zip cs outs)) =
     vals (merge_all edge_key latest_edge (concat (map tr_relationships (answered outs))))" if "length outs = length cs"
  using that by (simp add: merge_topology_def Let_def)

section \<open>Configuration lemmas\<close>

definition endpoint_ok :: "endpoint_config \<Rightarrow> bool" where
  "endpoint_ok c \<longleftrightarrow> ec_name c \<noteq> [] \<and> ec_url c \<noteq> [] \<and> 0 < ec_timeout c \<and> 1 \<le> rp_max_attempts (ec_retry c)
     \<and> 0 \<le> rp_base_delay (ec_retry c) \<and> 0 \<le> rp_max_delay (ec_retry c)
     \<and> (ec_auth c = AuthNone \<or> ec_auth c = AuthBearerEnv \<and> ec_token_env c \<notin> {None, Some []})"

lemma mk_retry_policy_Inr:
  "mk_retry_policy p = Inr q \<longleftrightarrow> q = p \<and> 1 \<le> rp_max_attempts p \<and> 0 \<le> rp_base_delay p \<and> 0 \<le> rp_max_delay p"
  by (auto simp: mk_retry_policy_def)

lemma mk_endpoint_ok:
  "mk_endpoint c = Inr d \<Longrightarrow> mk_retry_policy p = Inr r \<Longrightarrow> ec_retry c = r \<Longrightarrow> endpoint_ok d"
  by (auto simp: mk_endpoint_def endpoint_ok_def mk_retry_policy_Inr split: if_splits auth_mode.splits)

lemma endpoint_of_ok: "endpoint_of F raw defaults = Inr c \<Longrightarrow> endpoint_ok c"
  unfolding endpoint_of_def Let_def and_then_Inr by (elim exE conjE, erule mk_endpoint_ok, assumption, simp)

lemma endpoint_row_ok: "endpoint_row F defaults raw = Inr c \<Longrightarrow> endpoint_ok c"
  by (auto simp: endpoint_row_def endpoint_of_ok split: pyval.splits)

lemma traverse_set: "traverse f xs = Inr ys \<Longrightarrow> y \<in> set ys \<Longrightarrow> \<exists>x\<in>set xs. f x = Inr y"
  by (drule traverse_Inr) (metis image_iff image_set)

lemma traverse_length: "traverse f xs = Inr ys \<Longrightarrow> length ys = length xs"
  by (drule traverse_Inr) (metis length_map)

lemma raw_endpoints_nonempty: "raw_endpoints sec = Inr rows \<Longrightarrow> rows \<noteq> []"
  by (auto simp: raw_endpoints_def split: option.splits pyval.splits if_splits)

lemma domain_endpoints_ok:
  assumes "domain_endpoints F defaults cfgs d = Inr (d', eps)"
  shows "d' = d \<and> eps \<noteq> [] \<and> list_all endpoint_ok eps \<and> distinct (map ec_name eps)"
proof -
  obtain rows sec where raw: "raw_endpoints sec = Inr rows" and t: "traverse (endpoint_row F defaults) rows = Inr eps"
    and rest: "d' = d" "distinct (map ec_name eps)"
    using assms by (auto simp: domain_endpoints_def and_then_Inr)
  have "eps \<noteq> []" using raw_endpoints_nonempty [OF raw] traverse_length [OF t] by auto
  moreover have "endpoint_ok c" if "c \<in> set eps" for c
    using traverse_set [OF t that] endpoint_row_ok by blast
  ultimately show ?thesis using rest by (auto simp: list_all_iff)
qed

lemma coverage_of_source [simp]: "c_source (coverage_of D (cl, out)) = ec_name cl"
  by (cases out) (simp_all add: coverage_of_def endpoint_coverage_def failed_coverage_def Let_def)

lemma coverage_sources:
  "length cs = length outs \<Longrightarrow> map c_source (map (coverage_of D) (zip cs outs)) = map ec_name cs"
  by (induction rule: list_induct2) simp_all

lemma coverage_of_degrades:
  "c_required (coverage_of D (cl, out)) \<and> c_status (coverage_of D (cl, out)) \<noteq> CovOk
     \<longleftrightarrow> ec_required cl \<and> (case out of Fetched a skipped \<Rightarrow> 0 < skipped \<or> degraded (r_coverage a) | _ \<Rightarrow> True)"
  by (cases out) (simp_all add: coverage_of_def endpoint_coverage_degrades failed_coverage_def)

lemma degraded_map: "degraded (map f ps) \<longleftrightarrow> ps = [] \<or> (\<exists>p\<in>set ps. c_required (f p) \<and> c_status (f p) \<noteq> CovOk)"
  by (auto simp: degraded_def list_ex_iff)

lemma coverage_of_degrades_pair:
  "c_required (coverage_of D p) \<and> c_status (coverage_of D p) \<noteq> CovOk
     \<longleftrightarrow> (case p of (cl, out) \<Rightarrow> ec_required cl \<and> (case out of Fetched a skipped \<Rightarrow> 0 < skipped \<or> degraded (r_coverage a) | _ \<Rightarrow> True))"
  by (cases p) (simp add: coverage_of_degrades)

lemma merged_entity_label:
  assumes v: "v \<in> set (vals (merge_all entity_node merge_labels es))" and d: "\<forall>e\<in>set es. distinct (keys (e_labels e))"
  shows "map_of (e_labels v) l =
    (case filter (\<lambda>e. map_of (e_labels e) l \<noteq> None) (filter (\<lambda>e. entity_node e = entity_node v) es) of
       [] \<Rightarrow> None | e # _ \<Rightarrow> map_of (e_labels e) l)"
proof -
  obtain n where n: "map_of (merge_all entity_node merge_labels es) n = Some v"
    using v entity_merge.distinct_merge [of es] by (auto simp: map_of_vals)
  then have node: "entity_node v = n" by (rule entity_merge.merge_keyed)
  obtain y ys where f: "filter (\<lambda>e. entity_node e = n) es = y # ys" and fold: "v = foldl merge_labels y ys"
    using n by (auto simp: entity_merge.merge_lookup split: list.splits)
  have "set (y # ys) \<subseteq> set es" unfolding f [symmetric] by auto
  with d have "distinct (keys (e_labels y))" "\<forall>e\<in>set ys. distinct (keys (e_labels e))" by auto
  from merged_label [OF this] show ?thesis unfolding node f by (simp add: fold)
qed

lemma foldl_latest: "foldl latest_edge y ys = last (y # ys)"
  by (induction ys arbitrary: y) (simp_all add: latest_edge_def)

lemma merged_edge_last:
  assumes "ed \<in> set (vals (merge_all edge_key latest_edge eds))"
  shows "ed = last (filter (\<lambda>x. edge_key x = edge_key ed) eds)"
proof -
  obtain k where k: "map_of (merge_all edge_key latest_edge eds) k = Some ed"
    using assms edge_merge.distinct_merge [of eds] by (auto simp: map_of_vals)
  then have "edge_key ed = k" by (rule edge_merge.merge_keyed)
  with k show ?thesis by (auto simp: edge_merge.merge_lookup foldl_latest split: list.splits)
qed

section \<open>Properties\<close>

text \<open>
  A deployment with one domain, read from the endpoints \<open>a\<close>, which answers with one good and one
  malformed row, and \<open>b\<close>, which is optional and gives an error.
\<close>

definition net_cat :: catalog where
  "net_cat = ex_cat\<lparr>cat_domains := [(''net'', ex_domain)]\<rparr>"

definition ex_row_of :: "string \<Rightarrow> pyval \<Rightarrow> pyval" where
  "ex_row_of n req = PDict [(''name'', PStr n), (''url'', PStr ''http://x/mcp''), (''required'', req)]"

definition ex_config :: "(string, pyval) dict" where
  "ex_config = [(''telemetry'', PDict [(''domains'', PDict [(''net'', PDict
     [(''endpoints'', PList [ex_row_of ''a'' (PBool True), ex_row_of ''b'' (PBool False)])])])])]"

definition ex_client :: "string \<Rightarrow> bool \<Rightarrow> endpoint_config" where
  "ex_client n req = \<lparr>ec_name = n, ec_url = ''http://x/mcp'', ec_timeout = 8, ec_auth = AuthNone, ec_token_env = None,
     ec_required = req, ec_retry = \<lparr>rp_max_attempts = 2, rp_base_delay = 1 / 5, rp_max_delay = 2\<rparr>,
     ec_threshold = 3, ec_reset = 30\<rparr>"

definition ex_registry :: registry where
  "ex_registry = \<lparr>rg_endpoints = [(''net'', [ex_client ''a'' True, ex_client ''b'' False])], rg_tools = [(''net'', ''query_net'')],
     rg_topology = [ex_client ''a'' True], rg_breakers = [], rg_cache = []\<rparr>"

definition ex_signal :: "string \<Rightarrow> signal" where
  "ex_signal ref = \<lparr>s_type = Event, s_timestamp = 150, s_observed_at = 150, s_entity = ex_ent ''a'' ''1'', s_name = ''sig'',
     s_value = None, s_unit = None, s_severity = Error, s_domain = ''net'', s_source = ''logs'', s_attributes = [],
     s_evidence_ref = Some ref\<rparr>"

definition ex_reply :: "pyval \<Rightarrow> tool_result" where
  "ex_reply p = \<lparr>tl_is_error = False, tl_texts = [], tl_structured = (case p of PDict d \<Rightarrow> Some d | _ \<Rightarrow> None)\<rparr>"

definition ex_outside :: outside where
  "ex_outside = \<lparr>os_codes = ex_codes,
     os_validators = \<lparr>v_str = \<lambda>_. [], v_json = \<lambda>_. None,
       v_signal = \<lambda>v. if v = PNone then None else Some (ex_signal ''r1''), v_envelope = ex_envelope, v_dump = \<lambda>_. []\<rparr>,
     os_server = \<lambda>k t args n. if fst k = ''a'' then Inr (ex_reply (PDict ex_answer)) else Inl (HttpStatus 500),
     os_naps = \<lambda>_ _. False, os_start = \<lambda>_. 0, os_end = \<lambda>_. 1, os_describe = \<lambda>_. ''error''\<rparr>"

definition ex_query :: telemetry_query where
  "ex_query = \<lparr>q_region = ''us-east-1'', q_start = 100, q_end = 200, q_filters = None, q_include_baseline = False,
     q_scenario = None, q_anchor = None\<rparr>"

lemma ex_fetch:
  obtains r reg' where "registry_fetch ex_outside ''net'' ex_query ex_registry = (Inr r, reg')"
    "length (r_signals r) = 1" "map_of (rg_endpoints ex_registry) ''net'' = Some [ex_client ''a'' True, ex_client ''b'' False]"
proof -
  have "case fst (registry_fetch ex_outside ''net'' ex_query ex_registry) of Inl _ \<Rightarrow> False | Inr r \<Rightarrow> length (r_signals r) = 1"
    by code_simp
  then show ?thesis
    by (cases "registry_fetch ex_outside ''net'' ex_query ex_registry")
      (auto simp: ex_registry_def intro: that split: sum.splits)
qed

text \<open>
  Every accepted configuration is well formed: one entry per telemetry domain of the catalog,
  in the catalog's order, each with at least one endpoint, all endpoint names of a domain
  different, every endpoint with a name, a url, a positive timeout, at least one attempt, non
  negative delays and an authentication mode that is implemented and has its token variable.
\<close>

lemma parse_endpoints_well_formed:
  assumes "parse_endpoints F cat cfg = Inr parsed"
  shows "map fst parsed = keys (telemetry_domains cat)
    \<and> (\<forall>(d, eps)\<in>set parsed. eps \<noteq> [] \<and> list_all endpoint_ok eps \<and> distinct (map ec_name eps))"
proof -
  obtain defaults cfgs where t: "traverse (domain_endpoints F defaults cfgs) (keys (telemetry_domains cat)) = Inr parsed"
    using assms by (auto simp: parse_endpoints_def Let_def and_then_Inr)
  have "map fst ys = xs" if "traverse (domain_endpoints F defaults cfgs) xs = Inr ys" for xs ys
    using that
  proof (induction xs arbitrary: ys)
    case (Cons x xs)
    then obtain y zs where "domain_endpoints F defaults cfgs x = Inr y" "ys = y # zs"
      "traverse (domain_endpoints F defaults cfgs) xs = Inr zs" by (auto split: sum.splits)
    with Cons.IH [of zs] domain_endpoints_ok [of F defaults cfgs x "fst y" "snd y"] show ?case by simp
  qed simp
  with t have "map fst parsed = keys (telemetry_domains cat)" by blast
  moreover have "eps \<noteq> [] \<and> list_all endpoint_ok eps \<and> distinct (map ec_name eps)" if "(d, eps) \<in> set parsed" for d eps
    using traverse_set [OF t that] domain_endpoints_ok by fastforce
  ultimately show ?thesis by blast
qed

text \<open>
  C27: A fetch returns the signals of the endpoints that answered and no others, in endpoint order,
  without the later copies of a record (same source and same evidence reference), with one
  coverage entry per endpoint in order, for the window that was asked.
\<close>
theorem registry_fetch_signals:
  assumes "registry_fetch X domain q reg = (Inr r, reg')" and "map_of (rg_endpoints reg) domain = Some clients"
  shows "r_signals r = first_copies (concat (map signals_of (outcomes X domain q reg clients)))
    \<and> map c_source (r_coverage r) = map ec_name clients \<and> r_window r = query_window_of q"
proof -
  have "length clients = length (outcomes X domain q reg clients)" by (simp add: outcomes_def)
  from coverage_sources [OF this, of "os_describe X"] assms show ?thesis by (elim registry_fetch_InrD) simp
qed

theorem registry_fetch_signals_witness:
  "\<exists>r. fst (registry_fetch ex_outside ''net'' ex_query ex_registry) = Inr r \<and> length (r_signals r) = 1
    \<and> map c_source (r_coverage r) = [''a'', ''b'']"
proof (rule ex_fetch)
  fix r reg'
  assume f: "registry_fetch ex_outside ''net'' ex_query ex_registry = (Inr r, reg')" "length (r_signals r) = 1"
    and c: "map_of (rg_endpoints ex_registry) ''net'' = Some [ex_client ''a'' True, ex_client ''b'' False]"
  from registry_fetch_signals [OF f(1) c] f show ?thesis by (simp add: ex_client_def)
qed

text \<open>
  C4: A missing answer is never taken for a quiet one: the merged response is degraded exactly when
  the domain has no endpoint or a required endpoint could not be read, gave a malformed answer,
  had a signal skipped, or reported itself degraded; an optional endpoint never degrades it.
\<close>
theorem registry_fetch_degraded:
  assumes "registry_fetch X domain q reg = (Inr r, reg')" and "map_of (rg_endpoints reg) domain = Some clients"
  shows "degraded (r_coverage r) \<longleftrightarrow> clients = []
    \<or> (\<exists>(cl, out)\<in>set (zip clients (outcomes X domain q reg clients)). ec_required cl
          \<and> (case out of Fetched a skipped \<Rightarrow> 0 < skipped \<or> degraded (r_coverage a) | _ \<Rightarrow> True))"
proof -
  have cov: "r_coverage r = map (coverage_of (os_describe X)) (zip clients (outcomes X domain q reg clients))"
    using assms by (elim registry_fetch_InrD) simp
  have "zip clients (outcomes X domain q reg clients) = [] \<longleftrightarrow> clients = []"
    using length_gather [of "client_fetch X domain q (map_of (rg_tools reg) domain)" clients reg]
    by (cases clients; cases "outcomes X domain q reg clients") (auto simp: outcomes_def)
  then show ?thesis unfolding cov degraded_map coverage_of_degrades_pair by simp
qed

theorem registry_fetch_degraded_witness:
  "\<exists>r. fst (registry_fetch ex_outside ''net'' ex_query ex_registry) = Inr r \<and> degraded (r_coverage r)"
proof (rule ex_fetch)
  fix r reg'
  assume f: "registry_fetch ex_outside ''net'' ex_query ex_registry = (Inr r, reg')"
    and c: "map_of (rg_endpoints ex_registry) ''net'' = Some [ex_client ''a'' True, ex_client ''b'' False]"
  have "\<exists>(cl, out)\<in>set (zip [ex_client ''a'' True, ex_client ''b'' False]
      (outcomes ex_outside ''net'' ex_query ex_registry [ex_client ''a'' True, ex_client ''b'' False])). ec_required cl
        \<and> (case out of Fetched a skipped \<Rightarrow> 0 < skipped \<or> degraded (r_coverage a) | _ \<Rightarrow> True)"
    by code_simp
  with registry_fetch_degraded [OF f c] f show ?thesis by simp
qed

text \<open>
  The merged topology has every entity any endpoint knows exactly once, each label with the
  value of the first endpoint that gives it, every relationship once with the attributes of the
  last endpoint, and coverage that never degrades a finding; the result is what every call in
  the next \<open>TOPOLOGY_TTL_SECONDS\<close> returns.
\<close>

lemma registry_topology_merges:
  assumes "map_of (rg_cache reg) (region, sc) = None"
    and "registry_topology ask now later region sc reg = (Some r, reg')"
    and "\<forall>a\<in>set (topology_answers ask reg). \<forall>e\<in>set (tr_entities a). distinct (keys (e_labels e))"
  shows "let es = concat (map tr_entities (topology_answers ask reg)); eds = concat (map tr_relationships (topology_answers ask reg)) in
      distinct (map entity_node (tr_entities r)) \<and> entity_node ` set (tr_entities r) = entity_node ` set es
      \<and> (\<forall>v\<in>set (tr_entities r). \<forall>l. map_of (e_labels v) l =
            (case filter (\<lambda>e. map_of (e_labels e) l \<noteq> None) (filter (\<lambda>e. entity_node e = entity_node v) es) of
               [] \<Rightarrow> None | e # _ \<Rightarrow> map_of (e_labels e) l))
      \<and> distinct (map edge_key (tr_relationships r)) \<and> edge_key ` set (tr_relationships r) = edge_key ` set eds
      \<and> (\<forall>ed\<in>set (tr_relationships r). ed = last (filter (\<lambda>x. edge_key x = edge_key ed) eds))
      \<and> (\<forall>c\<in>set (tr_coverage r). \<not> c_required c)
      \<and> (\<forall>t. t - later < TOPOLOGY_TTL_SECONDS \<longrightarrow> registry_topology ask t later' region sc reg' = (Some r, reg'))"
proof -
  define es where "es = concat (map tr_entities (topology_answers ask reg))"
  define eds where "eds = concat (map tr_relationships (topology_answers ask reg))"
  have r: "r = merge_topology region (zip (rg_topology reg) (fst (gather ask (rg_topology reg) reg)))"
    and cache: "map_of (rg_cache reg') (region, sc) = Some (later, r)"
    using registry_topology_fresh [OF assms(1,2)] by blast+
  have ents: "tr_entities r = vals (merge_all entity_node merge_labels es)"
    and rels: "tr_relationships r = vals (merge_all edge_key latest_edge eds)"
    unfolding r es_def eds_def topology_answers_def by (simp_all add: merged_entities merged_edges)
  have en: "map entity_node (tr_entities r) = keys (merge_all entity_node merge_labels es)"
    and ek: "map edge_key (tr_relationships r) = keys (merge_all edge_key latest_edge eds)"
    unfolding ents rels by (rule entity_merge.keys_of_vals edge_merge.keys_of_vals)+
  have "map_of (e_labels v) l =
      (case filter (\<lambda>e. map_of (e_labels e) l \<noteq> None) (filter (\<lambda>e. entity_node e = entity_node v) es) of
         [] \<Rightarrow> None | e # _ \<Rightarrow> map_of (e_labels e) l)" if "v \<in> set (tr_entities r)" for v l
    using merged_entity_label [where v = v and es = es and l = l] that assms(3) by (simp add: ents es_def)
  moreover have "ed = last (filter (\<lambda>x. edge_key x = edge_key ed) eds)" if "ed \<in> set (tr_relationships r)" for ed
    using merged_edge_last [of ed eds] that by (simp add: rels)
  moreover have "\<forall>c\<in>set (tr_coverage r). \<not> c_required c"
    unfolding r by (auto simp: merge_topology_def topology_coverage_def Let_def)
  moreover have "registry_topology ask t later' region sc reg' = (Some r, reg')" if "t - later < TOPOLOGY_TTL_SECONDS" for t
    using cache that by (simp add: registry_topology_def)
  moreover have "entity_node ` set (tr_entities r) = entity_node ` set es" "distinct (map entity_node (tr_entities r))"
    using entity_merge.keys_merge [of es] entity_merge.distinct_merge [of es] unfolding en [symmetric] by simp_all
  moreover have "edge_key ` set (tr_relationships r) = edge_key ` set eds" "distinct (map edge_key (tr_relationships r))"
    using edge_merge.keys_merge [of eds] edge_merge.distinct_merge [of eds] unfolding ek [symmetric] by simp_all
  ultimately show ?thesis
    unfolding Let_def es_def [symmetric] eds_def [symmetric] by blast
qed

end
