(* ===== verification/Orchestrator.thy ===== *)
theory Orchestrator
  imports Synthesis Registry
begin

text \<open>
  The workflow of an incident (\<open>core/orchestrator.py\<close>, \<open>agents/supervisor.py\<close>): configuration
  checks, classification, the parallel analysis, the rounds of collaboration and the hand-over
  to the report. The agents behind the router are a parameter: a state of any type and what
  one batch of concurrent calls does to it.
\<close>

section \<open>Configuration\<close>

definition required_int :: "string \<Rightarrow> (string, pyval) dict \<Rightarrow> config_error + int" where
  "required_int k d =
     (case map_of d k of
        None \<Rightarrow> Inl BadShape
      | Some v \<Rightarrow> (case py_int_of v of None \<Rightarrow> Inl BadShape | Some n \<Rightarrow> Inr n))"

definition validate_config :: "(pyval \<Rightarrow> string) \<Rightarrow> (string, pyval) dict \<Rightarrow> config_error + unit" where
  "validate_config F cfg =
     and_then (case map_of cfg ''a2a'' of Some (PDict d) \<Rightarrow> Inr d | _ \<Rightarrow> Inl BadShape) (\<lambda>a2a.
     and_then (required_int ''message_timeout_seconds'' a2a) (\<lambda>mt.
     and_then (required_int ''round_timeout_seconds'' a2a) (\<lambda>rt.
     and_then (required_int ''collaboration_timeout_seconds'' a2a) (\<lambda>ct.
     and_then (required_int ''analysis_timeout_seconds'' a2a) (\<lambda>limit.
     and_then (required_int ''max_iterations'' a2a) (\<lambda>mi.
     and_then (ensure (mt < rt) (ConfigError ''message_timeout_seconds must be less than round_timeout_seconds'')) (\<lambda>_.
     and_then (ensure (rt * mi \<le> ct) (ConfigError ''round_timeout_seconds * max_iterations must be <= collaboration_timeout_seconds'')) (\<lambda>_.
     and_then (ensure (limit < ct) (ConfigError ''analysis_timeout_seconds must be < collaboration_timeout_seconds'')) (\<lambda>_.
     and_then (mapping_at ''baselines'' cfg) (\<lambda>baselines.
     let provider = lower (str_at F ''provider'' ''simulation'' baselines) in
     and_then (ensure (provider \<noteq> ''prometheus'') (ConfigError ''baselines.provider=prometheus is not implemented yet'')) (\<lambda>_.
     and_then (ensure (provider \<in> {''simulation'', ''telemetry''}) (ConfigError ''baselines.provider must be simulation or telemetry'')) (\<lambda>_.
     and_then (float_at ''metrics_z_threshold'' 3 baselines) (\<lambda>mz.
     and_then (ensure (0 < mz) (ConfigError ''baselines.metrics_z_threshold must be > 0'')) (\<lambda>_.
     and_then (float_at ''config_z_threshold'' (5 / 2) baselines) (\<lambda>cz.
     and_then (ensure (0 < cz) (ConfigError ''baselines.config_z_threshold must be > 0'')) (\<lambda>_.
       ensure (case map_of baselines ''legacy_fallback'' of None \<Rightarrow> True | Some (PBool _) \<Rightarrow> True | _ \<Rightarrow> False)
         (ConfigError ''baselines.legacy_fallback must be a boolean'')))))))))))))))))"

section \<open>Classification\<close>

definition heuristic_classify :: "incident_request \<Rightarrow> string" where
  "heuristic_classify inc =
     (let s = lower (in_description inc) in
      if contains_str ''throughput'' s \<or> contains_str ''latency'' s \<or> contains_str ''packet'' s then ''network''
      else if contains_str ''config'' s \<or> contains_str ''policy'' s then ''config''
      else if contains_str ''overload'' s \<or> contains_str ''spike'' s then ''overload''
      else ''unknown'')"

text \<open>\<open>label\<close> is what the model replies, \<open>None\<close> when it is unavailable or failed.\<close>

definition llm_label :: "(pyval \<Rightarrow> string) \<Rightarrow> (string, pyval) dict \<Rightarrow> string option" where
  "llm_label F payload =
     (let v = lower (strip (str_at F ''degradation_type'' [] payload)) in if v = [] then None else Some v)"

datatype workflow_error =
    ClassificationRequired
  | NoUnknownEntry
  | UnknownAgent string
  | MissingSender
  | TemplateFailed template_error
  | LlmUnavailable

definition classify_degradation :: "catalog \<Rightarrow> incident_request \<Rightarrow> string option \<Rightarrow> bool \<Rightarrow> workflow_error + string" where
  "classify_degradation cat inc label require_llm =
     (case label of
        Some v \<Rightarrow> if v \<in> set (keys (cat_degradation cat)) then Inr v
                  else if require_llm then Inl ClassificationRequired else Inr (heuristic_classify inc)
      | None \<Rightarrow> if require_llm then Inl ClassificationRequired else Inr (heuristic_classify inc))"

definition select_active_agents :: "string \<Rightarrow> catalog \<Rightarrow> workflow_error + string list" where
  "select_active_agents dtype cat =
     (case active_domains cat dtype of None \<Rightarrow> Inl NoUnknownEntry | Some ds \<Rightarrow> Inr ds)"

section \<open>Messages\<close>

record context_fields =
  cx_region :: string
  cx_start :: time
  cx_end :: time
  cx_scenario :: "int option"
  cx_anchor :: time
  cx_alarms :: "node list"
  cx_description :: string

record publish =
  pb_finding :: agent_finding
  pb_context :: context_fields
  pb_asked :: "string list"
  pb_round :: nat
  pb_peers :: "string list"

record answer =
  aw_request_id :: string
  aw_verdict :: "verdict option"
  aw_entity :: "node option"
  aw_summary :: string
  aw_leads :: "lead list"
  aw_finding :: "agent_finding option"
  aw_hypothesis :: "hypothesis option"

datatype body =
    FindingPublish publish
  | ValidationRequest request
  | ValidationResponse string "verdict option" "node option" string "lead list" "evidence_row list"
  | FindingUpdate nat

text \<open>What came back, and what the log keeps of it. An empty request id or sender is a missing one.\<close>

datatype reply =
    NoReply
  | ReplyRequests "request list"
  | ReplyAnswer answer
  | ReplyFinding agent_finding
  | SlimAnswer answer "evidence_row list"
  | SlimFinding string bool real nat

record message =
  ms_id :: string
  ms_sender :: string
  ms_target :: string
  ms_body :: body
  ms_round :: nat
  ms_reply :: reply

text \<open>
  One batch of concurrent calls (\<open>asyncio.gather\<close>): the state behind the router may react to
  the calls in any order and to any of them, and every call gets a result.
\<close>

type_synonym ('c, 'r, 'n) batch = "'c list \<Rightarrow> 'n \<Rightarrow> (nat \<Rightarrow> 'r) \<times> 'n"

definition gather_batch :: "('c, 'r, 'n) batch \<Rightarrow> 'c list \<Rightarrow> 'n \<Rightarrow> 'r list \<times> 'n" where
  "gather_batch f calls n = (case f calls n of (res, n') \<Rightarrow> (map res [0..<length calls], n'))"

record direct_call =
  dc_sender :: string
  dc_target :: string
  dc_body :: body
  dc_round :: nat

record analysis_call =
  nc_agent :: string
  nc_skill :: string
  nc_context :: context_fields
  nc_window_minutes :: int

datatype analysis_result = Analysed agent_finding | AnalysisTimeout | AnalysisFailed

record 'n router =
  ro_registered :: "string list option"
  ro_analysis :: "(analysis_call, analysis_result, 'n) batch"
  ro_broadcast :: "(publish, message list, 'n) batch"
  ro_direct :: "(direct_call, message, 'n) batch"

definition registered :: "'n router \<Rightarrow> string \<Rightarrow> bool" where
  "registered R agent = (case ro_registered R of None \<Rightarrow> True | Some as \<Rightarrow> agent \<in> set as)"

section \<open>State reducers\<close>

definition latest_finding :: "agent_finding \<Rightarrow> agent_finding \<Rightarrow> agent_finding" where
  "latest_finding old new = new"

definition merge_findings :: "agent_finding list \<Rightarrow> agent_finding list \<Rightarrow> agent_finding list" where
  "merge_findings existing new = vals (merge_all af_agent latest_finding (existing @ new))"

definition merge_a2a_messages :: "message list \<Rightarrow> message list \<Rightarrow> message list" where
  "merge_a2a_messages existing new = existing @ filter (\<lambda>m. ms_id m \<notin> ms_id ` set existing) new"

text \<open>Every hypothesis an agent proposed, the latest answer to it first found under its rule id.\<close>

record hypothesis_row =
  hr_hypothesis :: hypothesis
  hr_proposed_by :: string
  hr_checked_by :: string
  hr_verdict :: "verdict option"

definition hypothesis_of :: "message \<Rightarrow> hypothesis_row option" where
  "hypothesis_of m =
     (case ms_body m of
        ValidationRequest r \<Rightarrow>
          (case rq_hypothesis r of
             None \<Rightarrow> None
           | Some h \<Rightarrow>
               (let (h', v) = (case ms_reply m of
                    ReplyAnswer a \<Rightarrow> ((case aw_hypothesis a of None \<Rightarrow> h | Some x \<Rightarrow> x), aw_verdict a)
                  | SlimAnswer a _ \<Rightarrow> ((case aw_hypothesis a of None \<Rightarrow> h | Some x \<Rightarrow> x), aw_verdict a)
                  | _ \<Rightarrow> (h, None))
                in Some \<lparr>hr_hypothesis = h', hr_proposed_by = ms_sender m, hr_checked_by = ms_target m, hr_verdict = v\<rparr>))
      | _ \<Rightarrow> None)"

definition collect_hypotheses :: "message list \<Rightarrow> hypothesis_row list" where
  "collect_hypotheses ms =
     vals (fold (\<lambda>r. AList.update (hy_rule_id (hr_hypothesis r)) r) (List.map_filter hypothesis_of ms) [])"

text \<open>\<open>_slim\<close>: replies without their findings, at most five evidence rows of an answer.\<close>

definition slim_reply :: "reply \<Rightarrow> reply" where
  "slim_reply r =
     (case r of
        ReplyFinding f \<Rightarrow> SlimFinding (af_summary f) (af_anomaly f) (af_confidence f) (af_revision_count f)
      | ReplyAnswer a \<Rightarrow>
          SlimAnswer (a\<lparr>aw_finding := None\<rparr>) (case aw_finding a of None \<Rightarrow> [] | Some f \<Rightarrow> take 5 (af_evidence f))
      | _ \<Rightarrow> r)"

definition slim :: "message \<Rightarrow> message" where "slim m = m\<lparr>ms_reply := slim_reply (ms_reply m)\<rparr>"

section \<open>Analysis\<close>

definition agent_skill :: "catalog \<Rightarrow> string \<Rightarrow> workflow_error + string" where
  "agent_skill cat agent =
     (case cat_domain cat agent of None \<Rightarrow> Inl (UnknownAgent agent) | Some d \<Rightarrow> Inr (sk_id (ag_skill (d_agent d))))"

definition incident_context :: "incident_request \<Rightarrow> int \<Rightarrow> context_fields" where
  "incident_context inc window_minutes =
     (case query_window (in_reported_at inc) window_minutes of (start, end) \<Rightarrow>
        \<lparr>cx_region = in_region inc, cx_start = start, cx_end = end, cx_scenario = in_scenario inc,
         cx_anchor = in_reported_at inc, cx_alarms = in_alarm_entities inc, cx_description = in_description inc\<rparr>)"

record analysis_outcome =
  ao_findings :: "agent_finding list"
  ao_timed_out :: "string list"
  ao_errored :: "string list"

definition sort_result :: "string \<times> analysis_result \<Rightarrow> analysis_outcome \<Rightarrow> analysis_outcome" where
  "sort_result = (\<lambda>(agent, res) o1.
     (case res of
        Analysed f \<Rightarrow> o1\<lparr>ao_findings := ao_findings o1 @ [f]\<rparr>
      | AnalysisTimeout \<Rightarrow> o1\<lparr>ao_timed_out := ao_timed_out o1 @ [agent]\<rparr>
      | AnalysisFailed \<Rightarrow> o1\<lparr>ao_errored := ao_errored o1 @ [agent]\<rparr>))"

definition analysis_node :: "'n router \<Rightarrow> catalog \<Rightarrow> incident_request \<Rightarrow> int \<Rightarrow> string list \<Rightarrow> 'n
    \<Rightarrow> workflow_error + (analysis_outcome \<times> 'n)" where
  "analysis_node R cat inc window_minutes active n =
     and_then (traverse (agent_skill cat) active) (\<lambda>skills.
       case gather_batch (ro_analysis R)
              (map (\<lambda>(a, s). \<lparr>nc_agent = a, nc_skill = s, nc_context = incident_context inc window_minutes,
                 nc_window_minutes = window_minutes\<rparr>) (zip active skills)) n of
         (results, n') \<Rightarrow>
           Inr (fold sort_result (zip active results) \<lparr>ao_findings = [], ao_timed_out = [], ao_errored = []\<rparr>, n'))"

section \<open>Collaboration\<close>

definition should_short_circuit :: "agent_finding list \<Rightarrow> bool \<Rightarrow> bool \<Rightarrow> bool" where
  "should_short_circuit fs llm_on alarm =
     (if llm_on \<and> (alarm \<or> list_ex (\<lambda>f. af_unclassified f \<noteq> []) fs) then False
      else 0 < length fs \<and> list_all (\<lambda>f. \<not> af_anomaly f) fs)"

definition requests_in :: "message \<Rightarrow> request list" where
  "requests_in m = (case ms_reply m of ReplyRequests rs \<Rightarrow> rs | _ \<Rightarrow> [])"

definition collect_request :: "'n router \<Rightarrow> string list \<Rightarrow> request \<Rightarrow> (string, request) dict \<Rightarrow> (string, request) dict" where
  "collect_request R asked r reqs =
     (if rq_id r \<noteq> [] \<and> rq_id r \<notin> set asked \<and> rq_id r \<notin> set (keys reqs) \<and> registered R (rq_target r)
      then reqs @ [(rq_id r, r)] else reqs)"

definition budget_order :: "request \<Rightarrow> nat \<times> string \<times> string" where
  "budget_order r = (rq_hops r, rq_target r, snd (rq_entity r))"

definition limit_requests :: "nat \<Rightarrow> (string, request) dict \<Rightarrow> (string, request) dict" where
  "limit_requests budget reqs =
     (if budget < length reqs
      then fold (\<lambda>r. AList.update (rq_id r) r) (take budget (sort_key budget_order (vals reqs))) []
      else reqs)"

definition round_requests :: "'n router \<Rightarrow> catalog \<Rightarrow> string list \<Rightarrow> message list \<Rightarrow> (string, request) dict" where
  "round_requests R cat asked ms =
     limit_requests (iv_max_requests (cat_investigation cat))
       (fold (collect_request R asked) (concat (map requests_in ms)) [])"

definition ask_call :: "nat \<Rightarrow> request \<Rightarrow> workflow_error + direct_call" where
  "ask_call k r =
     (case rq_sender r of
        None \<Rightarrow> Inl MissingSender
      | Some s \<Rightarrow> Inr \<lparr>dc_sender = s, dc_target = rq_target r, dc_body = ValidationRequest r, dc_round = k\<rparr>)"

definition delivery :: "nat \<Rightarrow> direct_call \<times> message \<Rightarrow> direct_call option" where
  "delivery k = (\<lambda>(call, m).
     (case ms_reply m of
        ReplyAnswer a \<Rightarrow>
          if aw_request_id a = [] then None
          else Some \<lparr>dc_sender = dc_target call, dc_target = dc_sender call,
                     dc_body = ValidationResponse (aw_request_id a) (aw_verdict a) (aw_entity a) (aw_summary a) (aw_leads a)
                       (case aw_finding a of None \<Rightarrow> [] | Some f \<Rightarrow> take 5 (af_evidence f)),
                     dc_round = k\<rparr>
      | _ \<Rightarrow> None))"

definition update_call :: "nat \<Rightarrow> agent_finding \<Rightarrow> direct_call" where
  "update_call k f = \<lparr>dc_sender = af_agent f, dc_target = af_agent f, dc_body = FindingUpdate k, dc_round = k\<rparr>"

definition revise :: "printer \<Rightarrow> catalog \<Rightarrow> agent_finding list \<Rightarrow> agent_finding \<times> message \<Rightarrow> workflow_error + agent_finding" where
  "revise P cat fs = (\<lambda>(f, m).
     (case ms_reply m of
        ReplyFinding g \<Rightarrow>
          if af_agent g = af_agent f then Inr g
          else (case reconsider P f (filter (\<lambda>p. af_agent p \<noteq> af_agent f) fs) cat of
                  Inl e \<Rightarrow> Inl (TemplateFailed e) | Inr h \<Rightarrow> Inr h)
      | _ \<Rightarrow> (case reconsider P f (filter (\<lambda>p. af_agent p \<noteq> af_agent f) fs) cat of
                Inl e \<Rightarrow> Inl (TemplateFailed e) | Inr h \<Rightarrow> Inr h)))"

definition summaries :: "agent_finding list \<Rightarrow> (string, string) dict" where
  "summaries fs = fold (\<lambda>f. AList.update (af_agent f) (af_summary f)) fs []"

definition same_dict :: "(string, string) dict \<Rightarrow> (string, string) dict \<Rightarrow> bool" where
  "same_dict d e = list_all (\<lambda>k. map_of d k = map_of e k) (keys d @ keys e)"

record 'n collaboration =
  cl_findings :: "agent_finding list"
  cl_asked :: "string list"
  cl_messages :: "message list"
  cl_round :: int
  cl_net :: 'n

text \<open>One round; the second component is whether it asked anything.\<close>

definition collaboration_round :: "'n router \<Rightarrow> printer \<Rightarrow> catalog \<Rightarrow> context_fields \<Rightarrow> nat \<Rightarrow> 'n collaboration
    \<Rightarrow> workflow_error + ('n collaboration \<times> bool)" where
  "collaboration_round R P cat cx k st =
     (let fs = cl_findings st in
      case gather_batch (ro_broadcast R)
             (map (\<lambda>f. \<lparr>pb_finding = f, pb_context = cx, pb_asked = sorted_set (cl_asked st), pb_round = k,
                pb_peers = map af_agent fs\<rparr>) fs) (cl_net st) of
        (published, n1) \<Rightarrow>
          let reqs = round_requests R cat (cl_asked st) (concat published) in
          and_then (traverse (ask_call k) (vals reqs)) (\<lambda>asks.
          case gather_batch (ro_direct R) asks n1 of
            (replies, n2) \<Rightarrow>
          case gather_batch (ro_direct R) (List.map_filter (delivery k) (zip asks replies)) n2 of
            (delivered, n3) \<Rightarrow>
          case gather_batch (ro_direct R) (map (update_call k) fs) n3 of
            (updates, n4) \<Rightarrow>
          and_then (traverse (revise P cat fs) (zip fs updates)) (\<lambda>revised.
            Inr (st\<lparr>cl_findings := revised, cl_asked := cl_asked st @ keys reqs,
                    cl_messages := cl_messages st @ map slim (concat published @ replies @ delivered @ updates),
                    cl_round := int k, cl_net := n4\<rparr>,
                 reqs \<noteq> []))))"

fun collaboration_rounds :: "'n router \<Rightarrow> printer \<Rightarrow> catalog \<Rightarrow> context_fields \<Rightarrow> nat list \<Rightarrow> 'n collaboration
    \<Rightarrow> workflow_error + 'n collaboration" where
  "collaboration_rounds R P cat cx [] st = Inr st"
| "collaboration_rounds R P cat cx (k # ks) st =
     (case collaboration_round R P cat cx k st of
        Inl e \<Rightarrow> Inl e
      | Inr (st', asked_any) \<Rightarrow>
          if same_dict (summaries (cl_findings st')) (summaries (cl_findings st)) \<and> \<not> asked_any then Inr st'
          else collaboration_rounds R P cat cx ks st')"

definition collaboration_node :: "'n router \<Rightarrow> printer \<Rightarrow> catalog \<Rightarrow> incident_request \<Rightarrow> int \<Rightarrow> int \<Rightarrow> bool
    \<Rightarrow> agent_finding list \<Rightarrow> 'n \<Rightarrow> workflow_error + 'n collaboration" where
  "collaboration_node R P cat inc window_minutes max_iterations llm_on fs n =
     (let st = \<lparr>cl_findings = fs, cl_asked = [], cl_messages = [], cl_round = 1, cl_net = n\<rparr> in
      if should_short_circuit fs llm_on (in_alarm_entities inc \<noteq> []) then Inr st
      else and_then (collaboration_rounds R P cat (incident_context inc window_minutes)
             [1..<Suc (nat max_iterations)] st) (\<lambda>st'.
               Inr (if max_iterations < 1 then st'\<lparr>cl_round := max_iterations\<rparr> else st')))"

section \<open>The workflow\<close>

record engine =
  ng_catalog :: catalog
  ng_window_minutes :: int
  ng_max_iterations :: int
  ng_require_llm :: bool
  ng_llm_on :: bool

text \<open>
  \<open>run_incident\<close>: supervisor, analysis, collaboration, synthesizer. \<open>label\<close> and \<open>llm\<close> are the
  model's answers to the classification and the report, \<open>topology\<close> the provider's answer for
  the findings (\<open>None\<close> when it is unavailable).
\<close>

definition run_incident :: "'n router \<Rightarrow> texts \<Rightarrow> engine \<Rightarrow> string option \<Rightarrow> (string, pyval) dict option
    \<Rightarrow> ('n \<Rightarrow> topology_response option) \<Rightarrow> time \<Rightarrow> incident_request \<Rightarrow> 'n
    \<Rightarrow> workflow_error + (message, hypothesis_row) rca_report" where
  "run_incident R T E label llm topology now inc n =
     (let cat = ng_catalog E in
      and_then (classify_degradation cat inc label (ng_require_llm E)) (\<lambda>dtype.
      and_then (select_active_agents dtype cat) (\<lambda>active.
      and_then (analysis_node R cat inc (ng_window_minutes E) active n) (\<lambda>(out, n1).
      let found = merge_findings [] (ao_findings out) in
      and_then (collaboration_node R (tx_printer T) cat inc (ng_window_minutes E) (ng_max_iterations E) (ng_llm_on E) found n1) (\<lambda>st.
      let revised = merge_findings [] (cl_findings st);
          messages = merge_a2a_messages [] (cl_messages st);
          ranked = (if list_ex af_anomaly revised
                    then rank_causes revised (topology (cl_net st)) cat (in_alarm_entities inc) else [])
      in case synthesize_report T cat now llm
                \<lparr>sy_incident = in_id inc, sy_findings = revised, sy_messages = messages, sy_description = in_description inc,
                 sy_require_llm = ng_require_llm E, sy_total = Some (length active), sy_timed_out = ao_timed_out out,
                 sy_errored = ao_errored out, sy_ranked = ranked, sy_alarms = in_alarm_entities inc,
                 sy_status = incident_status revised 2, sy_hypotheses = collect_hypotheses messages\<rparr> of
           Inl LlmRequired \<Rightarrow> Inl LlmUnavailable
         | Inr r \<Rightarrow> Inr r)))))"

section \<open>Lemmas\<close>

lemma length_gather_batch [simp]: "length (fst (gather_batch f calls n)) = length calls"
  by (simp add: gather_batch_def split: prod.split)

interpretation finding_merge: keyed_merge af_agent latest_finding
  by unfold_locales (simp add: latest_finding_def)

lemma merge_findings_distinct: "distinct (map af_agent (merge_findings a b))"
  by (simp add: merge_findings_def finding_merge.keys_of_vals finding_merge.distinct_merge)

lemma vals_snoc [simp]: "vals (d @ [(k, v)]) = vals d @ [v]"
  by (simp add: vals_def)

lemma merge_findings_id: "distinct (map af_agent fs) \<Longrightarrow> merge_findings [] fs = fs"
proof -
  have "distinct (map af_agent fs) \<Longrightarrow> merge_all af_agent latest_finding fs = map (\<lambda>f. (af_agent f, f)) fs"
  proof (induction fs rule: rev_induct)
    case Nil
    then show ?case by (simp add: merge_all_def)
  next
    case (snoc f fs)
    have new: "af_agent f \<notin> set (keys (merge_all af_agent latest_finding fs))"
      using snoc.prems by (simp add: finding_merge.keys_merge)
    then have "map_of (merge_all af_agent latest_finding fs) (af_agent f) = None" by (simp add: in_keys_iff)
    with new snoc show ?case
      by (simp add: finding_merge.merge_all_snoc merge_add_def update_new_key)
  qed
  then show "distinct (map af_agent fs) \<Longrightarrow> merge_findings [] fs = fs"
    by (simp add: merge_findings_def vals_def comp_def)
qed

definition request_keys_ok :: "string list \<Rightarrow> (string, request) dict \<Rightarrow> bool" where
  "request_keys_ok asked reqs \<longleftrightarrow> distinct (keys reqs) \<and> (\<forall>(k, r)\<in>set reqs. k = rq_id r) \<and> [] \<notin> set (keys reqs)
     \<and> set (keys reqs) \<inter> set asked = {}"

lemma collect_request_ok: "request_keys_ok asked reqs \<Longrightarrow> request_keys_ok asked (collect_request R asked r reqs)"
  by (auto simp: request_keys_ok_def collect_request_def keys_def)

lemma collect_requests_ok: "request_keys_ok asked reqs \<Longrightarrow> request_keys_ok asked (fold (collect_request R asked) rs reqs)"
  by (induction rs arbitrary: reqs) (auto intro: collect_request_ok)

lemma collect_requests_registered:
  "\<forall>r\<in>set (vals reqs). registered R (rq_target r) \<Longrightarrow>
     \<forall>r\<in>set (vals (fold (collect_request R asked) rs reqs)). registered R (rq_target r)"
proof (induction rs arbitrary: reqs)
  case (Cons r rs)
  have "\<forall>x\<in>set (vals (collect_request R asked r reqs)). registered R (rq_target x)"
    using Cons.prems by (auto simp: collect_request_def)
  from Cons.IH [OF this] show ?case by simp
qed simp

lemma keyed_vals: "(\<forall>(k, r)\<in>set reqs. k = rq_id r) \<Longrightarrow> map rq_id (vals reqs) = keys reqs"
  by (auto simp: keys_def vals_def)

lemma fold_update_requests:
  "distinct (map rq_id rs) \<Longrightarrow> fold (\<lambda>r. AList.update (rq_id r) r) rs [] = map (\<lambda>r. (rq_id r, r)) rs"
proof (induction rs rule: rev_induct)
  case (snoc r rs)
  then have "rq_id r \<notin> set (keys (map (\<lambda>r. (rq_id r, r)) rs))" by (auto simp: keys_def)
  with snoc show ?case by (simp add: update_new_key)
qed simp

lemma limit_requests_ok:
  assumes "request_keys_ok asked reqs"
  shows "request_keys_ok asked (limit_requests budget reqs)" "length (limit_requests budget reqs) \<le> budget"
    "set (vals (limit_requests budget reqs)) \<subseteq> set (vals reqs)"
proof -
  let ?kept = "take budget (sort_key budget_order (vals reqs))"
  have ids: "map rq_id (vals reqs) = keys reqs"
    using assms by (intro keyed_vals) (auto simp: request_keys_ok_def)
  have "distinct (map rq_id (sort_key budget_order (vals reqs)))"
    unfolding distinct_map_sort_key ids using assms by (simp add: request_keys_ok_def)
  then have d: "distinct (map rq_id ?kept)" by (metis distinct_take take_map)
  have sub: "set ?kept \<subseteq> set (vals reqs)" by (metis set_sort set_take_subset)
  then have ksub: "rq_id ` set ?kept \<subseteq> set (keys reqs)" unfolding ids [symmetric] by auto
  have "request_keys_ok asked (map (\<lambda>r. (rq_id r, r)) ?kept)"
    unfolding request_keys_ok_def
  proof (intro conjI)
    show "distinct (keys (map (\<lambda>r. (rq_id r, r)) ?kept))" using d by (simp add: keys_def comp_def)
    show "\<forall>(k, r)\<in>set (map (\<lambda>r. (rq_id r, r)) ?kept). k = rq_id r" by auto
    have "set (keys (map (\<lambda>r. (rq_id r, r)) ?kept)) \<subseteq> set (keys reqs)" using ksub by (simp add: keys_def image_image)
    with assms show "[] \<notin> set (keys (map (\<lambda>r. (rq_id r, r)) ?kept))"
      "set (keys (map (\<lambda>r. (rq_id r, r)) ?kept)) \<inter> set asked = {}"
      unfolding request_keys_ok_def by blast+
  qed
  with assms d sub show "request_keys_ok asked (limit_requests budget reqs)" "length (limit_requests budget reqs) \<le> budget"
    "set (vals (limit_requests budget reqs)) \<subseteq> set (vals reqs)"
    by (auto simp: limit_requests_def fold_update_requests) (auto simp: vals_def comp_def)
qed

lemma round_requests_ok:
  "request_keys_ok asked (round_requests R cat asked ms)"
  "length (round_requests R cat asked ms) \<le> iv_max_requests (cat_investigation cat)"
  "r \<in> set (vals (round_requests R cat asked ms)) \<Longrightarrow> registered R (rq_target r)"
proof -
  let ?all = "fold (collect_request R asked) (concat (map requests_in ms)) []"
  have ok: "request_keys_ok asked ?all"
    by (rule collect_requests_ok) (simp add: request_keys_ok_def keys_def)
  show "request_keys_ok asked (round_requests R cat asked ms)"
    "length (round_requests R cat asked ms) \<le> iv_max_requests (cat_investigation cat)"
    unfolding round_requests_def by (rule limit_requests_ok [OF ok])+
  have "\<forall>r\<in>set (vals ?all). registered R (rq_target r)"
    by (rule collect_requests_registered) (simp add: vals_def)
  then show "r \<in> set (vals (round_requests R cat asked ms)) \<Longrightarrow> registered R (rq_target r)"
    using limit_requests_ok(3) [OF ok] unfolding round_requests_def by blast
qed

lemma reconsider_agent: "reconsider P f peers cat = Inr g \<Longrightarrow> af_agent g = af_agent f"
  by (erule reconsider_cases) (auto simp: apply_effect_def split: sum.splits)

lemma revise_agent: "revise P cat fs (f, m) = Inr g \<Longrightarrow> af_agent g = af_agent f"
  by (auto simp: revise_def reconsider_agent split: reply.splits if_splits sum.splits)

lemma traverse_zip_agents:
  "traverse (revise P cat fs) (zip gs ms) = Inr hs \<Longrightarrow> length ms = length gs \<Longrightarrow> map af_agent hs = map af_agent gs"
proof (induction gs arbitrary: ms hs)
  case (Cons g gs)
  then obtain m ms' where ms: "ms = m # ms'" by (cases ms) auto
  with Cons.prems obtain h hs' where "revise P cat fs (g, m) = Inr h" "traverse (revise P cat fs) (zip gs ms') = Inr hs'"
    "hs = h # hs'" by (auto split: sum.splits)
  with Cons.IH [of ms' hs'] Cons.prems ms revise_agent show ?case by auto
qed simp

text \<open>What one round does to the state.\<close>

lemma collaboration_round_effect:
  assumes "collaboration_round R P cat cx k st = Inr (st', asked_any)"
  obtains ms where "map af_agent (cl_findings st') = map af_agent (cl_findings st)"
    "cl_asked st' = cl_asked st @ keys (round_requests R cat (cl_asked st) ms)"
    "asked_any \<longleftrightarrow> round_requests R cat (cl_asked st) ms \<noteq> []" "cl_round st' = int k"
proof -
  define fs where "fs = cl_findings st"
  obtain published n1 where p: "gather_batch (ro_broadcast R)
      (map (\<lambda>f. \<lparr>pb_finding = f, pb_context = cx, pb_asked = sorted_set (cl_asked st), pb_round = k,
         pb_peers = map af_agent fs\<rparr>) fs) (cl_net st) = (published, n1)" by force
  define reqs where "reqs = round_requests R cat (cl_asked st) (concat published)"
  obtain asks where a: "traverse (ask_call k) (vals reqs) = Inr asks"
    using assms p unfolding collaboration_round_def fs_def [symmetric] by (auto simp: reqs_def Let_def and_then_Inr)
  obtain replies n2 where d: "gather_batch (ro_direct R) asks n1 = (replies, n2)" by force
  obtain delivered n3 where e: "gather_batch (ro_direct R) (List.map_filter (delivery k) (zip asks replies)) n2 = (delivered, n3)" by force
  obtain updates n4 where u: "gather_batch (ro_direct R) (map (update_call k) fs) n3 = (updates, n4)" by force
  have len: "length updates = length fs" using length_gather_batch [of "ro_direct R" "map (update_call k) fs" n3] u by simp
  obtain revised where r: "traverse (revise P cat fs) (zip fs updates) = Inr revised"
    and st': "st' = st\<lparr>cl_findings := revised, cl_asked := cl_asked st @ keys reqs,
        cl_messages := cl_messages st @ map slim (concat published @ replies @ delivered @ updates),
        cl_round := int k, cl_net := n4\<rparr>" and any: "asked_any \<longleftrightarrow> reqs \<noteq> []"
    using assms p a d e u unfolding collaboration_round_def fs_def [symmetric] by (auto simp: reqs_def Let_def and_then_Inr)
  show ?thesis
    using that [of "concat published"] traverse_zip_agents [OF r len] st' any unfolding reqs_def fs_def by simp
qed

definition asked_ok :: "nat \<Rightarrow> nat \<Rightarrow> string list \<Rightarrow> bool" where
  "asked_ok budget rounds asked \<longleftrightarrow> distinct asked \<and> [] \<notin> set asked \<and> length asked \<le> rounds * budget"

lemma collaboration_round_asked:
  assumes "collaboration_round R P cat cx k st = Inr (st', asked_any)"
    and "asked_ok (iv_max_requests (cat_investigation cat)) n (cl_asked st)"
  shows "asked_ok (iv_max_requests (cat_investigation cat)) (Suc n) (cl_asked st')"
proof -
  obtain ms where ms: "cl_asked st' = cl_asked st @ keys (round_requests R cat (cl_asked st) ms)"
    using assms(1) by (rule collaboration_round_effect)
  let ?reqs = "round_requests R cat (cl_asked st) ms"
  have "length (keys ?reqs) \<le> iv_max_requests (cat_investigation cat)"
    using round_requests_ok(2) [of R cat "cl_asked st" ms] by (simp add: keys_def)
  with round_requests_ok(1) [of "cl_asked st" R cat ms] assms(2) show ?thesis
    unfolding ms asked_ok_def request_keys_ok_def by auto
qed

lemma collaboration_rounds_bounded:
  "collaboration_rounds R P cat cx ks st = Inr st' \<Longrightarrow> asked_ok (iv_max_requests (cat_investigation cat)) n (cl_asked st) \<Longrightarrow>
     asked_ok (iv_max_requests (cat_investigation cat)) (n + length ks) (cl_asked st')
     \<and> map af_agent (cl_findings st') = map af_agent (cl_findings st)
     \<and> (ks \<noteq> [] \<longrightarrow> cl_round st' \<in> int ` set ks)"
proof (induction ks arbitrary: st n)
  case Nil
  then show ?case by simp
next
  case (Cons k ks)
  then obtain st1 any where r: "collaboration_round R P cat cx k st = Inr (st1, any)"
    by (auto split: sum.splits)
  note ok = collaboration_round_asked [OF r Cons.prems(2)]
  obtain ms where eff: "map af_agent (cl_findings st1) = map af_agent (cl_findings st)" "cl_round st1 = int k"
    using r by (rule collaboration_round_effect)
  show ?case
  proof (cases "same_dict (summaries (cl_findings st1)) (summaries (cl_findings st)) \<and> \<not> any")
    case True
    with Cons.prems r have "st' = st1" by simp
    moreover have "asked_ok (iv_max_requests (cat_investigation cat)) (n + length (k # ks)) (cl_asked st1)"
      using ok by (auto simp: asked_ok_def intro: order_trans)
    ultimately show ?thesis using eff by simp
  next
    case False
    with Cons.prems r have "collaboration_rounds R P cat cx ks st1 = Inr st'" by auto
    from Cons.IH [OF this ok] False eff Cons.prems r show ?thesis by (cases ks) auto
  qed
qed

section \<open>The analysis service\<close>

text \<open>What the workflow relies on of the agents: a finding carries the id of the agent that was asked.\<close>

locale analysis_service =
  fixes batch :: "(analysis_call, analysis_result, 'n) batch"
  assumes own_finding: "i < length calls \<Longrightarrow> fst (batch calls n) i = Analysed f \<Longrightarrow> af_agent f = nc_agent (calls ! i)"
begin

lemma gathered_own:
  assumes "gather_batch batch calls n = (results, n')" and "i < length calls" and "results ! i = Analysed f"
  shows "af_agent f = nc_agent (calls ! i)"
proof -
  obtain g m where b: "batch calls n = (g, m)" by force
  with assms have "results = map g [0..<length calls]" by (simp add: gather_batch_def)
  with assms b show ?thesis by (intro own_finding [where n = n]) auto
qed

lemma analysis_accounts:
  assumes "analysis_node R cat inc w active n = Inr (out, n')" and "ro_analysis R = batch"
  shows "mset (map af_agent (ao_findings out)) + mset (ao_timed_out out) + mset (ao_errored out) = mset active"
proof -
  obtain skills where sk: "traverse (agent_skill cat) active = Inr skills"
    using assms(1) by (auto simp: analysis_node_def and_then_Inr)
  have ls: "length skills = length active" by (rule traverse_length [OF sk])
  define calls where "calls = map (\<lambda>(a, s). \<lparr>nc_agent = a, nc_skill = s, nc_context = incident_context inc w,
      nc_window_minutes = w\<rparr>) (zip active skills)"
  obtain results m where g: "gather_batch batch calls n = (results, m)" by force
  have out: "out = fold sort_result (zip active results) \<lparr>ao_findings = [], ao_timed_out = [], ao_errored = []\<rparr>"
    using assms sk g by (simp add: analysis_node_def calls_def)
  have "length calls = length active" using ls by (simp add: calls_def)
  then have lr: "length results = length active" using g by (metis fst_conv length_gather_batch)
  have names: "\<forall>(a, res)\<in>set (zip active results). \<forall>f. res = Analysed f \<longrightarrow> af_agent f = a"
  proof -
    have "af_agent f = a" if mem: "(a, Analysed f) \<in> set (zip active results)" for a f
    proof -
      obtain i where i: "i < length active" "a = active ! i" "results ! i = Analysed f"
        using mem by (auto simp: set_zip)
      have "i < length calls" "nc_agent (calls ! i) = active ! i" using i(1) ls by (simp_all add: calls_def)
      with gathered_own [OF g, of i f] i show ?thesis by simp
    qed
    then show ?thesis by auto
  qed
  have "mset (map af_agent (ao_findings (fold sort_result xs o1))) + mset (ao_timed_out (fold sort_result xs o1))
        + mset (ao_errored (fold sort_result xs o1))
      = mset (map af_agent (ao_findings o1)) + mset (ao_timed_out o1) + mset (ao_errored o1) + mset (map fst xs)"
    if "\<forall>(a, res)\<in>set xs. \<forall>f. res = Analysed f \<longrightarrow> af_agent f = a" for xs o1
    using that
  proof (induction xs arbitrary: o1)
    case (Cons x xs)
    obtain a res where "x = (a, res)" by force
    with Cons show ?case by (cases res) (auto simp: sort_result_def)
  qed simp
  from this [OF names] show ?thesis by (simp add: out lr)
qed

end

lemma synthesize_lists:
  assumes "synthesize_report T cat now answer inp = Inr r"
  shows "rp_timed_out r = sy_timed_out inp \<and> rp_errored r = sy_errored inp \<and> rp_findings r = sy_findings inp"
  using assms by (auto simp: synthesize_report_def Let_def split: prod.splits if_splits)

lemma collaboration_node_findings:
  assumes "collaboration_node R P cat inc w mi llm_on fs n = Inr st"
  shows "asked_ok (iv_max_requests (cat_investigation cat)) (nat mi) (cl_asked st)
    \<and> map af_agent (cl_findings st) = map af_agent fs \<and> cl_round st \<le> max 1 mi"
proof (cases "should_short_circuit fs llm_on (in_alarm_entities inc \<noteq> [])")
  case True
  with assms show ?thesis by (auto simp: collaboration_node_def asked_ok_def)
next
  case False
  let ?st = "\<lparr>cl_findings = fs, cl_asked = [], cl_messages = [], cl_round = 1, cl_net = n\<rparr>"
  obtain st' where rounds: "collaboration_rounds R P cat (incident_context inc w) [1..<Suc (nat mi)] ?st = Inr st'"
    and st: "st = (if mi < 1 then st'\<lparr>cl_round := mi\<rparr> else st')"
    using assms False by (auto simp: collaboration_node_def Let_def and_then_Inr)
  have "asked_ok (iv_max_requests (cat_investigation cat)) 0 (cl_asked ?st)" by (simp add: asked_ok_def)
  from collaboration_rounds_bounded [OF rounds this] st show ?thesis by (auto split: if_splits)
qed

lemma active_domains_vals: "active_domains cat d = Some ds \<Longrightarrow> ds \<in> set (vals (cat_degradation cat))"
  by (force simp: active_domains_def vals_def dest: map_of_SomeD split: option.splits)

section \<open>Properties\<close>

text \<open>One agent that asks the same question in every round, and is never answered.\<close>

definition ex_request :: request where
  "ex_request = \<lparr>rq_id = ''q1'', rq_target = ''net'', rq_sender = Some ''net'', rq_entity = (''a'', ''1''), rq_filters = [],
     rq_start = 0, rq_end = 1, rq_anchor = (''a'', ''1''), rq_origin = FromEvidence, rq_path = [(''a'', ''1'')], rq_hops = 0,
     rq_hypothesis = None\<rparr>"

definition ex_message :: "body \<Rightarrow> reply \<Rightarrow> message" where
  "ex_message b r = \<lparr>ms_id = ''m'', ms_sender = ''net'', ms_target = ''net'', ms_body = b, ms_round = 1, ms_reply = r\<rparr>"

definition ex_router :: "unit router" where
  "ex_router = \<lparr>ro_registered = None,
     ro_analysis = \<lambda>calls n. (\<lambda>i. Analysed (ex_finding (nc_agent (calls ! i)) []), n),
     ro_broadcast = \<lambda>calls n. (\<lambda>i. [ex_message (FindingPublish (calls ! i)) (ReplyRequests [ex_request])], n),
     ro_direct = \<lambda>calls n. (\<lambda>i. ex_message (dc_body (calls ! i)) NoReply, n)\<rparr>"

definition ex_incident :: incident_request where
  "ex_incident = \<lparr>in_id = ''INC-1'', in_scenario = None, in_description = ''packet loss'', in_region = ''us-east-1'',
     in_reported_at = 0, in_severity = SevHigh, in_source_system = None, in_external_id = None, in_alarm_entities = []\<rparr>"

definition ex_engine :: engine where
  "ex_engine = \<lparr>ng_catalog = net_cat\<lparr>cat_degradation := [(''network'', [''net'']), (''unknown'', [''net''])]\<rparr>,
     ng_window_minutes = 30, ng_max_iterations = 2, ng_require_llm = False, ng_llm_on = False\<rparr>"



lemma ex_run:
  "case run_incident ex_router ex_texts ex_engine None None (\<lambda>_. None) 0 ex_incident () of
     Inl _ \<Rightarrow> False | Inr r \<Rightarrow> map af_agent (rp_findings r) = [''net'']"
  by code_simp



text \<open>
  C2: No agent is lost: in every report the findings, the timed out and the errored agents together
  are exactly the agents the catalog activates for the incident's degradation type, each once.
\<close>
theorem run_incident_accounts:
  assumes "\<forall>calls n i f. i < length calls \<longrightarrow> fst (ro_analysis R calls n) i = Analysed f \<longrightarrow> af_agent f = nc_agent (calls ! i)"
    and "run_incident R T E label llm topology now inc n = Inr r"
    and "\<forall>ds\<in>set (vals (cat_degradation (ng_catalog E))). distinct ds"
  shows "\<exists>dtype active. classify_degradation (ng_catalog E) inc label (ng_require_llm E) = Inr dtype
    \<and> active_domains (ng_catalog E) dtype = Some active
    \<and> mset (map af_agent (rp_findings r)) + mset (rp_timed_out r) + mset (rp_errored r) = mset active
    \<and> distinct (map af_agent (rp_findings r) @ rp_timed_out r @ rp_errored r)"
proof -
  let ?cat = "ng_catalog E"
  have svc: "analysis_service (ro_analysis R)" using assms(1) by (intro analysis_service.intro) blast
  obtain dtype active where d: "classify_degradation ?cat inc label (ng_require_llm E) = Inr dtype"
    and a: "active_domains ?cat dtype = Some active"
    using assms(2) by (auto simp: run_incident_def Let_def and_then_Inr select_active_agents_def split: option.splits)
  obtain out n1 where an: "analysis_node R ?cat inc (ng_window_minutes E) active n = Inr (out, n1)"
    using assms(2) d a by (auto simp: run_incident_def Let_def and_then_Inr select_active_agents_def)
  obtain st where c: "collaboration_node R (tx_printer T) ?cat inc (ng_window_minutes E) (ng_max_iterations E) (ng_llm_on E)
      (merge_findings [] (ao_findings out)) n1 = Inr st"
    using assms(2) d a an by (auto simp: run_incident_def Let_def and_then_Inr select_active_agents_def)
  have lists: "rp_timed_out r = ao_timed_out out" "rp_errored r = ao_errored out" "rp_findings r = merge_findings [] (cl_findings st)"
    using assms(2) d a an c
    by (auto simp: run_incident_def Let_def and_then_Inr select_active_agents_def split: sum.splits synthesis_error.splits
        dest!: synthesize_lists)
  note acc = analysis_service.analysis_accounts [OF svc an refl]
  have "distinct active" using a assms(3) active_domains_vals by blast
  then have "distinct (map af_agent (ao_findings out) @ ao_timed_out out @ ao_errored out)"
    using acc by (metis mset_append mset_eq_imp_distinct_iff union_assoc)
  then have d1: "distinct (map af_agent (ao_findings out))" by simp
  have ids: "map af_agent (cl_findings st) = map af_agent (ao_findings out)"
    using collaboration_node_findings [OF c] merge_findings_id [OF d1] by simp
  have "map af_agent (rp_findings r) = map af_agent (ao_findings out)"
    using lists(3) merge_findings_id [of "cl_findings st"] d1 ids by simp
  with acc lists d a \<open>distinct (map af_agent (ao_findings out) @ _ @ _)\<close> show ?thesis by auto
qed

theorem run_incident_accounts_witness:
  "\<exists>r. run_incident ex_router ex_texts ex_engine None None (\<lambda>_. None) 0 ex_incident () = Inr r
    \<and> distinct (map af_agent (rp_findings r) @ rp_timed_out r @ rp_errored r)"
proof -
  let ?run = "run_incident ex_router ex_texts ex_engine None None (\<lambda>_. None) 0 ex_incident ()"
  obtain r where r: "?run = Inr r" using ex_run by (cases ?run) auto
  have own: "\<forall>calls n i f. i < length calls \<longrightarrow> fst (ro_analysis ex_router calls n) i = Analysed f \<longrightarrow> af_agent f = nc_agent (calls ! i)"
    by (auto simp: ex_router_def ex_finding_def)
  have "\<forall>ds\<in>set (vals (cat_degradation (ng_catalog ex_engine))). distinct ds" by code_simp
  from run_incident_accounts [OF own r this] r show ?thesis by blast
qed

end
