(* ===== verification/Agent.thy ===== *)
theory Agent
  imports Hypotheses Orchestrator
begin

text \<open>
  A domain agent (\<open>agents/domain_agent.py\<close>): its sessions, the analysis of a window, planning
  questions, answering peers, checking hypotheses and revising its finding, as a handler of
  A2A calls over an explicit state. A handler runs to its end before the next one starts; the
  telemetry registry, the clock and the model's proposals are parameters.
\<close>

section \<open>Sessions\<close>

definition MAX_SESSIONS :: nat where "MAX_SESSIONS = 256"
definition MIN_STATUS_WINDOW :: int where "MIN_STATUS_WINDOW = seconds 60"
definition MAX_STATUS_WINDOW :: int where "MAX_STATUS_WINDOW = minutes 15"

record session =
  se_context :: "context_fields option"
  se_asked :: "string list"
  se_own :: "agent_finding option"
  se_peers :: "(nat, (string, agent_finding) dict) dict"
  se_answers :: "(nat, (request \<times> agent_finding) list) dict"
  se_leads :: "lead list"
  se_planned :: "nat list"
  se_material :: "unclassified_row list"
  se_triaged :: "string list"

definition new_session :: session where
  "new_session = \<lparr>se_context = None, se_asked = [], se_own = None, se_peers = [], se_answers = [], se_leads = [],
     se_planned = [], se_material = [], se_triaged = []\<rparr>"

type_synonym sessions = "(string, session) dict"

text \<open>\<open>get\<close>: the session moves to the end, the oldest ones are evicted.\<close>

definition evict :: "nat \<Rightarrow> sessions \<Rightarrow> sessions" where
  "evict limit ss = drop (length ss - limit) ss"

definition get_session :: "nat \<Rightarrow> string \<Rightarrow> sessions \<Rightarrow> session \<times> sessions" where
  "get_session limit key ss =
     (let s = (case map_of ss key of Some s \<Rightarrow> s | None \<Rightarrow> new_session)
      in (s, evict limit (filter (\<lambda>(k, _). k \<noteq> key) ss @ [(key, s)])))"

definition at_round :: "nat \<Rightarrow> (nat, 'a list) dict \<Rightarrow> 'a list" where
  "at_round k d = (case map_of d k of None \<Rightarrow> [] | Some xs \<Rightarrow> xs)"

section \<open>The agent's environment\<close>

record 's agent_env =
  gv_cat :: catalog
  gv_domain :: string
  gv_def :: domain_def
  gv_printer :: printer
  gv_include_baseline :: bool
  gv_legacy :: bool
  gv_lookup :: "string \<Rightarrow> string \<Rightarrow> entity_baseline option"
  gv_digest :: digest
  gv_findall :: "string \<Rightarrow> string \<Rightarrow> string list"
  gv_search :: "string \<Rightarrow> (string \<Rightarrow> bool) option"
  gv_note :: note_text
  gv_rules :: rule_env
  gv_llm_on :: bool
  gv_llm :: "agent_finding \<Rightarrow> agent_finding list \<Rightarrow> context_fields \<Rightarrow> proposal list option"
  gv_fetch :: "string \<Rightarrow> telemetry_query \<Rightarrow> 's \<Rightarrow> (fetch_error + tool_response) \<times> 's"
  gv_topology :: "string \<Rightarrow> int option \<Rightarrow> 's \<Rightarrow> topology_response option \<times> 's"

datatype agent_error =
    FetchFailed fetch_error
  | AnalysisRaised analysis_error
  | RuleRaised rule_error
  | BadRule string
  | BadQuery contract_error
  | NoFinding
  | NotCorrected template_error

section \<open>Analysing a window\<close>

definition status_query :: "time \<Rightarrow> telemetry_query \<Rightarrow> telemetry_query" where
  "status_query now q =
     q\<lparr>q_start := q_end q, q_include_baseline := False, q_end := min now (q_end q + MAX_STATUS_WINDOW)\<rparr>"

definition after_signals :: "'s agent_env \<Rightarrow> time \<Rightarrow> bool \<Rightarrow> telemetry_query \<Rightarrow> 's \<Rightarrow> (fetch_error + signal list) \<times> 's" where
  "after_signals V now scoped q s =
     (if \<not> scoped \<and> now - q_end q \<ge> MIN_STATUS_WINDOW
      then (case gv_fetch V (d_telemetry (gv_def V)) (status_query now q) s of
              (Inl e, s') \<Rightarrow> (Inl e, s') | (Inr r, s') \<Rightarrow> (Inr (r_signals r), s'))
      else (Inr [], s))"

definition analysis_env_of :: "'s agent_env \<Rightarrow> time \<Rightarrow> string \<Rightarrow> bool \<Rightarrow> telemetry_query \<Rightarrow> signal list \<Rightarrow> analysis_env" where
  "analysis_env_of V now description scoped q after =
     \<lparr>ae_region = q_region q, ae_description = description, ae_lookup = Some (gv_lookup V), ae_legacy = gv_legacy V,
      ae_now = now, ae_scoped = scoped, ae_after = after\<rparr>"

definition analyze :: "'s agent_env \<Rightarrow> time \<Rightarrow> string \<Rightarrow> bool \<Rightarrow> telemetry_query \<Rightarrow> 's \<Rightarrow> (agent_error + agent_finding) \<times> 's" where
  "analyze V now description scoped q s =
     (case gv_fetch V (d_telemetry (gv_def V)) q s of
        (Inl e, s1) \<Rightarrow> (Inl (FetchFailed e), s1)
      | (Inr r, s1) \<Rightarrow>
          (case after_signals V now scoped q s1 of
             (Inl e, s2) \<Rightarrow> (Inl (FetchFailed e), s2)
           | (Inr after, s2) \<Rightarrow>
               ((case analyze_domain (gv_printer V) (gv_cat V) (gv_domain V) (analysis_env_of V now description scoped q after) r of
                   Inl e \<Rightarrow> Inl (AnalysisRaised e) | Inr f \<Rightarrow> Inr f), s2)))"

section \<open>Planning questions\<close>

definition fresh_row :: "unclassified_row \<Rightarrow> string list \<times> unclassified_row list \<Rightarrow> string list \<times> unclassified_row list" where
  "fresh_row u = (\<lambda>(seen, fresh).
     (case un_ref u of
        Some (c # cs) \<Rightarrow> if (c # cs) \<in> set seen then (seen, fresh) else (seen @ [c # cs], fresh @ [u])
      | _ \<Rightarrow> (seen, fresh)))"

definition triage_requests :: "'s agent_env \<Rightarrow> context_fields \<Rightarrow> agent_finding list \<Rightarrow> topology_response \<Rightarrow> session
    \<Rightarrow> request list \<times> session" where
  "triage_requests V cx peers topo se =
     (case se_own se of
        None \<Rightarrow> ([], se)
      | Some own \<Rightarrow>
          if \<not> gv_llm_on V then ([], se)
          else (case fold fresh_row (af_unclassified own @ se_material se) (se_triaged se, []) of
                  (seen, fresh) \<Rightarrow>
                    let se' = se\<lparr>se_triaged := seen, se_material := []\<rparr> in
                    if fresh = [] then ([], se')
                    else (let view = own\<lparr>af_unclassified := fresh\<rparr>
                          in (to_requests (gv_rules V) (gv_domain V) view (cx_start cx) (cx_end cx) (Some topo) (gv_cat V)
                                (gv_llm V view peers cx), se'))))"

definition plan :: "'s agent_env \<Rightarrow> nat \<Rightarrow> context_fields \<Rightarrow> session \<Rightarrow> 's \<Rightarrow> request list \<times> session \<times> 's" where
  "plan V k cx se s =
     (let peers = vals (at_round k (se_peers se)) in
      case gv_topology V (cx_region cx) (cx_scenario cx) s of
        (None, s') \<Rightarrow> ([], se, s')
      | (Some topo, s') \<Rightarrow>
          (let asks = map (\<lambda>r. r\<lparr>rq_sender := Some (gv_domain V)\<rparr>)
                 (plan_requests (gv_digest V) (gv_domain V) (se_own se) peers (Some topo) (gv_cat V) (cx_start cx) (cx_end cx)
                    (cx_alarms cx) (se_leads se) (se_asked se))
           in case triage_requests V cx peers topo (se\<lparr>se_leads := []\<rparr>) of
                (proposed, se') \<Rightarrow> (proposed @ asks, se', s')))"

section \<open>Checking a hypothesis\<close>

text \<open>The scoped read of one window; the entity filters are the request's.\<close>

definition scoped_query :: "context_fields \<Rightarrow> request \<Rightarrow> bool \<Rightarrow> time \<Rightarrow> time \<Rightarrow> contract_error + telemetry_query" where
  "scoped_query cx rq baseline a b =
     mk_query \<lparr>q_region = cx_region cx, q_start = a, q_end = b,
       q_filters = Some (map (\<lambda>n. \<lparr>f_type = Some (fst n), f_id = Some (snd n), f_labels = []\<rparr>) (rq_filters rq)),
       q_include_baseline = baseline, q_scenario = cx_scenario cx, q_anchor = Some (cx_anchor cx)\<rparr>"

definition scoped_read :: "'s agent_env \<Rightarrow> context_fields \<Rightarrow> request \<Rightarrow> time \<Rightarrow> time \<Rightarrow> 's \<Rightarrow> (agent_error + tool_response) \<times> 's" where
  "scoped_read V cx rq a b s =
     (case scoped_query cx rq False a b of
        Inl e \<Rightarrow> (Inl (BadQuery e), s)
      | Inr q \<Rightarrow> (case gv_fetch V (d_telemetry (gv_def V)) q s of
                    (Inl e, s') \<Rightarrow> (Inl (FetchFailed e), s') | (Inr r, s') \<Rightarrow> (Inr r, s')))"

definition cited_refs :: "hypothesis \<Rightarrow> node list \<Rightarrow> signal list \<Rightarrow> string list" where
  "cited_refs h als ss = List.map_filter s_evidence_ref (filter (\<lambda>s. matches s (hy_signal h) als) ss)"

record checks =
  ck_grounded :: bool
  ck_fires :: bool
  ck_new :: bool
  ck_placed :: bool

definition all_checks :: "checks \<Rightarrow> bool" where
  "all_checks c \<longleftrightarrow> ck_grounded c \<and> ck_fires c \<and> ck_new c \<and> ck_placed c"

definition failed_checks :: "checks \<Rightarrow> string list" where
  "failed_checks c = map fst (filter (\<lambda>x. \<not> snd x) (zip CHECKS [ck_grounded c, ck_fires c, ck_new c, ck_placed c]))"

definition latest_peers :: "session \<Rightarrow> agent_finding list" where
  "latest_peers se =
     vals (at_round (case keys (se_peers se) of [] \<Rightarrow> 0 | k # ks \<Rightarrow> max_list k ks) (se_peers se))"

definition hypothesis_verdict :: "checks \<Rightarrow> bool \<Rightarrow> verdict" where
  "hypothesis_verdict c degraded_read = (if all_checks c then Supported else if degraded_read then Inconclusive else Refuted)"

text \<open>The hypothesis of the answer, with its examples and the pattern that survived.\<close>

definition confirmed :: "'s agent_env \<Rightarrow> hypothesis \<Rightarrow> (signal \<times> rule_hit) list \<Rightarrow> hypothesis" where
  "confirmed V h hits =
     (let ex = (if hy_examples h \<noteq> [] then hy_examples h
                else filter (\<lambda>t. t \<noteq> []) (map (hyp_text_of (pr_val (gv_printer V)) \<circ> fst) (take 3 hits)))
      in h\<lparr>hy_examples := ex, hy_pattern := verify_pattern (gv_search V) (hy_pattern h) ex\<rparr>)"

definition supported_finding :: "'s agent_env \<Rightarrow> agent_finding \<Rightarrow> hypothesis \<Rightarrow> signal \<times> rule_hit \<Rightarrow> (signal \<times> rule_hit) list
    \<Rightarrow> agent_finding" where
  "supported_finding V own h x xs =
     own\<lparr>af_anomaly := True,
         af_summary := gv_domain V @ '': verified hypothesis '' @ hy_rule_id h @ '': '' @ hy_why h,
         af_key_events := [hyp_key_event (pr_val (gv_printer V)) h x xs],
         af_evidence := [hyp_evidence_row h x xs],
         af_start := min_list1 (s_timestamp (fst x)) (map (s_timestamp \<circ> fst) xs),
         af_end := max_list (s_timestamp (fst x)) (map (s_timestamp \<circ> fst) xs),
         af_confidence := max (cf_base (d_confidence (gv_def V))) (1 / 2)\<rparr>"

definition check_summary :: "hypothesis \<Rightarrow> checks \<Rightarrow> string" where
  "check_summary h c =
     ''hypothesis '' @ hy_rule_id h @ '' on '' @ node_text (hy_entity h) @ '': ''
     @ (if all_checks c then ''all checks passed'' else ''failed '' @ comma (failed_checks c))"

text \<open>The two reads and the four checks.\<close>

definition run_checks :: "'s agent_env \<Rightarrow> context_fields \<Rightarrow> session \<Rightarrow> request \<Rightarrow> hypothesis \<Rightarrow> 's
    \<Rightarrow> (agent_error + (checks \<times> bool \<times> (signal \<times> rule_hit) list)) \<times> 's" where
  "run_checks V cx se rq h s =
     (let F = pr_val (gv_printer V); als = rq_filters rq; rid = hy_rule_id h; sig = hy_signal h in
      case rule_refusal (hy_rule h) of
        Some e \<Rightarrow> (Inl (BadRule e), s)
      | None \<Rightarrow>
      (case scoped_read V cx rq (rq_start rq) (rq_end rq) s of
         (Inl e, s1) \<Rightarrow> (Inl e, s1)
       | (Inr now, s1) \<Rightarrow>
      (case fire F (hy_rule h) rid sig (r_signals now) als (cx_region cx) of
         Inl e \<Rightarrow> (Inl (RuleRaised e), s1)
       | Inr hits \<Rightarrow>
      (case window_before (rq_start rq) (rq_end rq) (int (iv_lookback_minutes (cat_investigation (gv_cat V)))) of
         (a, b) \<Rightarrow>
      (case scoped_read V cx rq a b s1 of
         (Inl e, s2) \<Rightarrow> (Inl e, s2)
       | (Inr earlier, s2) \<Rightarrow>
      (case fire F (hy_rule h) rid sig (r_signals earlier) als (cx_region cx) of
         Inl e \<Rightarrow> (Inl (RuleRaised e), s2)
       | Inr before \<Rightarrow>
      (case gv_topology V (cx_region cx) (cx_scenario cx) s2 of
         (topo, s3) \<Rightarrow>
           (Inr (\<lparr>ck_grounded = (hy_refs h \<noteq> [] \<and> set (hy_refs h) \<subseteq> set (cited_refs h als (r_signals now))),
                  ck_fires = (hits \<noteq> []), ck_new = (before = []),
                  ck_placed = placed (hy_entity h) topo (gv_cat V) (cx_alarms cx)
                    ((case se_own se of None \<Rightarrow> [] | Some f \<Rightarrow> [f]) @ latest_peers se)\<rparr>,
                 degraded (r_coverage now) \<or> degraded (r_coverage earlier), hits), s3))))))))"

definition check_hypothesis :: "'s agent_env \<Rightarrow> context_fields \<Rightarrow> session \<Rightarrow> request \<Rightarrow> hypothesis \<Rightarrow> 's
    \<Rightarrow> (agent_error + Orchestrator.answer) \<times> 's" where
  "check_hypothesis V cx se rq h s =
     (case run_checks V cx se rq h s of
        (Inl e, s') \<Rightarrow> (Inl e, s')
      | (Inr (c, bad, hits), s') \<Rightarrow>
          (let base = \<lparr>aw_request_id = rq_id rq, aw_verdict = Some (hypothesis_verdict c bad), aw_entity = Some (rq_entity rq),
                 aw_summary = check_summary h c, aw_leads = [], aw_finding = None, aw_hypothesis = Some h\<rparr>
           in if \<not> all_checks c then (Inr base, s')
              else (case (hits, se_own se) of
                      (x # xs, Some own) \<Rightarrow>
                        (let h' = confirmed V h hits
                         in (Inr (base\<lparr>aw_finding := Some (supported_finding V own h' x xs), aw_hypothesis := Some h'\<rparr>), s'))
                    | _ \<Rightarrow> (Inl NoFinding, s'))))"

section \<open>Answering and revising\<close>

definition store_answer :: "nat \<Rightarrow> request \<Rightarrow> Orchestrator.answer \<Rightarrow> session \<Rightarrow> session" where
  "store_answer k rq a se =
     (case (aw_verdict a, aw_finding a) of
        (Some Supported, Some f) \<Rightarrow> se\<lparr>se_answers := AList.update k (at_round k (se_answers se) @ [(rq, f)]) (se_answers se)\<rparr>
      | _ \<Rightarrow> se)"

definition answer_request :: "'s agent_env \<Rightarrow> time \<Rightarrow> nat \<Rightarrow> context_fields \<Rightarrow> request \<Rightarrow> session \<Rightarrow> 's
    \<Rightarrow> (agent_error + Orchestrator.answer) \<times> session \<times> 's" where
  "answer_request V now k cx rq se s =
     (case rq_hypothesis rq of
        Some h \<Rightarrow>
          (case check_hypothesis V cx se rq h s of
             (Inl e, s') \<Rightarrow> (Inl e, se, s')
           | (Inr a, s') \<Rightarrow> (Inr a, store_answer k rq a se, s'))
      | None \<Rightarrow>
          (case scoped_query cx rq (gv_include_baseline V) (rq_start rq) (rq_end rq) of
             Inl e \<Rightarrow> (Inl (BadQuery e), se, s)
           | Inr q \<Rightarrow>
               (case analyze V now (cx_description cx) True q s of
                  (Inl e, s') \<Rightarrow> (Inl e, se, s')
                | (Inr f, s') \<Rightarrow>
                    (let se1 = (if gv_llm_on V then se\<lparr>se_material := se_material se @ af_unclassified f\<rparr> else se);
                         a = \<lparr>aw_request_id = rq_id rq, aw_verdict = Some (read_verdict f), aw_entity = Some (rq_entity rq),
                              aw_summary = af_summary f,
                              aw_leads = find_leads (gv_findall V) (pr_val (gv_printer V)) f (gv_cat V) (rq_filters rq),
                              aw_finding = Some f, aw_hypothesis = None\<rparr>
                     in (Inr a, store_answer k rq a se1, s')))))"

definition revise_own :: "'s agent_env \<Rightarrow> nat \<Rightarrow> session \<Rightarrow> agent_error + (agent_finding option \<times> session)" where
  "revise_own V k se =
     (case se_own se of
        None \<Rightarrow> Inr (None, se)
      | Some own \<Rightarrow>
          (case reconsider (gv_printer V)
                  (absorb (gv_note V) own (at_round k (se_answers se)) (gv_cat V) (Some (d_ke_limit (gv_def V))))
                  (vals (at_round k (se_peers se))) (gv_cat V) of
             Inl e \<Rightarrow> Inl (NotCorrected e)
           | Inr f \<Rightarrow> Inr (Some f, se\<lparr>se_own := Some f\<rparr>)))"

section \<open>The handler\<close>

datatype agent_call =
    Analysis string context_fields analyze_payload
  | Published string nat string publish
  | Asked string nat request
  | Answered string "lead list"
  | Update string nat

datatype agent_reply = Ack | Questions "request list" | AnswerOf Orchestrator.answer | Finding agent_finding

record 's agent_state =
  gs_sessions :: sessions
  gs_source :: 's

definition put_session :: "string \<Rightarrow> session \<Rightarrow> sessions \<Rightarrow> sessions" where
  "put_session key se ss = AList.update key se ss"

definition hear_peer :: "nat \<Rightarrow> string \<Rightarrow> agent_finding \<Rightarrow> session \<Rightarrow> session" where
  "hear_peer k sender f se =
     se\<lparr>se_peers := AList.update k (AList.update sender f (at_round k (se_peers se))) (se_peers se)\<rparr>"

definition ready_to_plan :: "'s agent_env \<Rightarrow> nat \<Rightarrow> publish \<Rightarrow> session \<Rightarrow> bool" where
  "ready_to_plan V k pb se \<longleftrightarrow>
     (let expected = set (pb_peers pb) - {gv_domain V} in
      expected \<noteq> {} \<and> expected \<subseteq> set (keys (at_round k (se_peers se))) \<and> k \<notin> set (se_planned se)
      \<and> (case se_context se of None \<Rightarrow> False | Some cx \<Rightarrow> cx_region cx \<noteq> []))"

fun handle :: "'s agent_env \<Rightarrow> time \<Rightarrow> agent_call \<Rightarrow> 's agent_state \<Rightarrow> (agent_error + agent_reply) \<times> 's agent_state" where
  "handle V now (Analysis key cx payload) st =
     (case query_from_request now (payload\<lparr>ap_baseline := gv_include_baseline V \<or> ap_baseline payload\<rparr>) of
        Inl e \<Rightarrow> (Inl (BadQuery e), st)
      | Inr q \<Rightarrow>
          (case analyze V now (cx_description cx) False q (gs_source st) of
             (Inl e, s') \<Rightarrow> (Inl e, st\<lparr>gs_source := s'\<rparr>)
           | (Inr f, s') \<Rightarrow>
               (case get_session MAX_SESSIONS key (gs_sessions st) of
                  (se, ss) \<Rightarrow>
                    (Inr (Finding f),
                     st\<lparr>gs_sessions := put_session key
                          (se\<lparr>se_context := Some (cx\<lparr>cx_start := q_start q, cx_end := q_end q\<rparr>), se_own := Some f\<rparr>) ss,
                        gs_source := s'\<rparr>))))"
| "handle V now (Published key k sender pb) st =
     (case get_session MAX_SESSIONS key (gs_sessions st) of
        (se, ss) \<Rightarrow>
          (let se1 = hear_peer k sender (pb_finding pb) (se\<lparr>se_context := Some (pb_context pb), se_asked := pb_asked pb\<rparr>) in
           if ready_to_plan V k pb se1
           then (case plan V k (pb_context pb) (se1\<lparr>se_planned := se_planned se1 @ [k]\<rparr>) (gs_source st) of
                   (asks, se2, s') \<Rightarrow> (Inr (Questions asks), st\<lparr>gs_sessions := put_session key se2 ss, gs_source := s'\<rparr>))
           else (Inr Ack, st\<lparr>gs_sessions := put_session key se1 ss\<rparr>)))"
| "handle V now (Asked key k rq) st =
     (case get_session MAX_SESSIONS key (gs_sessions st) of
        (se, ss) \<Rightarrow>
          (case se_context se of
             None \<Rightarrow> (Inr Ack, st\<lparr>gs_sessions := ss\<rparr>)
           | Some cx \<Rightarrow>
               if cx_region cx = [] then (Inr Ack, st\<lparr>gs_sessions := ss\<rparr>)
               else (case answer_request V now k cx rq se (gs_source st) of
                       (res, se', s') \<Rightarrow>
                         ((case res of Inl e \<Rightarrow> Inl e | Inr a \<Rightarrow> Inr (AnswerOf a)),
                          st\<lparr>gs_sessions := put_session key se' ss, gs_source := s'\<rparr>))))"
| "handle V now (Answered key leads) st =
     (case get_session MAX_SESSIONS key (gs_sessions st) of
        (se, ss) \<Rightarrow> (Inr Ack, st\<lparr>gs_sessions := put_session key (se\<lparr>se_leads := se_leads se @ leads\<rparr>) ss\<rparr>))"
| "handle V now (Update key k) st =
     (case get_session MAX_SESSIONS key (gs_sessions st) of
        (se, ss) \<Rightarrow>
          (case revise_own V k se of
             Inl e \<Rightarrow> (Inl e, st\<lparr>gs_sessions := ss\<rparr>)
           | Inr (None, se') \<Rightarrow> (Inr Ack, st\<lparr>gs_sessions := ss\<rparr>)
           | Inr (Some f, se') \<Rightarrow> (Inr (Finding f), st\<lparr>gs_sessions := put_session key se' ss\<rparr>)))"

section \<open>In-process agents\<close>

text \<open>
  The agents of one deployment as the router's analysis service: every call is handled by the
  agent of that domain; an exception of a handler is the task's error.
\<close>

type_synonym 's deployment = "(string, 's agent_state) dict"

definition payload_of :: "analysis_call \<Rightarrow> analyze_payload" where
  "payload_of c =
     \<lparr>ap_region = cx_region (nc_context c), ap_window_minutes = Some (nc_window_minutes c),
      ap_start = Some (cx_start (nc_context c)), ap_end = Some (cx_end (nc_context c)),
      ap_anchor = Some (cx_anchor (nc_context c)), ap_filters = None, ap_baseline = False, ap_scenario = cx_scenario (nc_context c)\<rparr>"

definition agent_for :: "'s agent_env list \<Rightarrow> string \<Rightarrow> 's agent_env option" where
  "agent_for Vs a = find (\<lambda>V. gv_domain V = a) Vs"

definition run_analysis :: "'s agent_env list \<Rightarrow> time \<Rightarrow> string \<Rightarrow> analysis_call \<Rightarrow> 's deployment
    \<Rightarrow> analysis_result \<times> 's deployment" where
  "run_analysis Vs now incident c d =
     (case (agent_for Vs (nc_agent c), map_of d (nc_agent c)) of
        (Some V, Some st) \<Rightarrow>
          (case handle V now (Analysis incident (nc_context c) (payload_of c)) st of
             (Inr (Finding f), st') \<Rightarrow> (Analysed f, AList.update (nc_agent c) st' d)
           | (_, st') \<Rightarrow> (AnalysisFailed, AList.update (nc_agent c) st' d))
      | _ \<Rightarrow> (AnalysisFailed, d))"

fun run_analyses :: "'s agent_env list \<Rightarrow> time \<Rightarrow> string \<Rightarrow> analysis_call list \<Rightarrow> 's deployment
    \<Rightarrow> analysis_result list \<times> 's deployment" where
  "run_analyses Vs now incident [] d = ([], d)"
| "run_analyses Vs now incident (c # cs) d =
     (case run_analysis Vs now incident c d of
        (r, d') \<Rightarrow> (case run_analyses Vs now incident cs d' of (rs, d'') \<Rightarrow> (r # rs, d'')))"

definition local_analysis :: "'s agent_env list \<Rightarrow> time \<Rightarrow> string \<Rightarrow> (analysis_call, analysis_result, 's deployment) batch" where
  "local_analysis Vs now incident calls d =
     (case run_analyses Vs now incident calls d of (rs, d') \<Rightarrow> (\<lambda>i. rs ! i, d'))"

section \<open>Lemmas\<close>

lemma analyze_domain_agent: "analyze_domain P cat domain env r = Inr f \<Longrightarrow> af_agent f = domain"
  by (auto simp: analyze_domain_def Let_def split: option.splits sum.splits prod.splits)

lemma analyze_agent: "analyze V now d scoped q s = (Inr f, s') \<Longrightarrow> af_agent f = gv_domain V"
  by (auto simp: analyze_def analyze_domain_agent split: prod.splits sum.splits)

lemma handle_analysis_agent:
  "handle V now (Analysis key cx payload) st = (Inr (Finding f), st') \<Longrightarrow> af_agent f = gv_domain V"
  by (auto split: sum.splits prod.splits simp: analyze_agent Let_def)

lemma run_analysis_agent:
  "run_analysis Vs now incident c d = (Analysed f, d') \<Longrightarrow> af_agent f = nc_agent c"
  by (auto simp: run_analysis_def agent_for_def simp del: handle.simps
      split: option.splits prod.splits sum.splits agent_reply.splits dest!: handle_analysis_agent find_SomeD)

lemma run_analyses_nth:
  "run_analyses Vs now incident cs d = (rs, d') \<Longrightarrow> length rs = length cs
     \<and> (\<forall>i<length cs. \<forall>f. rs ! i = Analysed f \<longrightarrow> af_agent f = nc_agent (cs ! i))"
proof (induction cs arbitrary: d rs d')
  case (Cons c cs)
  obtain r d1 where r: "run_analysis Vs now incident c d = (r, d1)" by force
  obtain rs1 d2 where rs: "run_analyses Vs now incident cs d1 = (rs1, d2)" by force
  from Cons.prems r rs have "rs = r # rs1" by simp
  with Cons.IH [OF rs] run_analysis_agent [of Vs now incident c d] r show ?case
    by (auto simp: nth_Cons split: nat.splits)
qed simp

interpretation in_process: analysis_service "local_analysis Vs now incident" for Vs now incident
proof
  fix i calls f and d :: "'a deployment"
  assume "i < length calls" "fst (local_analysis Vs now incident calls d) i = Analysed f"
  then show "af_agent f = nc_agent (calls ! i)"
    using run_analyses_nth [of Vs now incident calls d]
    by (cases "run_analyses Vs now incident calls d") (auto simp: local_analysis_def)
qed

section \<open>The session invariant\<close>

text \<open>
  A round is planned at most once, and only supported answers are kept for the revision. The
  invariant of the whole agent adds that the sessions are bounded and keyed.
\<close>

definition session_ok :: "session \<Rightarrow> bool" where
  "session_ok se \<longleftrightarrow> distinct (se_planned se)
     \<and> (\<forall>(k, xs)\<in>set (se_answers se). \<forall>(rq, f)\<in>set xs. read_verdict f = Supported)"










lemma session_ok_fields [simp]:
  "session_ok (se\<lparr>se_context := c\<rparr>) = session_ok se" "session_ok (se\<lparr>se_asked := a\<rparr>) = session_ok se"
  "session_ok (se\<lparr>se_own := w\<rparr>) = session_ok se" "session_ok (se\<lparr>se_peers := p\<rparr>) = session_ok se"
  "session_ok (se\<lparr>se_leads := l\<rparr>) = session_ok se" "session_ok (se\<lparr>se_material := m\<rparr>) = session_ok se"
  "session_ok (se\<lparr>se_triaged := t\<rparr>) = session_ok se"
  by (simp_all add: session_ok_def)








text \<open>The states an agent can be in after any calls at any times.\<close>

inductive agent_run :: "'s agent_env \<Rightarrow> 's agent_state \<Rightarrow> bool" for V where
  idle: "agent_run V \<lparr>gs_sessions = [], gs_source = s\<rparr>"
| called: "agent_run V st \<Longrightarrow> agent_run V (snd (handle V now call st))"

inductive_cases agent_runE: "agent_run V st"


text \<open>What \<open>run_checks\<close> has read when it returns.\<close>

lemma run_checks_reads:
  assumes "run_checks V cx se rq h s = (Inr (c, bad, hits), s')"
  obtains now s1 a b earlier s2 before topo where
    "rule_refusal (hy_rule h) = None"
    "scoped_read V cx rq (rq_start rq) (rq_end rq) s = (Inr now, s1)"
    "fire (pr_val (gv_printer V)) (hy_rule h) (hy_rule_id h) (hy_signal h) (r_signals now) (rq_filters rq) (cx_region cx) = Inr hits"
    "(a, b) = window_before (rq_start rq) (rq_end rq) (int (iv_lookback_minutes (cat_investigation (gv_cat V))))"
    "scoped_read V cx rq a b s1 = (Inr earlier, s2)"
    "fire (pr_val (gv_printer V)) (hy_rule h) (hy_rule_id h) (hy_signal h) (r_signals earlier) (rq_filters rq) (cx_region cx) = Inr before"
    "gv_topology V (cx_region cx) (cx_scenario cx) s2 = (topo, s')"
    "c = \<lparr>ck_grounded = (hy_refs h \<noteq> [] \<and> set (hy_refs h) \<subseteq> set (cited_refs h (rq_filters rq) (r_signals now))),
          ck_fires = (hits \<noteq> []), ck_new = (before = []),
          ck_placed = placed (hy_entity h) topo (gv_cat V) (cx_alarms cx)
            ((case se_own se of None \<Rightarrow> [] | Some f \<Rightarrow> [f]) @ latest_peers se)\<rparr>"
    "bad \<longleftrightarrow> degraded (r_coverage now) \<or> degraded (r_coverage earlier)"
  using assms unfolding run_checks_def Let_def
  by (auto split: option.splits prod.splits sum.splits)

lemma check_hypothesis_checks:
  assumes "check_hypothesis V cx se rq h s = (Inr a, s')"
  obtains c bad hits where "run_checks V cx se rq h s = (Inr (c, bad, hits), s')"
    "aw_verdict a = Some (hypothesis_verdict c bad)" "aw_finding a \<noteq> None \<longleftrightarrow> all_checks c"
  using assms unfolding check_hypothesis_def Let_def
  by (auto split: prod.splits sum.splits if_splits list.splits option.splits)

lemma placed_on_path:
  "placed e topo cat alarms fs \<longleftrightarrow>
     (\<exists>n t. resolve (build_graph cat topo) (fst e) (snd e) = Some n \<and> graph_bool (build_graph cat topo)
        \<and> t \<in> set (targets_of fs (build_graph cat topo) alarms)
        \<and> (\<exists>k\<le>iv_max_hops (cat_investigation cat). hops (nbrs (g_depends (build_graph cat topo))) k t n))"
proof -
  have "(n = t \<or> depends_on g t n m) \<longleftrightarrow> (\<exists>k\<le>m. hops (nbrs (g_depends g)) k t n)" for n t m and g :: graph
    by (auto simp: depends_on_hops Suc_le_eq) (metis hops.simps(1) neq0_conv zero_le)+
  then show ?thesis by (auto simp: placed_def Let_def list_ex_iff split: option.splits)
qed

section \<open>Properties\<close>

definition ex_hypothesis :: hypothesis where
  "ex_hypothesis = \<lparr>hy_id = ''h'', hy_rule_id = ''llm:h'', hy_domain = ''net'', hy_signal = ''sig'', hy_entity = (''a'', ''1''),
     hy_rule = EventPresence \<lparr>ep_id = None, ep_reason = None, ep_names = None, ep_min_severity = Info\<rparr>, hy_refs = [''ref1''],
     hy_role = None, hy_why = ''peer lost'', hy_signal_type = None, hy_name = [], hy_description = [], hy_pattern = None,
     hy_examples = []\<rparr>"

definition ex_hyp_request :: request where
  "ex_hyp_request = ex_request\<lparr>rq_filters := [(''a'', ''1'')], rq_start := 100, rq_end := 200, rq_origin := FromHypothesis,
     rq_hypothesis := Some ex_hypothesis\<rparr>"

definition ex_context :: context_fields where
  "ex_context = \<lparr>cx_region = ''us-east-1'', cx_start = 100, cx_end = 200, cx_scenario = None, cx_anchor = 200,
     cx_alarms = [(''a'', ''1'')], cx_description = ''loss''\<rparr>"

text \<open>The source has the cited line at 150 and nothing earlier.\<close>

definition ex_agent :: "unit agent_env" where
  "ex_agent = \<lparr>gv_cat = ex_an_cat, gv_domain = ''net'', gv_def = ex_an_domain, gv_printer = ex_printer,
     gv_include_baseline = False, gv_legacy = True, gv_lookup = \<lambda>_ _. None, gv_digest = ex_digest, gv_findall = \<lambda>_ _. [],
     gv_search = \<lambda>_. None, gv_note = \<lambda>_ _. [],
     gv_rules = \<lparr>re_validate = \<lambda>_. None, re_rule_hash = \<lambda>_ _ _. [], re_request_hash = \<lambda>_ _. []\<rparr>,
     gv_llm_on = False, gv_llm = \<lambda>_ _ _. None,
     gv_fetch = \<lambda>d q s. (Inr (ex_response (if q_start q = 100 then [ex_log 150] else []) CovOk), s),
     gv_topology = \<lambda>r sc s. (Some ex_topo, s)\<rparr>"

definition ex_session :: session where
  "ex_session = new_session\<lparr>se_context := Some ex_context, se_own := Some (ex_finding ''net'' [])\<rparr>"

lemma ex_check:
  "case fst (check_hypothesis ex_agent ex_context ex_session ex_hyp_request ex_hypothesis ()) of
     Inl _ \<Rightarrow> False | Inr a \<Rightarrow> aw_verdict a = Some Supported"
  by code_simp

text \<open>
  C3: A model's hypothesis counts as evidence only after the code has checked it: a supported answer
  (and no other) carries a finding, and then the rule is of the closed set, every cited
  reference is in the fresh read of that signal on that entity, the rule fires there, fires on
  nothing in the earlier window of the same length, and the entity is a target or lies upstream
  of one within \<open>max_hops\<close>; and a hypothesis is only refuted on reads that were complete.
\<close>
theorem hypothesis_checked:
  assumes "check_hypothesis V cx se rq h s = (Inr a, s')"
  shows "(aw_verdict a = Some Supported \<longleftrightarrow> aw_finding a \<noteq> None)
    \<and> (\<exists>now s1 lo hi earlier s2 before hits topo.
        scoped_read V cx rq (rq_start rq) (rq_end rq) s = (Inr now, s1)
        \<and> fire (pr_val (gv_printer V)) (hy_rule h) (hy_rule_id h) (hy_signal h) (r_signals now) (rq_filters rq) (cx_region cx) = Inr hits
        \<and> hi = rq_start rq - minutes (int (iv_lookback_minutes (cat_investigation (gv_cat V)))) \<and> hi - lo = rq_end rq - rq_start rq
        \<and> scoped_read V cx rq lo hi s1 = (Inr earlier, s2)
        \<and> fire (pr_val (gv_printer V)) (hy_rule h) (hy_rule_id h) (hy_signal h) (r_signals earlier) (rq_filters rq) (cx_region cx) = Inr before
        \<and> gv_topology V (cx_region cx) (cx_scenario cx) s2 = (topo, s')
        \<and> (aw_verdict a = Some Supported \<longrightarrow> rule_refusal (hy_rule h) = None
            \<and> hy_refs h \<noteq> [] \<and> set (hy_refs h) \<subseteq> set (cited_refs h (rq_filters rq) (r_signals now))
            \<and> hits \<noteq> [] \<and> before = []
            \<and> (\<exists>n t. resolve (build_graph (gv_cat V) topo) (fst (hy_entity h)) (snd (hy_entity h)) = Some n
                \<and> t \<in> set (targets_of ((case se_own se of None \<Rightarrow> [] | Some f \<Rightarrow> [f]) @ latest_peers se)
                      (build_graph (gv_cat V) topo) (cx_alarms cx))
                \<and> (\<exists>k\<le>iv_max_hops (cat_investigation (gv_cat V)). hops (nbrs (g_depends (build_graph (gv_cat V) topo))) k t n)))
        \<and> (aw_verdict a = Some Refuted \<longrightarrow> \<not> degraded (r_coverage now) \<and> \<not> degraded (r_coverage earlier)))"
proof -
  obtain c bad hits where r: "run_checks V cx se rq h s = (Inr (c, bad, hits), s')"
    and v: "aw_verdict a = Some (hypothesis_verdict c bad)" "aw_finding a \<noteq> None \<longleftrightarrow> all_checks c"
    using assms by (rule check_hypothesis_checks)
  from v have sup: "aw_verdict a = Some Supported \<longleftrightarrow> all_checks c"
    and ref: "aw_verdict a = Some Refuted \<Longrightarrow> \<not> bad" by (auto simp: hypothesis_verdict_def split: if_splits)
  from r show ?thesis
  proof (rule run_checks_reads, goal_cases)
    case (1 now s1 lo hi earlier s2 before topo)
    from 1(4) have w: "hi = rq_start rq - minutes (int (iv_lookback_minutes (cat_investigation (gv_cat V))))"
      "hi - lo = rq_end rq - rq_start rq" by (auto simp: window_before_def Let_def)
    show ?case
    proof (intro conjI exI)
      show "(aw_verdict a = Some Supported) = (aw_finding a \<noteq> None)" using sup v(2) by simp
      show "aw_verdict a = Some Supported \<longrightarrow> rule_refusal (hy_rule h) = None
            \<and> hy_refs h \<noteq> [] \<and> set (hy_refs h) \<subseteq> set (cited_refs h (rq_filters rq) (r_signals now))
            \<and> hits \<noteq> [] \<and> before = []
            \<and> (\<exists>n t. resolve (build_graph (gv_cat V) topo) (fst (hy_entity h)) (snd (hy_entity h)) = Some n
                \<and> t \<in> set (targets_of ((case se_own se of None \<Rightarrow> [] | Some f \<Rightarrow> [f]) @ latest_peers se)
                      (build_graph (gv_cat V) topo) (cx_alarms cx))
                \<and> (\<exists>k\<le>iv_max_hops (cat_investigation (gv_cat V)). hops (nbrs (g_depends (build_graph (gv_cat V) topo))) k t n))"
        unfolding sup all_checks_def 1(8) checks.select_convs placed_on_path using 1(1) by blast
      show "aw_verdict a = Some Refuted \<longrightarrow> \<not> degraded (r_coverage now) \<and> \<not> degraded (r_coverage earlier)"
        using ref 1(9) by auto
    qed (fact 1 w)+
  qed
qed

theorem hypothesis_checked_witness:
  "\<exists>a. fst (check_hypothesis ex_agent ex_context ex_session ex_hyp_request ex_hypothesis ()) = Inr a
    \<and> aw_verdict a = Some Supported \<and> aw_finding a \<noteq> None"
proof -
  let ?check = "check_hypothesis ex_agent ex_context ex_session ex_hyp_request ex_hypothesis ()"
  obtain a s' where a: "?check = (Inr a, s')" "aw_verdict a = Some Supported"
    using ex_check by (cases ?check) (auto split: sum.splits)
  from hypothesis_checked [OF a(1)] a show ?thesis by auto
qed



end
