(* ===== verification/Loader.thy ===== *)
theory Loader
  imports Correlation
begin

text \<open>
  Loading the catalog (\<open>contract/catalog_loader.py\<close>): an override file is merged into the
  default file of the same name, entry by entry, and the catalog made of the merged files
  is checked for references between files. Reading the directories, the JSON Schema of a
  file and its typed model are parameters; a catalog that fails any check is refused with
  the place of the first failure.
\<close>

section \<open>Overrides\<close>

type_synonym json_file = "(string, pyval) dict"

definition non_null :: "json_file \<Rightarrow> json_file" where
  "non_null d = filter (\<lambda>(_, v). v \<noteq> PNone) d"

text \<open>\<open>_deletions\<close>: the override without its null entries, and their names per section.\<close>

fun deletions_kept :: "json_file \<Rightarrow> json_file" where
  "deletions_kept [] = []"
| "deletions_kept ((k, PDict d) # rest) = (k, PDict (non_null d)) # deletions_kept rest"
| "deletions_kept ((k, v) # rest) = (k, v) # deletions_kept rest"

fun deletions_names :: "json_file \<Rightarrow> (string, string list) dict" where
  "deletions_names [] = []"
| "deletions_names ((k, PDict d) # rest) =
     (case map fst (filter (\<lambda>(_, v). v = PNone) d) of
        [] \<Rightarrow> deletions_names rest
      | names \<Rightarrow> (k, names) # deletions_names rest)"
| "deletions_names (_ # rest) = deletions_names rest"

definition deletions :: "json_file \<Rightarrow> json_file \<times> (string, string list) dict" where
  "deletions override = (deletions_kept override, deletions_names override)"

definition merge_entry :: "string \<times> pyval \<Rightarrow> json_file \<Rightarrow> json_file" where
  "merge_entry e merged =
     (case (snd e, map_of merged (fst e)) of
        (PDict v, Some (PDict old)) \<Rightarrow> AList.update (fst e) (PDict (dict_merge old v)) merged
      | (v, _) \<Rightarrow> AList.update (fst e) v merged)"

definition delete_names :: "string \<times> string list \<Rightarrow> json_file \<Rightarrow> json_file" where
  "delete_names e merged =
     (case map_of merged (fst e) of
        Some (PDict d) \<Rightarrow> AList.update (fst e) (PDict (filter (\<lambda>(k, _). k \<notin> set (snd e)) d)) merged
      | _ \<Rightarrow> merged)"

definition merge_file :: "json_file \<Rightarrow> json_file \<Rightarrow> (string, string list) dict \<Rightarrow> json_file" where
  "merge_file base override deleted = fold delete_names deleted (fold merge_entry override base)"

section \<open>Refusals\<close>

text \<open>
  A refusal names the place (file and field path) and the reason. \<open>BadTemplate\<close> is the
  \<open>ValueError\<close> of \<open>string.Formatter().parse\<close>, which is not a \<open>CatalogError\<close>.
\<close>

datatype reason_refused =
    UnknownTypes "string list"
  | UnknownDomains "string list"
  | UnknownSignals "string list"
  | UnknownPlaceholders "string list"
  | UnknownTool string
  | AlreadyUsed string
  | NotUniqueSkill string
  | ToolServes string
  | BadPer string
  | NeedsMinMax
  | NeedsValue
  | BadBaselineKey string
  | NotDerived string
  | Required
  | EmptyList
  | NoMarker string
  | NotOneKey "string list"
  | InvalidRegex string
  | NoTelemetryDomain string
  | NotASignal string
  | OtherDomain string
  | NoDirectory
  | UnknownFiles "string list"
  | InvalidJson
  | SchemaError
  | ModelError

datatype catalog_error = CatalogError string reason_refused | BadTemplate template_error

definition missing :: "string list \<Rightarrow> string list \<Rightarrow> string list" where
  "missing xs known = sorted_set (filter (\<lambda>x. x \<notin> set known) xs)"

text \<open>\<open>for x in xs: check(x)\<close>, with the position of \<open>x\<close> where the path needs it.\<close>

definition each :: "('a \<Rightarrow> 'e + unit) \<Rightarrow> 'a list \<Rightarrow> 'e + unit" where
  "each check xs = fold_sum (\<lambda>x _. check x) xs ()"

definition each_at :: "(nat \<Rightarrow> 'a \<Rightarrow> 'e + unit) \<Rightarrow> 'a list \<Rightarrow> 'e + unit" where
  "each_at check xs = each (\<lambda>(i, x). check i x) (enumerate 0 xs)"

lemma each_Inr: "each check xs = Inr u \<longleftrightarrow> (\<forall>x\<in>set xs. check x = Inr ())"
  unfolding each_def by (induction xs) (auto split: sum.splits)

lemma each_at_Inr: "each_at check xs = Inr u \<longleftrightarrow> (\<forall>i<length xs. check i (xs ! i) = Inr ())"
  unfolding each_at_def each_Inr Ball_def split_paired_All in_set_enumerate_eq by auto

lemma each_cong [fundef_cong]:
  "xs = ys \<Longrightarrow> (\<And>x. x \<in> set ys \<Longrightarrow> f x = g x) \<Longrightarrow> each f xs = each g ys"
proof -
  assume "xs = ys" and "\<And>x. x \<in> set ys \<Longrightarrow> f x = g x"
  then have "fold_sum (\<lambda>x _. f x) zs u = fold_sum (\<lambda>x _. g x) zs u" if "set zs \<subseteq> set ys" for zs u
    using that by (induction zs arbitrary: u) (auto split: sum.splits)
  then show ?thesis using \<open>xs = ys\<close> by (simp add: each_def)
qed

lemma each_at_cong [fundef_cong]:
  "xs = ys \<Longrightarrow> (\<And>i x. x \<in> set ys \<Longrightarrow> f i x = g i x) \<Longrightarrow> each_at f xs = each_at g ys"
  unfolding each_at_def by (intro each_cong) (auto simp: in_set_enumerate_eq)

section \<open>Checks\<close>

definition SUMMARY_ROOTS :: "string list" where
  "SUMMARY_ROOTS = [''hit_count'', ''candidate_count'', ''observation_count'', ''entity_count'', ''top_entity'',
     ''first'', ''latest'', ''worst'', ''derived'', ''domain'']"

definition NOTE_ROOTS :: "string list" where "NOTE_ROOTS = [''peer_anomaly_domains'']"

text \<open>Tools of the MCP server; \<open>None\<close> is the generic tool, which serves any domain.\<close>

definition KNOWN_TOOLS :: "(string, string option) dict" where
  "KNOWN_TOOLS = [(''get_metrics'', Some ''metrics''), (''get_logs'', Some ''logs''),
     (''get_routing_events'', Some ''routing''), (''get_config_changes'', Some ''config''),
     (''get_signals'', None)]"

definition check_roots :: "string \<Rightarrow> string list \<Rightarrow> string \<Rightarrow> catalog_error + unit" where
  "check_roots place allowed tmpl =
     (case template_roots tmpl of
        Inl e \<Rightarrow> Inl (BadTemplate e)
      | Inr roots \<Rightarrow> ensure (missing roots allowed = []) (CatalogError place (UnknownPlaceholders (missing roots allowed))))"

definition known_domains :: "string \<Rightarrow> string list \<Rightarrow> string list option \<Rightarrow> catalog_error + unit" where
  "known_domains place domains ds =
     (case ds of None \<Rightarrow> Inr ()
      | Some ds \<Rightarrow> ensure (missing ds domains = []) (CatalogError (place @ ''.domains'') (UnknownDomains (missing ds domains))))"

definition set_keys :: "condition \<Rightarrow> string list" where
  "set_keys c =
     (if cd_key_event c \<noteq> None then [''key_event''] else []) @
     (if cd_summary_contains c \<noteq> None then [''summary_contains''] else []) @
     (if cd_peer_anomaly c \<noteq> None then [''peer_anomaly''] else []) @
     (if cd_any c \<noteq> None then [''any''] else []) @
     (if cd_all c \<noteq> None then [''all''] else [])"

definition opt_list :: "'a list option \<Rightarrow> 'a list" where
  "opt_list x = (case x of None \<Rightarrow> [] | Some xs \<Rightarrow> xs)"

definition at_index :: "string \<Rightarrow> nat \<Rightarrow> string" where
  "at_index place i = place @ ''.'' @ nat_str i"

definition own_domains :: "condition \<Rightarrow> (string \<times> string list option) list" where
  "own_domains c =
     (case cd_key_event c of None \<Rightarrow> [] | Some k \<Rightarrow> [(''key_event'', ps_domains (kc_scope k))]) @
     (case cd_summary_contains c of None \<Rightarrow> [] | Some (sc, _) \<Rightarrow> [(''summary_contains'', ps_domains sc)]) @
     (case cd_peer_anomaly c of None \<Rightarrow> [] | Some ds \<Rightarrow> [(''peer_anomaly'', ds)])"

lemma size_any_sub: "c \<in> set (opt_list (cd_any c')) \<Longrightarrow> size c < size c'"
  and size_all_sub: "c \<in> set (opt_list (cd_all c')) \<Longrightarrow> size c < size c'"
  by (cases c'; auto simp: opt_list_def less_Suc_eq_le split: option.splits
        dest: size_list_estimation' [OF _ order_refl, of _ _ size] intro: le_trans)+

lemmas size_sub = size_any_sub [where c' = "Condition ke sc pa an al" for ke sc pa an al, unfolded condition.sel]
  size_all_sub [where c' = "Condition ke sc pa an al" for ke sc pa an al, unfolded condition.sel]

function check_condition :: "condition \<Rightarrow> string \<Rightarrow> string list \<Rightarrow> catalog_error + unit" where
  "check_condition (Condition ke sc pa an al) place domains =
     (let c = Condition ke sc pa an al
      in and_then (ensure (length (set_keys c) = 1) (CatalogError place (NotOneKey (set_keys c)))) (\<lambda>_.
         and_then (each (\<lambda>(k, ds). known_domains (place @ ''.'' @ k) domains ds) (own_domains c)) (\<lambda>_.
         and_then (each_at (\<lambda>i sub. check_condition sub (at_index (place @ ''.any'') i) domains) (opt_list an)) (\<lambda>_.
         each_at (\<lambda>i sub. check_condition sub (at_index (place @ ''.all'') i) domains) (opt_list al)))))"
  by pat_completeness auto
termination
  by (relation "measure (\<lambda>(c, _, _). size c)") (auto dest: size_sub)

declare check_condition.simps [simp del]

section \<open>Cross-file validation\<close>

definition unknown_types :: "catalog \<Rightarrow> string list \<Rightarrow> string list" where
  "unknown_types cat xs = missing xs (keys (ent_types (cat_entities cat)))"

definition unknown_domains :: "catalog \<Rightarrow> string list \<Rightarrow> string list" where
  "unknown_domains cat xs = missing xs (domain_ids cat)"

definition check_relationship :: "catalog \<Rightarrow> string \<times> relationship \<Rightarrow> catalog_error + unit" where
  "check_relationship cat e =
     (let place = ''entities.json: relationships.'' @ fst e @ ''.''
      in each (\<lambda>(side, ts). ensure (unknown_types cat ts = [])
           (CatalogError (place @ side) (UnknownTypes (unknown_types cat ts))))
         [(''source'', rel_source (snd e)), (''target'', rel_target (snd e))])"

type_synonym claims = "(string, string) dict"

text \<open>One name of a signal; \<open>seen\<close> maps the names claimed so far to their signals.\<close>

definition claim_alias :: "string \<Rightarrow> string \<Rightarrow> string \<Rightarrow> claims \<Rightarrow> catalog_error + claims" where
  "claim_alias place name alias seen =
     (case map_of seen alias of
        Some other \<Rightarrow> if other = name then Inr (AList.update alias name seen)
                      else Inl (CatalogError (place @ ''.match_names'') (AlreadyUsed other))
      | None \<Rightarrow> Inr (AList.update alias name seen))"

definition check_threshold :: "string \<Rightarrow> threshold_rule \<Rightarrow> catalog_error + unit" where
  "check_threshold place r =
     and_then (case th_per r of
         None \<Rightarrow> Inr ()
       | Some p \<Rightarrow> ensure (starts_with ''attributes.'' p \<or> starts_with ''labels.'' p)
                   (CatalogError (place @ ''.rule.per'') (BadPer p))) (\<lambda>_.
     and_then (ensure (th_op r = Between \<longrightarrow> th_min r \<noteq> None \<and> th_max r \<noteq> None)
                 (CatalogError (place @ ''.rule'') NeedsMinMax)) (\<lambda>_.
     ensure (th_op r \<noteq> Between \<longrightarrow> th_value r \<noteq> None) (CatalogError (place @ ''.rule.value'') NeedsValue)))"

definition check_baseline_key :: "string \<Rightarrow> nat \<Rightarrow> string \<Rightarrow> catalog_error + unit" where
  "check_baseline_key place i key =
     (let src = after_char CHR ''='' key
      in ensure (before_char CHR ''='' key \<noteq> []
             \<and> (src \<in> {''entity_id'', ''entity_type'', ''region''} \<or> starts_with ''label:'' src))
           (CatalogError (at_index (place @ ''.rule.baseline_keys'') i) (BadBaselineKey key)))"

definition check_rule :: "string \<Rightarrow> rule option \<Rightarrow> catalog_error + unit" where
  "check_rule place r =
     (case r of
        Some (Threshold t) \<Rightarrow> check_threshold place t
      | Some (ZScoreBaseline z) \<Rightarrow> each_at (check_baseline_key place) (zs_keys z)
      | _ \<Rightarrow> Inr ())"

definition check_signal :: "catalog \<Rightarrow> string \<times> signal_def \<Rightarrow> claims \<Rightarrow> catalog_error + claims" where
  "check_signal cat e seen =
     (let place = ''signals.json: signals.'' @ fst e; sg = snd e
      in and_then (ensure (sd_domain sg \<in> set (domain_ids cat))
             (CatalogError (place @ ''.domain'') (UnknownDomains [sd_domain sg]))) (\<lambda>_.
         and_then (ensure (unknown_types cat (sd_entity_types sg) = [])
             (CatalogError (place @ ''.entity_types'') (UnknownTypes (unknown_types cat (sd_entity_types sg))))) (\<lambda>_.
         and_then (fold_sum (claim_alias place (fst e)) (fst e # sd_match_names sg) seen) (\<lambda>seen'.
         and_then (check_rule place (sd_rule sg)) (\<lambda>_. Inr seen')))))"

record domain_claims =
  dc_ports :: "(int, string) dict"
  dc_skills :: claims
  dc_telemetry :: claims

definition check_tool :: "string \<Rightarrow> domain_def \<Rightarrow> catalog_error + unit" where
  "check_tool place d =
     (case map_of KNOWN_TOOLS (d_tool d) of
        None \<Rightarrow> Inl (CatalogError (place @ ''.tool'') (UnknownTool (d_tool d)))
      | Some None \<Rightarrow> Inr ()
      | Some (Some t) \<Rightarrow> ensure (t = d_telemetry d) (CatalogError (place @ ''.telemetry_domain'') (ToolServes t)))"

definition claim_domain :: "string \<Rightarrow> string \<Rightarrow> domain_def \<Rightarrow> domain_claims \<Rightarrow> catalog_error + domain_claims" where
  "claim_domain place did d st =
     (let skill = sk_id (ag_skill (d_agent d)); port = ag_port (d_agent d)
      in case map_of (dc_telemetry st) (d_telemetry d) of
           Some other \<Rightarrow> Inl (CatalogError (place @ ''.telemetry_domain'') (AlreadyUsed other))
         | None \<Rightarrow>
        (case map_of (dc_ports st) port of
           Some other \<Rightarrow> Inl (CatalogError (place @ ''.agent.port'') (AlreadyUsed other))
         | None \<Rightarrow>
             and_then (ensure (skill \<notin> set (keys (dc_skills st)) \<and> skill \<noteq> ''respond-to-peer'')
               (CatalogError (place @ ''.agent.skill.id'') (NotUniqueSkill skill))) (\<lambda>_.
             Inr \<lparr>dc_ports = AList.update port did (dc_ports st), dc_skills = AList.update skill did (dc_skills st),
                  dc_telemetry = AList.update (d_telemetry d) did (dc_telemetry st)\<rparr>)))"

definition check_summaries :: "string \<Rightarrow> summary_spec \<Rightarrow> catalog_error + unit" where
  "check_summaries place ss =
     each (\<lambda>(part, vs). each_at (\<lambda>i v. check_roots (at_index (place @ ''.summary.'' @ part) i @ ''.template'')
         SUMMARY_ROOTS (sv_template v)) vs)
       [(''anomaly'', ss_anomaly ss), (''anomaly_suffixes'', ss_suffixes ss), (''clean'', ss_clean ss)]"

definition check_derived :: "catalog \<Rightarrow> string \<Rightarrow> string \<Rightarrow> nat \<Rightarrow> string \<Rightarrow> catalog_error + unit" where
  "check_derived cat place did i name =
     ensure (case map_of (cat_signals cat) name of None \<Rightarrow> False | Some sg \<Rightarrow> sd_derived sg \<and> sd_domain sg = did)
       (CatalogError (at_index (place @ ''.derived'') i @ ''.signal'') (NotDerived name))"

definition check_domain :: "catalog \<Rightarrow> claims \<Rightarrow> string \<times> domain_def \<Rightarrow> domain_claims \<Rightarrow> catalog_error + domain_claims" where
  "check_domain cat seen e st =
     (let place = ''domains.json: domains.'' @ fst e; d = snd e
      in and_then (check_tool place d) (\<lambda>_.
         and_then (claim_domain place (fst e) d st) (\<lambda>st'.
         and_then (check_summaries place (d_summary d)) (\<lambda>_.
         and_then (case d_relevance d of
             None \<Rightarrow> Inr ()
           | Some rv \<Rightarrow> ensure (missing (rv_applies_to rv) (keys seen) = [])
               (CatalogError (place @ ''.relevance.applies_to'') (UnknownSignals (missing (rv_applies_to rv) (keys seen))))) (\<lambda>_.
         and_then (each_at (check_derived cat place (fst e)) (d_derived d)) (\<lambda>_. Inr st'))))))"

definition check_degradation :: "catalog \<Rightarrow> string \<times> string list \<Rightarrow> catalog_error + unit" where
  "check_degradation cat e =
     (let place = ''domains.json: degradation_map.'' @ fst e
      in and_then (ensure (unknown_domains cat (snd e) = [])
             (CatalogError place (UnknownDomains (unknown_domains cat (snd e))))) (\<lambda>_.
         ensure (snd e \<noteq> []) (CatalogError place EmptyList)))"

definition check_correlation :: "catalog \<Rightarrow> string \<times> correlation_rule \<Rightarrow> catalog_error + unit" where
  "check_correlation cat e =
     (let place = ''correlation.json: rules.'' @ fst e; r = snd e; ef = co_effect r
      in and_then (ensure (co_domain r \<in> set (domain_ids cat))
             (CatalogError (place @ ''.domain'') (UnknownDomains [co_domain r]))) (\<lambda>_.
         and_then (ensure (starts_with (MARKERS (ef_kind ef)) (ef_note ef))
             (CatalogError (place @ ''.effect.note'') (NoMarker (MARKERS (ef_kind ef))))) (\<lambda>_.
         and_then (check_roots (place @ ''.effect.note'') NOTE_ROOTS (ef_note ef)) (\<lambda>_.
         each_at (\<lambda>i c. check_condition c (at_index (place @ ''.when.all'') i) (domain_ids cat)) (co_when r)))))"

definition check_probe :: "catalog \<Rightarrow> string \<times> string list \<Rightarrow> catalog_error + unit" where
  "check_probe cat e =
     (let place = ''investigation.json: probes.'' @ fst e
      in and_then (ensure (unknown_types cat [fst e] = []) (CatalogError place (UnknownTypes [fst e]))) (\<lambda>_.
         ensure (unknown_domains cat (snd e) = []) (CatalogError place (UnknownDomains (unknown_domains cat (snd e))))))"

text \<open>\<open>re_ok\<close> stands for \<open>re.compile\<close> not raising.\<close>

definition check_lead :: "(string \<Rightarrow> bool) \<Rightarrow> catalog \<Rightarrow> string \<times> string \<Rightarrow> catalog_error + unit" where
  "check_lead re_ok cat e =
     (let place = ''investigation.json: lead_patterns.'' @ fst e
      in and_then (ensure (unknown_types cat [snd e] = []) (CatalogError place (UnknownTypes [snd e]))) (\<lambda>_.
         ensure (re_ok (fst e)) (CatalogError place (InvalidRegex (fst e)))))"

text \<open>
  \<open>cat.domain(...)\<close> cannot raise here, because the signal's domain was checked before; the
  branch without a domain is the one of another domain.
\<close>

definition check_emit :: "catalog \<Rightarrow> string \<Rightarrow> source_mapping \<Rightarrow> nat \<Rightarrow> emit_spec \<Rightarrow> catalog_error + unit" where
  "check_emit cat place m i em =
     (let spot = at_index (place @ ''.emit'') i @ ''.name''
      in case cat_signal cat (es_name em) of
           None \<Rightarrow> Inl (CatalogError spot (NotASignal (es_name em)))
         | Some (_, sg) \<Rightarrow>
             ensure (map_option d_telemetry (cat_domain cat (sd_domain sg)) = Some (sm_domain m))
               (CatalogError spot (OtherDomain (sd_domain sg))))"

definition check_mapping :: "catalog \<Rightarrow> claims \<Rightarrow> string \<times> source_mapping \<Rightarrow> catalog_error + unit" where
  "check_mapping cat telemetry e =
     (let place = ''sources.json: mappings.'' @ fst e
      in and_then (ensure (sm_domain (snd e) \<in> set (keys telemetry))
             (CatalogError (place @ ''.domain'') (NoTelemetryDomain (sm_domain (snd e))))) (\<lambda>_.
         each_at (check_emit cat place (snd e)) (sm_emit (snd e))))"

definition cross_validate :: "(string \<Rightarrow> bool) \<Rightarrow> catalog \<Rightarrow> catalog_error + unit" where
  "cross_validate re_ok cat =
     and_then (each (check_relationship cat) (ent_relationships (cat_entities cat))) (\<lambda>_.
     and_then (fold_sum (check_signal cat) (cat_signals cat) []) (\<lambda>seen.
     and_then (fold_sum (check_domain cat seen) (cat_domains cat) \<lparr>dc_ports = [], dc_skills = [], dc_telemetry = []\<rparr>) (\<lambda>st.
     and_then (ensure (''unknown'' \<in> set (keys (cat_degradation cat)))
        (CatalogError ''domains.json: degradation_map.unknown'' Required)) (\<lambda>_.
     and_then (each (check_degradation cat) (cat_degradation cat)) (\<lambda>_.
     and_then (each (check_correlation cat) (cat_correlation cat)) (\<lambda>_.
     and_then (each (check_probe cat) (iv_probes (cat_investigation cat))) (\<lambda>_.
     and_then (each (check_lead re_ok cat) (iv_lead_patterns (cat_investigation cat))) (\<lambda>_.
     each (check_mapping cat (dc_telemetry st)) (cat_sources cat)))))))))"

section \<open>Loading\<close>

text \<open>
  The \<open>*.json\<close> files of a directory: their parsed contents, or the place where parsing
  failed. A missing directory is \<open>None\<close>. \<open>ld_schema\<close> is the JSON Schema check of a file,
  \<open>ld_model\<close> its typed model and \<open>ld_build\<close> the catalog made of the typed files.
\<close>

type_synonym catalog_dir = "(string, string + json_file) dict"

record loader =
  ld_schema :: "string \<Rightarrow> json_file \<Rightarrow> string option"
  ld_model :: "string \<Rightarrow> json_file \<Rightarrow> string option"
  ld_build :: "(string, json_file) dict \<Rightarrow> catalog"
  ld_regex :: "string \<Rightarrow> bool"

definition CATALOG_FILES :: "string list" where
  "CATALOG_FILES = [''entities.json'', ''signals.json'', ''domains.json'', ''correlation.json'', ''sources.json'',
     ''investigation.json'']"

definition read_json :: "string + json_file \<Rightarrow> catalog_error + json_file" where
  "read_json f = (case f of Inl place \<Rightarrow> Inl (CatalogError place InvalidJson) | Inr d \<Rightarrow> Inr d)"

definition validate_file :: "loader \<Rightarrow> string \<Rightarrow> json_file \<Rightarrow> catalog_error + unit" where
  "validate_file L name d =
     (case ld_schema L name d of None \<Rightarrow> Inr () | Some place \<Rightarrow> Inl (CatalogError place SchemaError))"

text \<open>One file: the default, checked, merged with the override if there is one, checked again.\<close>

definition load_file :: "loader \<Rightarrow> catalog_dir \<Rightarrow> catalog_dir \<Rightarrow> string \<Rightarrow> catalog_error + string \<times> json_file" where
  "load_file L base override name =
     and_then (case map_of base name of None \<Rightarrow> Inr [] | Some f \<Rightarrow> read_json f) (\<lambda>d.
     and_then (validate_file L name d) (\<lambda>_.
     and_then (case map_of override name of
         None \<Rightarrow> Inr d
       | Some f \<Rightarrow>
           and_then (read_json f) (\<lambda>ov.
           and_then (validate_file L name (fst (deletions ov))) (\<lambda>_.
           Inr (merge_file d (fst (deletions ov)) (snd (deletions ov)))))) (\<lambda>d'.
     and_then (validate_file L name d') (\<lambda>_.
     (case ld_model L name d' of
        None \<Rightarrow> Inr (name, d')
      | Some place \<Rightarrow> Inl (CatalogError place ModelError))))))"

definition load_catalog :: "loader \<Rightarrow> catalog_dir \<Rightarrow> catalog_dir option option \<Rightarrow> catalog_error + catalog" where
  "load_catalog L base override =
     and_then (case override of
         None \<Rightarrow> Inr []
       | Some None \<Rightarrow> Inl (CatalogError [] NoDirectory)
       | Some (Some dir) \<Rightarrow>
           and_then (ensure (missing (keys dir) CATALOG_FILES = [])
             (CatalogError [] (UnknownFiles (missing (keys dir) CATALOG_FILES)))) (\<lambda>_. Inr dir)) (\<lambda>dir.
     and_then (traverse (load_file L base dir) CATALOG_FILES) (\<lambda>files.
     let cat = ld_build L files
     in and_then (cross_validate (ld_regex L) cat) (\<lambda>_. Inr cat)))"

section \<open>Facts about overrides\<close>

text \<open>A fold whose steps each touch only the key of their own entry.\<close>

lemma fold_own_key:
  assumes other: "\<And>e d k. k \<noteq> fst e \<Longrightarrow> map_of (f e d) k = map_of d k"
    and own: "\<And>e d d'. map_of d (fst e) = map_of d' (fst e) \<Longrightarrow> map_of (f e d) (fst e) = map_of (f e d') (fst e)"
    and "distinct (keys es)"
  shows "map_of (fold f es d) k = (case map_of es k of None \<Rightarrow> map_of d k | Some v \<Rightarrow> map_of (f (k, v) d) k)"
  using assms(3)
proof (induction es arbitrary: d)
  case (Cons e es)
  obtain a v where e: "e = (a, v)" by force
  have a: "map_of es a = None" and IH: "map_of (fold f es (f e d)) k
      = (case map_of es k of None \<Rightarrow> map_of (f e d) k | Some w \<Rightarrow> map_of (f (k, w) (f e d)) k)"
    using Cons.IH [of "f e d"] Cons.prems by (simp_all add: keys_def e map_of_eq_None_iff)
  show ?case
  proof (cases "k = a")
    case True
    then show ?thesis using IH a by (simp add: e)
  next
    case False
    then have "map_of (f e d) k = map_of d k" by (simp add: other e)
    then have "map_of (f (k, w) (f e d)) k = map_of (f (k, w) d) k" for w
      using own [of "f e d" "(k, w)" d] by simp
    then show ?thesis using IH False \<open>map_of (f e d) k = map_of d k\<close> by (simp add: e split: option.splits)
  qed
qed simp

lemma fold_merge_entry:
  "distinct (keys es) \<Longrightarrow> map_of (fold merge_entry es d) k
     = (case map_of es k of None \<Rightarrow> map_of d k | Some v \<Rightarrow> map_of (merge_entry (k, v) d) k)"
  by (rule fold_own_key) (auto simp: merge_entry_def dict_simps split: pyval.splits option.splits)

lemma fold_delete_names:
  "distinct (keys es) \<Longrightarrow> map_of (fold delete_names es d) k
     = (case map_of es k of None \<Rightarrow> map_of d k | Some v \<Rightarrow> map_of (delete_names (k, v) d) k)"
  by (rule fold_own_key) (auto simp: delete_names_def dict_simps split: pyval.splits option.splits)

lemma keys_deletions_kept: "keys (deletions_kept ov) = keys ov"
  by (induction ov rule: deletions_kept.induct) (simp_all add: keys_def)

lemma map_of_deletions_kept:
  "map_of (deletions_kept ov) k = (case map_of ov k of Some (PDict d) \<Rightarrow> Some (PDict (non_null d)) | v \<Rightarrow> v)"
  by (induction ov rule: deletions_kept.induct) auto

lemma keys_deletions_names: "set (keys (deletions_names ov)) \<subseteq> set (keys ov)"
proof (induction ov rule: deletions_names.induct)
  case (2 k d rest)
  then show ?case by (cases "map fst (filter (\<lambda>(_, v). v = PNone) d)") (auto simp: keys_def simp del: map_eq_Cons_conv)
qed (auto simp: keys_def)

lemma distinct_deletions_names: "distinct (keys ov) \<Longrightarrow> distinct (keys (deletions_names ov))"
proof (induction ov rule: deletions_names.induct)
  case (2 k d rest)
  then show ?case using keys_deletions_names [of rest] by (auto simp: keys_def split: list.splits)
qed (simp_all add: keys_def)

definition null_names :: "json_file \<Rightarrow> string list" where
  "null_names d = map fst (filter (\<lambda>(_, v). v = PNone) d)"

lemma map_of_deletions_names:
  "distinct (keys ov) \<Longrightarrow> map_of (deletions_names ov) k =
     (case map_of ov k of Some (PDict d) \<Rightarrow> if null_names d = [] then None else Some (null_names d) | _ \<Rightarrow> None)"
proof (induction ov rule: deletions_names.induct)
  case (2 a d rest)
  have "map_of (deletions_names rest) a = None"
    using 2(3) keys_deletions_names [of rest] by (auto simp: keys_def map_of_eq_None_iff)
  with 2 show ?case by (auto simp: keys_def null_names_def split: list.splits)
qed (simp_all add: keys_def map_of_eq_None_iff [THEN iffD2])

lemma map_of_filter_key: "map_of (filter (\<lambda>(k, _). P k) d) k = (if P k then map_of d k else None)"
  by (induction d) auto

lemma map_of_non_null:
  "distinct (keys d) \<Longrightarrow> map_of (non_null d) k = (if map_of d k = Some PNone then None else map_of d k)"
  unfolding non_null_def
proof (induction d)
  case (Cons p d)
  then have "map_of d (fst p) = None" by (simp add: keys_def map_of_eq_None_iff)
  with Cons show ?case by (cases p) (auto simp: keys_def)
qed simp

lemma null_names_iff: "distinct (keys d) \<Longrightarrow> k \<in> set (null_names d) \<longleftrightarrow> map_of d k = Some PNone"
  by (force simp: null_names_def keys_def)

lemma map_of_rev_distinct: "distinct (keys d) \<Longrightarrow> map_of (rev d) = map_of d"
  by (rule map_of_eqI) (auto simp: keys_def rev_map [symmetric] in_set_conv_nth map_of_eq_Some_iff)

text \<open>One section of the merged file, when both files hold an object there.\<close>

lemma merged_section:
  assumes "distinct (keys ov)" "distinct (keys new)"
    and "map_of base sec = Some (PDict old)" "map_of ov sec = Some (PDict new)"
  shows "map_of (merge_file base (fst (deletions ov)) (snd (deletions ov))) sec
    = Some (PDict (filter (\<lambda>(k, _). k \<notin> set (null_names new)) (dict_merge old (non_null new))))"
proof -
  have d: "distinct (keys (deletions_kept ov))" "distinct (keys (deletions_names ov))"
    using assms(1) by (simp_all add: keys_deletions_kept distinct_deletions_names)
  have id: "filter (\<lambda>(k, _). k \<notin> set []) m = m" for m :: json_file by (simp add: case_prod_unfold)
  have "map_of (fold merge_entry (deletions_kept ov) base) sec = Some (PDict (dict_merge old (non_null new)))"
    unfolding fold_merge_entry [OF d(1)] by (simp add: map_of_deletions_kept assms merge_entry_def dict_simps)
  then show ?thesis
    unfolding merge_file_def deletions_def fst_conv snd_conv fold_delete_names [OF d(2)]
    by (simp add: map_of_deletions_names assms delete_names_def dict_simps id)
qed

lemma untouched_section:
  assumes "distinct (keys ov)" "sec \<notin> set (keys ov)"
  shows "map_of (merge_file base (fst (deletions ov)) (snd (deletions ov))) sec = map_of base sec"
proof -
  have none: "map_of ov sec = None" using assms(2) by (simp add: in_keys_iff)
  show ?thesis using assms(1)
    by (simp add: merge_file_def deletions_def fold_delete_names fold_merge_entry keys_deletions_kept
        distinct_deletions_names map_of_deletions_names map_of_deletions_kept none)
qed

lemma replaced_section:
  assumes "distinct (keys ov)" "map_of ov sec = Some v" "\<nexists>d. v = PDict d"
  shows "map_of (merge_file base (fst (deletions ov)) (snd (deletions ov))) sec = Some v"
proof -
  have "map_of (deletions_names ov) sec = None" "map_of (deletions_kept ov) sec = Some v"
    using assms by (auto simp: map_of_deletions_names map_of_deletions_kept split: pyval.splits)
  then show ?thesis using assms(1,3)
    by (cases v) (simp_all add: merge_file_def deletions_def fold_delete_names fold_merge_entry keys_deletions_kept
        distinct_deletions_names merge_entry_def dict_simps)
qed

section \<open>Facts about accepted catalogs\<close>

lemma missing_Nil: "missing xs known = [] \<longleftrightarrow> set xs \<subseteq> set known"
  by (auto simp: missing_def sorted_set_def filter_empty_conv simp flip: set_empty)

lemma claim_alias_Inr:
  assumes "claim_alias place name a seen = Inr seen'"
  shows "(map_of seen a = None \<or> map_of seen a = Some name) \<and> map_of seen' = (map_of seen)(a \<mapsto> name)"
  using assms by (auto simp: claim_alias_def dict_simps split: option.splits if_splits)

lemma claim_aliases_Inr:
  assumes "fold_sum (claim_alias place name) as seen = Inr seen'"
  shows "map_of seen' = (\<lambda>a. if a \<in> set as then Some name else map_of seen a)
    \<and> (\<forall>a\<in>set as. map_of seen a = None \<or> map_of seen a = Some name)"
  using assms
proof (induction as arbitrary: seen)
  case (Cons a as)
  then obtain s where s: "claim_alias place name a seen = Inr s" "fold_sum (claim_alias place name) as s = Inr seen'"
    by (auto split: sum.splits)
  from Cons.IH [OF s(2)] claim_alias_Inr [OF s(1)] show ?case
    by (auto simp: fun_eq_iff split: if_splits)
qed simp

text \<open>The names claimed by a list of signals, each by one signal only.\<close>

abbreviation signal_names :: "string \<times> signal_def \<Rightarrow> string list" where
  "signal_names e \<equiv> fst e # sd_match_names (snd e)"

lemma check_signal_Inr:
  assumes "check_signal cat e seen = Inr seen'"
  shows "sd_domain (snd e) \<in> set (domain_ids cat) \<and> check_rule (''signals.json: signals.'' @ fst e) (sd_rule (snd e)) = Inr ()
    \<and> fold_sum (claim_alias (''signals.json: signals.'' @ fst e) (fst e)) (signal_names e) seen = Inr seen'"
  using assms unfolding check_signal_def Let_def
  by (auto simp only: and_then_Inr ensure_Inr sum.inject) simp

lemma check_signals_Inr:
  assumes "fold_sum (check_signal cat) es seen = Inr seen'" and "distinct (keys es)"
  shows "(\<forall>e\<in>set es. sd_domain (snd e) \<in> set (domain_ids cat)
        \<and> check_rule (''signals.json: signals.'' @ fst e) (sd_rule (snd e)) = Inr ()
        \<and> (\<forall>a\<in>set (signal_names e). map_of seen' a = Some (fst e)))
    \<and> (\<forall>a n. map_of seen a = Some n \<longrightarrow> n \<notin> set (keys es) \<longrightarrow> map_of seen' a = Some n)
    \<and> (\<forall>a n. map_of seen' a = Some n \<longrightarrow> map_of seen a = Some n \<or> (\<exists>e\<in>set es. n = fst e \<and> a \<in> set (signal_names e)))"
  using assms
proof (induction es arbitrary: seen)
  case (Cons e es)
  from Cons.prems(1) obtain s where s: "check_signal cat e seen = Inr s" "fold_sum (check_signal cat) es s = Inr seen'"
    by (auto split: sum.splits)
  from check_signal_Inr [OF s(1)] have e: "sd_domain (snd e) \<in> set (domain_ids cat)"
      "check_rule (''signals.json: signals.'' @ fst e) (sd_rule (snd e)) = Inr ()"
    and names: "fold_sum (claim_alias (''signals.json: signals.'' @ fst e) (fst e)) (signal_names e) seen = Inr s" by blast+
  have fresh: "fst e \<notin> set (keys es)" "distinct (keys es)" using Cons.prems(2) by (simp_all add: keys_def)
  note IH = Cons.IH [OF s(2) fresh(2)]
  note cl = claim_aliases_Inr [OF names]
  have own: "map_of seen' a = Some (fst e)" if "a \<in> set (signal_names e)" for a
    using IH fresh(1) cl that by simp
  have kept: "map_of seen' a = Some n" if "map_of seen a = Some n" "n \<notin> set (keys (e # es))" for a n
  proof -
    have "a \<notin> set (signal_names e)" using cl that by (auto simp: keys_def)
    then have "map_of s a = Some n" using cl that(1) by simp
    then show ?thesis using IH that(2) by (simp add: keys_def)
  qed
  have orig: "map_of seen a = Some n \<or> (\<exists>f\<in>set (e # es). n = fst f \<and> a \<in> set (signal_names f))"
    if "map_of seen' a = Some n" for a n
  proof -
    from IH that have "map_of s a = Some n \<or> (\<exists>f\<in>set es. n = fst f \<and> a \<in> set (signal_names f))" by blast
    then show ?thesis using cl by (auto split: if_splits)
  qed
  show ?case using IH e own kept orig by auto
qed simp

text \<open>Registers that accept a key only once.\<close>

lemma fold_claims:
  assumes "fold_sum f es st = Inr st'"
    and step: "\<And>e st st'. f e st = Inr st' \<Longrightarrow> g e \<notin> K st \<and> K st' = insert (g e) (K st)"
  shows "distinct (map g es) \<and> set (map g es) \<inter> K st = {} \<and> K st' = K st \<union> set (map g es)"
  using assms(1)
proof (induction es arbitrary: st)
  case (Cons e es)
  then obtain s where s: "f e st = Inr s" "fold_sum f es s = Inr st'" by (auto split: sum.splits)
  from Cons.IH [OF s(2)] step [OF s(1)] show ?case by auto
qed simp

abbreviation skill_of :: "domain_def \<Rightarrow> string" where "skill_of d \<equiv> sk_id (ag_skill (d_agent d))"
abbreviation port_of :: "domain_def \<Rightarrow> int" where "port_of d \<equiv> ag_port (d_agent d)"

lemma claim_domain_Inr:
  assumes "claim_domain place did d st = Inr st'"
  shows "d_telemetry d \<notin> set (keys (dc_telemetry st)) \<and> port_of d \<notin> set (keys (dc_ports st))
    \<and> skill_of d \<notin> set (keys (dc_skills st)) \<and> skill_of d \<noteq> ''respond-to-peer''
    \<and> set (keys (dc_telemetry st')) = insert (d_telemetry d) (set (keys (dc_telemetry st)))
    \<and> set (keys (dc_ports st')) = insert (port_of d) (set (keys (dc_ports st)))
    \<and> set (keys (dc_skills st')) = insert (skill_of d) (set (keys (dc_skills st)))"
  using assms unfolding claim_domain_def Let_def in_keys_iff
  by (auto simp: and_then_Inr keys_update split: option.splits)

lemma check_domain_Inr:
  assumes "check_domain cat seen e st = Inr st'"
  shows "claim_domain (''domains.json: domains.'' @ fst e) (fst e) (snd e) st = Inr st'
    \<and> check_tool (''domains.json: domains.'' @ fst e) (snd e) = Inr ()
    \<and> check_summaries (''domains.json: domains.'' @ fst e) (d_summary (snd e)) = Inr ()"
  using assms unfolding check_domain_def Let_def
  by (auto simp only: and_then_Inr ensure_Inr sum.inject) simp_all

lemma check_domains_Inr:
  assumes "fold_sum (check_domain cat seen) es \<lparr>dc_ports = [], dc_skills = [], dc_telemetry = []\<rparr> = Inr st"
  shows "distinct (map (d_telemetry \<circ> snd) es) \<and> distinct (map (\<lambda>e. port_of (snd e)) es)
    \<and> distinct (map (\<lambda>e. skill_of (snd e)) es)
    \<and> set (keys (dc_telemetry st)) = (d_telemetry \<circ> snd) ` set es"
proof -
  have step: "check_domain cat seen e st = Inr st' \<Longrightarrow>
      claim_domain (''domains.json: domains.'' @ fst e) (fst e) (snd e) st = Inr st'" for e st st'
    using check_domain_Inr by blast
  have t: "(d_telemetry \<circ> snd) e \<notin> set (keys (dc_telemetry st))
      \<and> set (keys (dc_telemetry st')) = insert ((d_telemetry \<circ> snd) e) (set (keys (dc_telemetry st)))"
    and p: "port_of (snd e) \<notin> set (keys (dc_ports st))
      \<and> set (keys (dc_ports st')) = insert (port_of (snd e)) (set (keys (dc_ports st)))"
    and k: "skill_of (snd e) \<notin> set (keys (dc_skills st))
      \<and> set (keys (dc_skills st')) = insert (skill_of (snd e)) (set (keys (dc_skills st)))"
    if "check_domain cat seen e st = Inr st'" for e st st'
    using claim_domain_Inr [OF step [OF that]] by (simp_all only: o_def simp_thms)
  show ?thesis
    using fold_claims [where g = "d_telemetry \<circ> snd" and K = "\<lambda>st. set (keys (dc_telemetry st))", OF assms t]
      fold_claims [where g = "\<lambda>e. port_of (snd e)" and K = "\<lambda>st. set (keys (dc_ports st))", OF assms p]
      fold_claims [where g = "\<lambda>e. skill_of (snd e)" and K = "\<lambda>st. set (keys (dc_skills st))", OF assms k]
    by (simp add: keys_def o_def)
qed

text \<open>A condition every level of which sets exactly one key and names known domains.\<close>

function condition_ok :: "string list \<Rightarrow> condition \<Rightarrow> bool" where
  "condition_ok domains (Condition ke sc pa an al) \<longleftrightarrow> length (set_keys (Condition ke sc pa an al)) = 1
     \<and> list_all (\<lambda>(k, ds). set (opt_list ds) \<subseteq> set domains) (own_domains (Condition ke sc pa an al))
     \<and> list_all (condition_ok domains) (opt_list an)
     \<and> list_all (condition_ok domains) (opt_list al)"
  by pat_completeness auto
termination
  by (relation "measure (\<lambda>(_, c). size c)") (auto dest: size_sub)

declare condition_ok.simps [simp del]

lemma known_domains_Inr: "known_domains place domains ds = Inr () \<longleftrightarrow> set (opt_list ds) \<subseteq> set domains"
  by (simp add: known_domains_def opt_list_def missing_Nil split: option.splits)

lemma check_condition_Inr: "check_condition c place domains = Inr () \<Longrightarrow> condition_ok domains c"
proof (induction c place domains rule: check_condition.induct)
  case (1 ke sc pa an al place domains)
  let ?c = "Condition ke sc pa an al"
  from 1(3) have one: "length (set_keys ?c) = 1"
    and doms: "\<forall>(k, ds)\<in>set (own_domains ?c). known_domains (place @ ''.'' @ k) domains ds = Inr ()"
    and anys: "\<forall>i<length (opt_list an). check_condition (opt_list an ! i) (at_index (place @ ''.any'') i) domains = Inr ()"
    and alls: "\<forall>i<length (opt_list al). check_condition (opt_list al ! i) (at_index (place @ ''.all'') i) domains = Inr ()"
    by (auto simp only: check_condition.simps Let_def and_then_Inr ensure_Inr each_Inr each_at_Inr split: prod.splits)
  have "list_all (condition_ok domains) (opt_list an)" "list_all (condition_ok domains) (opt_list al)"
    using 1(1,2) anys alls one by (auto simp: list_all_length)
  then show ?case using one doms by (simp add: condition_ok.simps known_domains_Inr case_prod_unfold list_all_iff)
qed

text \<open>
  What validation leaves unchecked in a rule: the field a threshold or state rule reads, and
  the whole fallback of a z-score rule.
\<close>

fun rule_fields_ok :: "rule \<Rightarrow> bool" where
  "rule_fields_ok (Threshold r) = field_ok (th_field r)"
| "rule_fields_ok (StateEquals r) = field_ok (se_field r)"
| "rule_fields_ok (ZScoreBaseline r) = (\<forall>fb. zs_fallback r = Some fb \<longrightarrow> threshold_safe fb)"
| "rule_fields_ok _ = True"

lemma check_rule_safe: "check_rule place (Some r) = Inr () \<Longrightarrow> rule_fields_ok r \<Longrightarrow> rule_safe r"
proof (cases r)
  case (Threshold t)
  assume "check_rule place (Some r) = Inr ()" "rule_fields_ok r"
  with Threshold show ?thesis
    by (cases "th_op t")
      (auto simp: check_rule_def check_threshold_def and_then_Inr threshold_safe_def field_ok_def split: option.splits)
next
  case (ZScoreBaseline z)
  assume a: "check_rule place (Some r) = Inr ()" "rule_fields_ok r"
  then have "\<forall>i<length (zs_keys z). baseline_template_ok (zs_keys z ! i)"
    by (auto simp: ZScoreBaseline check_rule_def each_at_Inr check_baseline_key_def baseline_template_ok_def Let_def starts_with_iff)
  with a ZScoreBaseline show ?thesis by (simp add: list_all_length)
qed simp_all

lemma cat_signal_claimed:
  assumes "\<forall>e\<in>set (cat_signals cat). \<forall>a\<in>set (signal_names e). map_of seen a = Some (fst e)"
    and "distinct (keys (cat_signals cat))" and "e \<in> set (cat_signals cat)" "raw \<in> set (signal_names e)"
  shows "cat_signal cat raw = Some e"
proof -
  let ?P = "\<lambda>e. raw = fst e \<or> raw \<in> set (sd_match_names (snd e))"
  have "e \<in> set (rev (cat_signals cat)) \<and> ?P e" using assms(3,4) by simp
  then have "find ?P (rev (cat_signals cat)) \<noteq> None" unfolding find_None_iff by blast
  then obtain f where f: "cat_signal cat raw = Some f" unfolding cat_signal_find by blast
  then have "f \<in> set (cat_signals cat)" "raw \<in> set (signal_names f)"
    using cat_signal_SomeD [of cat raw "fst f" "snd f"] by auto
  then have "map_of seen raw = Some (fst f)" using assms(1) by blast
  moreover have "map_of seen raw = Some (fst e)" using assms(1,3,4) by blast
  ultimately have "fst f = fst e" by simp
  with assms(2,3) \<open>f \<in> set (cat_signals cat)\<close> have "f = e"
    by (metis keys_def distinct_map inj_onD)
  with f show ?thesis by simp
qed

lemma find_distinct:
  "distinct (map g xs) \<Longrightarrow> x \<in> set xs \<Longrightarrow> find (\<lambda>y. g y = g x) xs = Some x"
  by (induction xs) auto

lemma check_emit_Inr:
  assumes "check_emit cat place m i em = Inr ()"
  shows "\<exists>name sg d. cat_signal cat (es_name em) = Some (name, sg) \<and> cat_domain cat (sd_domain sg) = Some d
    \<and> d_telemetry d = sm_domain m"
  using assms by (auto simp: check_emit_def Let_def split: option.splits)

text \<open>The parts of a successful validation.\<close>

lemma cross_validate_parts:
  assumes "cross_validate re_ok cat = Inr ()"
  obtains seen st where "fold_sum (check_signal cat) (cat_signals cat) [] = Inr seen"
    "fold_sum (check_domain cat seen) (cat_domains cat) \<lparr>dc_ports = [], dc_skills = [], dc_telemetry = []\<rparr> = Inr st"
    "''unknown'' \<in> set (keys (cat_degradation cat))"
    "\<forall>e\<in>set (cat_degradation cat). check_degradation cat e = Inr ()"
    "\<forall>e\<in>set (cat_correlation cat). check_correlation cat e = Inr ()"
    "\<forall>e\<in>set (cat_sources cat). check_mapping cat (dc_telemetry st) e = Inr ()"
  using assms unfolding cross_validate_def and_then_Inr each_Inr ensure_Inr by blast

lemma degradation_total:
  assumes "''unknown'' \<in> set (keys (cat_degradation cat))"
    and "\<forall>e\<in>set (cat_degradation cat). check_degradation cat e = Inr ()"
  shows "\<exists>ds. active_domains cat label = Some ds \<and> ds \<noteq> [] \<and> set ds \<subseteq> set (domain_ids cat)"
proof -
  have ok: "ds \<noteq> [] \<and> set ds \<subseteq> set (domain_ids cat)" if "map_of (cat_degradation cat) k = Some ds" for k ds
    using assms(2) map_of_SomeD [OF that]
    by (force simp: check_degradation_def Let_def and_then_Inr unknown_domains_def missing_Nil)
  obtain dflt where "map_of (cat_degradation cat) ''unknown'' = Some dflt" using assms(1) by (auto simp: in_keys_iff)
  then show ?thesis using ok by (auto simp: active_domains_def split: option.splits)
qed

lemma correlation_Inr:
  assumes "check_correlation cat (rid, r) = Inr ()"
  shows "co_domain r \<in> set (domain_ids cat) \<and> starts_with (MARKERS (ef_kind (co_effect r))) (ef_note (co_effect r))
    \<and> list_all (condition_ok (domain_ids cat)) (co_when r)"
  using assms unfolding check_correlation_def Let_def and_then_Inr ensure_Inr each_at_Inr list_all_length
  using check_condition_Inr by auto

lemma validated_telemetry:
  assumes "cross_validate re_ok cat = Inr ()" and "e \<in> set (cat_domains cat)"
  shows "domain_for_telemetry cat (d_telemetry (snd e)) = Some (fst e)"
proof (rule cross_validate_parts [OF assms(1)])
  fix seen st
  assume "fold_sum (check_domain cat seen) (cat_domains cat) \<lparr>dc_ports = [], dc_skills = [], dc_telemetry = []\<rparr> = Inr st"
  from check_domains_Inr [OF this] find_distinct [of "\<lambda>e. d_telemetry (snd e)", OF _ assms(2)] show ?thesis
    by (simp add: domain_for_telemetry_def case_prod_unfold o_def)
qed

lemma validated_emit:
  assumes "cross_validate re_ok cat = Inr ()" and "(mid, m) \<in> set (cat_sources cat)" "em \<in> set (sm_emit m)"
  shows "\<exists>name sg d. cat_signal cat (es_name em) = Some (name, sg)
    \<and> cat_domain cat (sd_domain sg) = Some d \<and> d_telemetry d = sm_domain m"
proof (rule cross_validate_parts [OF assms(1)])
  fix seen st
  assume "\<forall>e\<in>set (cat_sources cat). check_mapping cat (dc_telemetry st) e = Inr ()"
  moreover from assms(3) obtain i where "i < length (sm_emit m)" "em = sm_emit m ! i" by (auto simp: in_set_conv_nth)
  ultimately show ?thesis using assms(2)
    by (force simp: check_mapping_def Let_def and_then_Inr each_at_Inr intro!: check_emit_Inr)
qed

section \<open>Properties\<close>

text \<open>
  An override changes entries one by one: in a section both files have, an entry the override
  sets to null is gone, an entry it names is the override's whole entry, and every other
  entry is the default's; sections the override does not mention stay as they are.
\<close>

lemma override_entry_by_entry:
  assumes "distinct (keys ov) \<and> distinct (keys new)"
    and "map_of base sec = Some (PDict old) \<and> map_of ov sec = Some (PDict new)"
  defines "merged \<equiv> merge_file base (fst (deletions ov)) (snd (deletions ov))"
  shows "(\<exists>m. map_of merged sec = Some (PDict m)
      \<and> (\<forall>k. map_of m k = (case map_of new k of None \<Rightarrow> map_of old k | Some v \<Rightarrow> if v = PNone then None else Some v)))
    \<and> (\<forall>other. other \<notin> set (keys ov) \<longrightarrow> map_of merged other = map_of base other)"
proof -
  let ?m = "filter (\<lambda>(k, _). k \<notin> set (null_names new)) (dict_merge old (non_null new))"
  have n: "distinct (keys (non_null new))" using assms(1) by (simp add: non_null_def keys_def distinct_map_filter)
  have "map_of ?m k = (case map_of new k of None \<Rightarrow> map_of old k | Some v \<Rightarrow> if v = PNone then None else Some v)" for k
    using assms(1) n by (auto simp: map_of_filter_key null_names_iff map_of_dict_merge map_of_rev_distinct
        map_of_non_null map_add_def split: option.splits)
  then show ?thesis
    using merged_section [of ov new base sec old] untouched_section [of ov _ base] assms(1,2)
    unfolding merged_def by blast
qed

text \<open>
  C14: A catalog that passes validation is safe to run on: every raw name of a signal resolves to
  that signal, whose domain exists; a rule whose fields are readable never raises; every
  telemetry domain leads back to the one domain it feeds; every degradation label activates
  known domains and at least one; correlation notes carry the idempotency marker and their
  conditions are well formed; and source mappings emit signals of their own domain.
\<close>
theorem cross_validate_sound:
  assumes "cross_validate re_ok cat = Inr ()"
    and "distinct (keys (cat_signals cat))"
  shows "(\<forall>e\<in>set (cat_signals cat). sd_domain (snd e) \<in> set (domain_ids cat)
        \<and> (\<forall>raw\<in>set (fst e # sd_match_names (snd e)). cat_signal cat raw = Some e)
        \<and> (\<forall>r. sd_rule (snd e) = Some r \<longrightarrow> rule_fields_ok r \<longrightarrow> (\<forall>s ctx rid names. \<exists>h. evaluate r s ctx rid names = Inr h)))
    \<and> (\<forall>e\<in>set (cat_domains cat). domain_for_telemetry cat (d_telemetry (snd e)) = Some (fst e))
    \<and> (\<forall>label. \<exists>ds. active_domains cat label = Some ds \<and> ds \<noteq> [] \<and> set ds \<subseteq> set (domain_ids cat))
    \<and> notes_marked cat \<and> (\<forall>(rid, r)\<in>set (cat_correlation cat). list_all (condition_ok (domain_ids cat)) (co_when r))
    \<and> (\<forall>(mid, m)\<in>set (cat_sources cat). \<forall>em\<in>set (sm_emit m). \<exists>name sg d. cat_signal cat (es_name em) = Some (name, sg)
          \<and> cat_domain cat (sd_domain sg) = Some d \<and> d_telemetry d = sm_domain m)"
proof -
  obtain seen st where parts: "fold_sum (check_signal cat) (cat_signals cat) [] = Inr seen"
    "fold_sum (check_domain cat seen) (cat_domains cat) \<lparr>dc_ports = [], dc_skills = [], dc_telemetry = []\<rparr> = Inr st"
    "''unknown'' \<in> set (keys (cat_degradation cat))"
    "\<forall>e\<in>set (cat_degradation cat). check_degradation cat e = Inr ()"
    "\<forall>e\<in>set (cat_correlation cat). check_correlation cat e = Inr ()"
    by (rule cross_validate_parts [OF assms(1)])
  note sigs = conjunct1 [OF check_signals_Inr [OF parts(1) assms(2)]]
  have "cat_signal cat raw = Some e" if "e \<in> set (cat_signals cat)" "raw \<in> set (signal_names e)" for e raw
    using sigs that by (intro cat_signal_claimed [OF _ assms(2)]) blast+
  moreover have "\<exists>h. evaluate r s ctx rid names = Inr h"
    if "e \<in> set (cat_signals cat)" "sd_rule (snd e) = Some r" "rule_fields_ok r" for e r s ctx rid names
    using sigs that check_rule_safe by (intro evaluate_total) metis
  moreover have "notes_marked cat" "\<forall>(rid, r)\<in>set (cat_correlation cat). list_all (condition_ok (domain_ids cat)) (co_when r)"
    using parts(5) by (auto simp: notes_marked_def list_all_iff [of "\<lambda>(_, r). _ r"] dest!: bspec correlation_Inr)
  ultimately show ?thesis
    using sigs degradation_total [OF parts(3,4)] validated_telemetry [OF assms(1)] validated_emit [OF assms(1)]
    by (intro conjI ballI allI impI) (blast | simp only: case_prod_unfold)+
qed

section \<open>Examples\<close>

text \<open>A catalog with one domain and one signal, and its override that renames the signal.\<close>

definition ex_load_signal :: "rule \<Rightarrow> signal_def" where
  "ex_load_signal r = \<lparr>sd_signal_type = Metric, sd_domain = ''net'', sd_unit = None, sd_description = ''loss'',
     sd_match_names = [''loss_pct''], sd_entity_types = [''tunnel''], sd_derived = False, sd_rule = Some r\<rparr>"

definition ex_load_cat :: "rule \<Rightarrow> catalog" where
  "ex_load_cat r = ex_corr_cat\<lparr>cat_entities := \<lparr>ent_types = [(''tunnel'', ())], ent_relationships = []\<rparr>,
     cat_signals := [(''loss'', ex_load_signal r)],
     cat_domains := [(''net'', ex_domain\<lparr>d_tool := ''get_signals''\<rparr>)],
     cat_degradation := [(''unknown'', [''net''])]\<rparr>"

lemma ex_load_accepted: "cross_validate (\<lambda>_. True) (ex_load_cat (Threshold ex_threshold)) = Inr ()"
  by code_simp

lemma ex_load_parts:
  "distinct (keys (cat_signals (ex_load_cat r)))"
  "(''loss'', ex_load_signal r) \<in> set (cat_signals (ex_load_cat r))"
  "(''net'', ex_domain\<lparr>d_tool := ''get_signals''\<rparr>) \<in> set (cat_domains (ex_load_cat r))"
  "''loss_pct'' \<in> set (''loss'' # sd_match_names (ex_load_signal r))"
  "d_telemetry (ex_domain\<lparr>d_tool := ''get_signals''\<rparr>) = ''net''"
  by (simp_all add: ex_load_cat_def keys_def ex_load_signal_def ex_domain_def)

theorem cross_validate_sound_witness:
  "cat_signal (ex_load_cat (Threshold ex_threshold)) ''loss_pct'' = Some (''loss'', ex_load_signal (Threshold ex_threshold))
   \<and> domain_for_telemetry (ex_load_cat (Threshold ex_threshold)) ''net'' = Some ''net''"
proof
  note sound = cross_validate_sound [OF ex_load_accepted ex_load_parts(1)]
  show "cat_signal (ex_load_cat (Threshold ex_threshold)) ''loss_pct'' = Some (''loss'', ex_load_signal (Threshold ex_threshold))"
    using bspec [OF conjunct1 [OF sound] ex_load_parts(2)] ex_load_parts(4) unfolding fst_conv snd_conv by blast
  show "domain_for_telemetry (ex_load_cat (Threshold ex_threshold)) ''net'' = Some ''net''"
    using bspec [OF conjunct1 [OF conjunct2 [OF sound]] ex_load_parts(3)] unfolding fst_conv snd_conv ex_load_parts(5) .
qed

text \<open>A rule that reads an unsupported field passes validation and raises on every signal.\<close>

lemma accepted_rule_raises:
  "cross_validate (\<lambda>_. True) (ex_load_cat (StateEquals \<lparr>se_id = None, se_reason = None, se_value = PNum 0, se_field = ''state''\<rparr>)) = Inr ()
   \<and> (\<forall>s ctx rid names. evaluate (StateEquals \<lparr>se_id = None, se_reason = None, se_value = PNum 0, se_field = ''state''\<rparr>)
        s ctx rid names = Inl (UnsupportedField ''state''))"
proof
  show "cross_validate (\<lambda>_. True) (ex_load_cat (StateEquals \<lparr>se_id = None, se_reason = None, se_value = PNum 0, se_field = ''state''\<rparr>)) = Inr ()"
    by code_simp
  have "\<not> field_ok ''state''" by code_simp
  then show "\<forall>s ctx rid names. evaluate (StateEquals \<lparr>se_id = None, se_reason = None, se_value = PNum 0, se_field = ''state''\<rparr>)
      s ctx rid names = Inl (UnsupportedField ''state'')"
    by (simp add: field_value_bad state_equals_def)
qed

end
