(* ===== verification/Telemetry.thy ===== *)
theory Telemetry
  imports Registry Loader
begin

text \<open>
  The telemetry server (\<open>mcp_telemetry_server/\<close>): mapping raw source records to signals
  (\<open>mapping.py\<close>), source plugins and their configuration (\<open>plugins/base.py\<close>), the service that
  fans a query out to the plugins of its domain (\<open>service.py\<close>), and the simulation source
  (\<open>plugins/simulation.py\<close>). What a plugin's backend answers is a parameter of the service;
  the plugin classes available are a table of the same kind the decorator fills.
\<close>

section \<open>Mapping records to signals\<close>

type_synonym source_record = "(string, pyval) dict"

text \<open>\<open>str(v)\<close> of the raw value, \<open>str(None)\<close> for a missing field.\<close>

definition record_str :: "(pyval \<Rightarrow> string) \<Rightarrow> source_record \<Rightarrow> string \<Rightarrow> string" where
  "record_str F r field = (case map_of r field of None \<Rightarrow> ''None'' | Some v \<Rightarrow> py_str F v)"

definition truthy_str :: "string option \<Rightarrow> bool" where
  "truthy_str x = (case x of None \<Rightarrow> False | Some s \<Rightarrow> s \<noteq> [])"

definition entity_labels :: "(pyval \<Rightarrow> string) \<Rightarrow> entity_mapping \<Rightarrow> source_record \<Rightarrow> (string, string) dict" where
  "entity_labels F em r =
     (case em_label_field em of
        None \<Rightarrow> []
      | Some field \<Rightarrow> if field = [] then []
          else (case map_of r field of
                  Some (PDict d) \<Rightarrow> map (\<lambda>(k, v). (k, py_str F v)) d
                | _ \<Rightarrow> []))"

definition map_entity :: "(pyval \<Rightarrow> string) \<Rightarrow> source_mapping \<Rightarrow> source_record \<Rightarrow> entity" where
  "map_entity F m r =
     (let spec = sm_entity m; labels = entity_labels F spec r in
      if truthy_str (em_type spec) \<and> truthy_str (em_id_field spec) then
        \<lparr>e_type = the (em_type spec),
         e_id = (case map_of r (the (em_id_field spec)) of None \<Rightarrow> [] | Some v \<Rightarrow> py_str F v), e_labels = labels\<rparr>
      else
        (case find (\<lambda>l. l \<in> set (keys labels)) (em_type_priority spec) of
           Some l \<Rightarrow> \<lparr>e_type = l, e_id = the (map_of labels l), e_labels = labels\<rparr>
         | None \<Rightarrow>
             (case sorted_set (keys labels) of
                l # _ \<Rightarrow> \<lparr>e_type = l, e_id = the (map_of labels l), e_labels = labels\<rparr>
              | [] \<Rightarrow>
                  \<lparr>e_type = str_or (em_fallback_type spec) (str_or (em_type spec) ''unknown''),
                   e_id = (if truthy_str (em_fallback_id_field spec)
                           then (case map_of r (the (em_fallback_id_field spec)) of None \<Rightarrow> [] | Some v \<Rightarrow> py_str F v)
                           else []),
                   e_labels = labels\<rparr>)))"

datatype mapping_error = NotANumber string | UnknownScenario int | UnknownRecord string

definition emit_value :: "emit_spec \<Rightarrow> source_record \<Rightarrow> mapping_error + real option" where
  "emit_value em r =
     (case es_value_field em of
        None \<Rightarrow> Inr None
      | Some field \<Rightarrow>
          (case map_of r field of
             None \<Rightarrow> Inr None
           | Some PNone \<Rightarrow> Inr None
           | Some v \<Rightarrow> (case py_float v of None \<Rightarrow> Inl (NotANumber field) | Some x \<Rightarrow> Inr (Some x))))"

definition emit_severity :: "(pyval \<Rightarrow> string) \<Rightarrow> emit_spec \<Rightarrow> source_record \<Rightarrow> severity" where
  "emit_severity F em r =
     (let dflt = (case es_severity em of None \<Rightarrow> Info | Some s \<Rightarrow> s)
      in case es_severity_field em of
           None \<Rightarrow> dflt
         | Some field \<Rightarrow> (case map_of (es_severity_map em) (record_str F r field) of None \<Rightarrow> dflt | Some s \<Rightarrow> s))"

definition mapped_attributes :: "source_mapping \<Rightarrow> source_record \<Rightarrow> (string, pyval) dict" where
  "mapped_attributes m r =
     List.map_filter (\<lambda>(attr, src). map_option (Pair attr) (map_of r src)) (sm_attributes m)"

definition emit_signal :: "(pyval \<Rightarrow> string) \<Rightarrow> source_mapping \<Rightarrow> source_record \<Rightarrow> time \<Rightarrow> string \<Rightarrow> emit_spec
    \<Rightarrow> mapping_error + signal" where
  "emit_signal F m r ts ref em =
     (case emit_value em r of
        Inl e \<Rightarrow> Inl e
      | Inr v \<Rightarrow> Inr \<lparr>s_type = sm_signal_type m, s_timestamp = ts, s_observed_at = ts, s_entity = map_entity F m r,
          s_name = es_name em, s_value = v, s_unit = es_unit em, s_severity = emit_severity F em r,
          s_domain = sm_domain m, s_source = sm_source m, s_attributes = mapped_attributes m r,
          s_evidence_ref = Some (if 1 < length (sm_emit m) then ref @ ''/'' @ es_name em else ref)\<rparr>)"

definition map_record :: "(pyval \<Rightarrow> string) \<Rightarrow> source_mapping \<Rightarrow> source_record \<Rightarrow> time \<Rightarrow> string
    \<Rightarrow> mapping_error + signal list" where
  "map_record F m r ts ref = traverse (emit_signal F m r ts ref) (sm_emit m)"

section \<open>Plugins\<close>

definition ANY_DOMAIN :: string where "ANY_DOMAIN = ''*''"

text \<open>
  A plugin class: what the decorator registered, and the domains and configuration error its
  own constructor gives after the base class has run.
\<close>

record plugin_class =
  pc_domains :: "string list"
  pc_implemented :: bool
  pc_cloud :: bool
  pc_init :: "(string, pyval) dict \<Rightarrow> string list \<Rightarrow> string + string list"

record plugin =
  pl_name :: string
  pl_domains :: "string list"
  pl_required :: bool
  pl_timeout :: real

datatype service_error =
    UnknownPlugin string
  | Skeleton string
  | CloudRefused string
  | DomainsNotServed string "string list"
  | DomainsNotInCatalog string "string list"
  | PluginConfig string
  | NoPlugin
  | BadConfig string
  | BadTimeout string
  | BadDomains string

text \<open>\<open>set(configured)\<close> for a list of strings; a string gives its characters.\<close>

definition configured_domains :: "pyval \<Rightarrow> string list option" where
  "configured_domains v =
     (case v of
        PList xs \<Rightarrow> those (map (\<lambda>x. case x of PStr s \<Rightarrow> Some s | _ \<Rightarrow> None) xs)
      | PStr s \<Rightarrow> Some (map (\<lambda>c. [c]) s)
      | PDict d \<Rightarrow> Some (keys d)
      | _ \<Rightarrow> None)"

text \<open>\<open>SourcePlugin.__init__\<close>: the domains of the instance.\<close>

definition base_init :: "string \<Rightarrow> plugin_class \<Rightarrow> (string, pyval) dict \<Rightarrow> service_error + string list" where
  "base_init name pc cfg =
     (case map_of cfg ''domains'' of
        None \<Rightarrow> Inr (pc_domains pc)
      | Some PNone \<Rightarrow> Inr (pc_domains pc)
      | Some v \<Rightarrow>
          (case configured_domains v of
             None \<Rightarrow> Inl (BadDomains name)
           | Some ds \<Rightarrow>
               let unknown = filter (\<lambda>d. d \<notin> set (pc_domains pc)) ds
               in if unknown \<noteq> [] \<and> ANY_DOMAIN \<notin> set (pc_domains pc)
                  then Inl (DomainsNotServed name (sorted_set unknown)) else Inr ds))"

definition serves :: "plugin \<Rightarrow> string \<Rightarrow> bool" where
  "serves p domain \<longleftrightarrow> domain \<in> set (pl_domains p) \<or> ANY_DOMAIN \<in> set (pl_domains p)"

definition cfg_get :: "(string, pyval) dict \<Rightarrow> string \<Rightarrow> pyval \<Rightarrow> pyval" where
  "cfg_get d k v = (case map_of d k of None \<Rightarrow> v | Some w \<Rightarrow> w)"

text \<open>\<open>coverage(status, **kwargs)\<close>.\<close>

definition plugin_coverage :: "plugin \<Rightarrow> cov_status \<Rightarrow> string option \<Rightarrow> coverage" where
  "plugin_coverage p st err =
     \<lparr>c_source = pl_name p, c_status = st, c_lag = None, c_truncated = False, c_error = err, c_required = pl_required p\<rparr>"

text \<open>\<open>register_plugin\<close>: one class per name; a class is identified by its qualified name here.\<close>

type_synonym plugin_table = "(string, string \<times> plugin_class) dict"

datatype register_error = NoName string | NoDomains string | NameTaken string string

definition register_plugin :: "string \<Rightarrow> string \<Rightarrow> plugin_class \<Rightarrow> plugin_table \<Rightarrow> register_error + plugin_table" where
  "register_plugin name qual pc tab =
     (if name = [] then Inl (NoName qual)
      else if pc_domains pc = [] \<or> [] \<in> set (pc_domains pc) then Inl (NoDomains name)
      else case map_of tab name of
             Some (other, _) \<Rightarrow> if other \<noteq> qual then Inl (NameTaken name other)
                                else Inr (AList.update name (qual, pc) tab)
           | None \<Rightarrow> Inr (AList.update name (qual, pc) tab))"

section \<open>The service\<close>

text \<open>\<open>plugin_cfg or {}\<close>; anything else without \<open>get\<close> raises.\<close>

definition source_config :: "pyval \<Rightarrow> (string, pyval) dict option" where
  "source_config v = (case v of PDict d \<Rightarrow> Some d | _ \<Rightarrow> if truthy v then None else Some [])"

text \<open>One enabled entry of the \<open>sources\<close> section.\<close>

definition start_plugin :: "plugin_table \<Rightarrow> catalog \<Rightarrow> bool \<Rightarrow> string \<Rightarrow> (string, pyval) dict \<Rightarrow> service_error + plugin" where
  "start_plugin tab cat allow_cloud name cfg =
     (case map_of tab name of
        None \<Rightarrow> Inl (UnknownPlugin name)
      | Some (_, pc) \<Rightarrow>
          and_then (ensure (pc_implemented pc) (Skeleton name)) (\<lambda>_.
          and_then (ensure (\<not> (pc_cloud pc \<and> \<not> allow_cloud)) (CloudRefused name)) (\<lambda>_.
          and_then (base_init name pc cfg) (\<lambda>base.
          and_then (case pc_init pc cfg base of Inl e \<Rightarrow> Inl (PluginConfig e) | Inr ds \<Rightarrow> Inr ds) (\<lambda>ds.
          let known = ''topology'' # keys (telemetry_domains cat);
              unknown = filter (\<lambda>d. d \<noteq> ANY_DOMAIN \<and> d \<notin> set known) ds
          in and_then (ensure (unknown = []) (DomainsNotInCatalog name (sorted_set unknown))) (\<lambda>_.
             case py_float (cfg_get cfg ''timeout_seconds'' (PNum 10)) of
               None \<Rightarrow> Inl (BadTimeout name)
             | Some t \<Rightarrow> Inr \<lparr>pl_name = name, pl_domains = ds,
                 pl_required = truthy (cfg_get cfg ''required'' (PBool True)), pl_timeout = t\<rparr>))))))"

definition start_source :: "plugin_table \<Rightarrow> catalog \<Rightarrow> bool \<Rightarrow> string \<times> pyval \<Rightarrow> service_error + plugin option" where
  "start_source tab cat allow_cloud e =
     (case source_config (snd e) of
        None \<Rightarrow> Inl (BadConfig (fst e))
      | Some cfg \<Rightarrow>
          if truthy (cfg_get cfg ''enabled'' (PBool False))
          then and_then (start_plugin tab cat allow_cloud (fst e) cfg) (\<lambda>p. Inr (Some p)) else Inr None)"

definition start_service :: "plugin_table \<Rightarrow> catalog \<Rightarrow> bool \<Rightarrow> (string, pyval) dict \<Rightarrow> service_error + plugin list" where
  "start_service tab cat allow_cloud sources =
     and_then (traverse (start_source tab cat allow_cloud) sources) (\<lambda>xs.
     let ps = List.map_filter id xs in if ps = [] then Inl NoPlugin else Inr ps)"

text \<open>
  \<open>load_sources_config\<close>: without a file the built-in simulation source; else the file's
  \<open>sources\<close> section, which must be a non-empty mapping. The argument is the parsed file.
\<close>

definition DEFAULT_SOURCES :: "(string, pyval) dict" where
  "DEFAULT_SOURCES = [(''simulation'', PDict [(''enabled'', PBool True)])]"

definition load_sources_config :: "pyval option \<Rightarrow> service_error + (string, pyval) dict" where
  "load_sources_config parsed =
     (case parsed of
        None \<Rightarrow> Inr DEFAULT_SOURCES
      | Some v \<Rightarrow>
          (case source_config v of
             None \<Rightarrow> Inl (BadConfig ''<root>'')
           | Some d \<Rightarrow> (case map_of d ''sources'' of Some (PDict (e # es)) \<Rightarrow> Inr (e # es) | _ \<Rightarrow> Inl NoPlugin)))"

definition plugins_for :: "plugin list \<Rightarrow> string \<Rightarrow> plugin list" where
  "plugins_for ps domain = filter (\<lambda>p. serves p domain) ps"

text \<open>How an awaited read of a plugin ends: \<open>wait_for\<close> under \<open>gather(return_exceptions=True)\<close>.\<close>

datatype 'a read = ReadOk 'a coverage | ReadTimeout | ReadRaised string | ReadCancelled

definition day :: int where "day = minutes (24 * 60)"

definition baseline_of :: "telemetry_query \<Rightarrow> time_window option" where
  "baseline_of q = (if q_include_baseline q then Some \<lparr>w_start = q_start q - day, w_end = q_start q\<rparr> else None)"

definition lower_bound :: "telemetry_query \<Rightarrow> time" where
  "lower_bound q = (case baseline_of q of None \<Rightarrow> q_start q | Some w \<Rightarrow> w_start w)"

definition kept_signals :: "telemetry_query \<Rightarrow> signal list \<Rightarrow> signal list" where
  "kept_signals q = filter (\<lambda>s. lower_bound q \<le> s_timestamp s \<and> s_timestamp s \<le> q_end q \<and> query_matches q s)"

text \<open>The loop over the results; \<open>None\<close> is the re-raised cancellation.\<close>

fun collect_reads :: "('a \<Rightarrow> 'b list) \<Rightarrow> string \<Rightarrow> (plugin \<times> 'a read) list \<Rightarrow> ('b list \<times> coverage list) option" where
  "collect_reads f timeout_text [] = Some ([], [])"
| "collect_reads f timeout_text ((p, r) # rest) =
     (case r of
        ReadCancelled \<Rightarrow> None
      | ReadTimeout \<Rightarrow> map_option (apsnd ((#) (plugin_coverage p CovFailed (Some timeout_text)))) (collect_reads f timeout_text rest)
      | ReadRaised e \<Rightarrow> map_option (apsnd ((#) (plugin_coverage p CovFailed (Some e)))) (collect_reads f timeout_text rest)
      | ReadOk x c \<Rightarrow> map_option (\<lambda>(xs, cs). (f x @ xs, c # cs)) (collect_reads f timeout_text rest))"

definition no_source :: "string \<Rightarrow> coverage" where
  "no_source why = \<lparr>c_source = ''telemetry-server'', c_status = CovFailed, c_lag = None, c_truncated = False,
     c_error = Some why, c_required = True\<rparr>"

definition service_query :: "(plugin \<Rightarrow> telemetry_query \<Rightarrow> string \<Rightarrow> signal list read) \<Rightarrow> plugin list \<Rightarrow> string
    \<Rightarrow> telemetry_query \<Rightarrow> tool_response option" where
  "service_query ask ps domain q =
     (let serving = plugins_for ps domain in
      if serving = [] then
        Some \<lparr>r_version = CONTRACT_VERSION, r_window = query_window_of q, r_baseline = baseline_of q,
          r_coverage = [no_source (''no enabled source serves domain '' @ domain)], r_signals = [], r_cursor = None\<rparr>
      else
        map_option (\<lambda>(ss, cs). \<lparr>r_version = CONTRACT_VERSION, r_window = query_window_of q,
            r_baseline = baseline_of q, r_coverage = cs, r_signals = ss, r_cursor = None\<rparr>)
          (collect_reads (kept_signals q) ''timeout'' (map (\<lambda>p. (p, ask p q domain)) serving)))"

text \<open>\<open>setdefault\<close> on a keyed dictionary: the first record under a key is kept.\<close>

definition keep_first :: "'a \<Rightarrow> 'a \<Rightarrow> 'a" where "keep_first old new = old"

interpretation first_entity: keyed_merge entity_node keep_first
  by unfold_locales (simp add: keep_first_def)

interpretation first_edge: keyed_merge edge_key keep_first
  by unfold_locales (simp add: keep_first_def)

definition service_topology :: "(plugin \<Rightarrow> string \<Rightarrow> int option \<Rightarrow> (entity list \<times> topology_edge list) read) \<Rightarrow> plugin list
    \<Rightarrow> string \<Rightarrow> int option \<Rightarrow> topology_response option" where
  "service_topology ask ps region scenario =
     (let serving = plugins_for ps ''topology'' in
      if serving = [] then
        Some \<lparr>tr_region = region, tr_entities = [], tr_relationships = [],
          tr_coverage = [no_source ''no enabled source serves topology'']\<rparr>
      else
        map_option (\<lambda>(parts, cs). \<lparr>tr_region = region,
            tr_entities = vals (merge_all entity_node keep_first (concat (map fst parts))),
            tr_relationships = vals (merge_all edge_key keep_first (concat (map snd parts))), tr_coverage = cs\<rparr>)
          (collect_reads (\<lambda>x. [x]) ''TimeoutError: '' (map (\<lambda>p. (p, ask p region scenario)) serving)))"

text \<open>\<open>health\<close>: \<open>None\<close> is a health check that raised.\<close>

definition health_status :: "(plugin \<Rightarrow> string option) \<Rightarrow> plugin list \<Rightarrow> string" where
  "health_status health ps =
     (let st = map (\<lambda>p. case health p of None \<Rightarrow> ''down'' | Some s \<Rightarrow> s) ps
      in if set st = {''ok''} then ''ok'' else if ''ok'' \<notin> set st then ''down'' else ''degraded'')"

section \<open>The simulation source\<close>

text \<open>
  A scenario bundle: its rows per record collection, with the time each row carries. Scenarios
  are a parameter (\<open>simulation/scenarios.py\<close> holds only data).
\<close>

record scenario_bundle =
  bu_id :: int
  bu_region :: string
  bu_reported_at :: time
  bu_records :: "(string, (time \<times> source_record) list) dict"

definition find_bundle :: "(int, scenario_bundle) dict \<Rightarrow> int option \<Rightarrow> mapping_error + scenario_bundle" where
  "find_bundle scenarios scenario =
     (let sid = (case scenario of None \<Rightarrow> 1 | Some n \<Rightarrow> if n = 0 then 1 else n)
      in case map_of scenarios sid of None \<Rightarrow> Inl (UnknownScenario sid) | Some b \<Rightarrow> Inr b)"

text \<open>\<open>rebase\<close>: the age of a row, rounded to whole seconds, before the end of the window.\<close>

definition rebase_age :: "time \<Rightarrow> time \<Rightarrow> time \<Rightarrow> time" where
  "rebase_age anchor until ts = until - seconds (round_half_even (real_of_int (anchor - ts) / 1000000))"

definition row_region :: "source_mapping \<Rightarrow> scenario_bundle \<Rightarrow> source_record \<Rightarrow> pyval" where
  "row_region m b r =
     (if truthy_str (sm_region_field m) then (case map_of r (the (sm_region_field m)) of None \<Rightarrow> PNone | Some v \<Rightarrow> v)
      else PStr (bu_region b))"

definition int_str :: "int \<Rightarrow> string" where
  "int_str n = (if n < 0 then CHR ''-'' # nat_str (nat (- n)) else nat_str (nat n))"

definition row_ref :: "scenario_bundle \<Rightarrow> string \<Rightarrow> nat \<Rightarrow> string" where
  "row_ref b domain i = ''simulation:scenario/'' @ int_str (bu_id b) @ ''/'' @ domain @ ''/'' @ nat_str i"

definition simulate_mapping :: "(pyval \<Rightarrow> string) \<Rightarrow> scenario_bundle \<Rightarrow> telemetry_query \<Rightarrow> string \<Rightarrow> source_mapping
    \<Rightarrow> mapping_error + signal list" where
  "simulate_mapping F b q domain m =
     (if sm_domain m \<noteq> domain then Inr []
      else case map_of (bu_records b) (sm_record m) of
             None \<Rightarrow> Inl (UnknownRecord (sm_record m))
           | Some rows \<Rightarrow>
               map_sum id concat (traverse (\<lambda>(i, ts, r).
                 if row_region m b r \<noteq> PStr (q_region q) then Inr []
                 else map_record F m r (rebase_age (bu_reported_at b) (q_end q) ts) (row_ref b domain i))
               (enumerate 0 rows)))"

definition simulation_fetch :: "(pyval \<Rightarrow> string) \<Rightarrow> catalog \<Rightarrow> (int, scenario_bundle) dict \<Rightarrow> telemetry_query \<Rightarrow> string
    \<Rightarrow> mapping_error + signal list" where
  "simulation_fetch F cat scenarios q domain =
     and_then (find_bundle scenarios (q_scenario q)) (\<lambda>b.
     and_then (traverse (simulate_mapping F b q domain) (vals (mappings_for cat ''simulation''))) (\<lambda>parts.
     Inr (filter (\<lambda>s. q_start q \<le> s_timestamp s \<and> s_timestamp s \<le> q_end q) (concat parts))))"

text \<open>\<open>_static_topology\<close>: a small hybrid topology with every kind of edge.\<close>

definition static_entity :: "string \<Rightarrow> string \<Rightarrow> string \<Rightarrow> (string, string) dict \<Rightarrow> entity" where
  "static_entity region kind ident labels = \<lparr>e_type = kind, e_id = ident, e_labels = dict_merge [(''region'', region)] labels\<rparr>"

definition static_topology :: "string \<Rightarrow> entity list \<times> topology_edge list" where
  "static_topology region =
     (let e = static_entity region;
          tunnel_1 = e ''tunnel'' ''vpn-0a1b2c3d-tunnel-1'' [(''outside_ip'', ''203.0.113.10'')];
          tunnel_2 = e ''tunnel'' ''vpn-0a1b2c3d-tunnel-2'' [(''outside_ip'', ''203.0.113.11'')];
          vpn = e ''vpn_connection'' ''vpn-0a1b2c3d'' [(''customer_gateway'', ''cgw-0f00ba11'')];
          vpn_att = e ''tgw_attachment'' ''tgw-attach-0vpn0001'' [(''resource_type'', ''vpn'')];
          vpc_att = e ''tgw_attachment'' ''tgw-attach-0vpc0001'' [(''resource_type'', ''vpc'')];
          tgw_rt = e ''tgw_route_table'' ''tgw-rtb-0core0001'' [(''transit_gateway'', ''tgw-0core0001'')];
          vpc_a = e ''vpc'' ''vpc-0app00001'' [(''cidr'', ''10.20.0.0/16'')];
          vpc_b = e ''vpc'' ''vpc-0shared001'' [(''cidr'', ''10.30.0.0/16'')];
          subnet = e ''subnet'' ''subnet-0app00001'' [(''cidr'', ''10.20.1.0/24''), (''vpc'', e_id vpc_a)];
          route_table = e ''route_table'' ''rtb-0app00001'' [(''vpc'', e_id vpc_a)];
          sg = e ''security_group'' ''sg-0app00001'' [(''vpc'', e_id vpc_a)];
          eni = e ''eni'' ''eni-0app00001'' [(''subnet'', e_id subnet)];
          inst = e ''instance'' ''i-0app000001'' [(''subnet'', e_id subnet)];
          peering = e ''vpc_peering'' ''pcx-0app2shared'' [(''requester'', e_id vpc_a), (''accepter'', e_id vpc_b)];
          edge = (\<lambda>kind src dst. \<lparr>t_rel = kind, t_source = src, t_target = dst, t_attributes = []\<rparr>)
      in ([tunnel_1, tunnel_2, vpn, vpn_att, vpc_att, tgw_rt, vpc_a, vpc_b, subnet, route_table, sg, eni, inst, peering],
          [edge ''member_of'' tunnel_1 vpn, edge ''member_of'' tunnel_2 vpn, edge ''attached_via'' vpn vpn_att,
           edge ''associated_with'' vpn_att tgw_rt, edge ''associated_with'' vpc_att tgw_rt, edge ''attached_via'' vpc_a vpc_att,
           edge ''applies_to'' sg eni, edge ''attached_to'' eni inst, edge ''associated_with'' subnet route_table,
           edge ''peers'' vpc_a peering, edge ''peers'' peering vpc_b]))"

lemma static_topology_closed:
  "let (es, eds) = static_topology region
   in distinct (map entity_node es) \<and> list_all (\<lambda>d. t_source d \<in> set es \<and> t_target d \<in> set es) eds"
  by (simp add: static_topology_def Let_def static_entity_def)

text \<open>The domains of the instance, unless configured: those \<open>sources.json\<close> maps, and topology.\<close>

definition simulation_init :: "catalog \<Rightarrow> (string, pyval) dict \<Rightarrow> string list \<Rightarrow> string + string list" where
  "simulation_init cat cfg base =
     Inr (if map_of cfg ''domains'' = None
          then uniq (map sm_domain (vals (mappings_for cat ''simulation'')) @ [''topology'']) else base)"

section \<open>Facts about the service\<close>

lemma collect_reads_None: "collect_reads f t xs = None \<longleftrightarrow> (\<exists>(p, r)\<in>set xs. r = ReadCancelled)"
  by (induction f t xs rule: collect_reads.induct) (auto split: read.splits)

definition read_items :: "('a \<Rightarrow> 'b list) \<Rightarrow> 'a read \<Rightarrow> 'b list" where
  "read_items f r = (case r of ReadOk x c \<Rightarrow> f x | _ \<Rightarrow> [])"

definition read_coverage :: "string \<Rightarrow> plugin \<Rightarrow> 'a read \<Rightarrow> coverage" where
  "read_coverage t p r =
     (case r of ReadOk x c \<Rightarrow> c | ReadRaised e \<Rightarrow> plugin_coverage p CovFailed (Some e)
      | _ \<Rightarrow> plugin_coverage p CovFailed (Some t))"

lemma collect_reads_Some:
  "collect_reads f t xs = Some (ys, cs) \<Longrightarrow>
     ys = concat (map (\<lambda>(p, r). read_items f r) xs) \<and> cs = map (\<lambda>(p, r). read_coverage t p r) xs"
proof (induction f t xs arbitrary: ys cs rule: collect_reads.induct)
  case (2 f t p r rest)
  then show ?case by (cases r) (auto simp: read_items_def read_coverage_def)
qed simp

lemma read_coverage_bad:
  "c_required (read_coverage t p r) \<and> c_status (read_coverage t p r) \<noteq> CovOk \<longleftrightarrow>
     (case r of ReadOk x c \<Rightarrow> c_required c \<and> c_status c \<noteq> CovOk | _ \<Rightarrow> pl_required p)"
  by (cases r) (simp_all add: read_coverage_def plugin_coverage_def)

lemma service_query_Some:
  assumes "service_query ask ps domain q = Some r" and "plugins_for ps domain \<noteq> []"
  shows "r_signals r = concat (map (\<lambda>p. read_items (kept_signals q) (ask p q domain)) (plugins_for ps domain))
    \<and> r_coverage r = map (\<lambda>p. read_coverage ''timeout'' p (ask p q domain)) (plugins_for ps domain)
    \<and> r_window r = query_window_of q \<and> r_baseline r = baseline_of q"
proof -
  obtain ss cs where c: "collect_reads (kept_signals q) ''timeout'' (map (\<lambda>p. (p, ask p q domain)) (plugins_for ps domain)) = Some (ss, cs)"
    and r: "r = \<lparr>r_version = CONTRACT_VERSION, r_window = query_window_of q,
            r_baseline = baseline_of q, r_coverage = cs, r_signals = ss, r_cursor = None\<rparr>"
    using assms by (auto simp: service_query_def Let_def)
  from collect_reads_Some [OF c] show ?thesis by (simp add: r o_def)
qed

lemma lower_bound_eq: "lower_bound q = (if q_include_baseline q then q_start q - day else q_start q)"
  by (simp add: lower_bound_def baseline_of_def)

lemma map_record_signals:
  assumes "map_record F m r ts ref = Inr ss" and "s \<in> set ss"
  shows "s_timestamp s = ts \<and> s_domain s = sm_domain m \<and> s_source s = sm_source m
    \<and> (\<exists>em\<in>set (sm_emit m). s_name s = es_name em)"
proof -
  have "Inr s \<in> set (map (emit_signal F m r ts ref) (sm_emit m))"
    using traverse_Inr [OF assms(1) [unfolded map_record_def]] assms(2) by (metis image_eqI image_set)
  then show ?thesis by (auto simp: emit_signal_def split: sum.splits)
qed

lemma simulate_mapping_signals:
  assumes "simulate_mapping F b q domain m = Inr ss" and "s \<in> set ss"
  shows "s_domain s = domain \<and> s_source s = sm_source m \<and> sm_domain m = domain \<and> (\<exists>em\<in>set (sm_emit m). s_name s = es_name em)"
proof -
  from assms obtain rows parts where d: "sm_domain m = domain" and t: "traverse (\<lambda>(i, ts, r).
       if row_region m b r \<noteq> PStr (q_region q) then Inr []
       else map_record F m r (rebase_age (bu_reported_at b) (q_end q) ts) (row_ref b domain i)) (enumerate 0 rows) = Inr parts"
    and ss: "ss = concat parts"
    by (auto simp: simulate_mapping_def map_sum_def split: if_splits option.splits sum.splits)
  from assms(2) ss obtain part where part: "part \<in> set parts" "s \<in> set part" by auto
  have "Inr part \<in> (\<lambda>(i, ts, r). if row_region m b r \<noteq> PStr (q_region q) then Inr []
       else map_record F m r (rebase_age (bu_reported_at b) (q_end q) ts) (row_ref b domain i)) ` set (enumerate 0 rows)"
    using traverse_Inr [OF t] part(1) by (metis image_eqI image_set)
  then obtain ts r ref where "map_record F m r ts ref = Inr part"
    using part(2) by (auto split: if_splits)
  from map_record_signals [OF this part(2)] d show ?thesis by simp
qed

lemma simulation_fetch_signals:
  assumes "simulation_fetch F cat scenarios q domain = Inr ss" and "s \<in> set ss"
  shows "q_start q \<le> s_timestamp s \<and> s_timestamp s \<le> q_end q \<and> s_domain s = domain \<and> s_source s = ''simulation''
    \<and> (\<exists>mid m em. (mid, m) \<in> set (cat_sources cat) \<and> sm_domain m = domain \<and> em \<in> set (sm_emit m) \<and> s_name s = es_name em)"
proof -
  obtain b parts where t: "traverse (simulate_mapping F b q domain) (vals (mappings_for cat ''simulation'')) = Inr parts"
    and ss: "ss = filter (\<lambda>s. q_start q \<le> s_timestamp s \<and> s_timestamp s \<le> q_end q) (concat parts)"
    using assms(1) by (auto simp: simulation_fetch_def and_then_Inr)
  with assms(2) obtain part where part: "part \<in> set parts" "s \<in> set part"
    and win: "q_start q \<le> s_timestamp s" "s_timestamp s \<le> q_end q" by auto
  have "Inr part \<in> simulate_mapping F b q domain ` set (vals (mappings_for cat ''simulation''))"
    using traverse_Inr [OF t] part(1) by (metis image_eqI image_set)
  then obtain mid m where m: "(mid, m) \<in> set (cat_sources cat)" "sm_source m = ''simulation''"
    and sm: "simulate_mapping F b q domain m = Inr part"
    by (auto simp: vals_def mappings_for_def)
  from simulate_mapping_signals [OF sm part(2)] m win show ?thesis by metis
qed

lemma start_source_Inr:
  assumes "start_source tab cat allow e = Inr (Some p)"
  shows "\<exists>qual pc. map_of tab (fst e) = Some (qual, pc) \<and> pc_implemented pc \<and> (pc_cloud pc \<longrightarrow> allow) \<and> pl_name p = fst e
    \<and> set (pl_domains p) \<subseteq> insert ANY_DOMAIN (insert ''topology'' (set (keys (telemetry_domains cat))))"
proof -
  from assms obtain cfg where "start_plugin tab cat allow (fst e) cfg = Inr p"
    by (auto simp: start_source_def and_then_Inr split: option.splits if_splits)
  then obtain qual pc ds t where pc: "map_of tab (fst e) = Some (qual, pc)" "pc_implemented pc" "pc_cloud pc \<longrightarrow> allow"
    and none: "filter (\<lambda>d. d \<noteq> ANY_DOMAIN \<and> d \<notin> set (''topology'' # keys (telemetry_domains cat))) ds = []"
    and p: "pl_name p = fst e" "pl_domains p = ds"
    unfolding start_plugin_def Let_def
    by (auto simp: and_then_Inr split: option.splits)
  from none have "set ds \<subseteq> insert ANY_DOMAIN (insert ''topology'' (set (keys (telemetry_domains cat))))"
    by (auto simp: filter_empty_conv)
  then show ?thesis using pc p by blast
qed

section \<open>Properties\<close>

text \<open>
  C16: A response of the telemetry service is exactly what its sources gave: the signals are those of
  the sources that answered, cut to the window (or the baseline day before it) and the
  entity filters; every source of the domain has its coverage entry; the response is
  degraded iff no source serves the domain, a required source failed, or one said itself
  that its required read is incomplete; and only a cancellation leaves no response.
\<close>
theorem service_query_accounts:
  assumes "service_query ask ps domain q = Some r"
  shows "r_signals r = concat (map (\<lambda>p. case ask p q domain of
          ReadOk ss c \<Rightarrow> filter (\<lambda>s. (if q_include_baseline q then q_start q - day else q_start q) \<le> s_timestamp s
                              \<and> s_timestamp s \<le> q_end q \<and> query_matches q s) ss
        | _ \<Rightarrow> []) (plugins_for ps domain))
    \<and> length (r_coverage r) = max 1 (length (plugins_for ps domain))
    \<and> (degraded (r_coverage r) \<longleftrightarrow> plugins_for ps domain = [] \<or> (\<exists>p\<in>set (plugins_for ps domain). case ask p q domain of
          ReadOk ss c \<Rightarrow> c_required c \<and> c_status c \<noteq> CovOk | _ \<Rightarrow> pl_required p))
    \<and> (\<forall>p\<in>set ps. serves p domain \<longrightarrow> ask p q domain \<noteq> ReadCancelled)"
proof (cases "plugins_for ps domain = []")
  case True
  then have "\<forall>p\<in>set ps. \<not> serves p domain" by (simp add: plugins_for_def filter_empty_conv)
  then show ?thesis using assms True by (auto simp: service_query_def Let_def no_source_def degraded_def)
next
  case False
  note r = service_query_Some [OF assms False]
  have "\<forall>p\<in>set ps. serves p domain \<longrightarrow> ask p q domain \<noteq> ReadCancelled"
    using assms False collect_reads_None [of "kept_signals q" "''timeout''" "map (\<lambda>p. (p, ask p q domain)) (plugins_for ps domain)"]
    by (force simp: service_query_def Let_def plugins_for_def)
  then show ?thesis
    using r False
    by (simp add: read_coverage_bad read_items_def kept_signals_def lower_bound_eq degraded_def list_ex_iff Suc_le_eq)
qed

text \<open>
  Under a validated catalog the simulation source serves only classified telemetry: every signal
  lies in the window, belongs to the domain asked for, and has a name the catalog knows as a
  signal of exactly the domain that reads that telemetry.
\<close>

lemma simulation_fetch_classified:
  assumes "cross_validate re_ok cat = Inr ()" and "simulation_fetch F cat scenarios q domain = Inr ss"
  shows "\<forall>s\<in>set ss. q_start q \<le> s_timestamp s \<and> s_timestamp s \<le> q_end q
    \<and> s_domain s = domain \<and> s_source s = ''simulation''
    \<and> (\<exists>name sg. cat_signal cat (s_name s) = Some (name, sg) \<and> domain_for_telemetry cat domain = Some (sd_domain sg))"
proof
  fix s
  assume s: "s \<in> set ss"
  obtain mid m em where m: "(mid, m) \<in> set (cat_sources cat)" "sm_domain m = domain" "em \<in> set (sm_emit m)" "s_name s = es_name em"
    using simulation_fetch_signals [OF assms(2) s] by blast
  obtain name sg d where sg: "cat_signal cat (s_name s) = Some (name, sg)" "cat_domain cat (sd_domain sg) = Some d" "d_telemetry d = domain"
    using validated_emit [OF assms(1) m(1,3)] m(2,4) by auto
  then have "domain_for_telemetry cat domain = Some (sd_domain sg)"
    using validated_telemetry [OF assms(1), of "(sd_domain sg, d)"] by (simp add: cat_domain_def map_of_SomeD)
  with sg simulation_fetch_signals [OF assms(2) s] show "q_start q \<le> s_timestamp s \<and> s_timestamp s \<le> q_end q
    \<and> s_domain s = domain \<and> s_source s = ''simulation''
    \<and> (\<exists>name sg. cat_signal cat (s_name s) = Some (name, sg) \<and> domain_for_telemetry cat domain = Some (sd_domain sg))" by blast
qed

text \<open>
  C39: A service that starts without leave for cloud sources runs none: each of its plugins is a
  registered, implemented class that reads no cloud API, serves only domains of the catalog,
  and there is at least one, named as the configuration names them.
\<close>
theorem start_service_safe:
  assumes "start_service tab cat False sources = Inr ps"
  shows "ps \<noteq> [] \<and> (\<forall>p\<in>set ps. \<exists>qual pc. map_of tab (pl_name p) = Some (qual, pc) \<and> pc_implemented pc \<and> \<not> pc_cloud pc
    \<and> pl_name p \<in> set (keys sources)
    \<and> (\<forall>d\<in>set (pl_domains p). d = ANY_DOMAIN \<or> d = ''topology'' \<or> d \<in> set (keys (telemetry_domains cat))))"
proof -
  obtain xs where t: "traverse (start_source tab cat False) sources = Inr xs" and ps: "ps = List.map_filter id xs" "ps \<noteq> []"
    using assms by (auto simp: start_service_def Let_def and_then_Inr split: if_splits)
  have "\<exists>e\<in>set sources. start_source tab cat False e = Inr (Some p)" if "p \<in> set ps" for p
  proof -
    from that have "Some p \<in> set xs" by (auto simp: ps(1) List.map_filter_def)
    then have "Inr (Some p) \<in> set (map (start_source tab cat False) sources)"
      using traverse_Inr [OF t] by (metis image_eqI image_set)
    then show ?thesis by (auto dest: sym)
  qed
  note source = this
  have "\<exists>qual pc. map_of tab (pl_name p) = Some (qual, pc) \<and> pc_implemented pc \<and> \<not> pc_cloud pc
    \<and> pl_name p \<in> set (keys sources)
    \<and> set (pl_domains p) \<subseteq> insert ANY_DOMAIN (insert ''topology'' (set (keys (telemetry_domains cat))))" if "p \<in> set ps" for p
  proof -
    from source [OF that] obtain e where e: "e \<in> set sources" "start_source tab cat False e = Inr (Some p)" by blast
    then have "fst e \<in> set (keys sources)" by (simp add: keys_def)
    with start_source_Inr [OF e(2)] show ?thesis by metis
  qed
  then show ?thesis using ps(2) by (intro conjI ballI) (assumption, blast)
qed

section \<open>Examples\<close>

definition ex_plugin :: "string \<Rightarrow> bool \<Rightarrow> plugin" where
  "ex_plugin name req = \<lparr>pl_name = name, pl_domains = [''net''], pl_required = req, pl_timeout = 10\<rparr>"

definition ex_tquery :: telemetry_query where
  "ex_tquery = \<lparr>q_region = ''us-east-1'', q_start = 0, q_end = 200, q_filters = None, q_include_baseline = False,
     q_scenario = None, q_anchor = None\<rparr>"

definition ex_ask :: "plugin \<Rightarrow> telemetry_query \<Rightarrow> string \<Rightarrow> signal list read" where
  "ex_ask p q domain = (if pl_name p = ''a'' then ReadOk [ex_signal, ex_signal\<lparr>s_timestamp := 300\<rparr>] (plugin_coverage p CovOk None)
     else ReadTimeout)"

theorem service_query_accounts_witness:
  "\<exists>r. service_query ex_ask [ex_plugin ''a'' True, ex_plugin ''b'' True] ''net'' ex_tquery = Some r
     \<and> r_signals r = [ex_signal] \<and> degraded (r_coverage r)"
proof -
  obtain r where r: "service_query ex_ask [ex_plugin ''a'' True, ex_plugin ''b'' True] ''net'' ex_tquery = Some r"
    by (simp add: service_query_def plugins_for_def serves_def ex_plugin_def ex_ask_def)
  have serving: "plugins_for [ex_plugin ''a'' True, ex_plugin ''b'' True] ''net'' = [ex_plugin ''a'' True, ex_plugin ''b'' True]"
    by (simp add: plugins_for_def serves_def ex_plugin_def)
  have names: "pl_name (ex_plugin n b) = n" "pl_required (ex_plugin n b) = b" for n b by (simp_all add: ex_plugin_def)
  note sound = service_query_accounts [OF r, unfolded serving]
  have "r_signals r = [ex_signal]"
    using conjunct1 [OF sound] by (simp add: ex_ask_def names ex_tquery_def ex_signal_def query_matches_def)
  moreover have "degraded (r_coverage r)"
    using conjunct1 [OF conjunct2 [OF conjunct2 [OF sound]]] by (simp add: ex_ask_def names)
  ultimately show ?thesis using r by blast
qed

definition ex_table :: plugin_table where
  "ex_table = [(''replay'', (''ReplayPlugin'', \<lparr>pc_domains = [''*''], pc_implemented = True, pc_cloud = False, pc_init = \<lambda>_ ds. Inr ds\<rparr>))]"

theorem start_service_safe_witness:
  "\<exists>p. start_service ex_table ex_cat False [(''replay'', PDict [(''enabled'', PBool True)])] = Inr [p] \<and> pl_name p = ''replay''"
proof -
  obtain p where p: "start_service ex_table ex_cat False [(''replay'', PDict [(''enabled'', PBool True)])] = Inr [p]"
    by (simp add: start_service_def start_source_def start_plugin_def source_config_def cfg_get_def ex_table_def base_init_def
        ANY_DOMAIN_def List.map_filter_def ensure_def)
  from start_service_safe [OF p] have "pl_name p = ''replay''" by (auto simp: keys_def)
  with p show ?thesis by blast
qed

end
