(* ===== verification/Recorder.thy ===== *)
theory Recorder
  imports Telemetry
begin

text \<open>
  Recording live telemetry as fixtures (\<open>providers/recorder.py\<close>) and serving fixtures rebased
  into a query's window (\<open>mcp_telemetry_server/plugins/replay.py\<close>). The two share the fixture
  file; the theory relates them: a recording, replayed, gives back the recorded telemetry.

  A fixture is the parsed file. A time in it is the number of microseconds its text stands
  for, and texts are compared the way Python compares the strings \<open>_iso\<close> makes.
\<close>

section \<open>Fixtures\<close>

record fixture =
  fx_version :: string
  fx_region :: "string option"
  fx_scenario :: "int option"
  fx_start :: time
  fx_end :: time
  fx_alarm :: "time option"
  fx_signals :: "signal list"
  fx_topology :: "(entity list \<times> topology_edge list) option"

text \<open>
  The order of ISO texts of the same length of year: the part up to the seconds first; within
  one second the text with a fraction comes before the one without, because \<open>.\<close> sorts before
  \<open>Z\<close>.
\<close>

definition iso_rank :: "time \<Rightarrow> int \<times> int \<times> int" where
  "iso_rank t = (t div 1000000, if t mod 1000000 = 0 then 1 else 0, t mod 1000000)"

definition iso_min :: "time \<Rightarrow> time \<Rightarrow> time" where
  "iso_min a b = (if iso_rank b < iso_rank a then b else a)"

definition iso_max :: "time \<Rightarrow> time \<Rightarrow> time" where
  "iso_max a b = (if iso_rank a < iso_rank b then b else a)"

section \<open>Recording\<close>

definition REPLAY_TAG :: string where "REPLAY_TAG = ''replay_fixture''"

text \<open>\<open>model_dump(mode="json")\<close> of an attribute: a datetime becomes its text.\<close>

fun json_val :: "(time \<Rightarrow> string) \<Rightarrow> pyval \<Rightarrow> pyval" where
  "json_val tx (PTime t) = PStr (tx t)"
| "json_val tx (PList xs) = PList (map (json_val tx) xs)"
| "json_val tx (PDict d) = PDict (map (\<lambda>(k, v). (k, json_val tx v)) d)"
| "json_val tx v = v"

definition json_attributes :: "(time \<Rightarrow> string) \<Rightarrow> (string, pyval) dict \<Rightarrow> (string, pyval) dict" where
  "json_attributes tx d = map (\<lambda>(k, v). (k, json_val tx v)) d"

text \<open>\<open>d.pop(k, None)\<close>.\<close>

definition dict_pop :: "'k \<Rightarrow> ('k, 'v) dict \<Rightarrow> ('k, 'v) dict" where
  "dict_pop k d = filter (\<lambda>(k', _). k' \<noteq> k) d"

definition row_of :: "(time \<Rightarrow> string) \<Rightarrow> signal \<Rightarrow> signal" where
  "row_of tx s = s\<lparr>s_attributes := dict_pop REPLAY_TAG (json_attributes tx (s_attributes s))\<rparr>"

text \<open>The deduplication key; \<open>dump\<close> is \<open>json.dumps(row, sort_keys=True)\<close>.\<close>

definition row_ident :: "(signal \<Rightarrow> string) \<Rightarrow> signal \<Rightarrow> string \<times> string" where
  "row_ident dump s = (s_source s, str_or (s_evidence_ref s) (dump s))"

definition add_row :: "(signal \<Rightarrow> string) \<Rightarrow> signal \<Rightarrow> signal list \<Rightarrow> signal list" where
  "add_row dump row rows = (if row_ident dump row \<in> row_ident dump ` set rows then rows else rows @ [row])"

type_synonym rec_path = "string \<times> int"  \<comment> \<open>region, alarm instant in whole seconds\<close>

record recorder =
  rc_files :: "(rec_path, fixture) dict"
  rc_last :: "(string, rec_path) dict"

definition path_for :: "string \<Rightarrow> time \<Rightarrow> rec_path" where
  "path_for region alarm = (region, alarm div 1000000)"

definition alarm_of :: "telemetry_query \<Rightarrow> time" where
  "alarm_of q = (case q_anchor q of None \<Rightarrow> q_end q | Some t \<Rightarrow> t)"

definition fresh_fixture :: "string \<Rightarrow> time \<Rightarrow> fixture" where
  "fresh_fixture region alarm = \<lparr>fx_version = CONTRACT_VERSION, fx_region = Some region, fx_scenario = None,
     fx_start = alarm, fx_end = alarm, fx_alarm = Some alarm, fx_signals = [], fx_topology = None\<rparr>"

definition load_recording :: "recorder \<Rightarrow> rec_path \<Rightarrow> string \<Rightarrow> time \<Rightarrow> fixture" where
  "load_recording rc path region alarm =
     (case map_of (rc_files rc) path of Some f \<Rightarrow> f | None \<Rightarrow> fresh_fixture region alarm)"

definition merge_recording :: "(time \<Rightarrow> string) \<Rightarrow> (signal \<Rightarrow> string) \<Rightarrow> telemetry_query \<Rightarrow> tool_response \<Rightarrow> fixture \<Rightarrow> fixture" where
  "merge_recording tx dump q r f =
     f\<lparr>fx_start := iso_min (fx_start f) (case r_baseline r of None \<Rightarrow> q_start q | Some w \<Rightarrow> w_start w),
       fx_end := iso_max (fx_end f) (q_end q),
       fx_signals := fold (\<lambda>s. add_row dump (row_of tx s)) (r_signals r) (fx_signals f)\<rparr>"

definition record_response :: "(time \<Rightarrow> string) \<Rightarrow> (signal \<Rightarrow> string) \<Rightarrow> telemetry_query \<Rightarrow> tool_response \<Rightarrow> recorder \<Rightarrow> recorder" where
  "record_response tx dump q r rc =
     (let path = path_for (q_region q) (alarm_of q);
          f = load_recording rc path (q_region q) (alarm_of q)
      in \<lparr>rc_files = AList.update path (merge_recording tx dump q r f) (rc_files rc),
          rc_last = AList.update (q_region q) path (rc_last rc)\<rparr>)"

definition record_topology :: "(time \<Rightarrow> string) \<Rightarrow> topology_response \<Rightarrow> recorder \<Rightarrow> recorder" where
  "record_topology tx t rc =
     (case map_of (rc_last rc) (tr_region t) of
        None \<Rightarrow> rc
      | Some path \<Rightarrow>
          (case map_of (rc_files rc) path of
             None \<Rightarrow> rc
           | Some f \<Rightarrow> rc\<lparr>rc_files := AList.update path (f\<lparr>fx_topology := Some (tr_entities t,
               map (\<lambda>e. e\<lparr>t_attributes := json_attributes tx (t_attributes e)\<rparr>) (tr_relationships t))\<rparr>) (rc_files rc)\<rparr>))"

section \<open>Replaying\<close>

definition rebase_signal :: "signal \<Rightarrow> time \<Rightarrow> string \<Rightarrow> signal" where
  "rebase_signal s offset name =
     s\<lparr>s_timestamp := s_timestamp s + offset, s_observed_at := s_observed_at s + offset,
       s_attributes := AList.update REPLAY_TAG (PStr name) (s_attributes s)\<rparr>"

text \<open>\<open>ReplayPlugin.__init__\<close>: each file is validated and its contract version checked.\<close>

datatype fixture_error = BadWindow string | BadFixtureVersion contract_error | NoFixtures

definition load_fixture :: "string \<times> fixture \<Rightarrow> fixture_error + string \<times> fixture" where
  "load_fixture e =
     (if fx_start (snd e) > fx_end (snd e) then Inl (BadWindow (fst e))
      else case check_contract_version (fx_version (snd e)) of
             Inl x \<Rightarrow> Inl (BadFixtureVersion x)
           | Inr _ \<Rightarrow> Inr e)"

definition load_fixtures :: "(string \<times> fixture) list \<Rightarrow> fixture_error + (string \<times> fixture) list" where
  "load_fixtures paths = (if paths = [] then Inl NoFixtures else traverse load_fixture paths)"

definition matching :: "(string \<times> fixture) list \<Rightarrow> string \<Rightarrow> int option \<Rightarrow> (string \<times> fixture) list" where
  "matching fs region scenario =
     filter (\<lambda>(_, f). (fx_region f = None \<or> fx_region f = Some region)
                    \<and> (fx_scenario f = None \<or> fx_scenario f = scenario)) fs"

definition replay_lower :: "telemetry_query \<Rightarrow> time" where
  "replay_lower q = (if q_include_baseline q then q_start q - day else q_start q)"

definition replay_offset :: "telemetry_query \<Rightarrow> fixture \<Rightarrow> time" where
  "replay_offset q f = alarm_of q - (case fx_alarm f of None \<Rightarrow> fx_end f | Some t \<Rightarrow> t)"

definition replay_one :: "telemetry_query \<Rightarrow> string \<Rightarrow> string \<times> fixture \<Rightarrow> signal list" where
  "replay_one q domain e =
     filter (\<lambda>s. replay_lower q \<le> s_timestamp s \<and> s_timestamp s \<le> q_end q)
       (map (\<lambda>s. rebase_signal s (replay_offset q (snd e)) (fst e))
         (filter (\<lambda>s. s_domain s = domain) (fx_signals (snd e))))"

definition replay_fetch :: "(string \<times> fixture) list \<Rightarrow> telemetry_query \<Rightarrow> string \<Rightarrow> signal list" where
  "replay_fetch fs q domain = concat (map (replay_one q domain) (matching fs (q_region q) (q_scenario q)))"

definition replay_topology :: "(string \<times> fixture) list \<Rightarrow> string \<Rightarrow> int option \<Rightarrow> entity list \<times> topology_edge list" where
  "replay_topology fs region scenario =
     (let ts = List.map_filter (\<lambda>(_, f). fx_topology f) (matching fs region scenario)
      in (concat (map fst ts), concat (map snd ts)))"

section \<open>Facts about recordings\<close>

definition record_all :: "(time \<Rightarrow> string) \<Rightarrow> (signal \<Rightarrow> string) \<Rightarrow> (telemetry_query \<times> tool_response) list \<Rightarrow> recorder \<Rightarrow> recorder" where
  "record_all tx dump calls rc = fold (\<lambda>(q, r). record_response tx dump q r) calls rc"

definition recorded_signals :: "(telemetry_query \<times> tool_response) list \<Rightarrow> signal list" where
  "recorded_signals calls = concat (map (\<lambda>(q, r). r_signals r) calls)"

lemma add_rows:
  "distinct (map (row_ident dump) (fold (add_row dump) xs rows)) = distinct (map (row_ident dump) rows)
   \<and> set rows \<subseteq> set (fold (add_row dump) xs rows) \<and> set (fold (add_row dump) xs rows) \<subseteq> set rows \<union> set xs
   \<and> row_ident dump ` set (fold (add_row dump) xs rows) = row_ident dump ` (set rows \<union> set xs)"
proof (induction xs arbitrary: rows)
  case (Cons x xs)
  have "distinct (map (row_ident dump) (add_row dump x rows)) = distinct (map (row_ident dump) rows)"
    "set rows \<subseteq> set (add_row dump x rows)" "set (add_row dump x rows) \<subseteq> insert x (set rows)"
    "row_ident dump ` set (add_row dump x rows) = row_ident dump ` insert x (set rows)"
    by (auto simp: add_row_def)
  with Cons.IH [of "add_row dump x rows"] show ?case by (simp add: image_Un) blast
qed simp

lemma add_rows_known:
  "row_ident dump ` set xs \<subseteq> row_ident dump ` set rows \<Longrightarrow> fold (add_row dump) xs rows = rows"
  by (induction xs) (auto simp: add_row_def)

lemma merge_signals:
  "fx_signals (merge_recording tx dump q r f) = fold (add_row dump) (map (row_of tx) (r_signals r)) (fx_signals f)"
  by (simp add: merge_recording_def fold_map o_def)

lemma merge_fields:
  "fx_version (merge_recording tx dump q r f) = fx_version f" "fx_region (merge_recording tx dump q r f) = fx_region f"
  "fx_scenario (merge_recording tx dump q r f) = fx_scenario f" "fx_alarm (merge_recording tx dump q r f) = fx_alarm f"
  by (simp_all add: merge_recording_def)

text \<open>The file of one alarm instant after a sequence of responses about it.\<close>

definition recording :: "(time \<Rightarrow> string) \<Rightarrow> (signal \<Rightarrow> string) \<Rightarrow> (telemetry_query \<times> tool_response) list \<Rightarrow> fixture \<Rightarrow> fixture" where
  "recording tx dump calls f = fold (\<lambda>(q, r). merge_recording tx dump q r) calls f"

lemma record_all_file:
  assumes "\<forall>(q, r)\<in>set calls. q_region q = region \<and> alarm_of q = alarm" and "calls \<noteq> []"
  shows "map_of (rc_files (record_all tx dump calls rc)) (path_for region alarm)
    = Some (recording tx dump calls (load_recording rc (path_for region alarm) region alarm))"
  using assms
proof (induction calls arbitrary: rc)
  case (Cons c calls)
  obtain q r where c: "c = (q, r)" by force
  let ?p = "path_for region alarm" and ?rc = "record_response tx dump q r rc"
  from Cons.prems(1) c have q: "q_region q = region" "alarm_of q = alarm" by auto
  have stored: "map_of (rc_files ?rc) ?p = Some (merge_recording tx dump q r (load_recording rc ?p region alarm))"
    by (simp add: record_response_def Let_def q dict_simps)
  show ?case
  proof (cases "calls = []")
    case True
    then show ?thesis using stored by (simp add: record_all_def recording_def c)
  next
    case False
    have load: "load_recording ?rc ?p region alarm = merge_recording tx dump q r (load_recording rc ?p region alarm)"
      using stored by (simp add: load_recording_def)
    from Cons.IH [OF _ False, of ?rc] Cons.prems(1) show ?thesis
      by (simp add: record_all_def recording_def c load)
  qed
qed simp

lemma recording_fields:
  "fx_signals (recording tx dump calls f) = fold (add_row dump) (map (row_of tx) (recorded_signals calls)) (fx_signals f)
   \<and> fx_version (recording tx dump calls f) = fx_version f \<and> fx_region (recording tx dump calls f) = fx_region f
   \<and> fx_scenario (recording tx dump calls f) = fx_scenario f \<and> fx_alarm (recording tx dump calls f) = fx_alarm f"
proof (induction calls arbitrary: f)
  case Nil
  then show ?case by (simp add: recording_def recorded_signals_def)
next
  case (Cons c calls)
  obtain q r where c: "c = (q, r)" by force
  have "recording tx dump (c # calls) f = recording tx dump calls (merge_recording tx dump q r f)"
    by (simp add: recording_def c)
  with Cons.IH [of "merge_recording tx dump q r f"] show ?case
    by (simp add: merge_fields merge_signals recorded_signals_def c)
qed

text \<open>The rows of a fresh recording: one per identity, and none that was not in a response.\<close>

lemma fresh_rows:
  assumes "\<forall>s\<in>set (recorded_signals calls). \<forall>s'\<in>set (recorded_signals calls).
      row_ident dump (row_of tx s) = row_ident dump (row_of tx s') \<longrightarrow> row_of tx s = row_of tx s'"
  shows "set (fx_signals (recording tx dump calls (fresh_fixture region alarm))) = row_of tx ` set (recorded_signals calls)
    \<and> distinct (map (row_ident dump) (fx_signals (recording tx dump calls (fresh_fixture region alarm))))"
proof -
  let ?xs = "map (row_of tx) (recorded_signals calls)" and ?rows = "fold (add_row dump) (map (row_of tx) (recorded_signals calls)) []"
  have rows: "fx_signals (recording tx dump calls (fresh_fixture region alarm)) = ?rows"
    using recording_fields [of tx dump calls "fresh_fixture region alarm"] by (simp add: fresh_fixture_def)
  note a = add_rows [of dump ?xs "[]"]
  have "row \<in> set ?rows" if "row \<in> set ?xs" for row
  proof -
    from a that have "row_ident dump row \<in> row_ident dump ` set ?rows" by (simp only: list.set Un_empty_left) blast
    then obtain row' where r: "row' \<in> set ?rows" "row_ident dump row' = row_ident dump row" by auto
    with a have "row' \<in> set ?xs" by auto
    with assms that r(2) have "row' = row" by auto
    with r(1) show ?thesis by simp
  qed
  with a rows show ?thesis by auto
qed

lemma json_val_idem: "json_val tx (json_val tx v) = json_val tx v"
  by (induction v) (auto simp: case_prod_unfold)

lemma row_of_replayed: "row_of tx (rebase_signal (row_of tx s) 0 name) = row_of tx s"
proof -
  have pop_update: "dict_pop k (AList.update k v d) = dict_pop k d" for k :: string and v :: pyval and d
    by (induction d) (auto simp: dict_pop_def)
  have json_update: "json_attributes tx (AList.update k v d) = AList.update k (json_val tx v) (json_attributes tx d)" for k v d
    by (induction d) (auto simp: json_attributes_def)
  have json_pop: "dict_pop k (json_attributes tx (dict_pop k (json_attributes tx d))) = dict_pop k (json_attributes tx d)" for k d
    by (induction d) (auto simp: json_attributes_def dict_pop_def json_val_idem)
  show ?thesis by (simp add: row_of_def rebase_signal_def json_update pop_update json_pop)
qed

lemma rebase_time: "s_timestamp (rebase_signal s d name) = s_timestamp s + d"
  by (simp add: rebase_signal_def)

lemma row_fields: "s_timestamp (row_of tx s) = s_timestamp s" "s_domain (row_of tx s) = s_domain s"
  by (simp_all add: row_of_def)

lemma replay_single:
  assumes "fx_region f = Some (q_region q)" "fx_scenario f = None" "fx_alarm f = Some alarm"
  shows "replay_fetch [(name, f)] q domain =
    filter (\<lambda>s. replay_lower q \<le> s_timestamp s \<and> s_timestamp s \<le> q_end q)
      (map (\<lambda>s. rebase_signal s (alarm_of q - alarm) name) (filter (\<lambda>s. s_domain s = domain) (fx_signals f)))"
  by (simp add: replay_fetch_def matching_def replay_one_def replay_offset_def assms)

lemma window_order_whole:
  assumes "t mod 1000000 = 0" "u mod 1000000 = 0"
  shows "iso_min t u = min t u" "iso_max t u = max t u"
proof -
  have "iso_rank t < iso_rank u \<longleftrightarrow> t < u" if "t mod 1000000 = 0" "u mod 1000000 = 0" for t u
  proof -
    have "t = t div 1000000 * 1000000" "u = u div 1000000 * 1000000" using that by (simp_all add: dvd_div_mult_self mod_eq_0_iff_dvd)
    then show ?thesis using that by (auto simp: iso_rank_def less_prod_def')
  qed
  with assms show "iso_min t u = min t u" "iso_max t u = max t u" by (auto simp: iso_min_def iso_max_def)
qed

text \<open>Times with fractions of a second can be recorded in the wrong order: a file no replay loads.\<close>

lemma fractional_window_unloadable:
  "load_fixture (''f'', merge_recording tx dump
       \<lparr>q_region = ''us-east-1'', q_start = 200000, q_end = 700000, q_filters = None, q_include_baseline = False,
        q_scenario = None, q_anchor = Some 0\<rparr>
       \<lparr>r_version = CONTRACT_VERSION, r_window = \<lparr>w_start = 200000, w_end = 700000\<rparr>, r_baseline = None, r_coverage = [],
        r_signals = [], r_cursor = None\<rparr> (fresh_fixture ''us-east-1'' 0)) = Inl (BadWindow ''f'')"
  by (simp add: load_fixture_def merge_recording_def fresh_fixture_def iso_min_def iso_max_def iso_rank_def)

section \<open>Properties\<close>

text \<open>
  C8: A recording, replayed, is what was recorded: after any responses about one alarm, with
  evidence references that name one record each, a query of that region gets from the
  fixture exactly the recorded signals of its domain, moved by the distance between its
  alarm and the recorded one, that then fall into its window, each once; only the fixture
  tag is added. Recording such a replay at the same alarm adds nothing to the fixture.
\<close>
theorem record_replay_roundtrip:
  assumes "calls \<noteq> [] \<and> (\<forall>(q, r)\<in>set calls. q_region q = region \<and> alarm_of q = alarm)"
    and "map_of (rc_files rc) (path_for region alarm) = None"
    and "\<forall>s\<in>set (recorded_signals calls). \<forall>s'\<in>set (recorded_signals calls).
      row_ident dump (row_of tx s) = row_ident dump (row_of tx s') \<longrightarrow> row_of tx s = row_of tx s'"
    and "q_region q = region"
  shows "\<exists>f. map_of (rc_files (record_all tx dump calls rc)) (path_for region alarm) = Some f
    \<and> set (replay_fetch [(name, f)] q domain) = (\<lambda>s. rebase_signal (row_of tx s) (alarm_of q - alarm) name) `
        {s \<in> set (recorded_signals calls). s_domain s = domain
          \<and> replay_lower q \<le> s_timestamp s + (alarm_of q - alarm) \<and> s_timestamp s + (alarm_of q - alarm) \<le> q_end q}
    \<and> distinct (map (row_ident dump) (fx_signals f))
    \<and> (\<forall>r. alarm_of q = alarm \<longrightarrow> r_signals r = replay_fetch [(name, f)] q domain
          \<longrightarrow> fx_signals (merge_recording tx dump q r f) = fx_signals f)"
proof -
  define f where "f = recording tx dump calls (fresh_fixture region alarm)"
  have stored: "map_of (rc_files (record_all tx dump calls rc)) (path_for region alarm) = Some f"
    using record_all_file [of calls region alarm] assms(1,2) by (simp add: f_def load_recording_def)
  have rows: "set (fx_signals f) = row_of tx ` set (recorded_signals calls)" "distinct (map (row_ident dump) (fx_signals f))"
    using fresh_rows [OF assms(3)] by (simp_all add: f_def)
  have fields: "fx_region f = Some region" "fx_scenario f = None" "fx_alarm f = Some alarm"
    using recording_fields [of tx dump calls "fresh_fixture region alarm"] by (simp_all add: f_def fresh_fixture_def)
  have replay: "replay_fetch [(name, f)] q domain =
      filter (\<lambda>s. replay_lower q \<le> s_timestamp s \<and> s_timestamp s \<le> q_end q)
        (map (\<lambda>s. rebase_signal s (alarm_of q - alarm) name) (filter (\<lambda>s. s_domain s = domain) (fx_signals f)))"
    using replay_single [of f q alarm name domain] fields assms(4) by simp
  let ?in = "\<lambda>s. s_domain s = domain \<and> replay_lower q \<le> s_timestamp s + (alarm_of q - alarm)
      \<and> s_timestamp s + (alarm_of q - alarm) \<le> q_end q"
  have "set (replay_fetch [(name, f)] q domain) = (\<lambda>s. rebase_signal s (alarm_of q - alarm) name) ` {s \<in> set (fx_signals f). ?in s}"
    unfolding replay by (auto simp: rebase_time)
  also have "{s \<in> set (fx_signals f). ?in s} = row_of tx ` {s \<in> set (recorded_signals calls). ?in s}"
    unfolding rows(1) by (auto simp: row_fields)
  finally have "set (replay_fetch [(name, f)] q domain) = (\<lambda>s. rebase_signal (row_of tx s) (alarm_of q - alarm) name) `
        {s \<in> set (recorded_signals calls). ?in s}"
    by (simp add: image_image)
  moreover have "fx_signals (merge_recording tx dump q r f) = fx_signals f"
    if "alarm_of q = alarm" "r_signals r = replay_fetch [(name, f)] q domain" for r
  proof -
    have "row_of tx ` set (r_signals r) \<subseteq> set (fx_signals f)"
      using that by (auto simp: replay rows(1) row_of_replayed)
    then show ?thesis by (simp add: merge_signals add_rows_known image_mono image_image [symmetric])
  qed
  ultimately show ?thesis using stored rows(2) by blast
qed

definition ex_recorded :: "(telemetry_query \<times> tool_response) list" where
  "ex_recorded = [(ex_tquery\<lparr>q_anchor := Some 200\<rparr>, \<lparr>r_version = CONTRACT_VERSION, r_window = query_window_of ex_tquery,
     r_baseline = None, r_coverage = [], r_signals = [ex_signal, ex_signal], r_cursor = None\<rparr>)]"

theorem record_replay_roundtrip_witness:
  "\<exists>f. map_of (rc_files (record_all (\<lambda>_. []) (\<lambda>_. ''d'') ex_recorded \<lparr>rc_files = [], rc_last = []\<rparr>)) (''us-east-1'', 0) = Some f
     \<and> set (replay_fetch [(''f'', f)] (ex_tquery\<lparr>q_start := 1000, q_end := 1200\<rparr>) ''metrics'') = {rebase_signal ex_signal 1000 ''f''}"
proof -
  have rows: "recorded_signals ex_recorded = [ex_signal, ex_signal]" by (simp add: recorded_signals_def ex_recorded_def)
  have row: "row_of (\<lambda>_. []) ex_signal = ex_signal" by (simp add: row_of_def ex_signal_def json_attributes_def dict_pop_def)
  have refs: "\<forall>s\<in>set (recorded_signals ex_recorded). \<forall>s'\<in>set (recorded_signals ex_recorded).
      row_ident (\<lambda>_. ''d'') (row_of (\<lambda>_. []) s) = row_ident (\<lambda>_. ''d'') (row_of (\<lambda>_. []) s') \<longrightarrow> row_of (\<lambda>_. []) s = row_of (\<lambda>_. []) s'"
    unfolding rows by simp
  have "ex_recorded \<noteq> [] \<and> (\<forall>(q, r)\<in>set ex_recorded. q_region q = ''us-east-1'' \<and> alarm_of q = 200)"
    "map_of (rc_files \<lparr>rc_files = [], rc_last = []\<rparr>) (path_for ''us-east-1'' 200) = None"
    "q_region (ex_tquery\<lparr>q_start := 1000, q_end := 1200\<rparr>) = ''us-east-1''"
    by (simp_all add: ex_recorded_def ex_tquery_def alarm_of_def)
  note trip = record_replay_roundtrip [OF this(1,2) refs this(3), where name = "''f''" and domain = "''metrics''"]
  have in_window: "{s \<in> set (recorded_signals ex_recorded). s_domain s = ''metrics''
      \<and> replay_lower (ex_tquery\<lparr>q_start := 1000, q_end := 1200\<rparr>) \<le> s_timestamp s + (alarm_of (ex_tquery\<lparr>q_start := 1000, q_end := 1200\<rparr>) - 200)
      \<and> s_timestamp s + (alarm_of (ex_tquery\<lparr>q_start := 1000, q_end := 1200\<rparr>) - 200) \<le> q_end (ex_tquery\<lparr>q_start := 1000, q_end := 1200\<rparr>)} = {ex_signal}"
    by (auto simp: rows replay_lower_def ex_tquery_def alarm_of_def ex_signal_def)
  have offset: "alarm_of (ex_tquery\<lparr>q_start := 1000, q_end := 1200\<rparr>) - 200 = 1000" "path_for ''us-east-1'' 200 = (''us-east-1'', 0)"
    by (simp_all add: alarm_of_def ex_tquery_def path_for_def)
  from trip show ?thesis unfolding in_window unfolding offset by (simp add: row) blast
qed

end
