(* ===== verification/Tasks.thy ===== *)
theory Tasks
  imports Prelude
begin

text \<open>
  Long-running RCA tasks of the MCP server: the in-memory store (\<open>mcp_server/tasks.py\<close>) and
  the tool handlers and background runs that use it (\<open>mcp_server/server.py\<close>). A run of the
  pipeline is a parameter: it ends with a report, an exception, or not at all; the report is
  of any type. Handlers and runs interleave as the steps of a relation, with the log of what
  they reported beside the store.
\<close>

section \<open>The store\<close>

datatype task_status = Running | Completed | Failed | Cancelled

record progress =
  tp_stage :: string
  tp_percent :: real
  tp_message :: string

record 'r task_record =
  tk_id :: string
  tk_incident :: string
  tk_status :: task_status
  tk_created :: time
  tk_progress :: "progress option"
  tk_result :: "'r option"
  tk_error :: "string option"
  tk_completed :: "time option"

record 'r task_store =
  ts_tasks :: "(string, 'r task_record) dict"
  ts_index :: "(string, string) dict"
  ts_ttl :: int
  ts_max :: int

definition running :: "('r task_record) \<Rightarrow> bool" where
  "running t \<longleftrightarrow> tk_status t = Running"

definition running_count :: "'r task_store \<Rightarrow> int" where
  "running_count st = int (length (filter running (vals (ts_tasks st))))"

definition new_record :: "string \<Rightarrow> string \<Rightarrow> time \<Rightarrow> 'r task_record" where
  "new_record tid inc now = \<lparr>tk_id = tid, tk_incident = inc, tk_status = Running, tk_created = now,
     tk_progress = None, tk_result = None, tk_error = None, tk_completed = None\<rparr>"

text \<open>\<open>create_task\<close>; \<open>tid\<close> is the id made of a fresh UUID, \<open>None\<close> the \<open>RuntimeError\<close> of a full store.\<close>

definition create_task :: "string \<Rightarrow> string \<Rightarrow> time \<Rightarrow> 'r task_store \<Rightarrow> 'r task_store option" where
  "create_task tid inc now st =
     (if running_count st \<ge> ts_max st then None
      else Some (st\<lparr>ts_tasks := AList.update tid (new_record tid inc now) (ts_tasks st),
                    ts_index := AList.update inc tid (ts_index st)\<rparr>))"

text \<open>An update of a task that is still running; anything else is left alone.\<close>

definition update_running :: "string \<Rightarrow> ('r task_record \<Rightarrow> 'r task_record) \<Rightarrow> 'r task_store \<Rightarrow> 'r task_store" where
  "update_running tid f st =
     (case map_of (ts_tasks st) tid of
        Some t \<Rightarrow> if running t then st\<lparr>ts_tasks := AList.update tid (f t) (ts_tasks st)\<rparr> else st
      | None \<Rightarrow> st)"

definition update_progress :: "string \<Rightarrow> string \<Rightarrow> real \<Rightarrow> string \<Rightarrow> 'r task_store \<Rightarrow> 'r task_store" where
  "update_progress tid stage percent msg =
     update_running tid (\<lambda>t. t\<lparr>tk_progress := Some \<lparr>tp_stage = stage, tp_percent = percent, tp_message = msg\<rparr>\<rparr>)"

definition complete_task :: "string \<Rightarrow> 'r \<Rightarrow> time \<Rightarrow> 'r task_store \<Rightarrow> 'r task_store" where
  "complete_task tid res now =
     update_running tid (\<lambda>t. t\<lparr>tk_status := Completed, tk_result := Some res, tk_completed := Some now\<rparr>)"

definition fail_task :: "string \<Rightarrow> string \<Rightarrow> time \<Rightarrow> 'r task_store \<Rightarrow> 'r task_store" where
  "fail_task tid err now =
     update_running tid (\<lambda>t. t\<lparr>tk_status := Failed, tk_error := Some err, tk_completed := Some now\<rparr>)"

definition get_task :: "string \<Rightarrow> 'r task_store \<Rightarrow> 'r task_record option" where
  "get_task tid st = map_of (ts_tasks st) tid"

definition cancel_task :: "string \<Rightarrow> time \<Rightarrow> 'r task_store \<Rightarrow> bool \<times> 'r task_store" where
  "cancel_task tid now st =
     ((case get_task tid st of Some t \<Rightarrow> running t | None \<Rightarrow> False),
      update_running tid (\<lambda>t. t\<lparr>tk_status := Cancelled, tk_completed := Some now\<rparr>) st)"

definition get_task_by_incident :: "string \<Rightarrow> 'r task_store \<Rightarrow> 'r task_record option" where
  "get_task_by_incident inc st =
     (case map_of (ts_index st) inc of
        None \<Rightarrow> None
      | Some tid \<Rightarrow> if tid = [] then None else get_task tid st)"

definition expired :: "int \<Rightarrow> time \<Rightarrow> 'r task_record \<Rightarrow> bool" where
  "expired ttl now t \<longleftrightarrow> \<not> running t \<and> (case tk_completed t of None \<Rightarrow> False | Some ended \<Rightarrow> now - ended > seconds ttl)"

definition remove_task :: "string \<Rightarrow> 'r task_store \<Rightarrow> 'r task_store" where
  "remove_task tid st =
     (case map_of (ts_tasks st) tid of
        None \<Rightarrow> st
      | Some t \<Rightarrow> st\<lparr>ts_tasks := AList.delete tid (ts_tasks st), ts_index := AList.delete (tk_incident t) (ts_index st)\<rparr>)"

definition cleanup_expired :: "time \<Rightarrow> 'r task_store \<Rightarrow> nat \<times> 'r task_store" where
  "cleanup_expired now st =
     (let gone = map fst (filter (\<lambda>(tid, t). expired (ts_ttl st) now t) (ts_tasks st))
      in (length gone, fold remove_task gone st))"

section \<open>Tool handlers\<close>

datatype 'r tool_reply =
    ErrNotInitialized
  | ErrSeverity string
  | ErrReportedAt string
  | ErrFull
  | ErrNoTask string
  | TaskStarted string string
  | NotCancelled string task_status
  | CancelAccepted string
  | ReportRunning string string "progress option"
  | ReportCompleted string string "'r option"
  | ReportFailed string string "string option"
  | ReportCancelled string string

text \<open>
  \<open>run_rca\<close> up to the launch of the background run. \<open>parse\<close> is \<open>datetime.fromisoformat\<close>;
  \<open>tid\<close> and \<open>inc\<close> are the ids the new task and incident get.
\<close>

definition SEVERITIES :: "string list" where
  "SEVERITIES = [''low'', ''medium'', ''high'', ''critical'']"

definition run_rca :: "(string \<Rightarrow> time option) \<Rightarrow> string \<Rightarrow> string option \<Rightarrow> string \<Rightarrow> string \<Rightarrow> time
    \<Rightarrow> 'r task_store option \<Rightarrow> 'r tool_reply \<times> 'r task_store option" where
  "run_rca parse severity reported_at tid inc now store =
     (case store of
        None \<Rightarrow> (ErrNotInitialized, None)
      | Some st \<Rightarrow>
          if severity \<notin> set SEVERITIES then (ErrSeverity severity, store)
          else if (case reported_at of None \<Rightarrow> False | Some s \<Rightarrow> s \<noteq> []) \<and> parse (the reported_at) = None then (ErrReportedAt (the reported_at), store)
          else (case create_task tid inc now st of
                  None \<Rightarrow> (ErrFull, store)
                | Some st' \<Rightarrow> (TaskStarted tid inc, Some st')))"

definition cancel_handler :: "string \<Rightarrow> time \<Rightarrow> 'r task_store option \<Rightarrow> 'r tool_reply \<times> 'r task_store option" where
  "cancel_handler tid now store =
     (case store of
        None \<Rightarrow> (ErrNotInitialized, None)
      | Some st \<Rightarrow>
          (case get_task tid st of
             None \<Rightarrow> (ErrNoTask tid, store)
           | Some t \<Rightarrow>
               (case cancel_task tid now st of
                  (accepted, st') \<Rightarrow> (if accepted then CancelAccepted tid else NotCancelled tid (tk_status t), Some st'))))"

definition get_report :: "string \<Rightarrow> 'r task_store option \<Rightarrow> 'r tool_reply" where
  "get_report key store =
     (case store of
        None \<Rightarrow> ErrNotInitialized
      | Some st \<Rightarrow>
          (case (case get_task key st of Some t \<Rightarrow> Some t | None \<Rightarrow> get_task_by_incident key st) of
             None \<Rightarrow> ErrNoTask key
           | Some t \<Rightarrow>
               (case tk_status t of
                  Running \<Rightarrow> ReportRunning (tk_id t) (tk_incident t) (tk_progress t)
                | Completed \<Rightarrow> ReportCompleted (tk_id t) (tk_incident t) (tk_result t)
                | Failed \<Rightarrow> ReportFailed (tk_id t) (tk_incident t) (tk_error t)
                | Cancelled \<Rightarrow> ReportCancelled (tk_id t) (tk_incident t))))"

text \<open>
  \<open>_run_rca_background\<close>: the first progress mark, then what the pipeline's end does to the
  store. \<open>EngineGone\<close> is the early return without an engine, \<open>RunCancelled\<close> the re-raised
  \<open>CancelledError\<close>.
\<close>

datatype 'r run_end = Reported 'r | Raised string | RunCancelled | EngineGone

definition run_started :: "string \<Rightarrow> 'r task_store \<Rightarrow> 'r task_store" where
  "run_started tid = update_progress tid ''supervisor'' 10 ''Classifying incident''"

definition run_ended :: "string \<Rightarrow> 'r run_end \<Rightarrow> time \<Rightarrow> 'r task_store \<Rightarrow> 'r task_store" where
  "run_ended tid e now st =
     (case e of
        Reported r \<Rightarrow> complete_task tid r now (update_progress tid ''complete'' 100 ''RCA analysis finished'' st)
      | Raised msg \<Rightarrow> fail_task tid (''RCA pipeline failed: '' @ msg) now st
      | _ \<Rightarrow> st)"

section \<open>Interleavings\<close>

datatype 'r task_event =
    Submitted string string
  | Ended string "'r run_end"
  | CancelTaken string

record 'r task_world =
  tw_store :: "'r task_store"
  tw_runs :: "string list"
  tw_log :: "'r task_event list"

definition used_ids :: "'r task_event list \<Rightarrow> string set" where
  "used_ids lg = {tid. \<exists>inc. Submitted tid inc \<in> set lg}"

text \<open>
  The log is newest first. A new task's id is a fresh one (\<open>uuid4\<close>), and a run ends once.
\<close>

inductive task_step :: "'r task_world \<Rightarrow> 'r task_world \<Rightarrow> bool" where
  submit: "create_task tid inc now (tw_store w) = Some st \<Longrightarrow> tid \<notin> used_ids (tw_log w) \<Longrightarrow>
     task_step w \<lparr>tw_store = st, tw_runs = tid # tw_runs w, tw_log = Submitted tid inc # tw_log w\<rparr>"
| started: "tid \<in> set (tw_runs w) \<Longrightarrow> task_step w (w\<lparr>tw_store := run_started tid (tw_store w)\<rparr>)"
| ended: "tid \<in> set (tw_runs w) \<Longrightarrow>
     task_step w \<lparr>tw_store = run_ended tid e now (tw_store w), tw_runs = remove1 tid (tw_runs w), tw_log = Ended tid e # tw_log w\<rparr>"
| cancelled: "cancel_task tid now (tw_store w) = (True, st) \<Longrightarrow>
     task_step w (w\<lparr>tw_store := st, tw_log := CancelTaken tid # tw_log w\<rparr>)"
| cleaned: "task_step w (w\<lparr>tw_store := snd (cleanup_expired now (tw_store w))\<rparr>)"

inductive_cases task_stepE: "task_step w w'"

inductive task_reachable :: "int \<Rightarrow> int \<Rightarrow> 'r task_world \<Rightarrow> bool" for ttl limit where
  init: "task_reachable ttl limit \<lparr>tw_store = \<lparr>ts_tasks = [], ts_index = [], ts_ttl = ttl, ts_max = limit\<rparr>, tw_runs = [], tw_log = []\<rparr>"
| step: "task_reachable ttl limit w \<Longrightarrow> task_step w w' \<Longrightarrow> task_reachable ttl limit w'"

text \<open>
  What a task's state should be: the first thing that ended it, a report, a failure or an
  accepted cancellation. The log is read oldest first.
\<close>

fun first_outcome :: "string \<Rightarrow> 'r task_event list \<Rightarrow> task_status \<times> 'r option \<times> string option" where
  "first_outcome tid [] = (Running, None, None)"
| "first_outcome tid (Ended i e # es) =
     (if i = tid then (case e of Reported r \<Rightarrow> (Completed, Some r, None)
                        | Raised m \<Rightarrow> (Failed, None, Some (''RCA pipeline failed: '' @ m))
                        | _ \<Rightarrow> first_outcome tid es)
      else first_outcome tid es)"
| "first_outcome tid (CancelTaken i # es) = (if i = tid then (Cancelled, None, None) else first_outcome tid es)"
| "first_outcome tid (Submitted i inc # es) = first_outcome tid es"

definition shown :: "'r task_record \<Rightarrow> task_status \<times> 'r option \<times> string option" where
  "shown t = (tk_status t, tk_result t, tk_error t)"

section \<open>Facts about the store\<close>

lemma first_outcome_snoc:
  "first_outcome tid (es @ [e]) =
     (if fst (first_outcome tid es) \<noteq> Running then first_outcome tid es
      else first_outcome tid [e])"
  by (induction tid es rule: first_outcome.induct) (auto split: run_end.splits)

lemma first_outcome_fresh:
  "fst (first_outcome tid es) = Running \<Longrightarrow> first_outcome tid es = (Running, None, None)"
  by (induction tid es rule: first_outcome.induct) (auto split: run_end.splits if_splits)

lemma map_of_update_running:
  "map_of (ts_tasks (update_running tid f st)) k =
     (case map_of (ts_tasks st) k of
        None \<Rightarrow> None
      | Some t \<Rightarrow> Some (if k = tid \<and> running t then f t else t))"
  by (auto simp: update_running_def dict_simps split: option.splits)

lemma update_running_fields:
  "ts_index (update_running tid f st) = ts_index st" "ts_ttl (update_running tid f st) = ts_ttl st"
  "ts_max (update_running tid f st) = ts_max st"
  by (simp_all add: update_running_def split: option.splits)

lemma distinct_update_running:
  "distinct (keys (ts_tasks st)) \<Longrightarrow> distinct (keys (ts_tasks (update_running tid f st)))"
  by (simp add: update_running_def dict_simps split: option.splits)

lemma remove_task_lookup:
  "map_of (ts_tasks (remove_task tid st)) k = (if k = tid then None else map_of (ts_tasks st) k)"
  by (auto simp: remove_task_def delete_conv' split: option.splits)

lemma remove_task_fields:
  "ts_ttl (remove_task tid st) = ts_ttl st" "ts_max (remove_task tid st) = ts_max st"
  "distinct (keys (ts_tasks st)) \<Longrightarrow> distinct (keys (ts_tasks (remove_task tid st)))"
  by (simp_all add: remove_task_def keys_def distinct_delete split: option.splits)

lemma remove_tasks:
  "map_of (ts_tasks (fold remove_task tids st)) k = (if k \<in> set tids then None else map_of (ts_tasks st) k)
   \<and> ts_ttl (fold remove_task tids st) = ts_ttl st \<and> ts_max (fold remove_task tids st) = ts_max st
   \<and> (distinct (keys (ts_tasks st)) \<longrightarrow> distinct (keys (ts_tasks (fold remove_task tids st))))"
  by (induction tids arbitrary: st) (auto simp: remove_task_lookup remove_task_fields)

lemma cleanup_lookup:
  assumes "distinct (keys (ts_tasks st))"
  shows "map_of (ts_tasks (snd (cleanup_expired now st))) k =
     (case map_of (ts_tasks st) k of None \<Rightarrow> None | Some t \<Rightarrow> if expired (ts_ttl st) now t then None else Some t)"
proof -
  have "k \<in> set (map fst (filter (\<lambda>(tid, t). expired (ts_ttl st) now t) (ts_tasks st)))
      \<longleftrightarrow> (\<exists>t. map_of (ts_tasks st) k = Some t \<and> expired (ts_ttl st) now t)"
    using assms by (force simp: keys_def)
  then show ?thesis by (auto simp: cleanup_expired_def Let_def remove_tasks split: option.splits)
qed

definition running_ids :: "'r task_store \<Rightarrow> string set" where
  "running_ids st = {k. \<exists>t. map_of (ts_tasks st) k = Some t \<and> running t}"

lemma running_count_card:
  assumes "distinct (keys (ts_tasks st))"
  shows "running_count st = int (card (running_ids st))" and "finite (running_ids st)"
proof -
  let ?d = "filter (\<lambda>e. running (snd e)) (ts_tasks st)"
  have ids: "running_ids st = set (map fst ?d)"
    using assms by (force simp: running_ids_def keys_def)
  have "distinct (map fst ?d)" using assms by (simp add: keys_def distinct_map_filter)
  then have "card (set (map fst ?d)) = length ?d" by (simp only: distinct_card length_map)
  moreover have "length (filter running (vals (ts_tasks st))) = length ?d"
    by (simp add: vals_def filter_map o_def)
  ultimately show "running_count st = int (card (running_ids st))" by (simp add: running_count_def ids)
  show "finite (running_ids st)" unfolding ids by simp
qed

lemma running_ids_update:
  "(\<And>t. running (f t) \<Longrightarrow> running t) \<Longrightarrow> running_ids (update_running tid f st) \<subseteq> running_ids st"
  by (auto simp: running_ids_def map_of_update_running split: option.splits if_splits)

text \<open>The invariant of every interleaving.\<close>

definition tasks_ok :: "int \<Rightarrow> int \<Rightarrow> 'r task_world \<Rightarrow> bool" where
  "tasks_ok ttl limit w \<longleftrightarrow>
     distinct (keys (ts_tasks (tw_store w))) \<and> ts_ttl (tw_store w) = ttl \<and> ts_max (tw_store w) = limit
     \<and> (\<forall>k t. map_of (ts_tasks (tw_store w)) k = Some t \<longrightarrow> tk_id t = k \<and> shown t = first_outcome k (rev (tw_log w))
          \<and> (tk_completed t = None \<longleftrightarrow> running t) \<and> k \<in> used_ids (tw_log w))
     \<and> int (card (running_ids (tw_store w))) \<le> max 0 limit
     \<and> (\<forall>tid e. Ended tid e \<in> set (tw_log w) \<or> CancelTaken tid \<in> set (tw_log w) \<longrightarrow> tid \<in> used_ids (tw_log w))
     \<and> (\<forall>tid\<in>set (tw_runs w). tid \<in> used_ids (tw_log w))"

lemma used_ids_simps [simp]:
  "used_ids (Submitted tid inc # es) = insert tid (used_ids es)" "used_ids (Ended tid e # es) = used_ids es"
  "used_ids (CancelTaken tid # es) = used_ids es" "used_ids [] = {}"
  by (auto simp: used_ids_def)

lemma first_outcome_unused:
  "(\<forall>tid e. Ended tid e \<in> set es \<or> CancelTaken tid \<in> set es \<longrightarrow> tid \<in> U) \<Longrightarrow> tid \<notin> U \<Longrightarrow> first_outcome tid es = (Running, None, None)"
  by (induction tid es rule: first_outcome.induct) (auto split: run_end.splits)

lemma card_running_le:
  assumes "running_ids st' \<subseteq> running_ids st" and "finite (running_ids st)"
  shows "card (running_ids st') \<le> card (running_ids st)"
  using assms by (rule card_mono [rotated])

lemma tasks_ok_update:
  assumes ok: "tasks_ok ttl limit w" and r: "\<And>t. running (f t) \<Longrightarrow> running t"
    and f: "\<And>t. running t \<Longrightarrow> shown t = (Running, None, None) \<Longrightarrow> tk_completed t = None \<Longrightarrow> tk_id (f t) = tk_id t
        \<and> shown (f t) = first_outcome tid [ev] \<and> (tk_completed (f t) = None \<longleftrightarrow> running (f t))"
    and other: "\<And>k. k \<noteq> tid \<Longrightarrow> first_outcome k [ev] = (Running, None, None)"
    and log: "used_ids (ev # tw_log w) = used_ids (tw_log w)" "tid \<in> used_ids (tw_log w)"
      "\<And>i e. ev = Ended i e \<or> ev = CancelTaken i \<Longrightarrow> i = tid"
    and runs: "set rs \<subseteq> set (tw_runs w)"
  shows "tasks_ok ttl limit \<lparr>tw_store = update_running tid f (tw_store w), tw_runs = rs, tw_log = ev # tw_log w\<rparr>"
proof -
  let ?st = "tw_store w"
  have d: "distinct (keys (ts_tasks ?st))" using ok by (simp add: tasks_ok_def)
  have "card (running_ids (update_running tid f ?st)) \<le> card (running_ids ?st)"
    by (rule card_running_le [OF running_ids_update running_count_card(2) [OF d]]) (rule r)
  moreover have "tk_id t' = k \<and> shown t' = first_outcome k (rev (tw_log w) @ [ev])
      \<and> (tk_completed t' = None \<longleftrightarrow> running t') \<and> k \<in> used_ids (tw_log w)"
    if lk: "map_of (ts_tasks (update_running tid f ?st)) k = Some t'" for k t'
  proof -
    from lk obtain t where t: "map_of (ts_tasks ?st) k = Some t" and t': "t' = (if k = tid \<and> running t then f t else t)"
      by (auto simp: map_of_update_running split: option.splits)
    from ok t have st: "tk_id t = k" "shown t = first_outcome k (rev (tw_log w))" "tk_completed t = None \<longleftrightarrow> running t"
        "k \<in> used_ids (tw_log w)"
      by (auto simp: tasks_ok_def)
    have run: "running t \<longleftrightarrow> fst (first_outcome k (rev (tw_log w))) = Running"
      using st(2) by (metis running_def shown_def fst_conv)
    show ?thesis
    proof (cases "running t")
      case False
      then show ?thesis using st t' run by (simp add: first_outcome_snoc)
    next
      case True
      then have now: "shown t = (Running, None, None)" "tk_completed t = None" "fst (first_outcome k (rev (tw_log w))) = Running"
        using st run first_outcome_fresh by metis+
      show ?thesis
      proof (cases "k = tid")
        case True
        then show ?thesis using f [OF \<open>running t\<close> now(1,2)] st t' now \<open>running t\<close> by (simp add: first_outcome_snoc)
      next
        case False
        then show ?thesis using st t' now other [OF False] by (simp add: first_outcome_snoc)
      qed
    qed
  qed
  ultimately show ?thesis
    using ok log runs distinct_update_running [OF d]
    unfolding tasks_ok_def by (auto simp: update_running_fields)
qed

lemma update_running_compose:
  assumes "\<And>t. running (g t) = running t"
  shows "update_running tid f (update_running tid g st) = update_running tid (\<lambda>t. f (g t)) st"
  using assms by (auto simp: update_running_def update_last dict_simps split: option.splits)

lemma update_running_id: "update_running tid (\<lambda>t. t) st = st"
  by (auto simp: update_running_def update_triv split: option.splits)

lemma shown_simps [simp]:
  "shown (t\<lparr>tk_progress := x\<rparr>) = shown t" "running (t\<lparr>tk_progress := x\<rparr>) = running t"
  by (simp_all add: shown_def running_def)

lemma tasks_ok_init:
  "tasks_ok ttl limit \<lparr>tw_store = \<lparr>ts_tasks = [], ts_index = [], ts_ttl = ttl, ts_max = limit\<rparr>, tw_runs = [], tw_log = []\<rparr>"
  by (simp add: tasks_ok_def keys_def running_ids_def)

lemma tasks_ok_submit:
  assumes ok: "tasks_ok ttl limit w" and "create_task tid inc now (tw_store w) = Some st" and fresh: "tid \<notin> used_ids (tw_log w)"
  shows "tasks_ok ttl limit \<lparr>tw_store = st, tw_runs = tid # tw_runs w, tw_log = Submitted tid inc # tw_log w\<rparr>"
proof -
  let ?old = "tw_store w"
  have d: "distinct (keys (ts_tasks ?old))" and lim: "ts_max ?old = limit" using ok by (simp_all add: tasks_ok_def)
  from assms(2) have st: "st = ?old\<lparr>ts_tasks := AList.update tid (new_record tid inc now) (ts_tasks ?old),
      ts_index := AList.update inc tid (ts_index ?old)\<rparr>" and room: "running_count ?old < ts_max ?old"
    by (auto simp: create_task_def split: if_splits)
  have sub: "running_ids st \<subseteq> insert tid (running_ids ?old)"
    by (auto simp: running_ids_def st dict_simps split: if_splits)
  have "card (running_ids st) \<le> card (insert tid (running_ids ?old))"
    using sub running_count_card(2) [OF d] by (intro card_mono) auto
  also have "\<dots> \<le> Suc (card (running_ids ?old))" by (rule card_insert_le_m1) simp_all
  finally have card: "int (card (running_ids st)) \<le> max 0 limit"
    using room running_count_card(1) [OF d] lim by linarith
  have new: "first_outcome tid (rev (tw_log w) @ [Submitted tid inc]) = (Running, None, None)"
    using ok fresh first_outcome_unused [of "rev (tw_log w)" "used_ids (tw_log w)" tid]
    by (simp add: tasks_ok_def first_outcome_snoc)
  have old: "first_outcome k (rev (tw_log w) @ [Submitted tid inc]) = first_outcome k (rev (tw_log w))" for k
    using first_outcome_fresh [of k "rev (tw_log w)"] by (auto simp: first_outcome_snoc)
  have "tk_id t = k \<and> shown t = first_outcome k (rev (tw_log w) @ [Submitted tid inc])
      \<and> (tk_completed t = None \<longleftrightarrow> running t) \<and> k \<in> insert tid (used_ids (tw_log w))"
    if "map_of (ts_tasks st) k = Some t" for k t
  proof (cases "k = tid")
    case True
    with that new show ?thesis by (auto simp: st dict_simps new_record_def shown_def running_def)
  next
    case False
    with that have "map_of (ts_tasks ?old) k = Some t" by (simp add: st dict_simps)
    with ok old show ?thesis by (auto simp: tasks_ok_def)
  qed
  moreover have "distinct (keys (ts_tasks st))" "ts_ttl st = ttl" "ts_max st = limit"
    using ok d by (simp_all add: st tasks_ok_def distinct_keys_update)
  moreover have "\<forall>i e. Ended i e \<in> set (tw_log w) \<or> CancelTaken i \<in> set (tw_log w) \<longrightarrow> i \<in> used_ids (tw_log w)"
    "\<forall>i\<in>set (tw_runs w). i \<in> used_ids (tw_log w)" using ok by (simp_all add: tasks_ok_def)
  ultimately show ?thesis using card unfolding tasks_ok_def by simp
qed

lemma tasks_ok_quiet:
  assumes "tasks_ok ttl limit w" and "tid \<in> used_ids (tw_log w)"
    and "\<And>t. running (f t) = running t" "\<And>t. tk_id (f t) = tk_id t" "\<And>t. shown (f t) = shown t" "\<And>t. tk_completed (f t) = tk_completed t"
  shows "tasks_ok ttl limit (w\<lparr>tw_store := update_running tid f (tw_store w)\<rparr>)"
proof -
  have d: "distinct (keys (ts_tasks (tw_store w)))" using assms(1) by (simp add: tasks_ok_def)
  have "card (running_ids (update_running tid f (tw_store w))) \<le> card (running_ids (tw_store w))"
    by (rule card_running_le [OF running_ids_update running_count_card(2) [OF d]]) (simp add: assms(3))
  moreover have "tk_id t' = k \<and> shown t' = first_outcome k (rev (tw_log w))
      \<and> (tk_completed t' = None \<longleftrightarrow> running t') \<and> k \<in> used_ids (tw_log w)"
    if lk: "map_of (ts_tasks (update_running tid f (tw_store w))) k = Some t'" for k t'
  proof -
    from lk obtain t where t: "map_of (ts_tasks (tw_store w)) k = Some t" "t' = t \<or> t' = f t"
      by (auto simp: map_of_update_running split: option.splits if_splits)
    with assms(1) have "tk_id t = k \<and> shown t = first_outcome k (rev (tw_log w))
      \<and> (tk_completed t = None \<longleftrightarrow> running t) \<and> k \<in> used_ids (tw_log w)" by (simp add: tasks_ok_def)
    with t(2) show ?thesis using assms(3-6) by metis
  qed
  ultimately show ?thesis
    using assms(1) distinct_update_running [OF d] unfolding tasks_ok_def by (auto simp: update_running_fields)
qed

lemma tasks_ok_ended:
  fixes w :: "'r task_world"
  assumes ok: "tasks_ok ttl limit w" and run: "tid \<in> set (tw_runs w)"
  shows "tasks_ok ttl limit \<lparr>tw_store = run_ended tid e now (tw_store w), tw_runs = remove1 tid (tw_runs w), tw_log = Ended tid e # tw_log w\<rparr>"
proof -
  have used: "tid \<in> used_ids (tw_log w)" using ok run by (simp add: tasks_ok_def)
  define f :: "'r task_record \<Rightarrow> 'r task_record" where "f = (\<lambda>t. case e of
      Reported r \<Rightarrow> t\<lparr>tk_progress := Some \<lparr>tp_stage = ''complete'', tp_percent = 100, tp_message = ''RCA analysis finished''\<rparr>,
                     tk_status := Completed, tk_result := Some r, tk_completed := Some now\<rparr>
    | Raised m \<Rightarrow> t\<lparr>tk_status := Failed, tk_error := Some (''RCA pipeline failed: '' @ m), tk_completed := Some now\<rparr>
    | _ \<Rightarrow> t)"
  have "run_ended tid e now st = update_running tid f st" for st
    by (cases e) (simp_all add: run_ended_def f_def complete_task_def fail_task_def update_progress_def update_running_compose update_running_id)
  moreover have "tasks_ok ttl limit \<lparr>tw_store = update_running tid f (tw_store w), tw_runs = remove1 tid (tw_runs w), tw_log = Ended tid e # tw_log w\<rparr>"
    using ok used
    by (intro tasks_ok_update) (cases e; auto simp: f_def shown_def running_def dest: in_set_remove1 [THEN iffD1, rotated] notin_set_remove1 set_remove1_subset [THEN subsetD])+
  ultimately show ?thesis by simp
qed

lemma tasks_ok_cancelled:
  assumes ok: "tasks_ok ttl limit w" and c: "cancel_task tid now (tw_store w) = (True, st)"
  shows "tasks_ok ttl limit (w\<lparr>tw_store := st, tw_log := CancelTaken tid # tw_log w\<rparr>)"
proof -
  let ?f = "\<lambda>t. t\<lparr>tk_status := Cancelled, tk_completed := Some now\<rparr>"
  from c obtain t where "map_of (ts_tasks (tw_store w)) tid = Some t" and st: "st = update_running tid ?f (tw_store w)"
    by (auto simp: cancel_task_def get_task_def split: option.splits)
  with ok have used: "tid \<in> used_ids (tw_log w)" by (auto simp: tasks_ok_def)
  have "tasks_ok ttl limit \<lparr>tw_store = update_running tid ?f (tw_store w), tw_runs = tw_runs w, tw_log = CancelTaken tid # tw_log w\<rparr>"
    using ok used by (intro tasks_ok_update) (auto simp: shown_def running_def)
  then show ?thesis by (cases w) (simp add: st)
qed

lemma tasks_ok_cleaned:
  assumes ok: "tasks_ok ttl limit w"
  shows "tasks_ok ttl limit (w\<lparr>tw_store := snd (cleanup_expired now (tw_store w))\<rparr>)"
proof -
  have d: "distinct (keys (ts_tasks (tw_store w)))" using ok by (simp add: tasks_ok_def)
  note look = cleanup_lookup [OF d, of now]
  have sub: "running_ids (snd (cleanup_expired now (tw_store w))) \<subseteq> running_ids (tw_store w)"
    by (auto simp: running_ids_def look split: option.splits if_splits)
  have rest: "distinct (keys (ts_tasks (snd (cleanup_expired now (tw_store w)))))"
    "ts_ttl (snd (cleanup_expired now (tw_store w))) = ts_ttl (tw_store w)"
    "ts_max (snd (cleanup_expired now (tw_store w))) = ts_max (tw_store w)"
    using d by (simp_all add: cleanup_expired_def Let_def remove_tasks)
  show ?thesis
    using ok rest card_running_le [OF sub running_count_card(2) [OF d]] unfolding tasks_ok_def
    by (auto simp: look split: option.splits if_splits)
qed

lemma tasks_ok_step: "tasks_ok ttl limit w \<Longrightarrow> task_step w w' \<Longrightarrow> tasks_ok ttl limit w'"
proof (erule task_stepE)
  fix tid
  assume ok: "tasks_ok ttl limit w" and run: "tid \<in> set (tw_runs w)" and w': "w' = w\<lparr>tw_store := run_started tid (tw_store w)\<rparr>"
  have "tid \<in> used_ids (tw_log w)" using ok run by (simp add: tasks_ok_def)
  with ok show "tasks_ok ttl limit w'"
    unfolding w' run_started_def update_progress_def by (rule tasks_ok_quiet) simp_all
qed (simp_all add: tasks_ok_submit tasks_ok_ended tasks_ok_cancelled tasks_ok_cleaned)

lemma task_reachable_ok: "task_reachable ttl limit w \<Longrightarrow> tasks_ok ttl limit w"
  by (induction rule: task_reachable.induct) (auto intro: tasks_ok_init tasks_ok_step)

lemma get_report_by_id:
  assumes "get_task tid st = Some t" and "tk_id t = tid"
  shows "get_report tid (Some st) = (case shown t of
      (Running, _, _) \<Rightarrow> ReportRunning tid (tk_incident t) (tk_progress t)
    | (Completed, r, _) \<Rightarrow> ReportCompleted tid (tk_incident t) r
    | (Failed, _, e) \<Rightarrow> ReportFailed tid (tk_incident t) e
    | (Cancelled, _, _) \<Rightarrow> ReportCancelled tid (tk_incident t))"
  using assms by (simp add: get_report_def shown_def split: task_status.splits)

text \<open>
  A run that ends without an engine leaves its task running: with no run in flight, a store of
  limit one refuses every new task for ever, and \<open>cleanup_expired\<close> never removes the task.
\<close>

lemma engine_gone_blocks:
  "\<exists>w :: nat task_world. task_reachable 3600 1 w \<and> tw_runs w = [] \<and> (\<forall>tid inc now. create_task tid inc now (tw_store w) = None)
     \<and> (\<forall>now. cleanup_expired now (tw_store w) = (0, tw_store w))"
proof -
  let ?w0 = "\<lparr>tw_store = \<lparr>ts_tasks = [], ts_index = [], ts_ttl = 3600, ts_max = 1\<rparr>, tw_runs = [], tw_log = []\<rparr>"
  let ?st = "\<lparr>ts_tasks = [(''t'', new_record ''t'' ''i'' 0)], ts_index = [(''i'', ''t'')], ts_ttl = 3600, ts_max = 1\<rparr> :: nat task_store"
  let ?w1 = "\<lparr>tw_store = ?st, tw_runs = [''t''], tw_log = [Submitted ''t'' ''i'']\<rparr>"
  let ?w2 = "\<lparr>tw_store = run_ended ''t'' EngineGone 0 ?st, tw_runs = remove1 ''t'' [''t''], tw_log = [Ended ''t'' EngineGone, Submitted ''t'' ''i'']\<rparr>"
  have "task_step ?w0 ?w1"
    using task_step.submit [of "''t''" "''i''" 0 ?w0 ?st] by (simp add: create_task_def running_count_def vals_def)
  moreover have "task_step ?w1 ?w2" using task_step.ended [of "''t''" ?w1 EngineGone 0] by simp
  ultimately have "task_reachable 3600 1 ?w2" by (meson task_reachable.init task_reachable.step)
  moreover have "create_task tid inc now ?st = None" "cleanup_expired now ?st = (0, ?st)" for tid inc now
    by (simp_all add: create_task_def cleanup_expired_def running_count_def vals_def new_record_def running_def expired_def)
  ultimately show ?thesis by (intro exI [of _ ?w2]) (simp add: run_ended_def)
qed

section \<open>Properties\<close>

text \<open>
  C7: What a client reads of a task is the first thing that ended it. However handlers, background
  runs and cleanup interleave, the report of a task in the store is the outcome of the first
  of a finished run, a failed run and an accepted cancellation: a late completion never
  overwrites a cancellation, and no result is shown that its run did not give; and never
  more tasks run than the limit.
\<close>
theorem task_report_first_outcome:
  assumes "task_reachable ttl limit w" and "get_task tid (tw_store w) = Some t"
  shows "get_report tid (Some (tw_store w)) = (case first_outcome tid (rev (tw_log w)) of
      (Running, _, _) \<Rightarrow> ReportRunning tid (tk_incident t) (tk_progress t)
    | (Completed, r, _) \<Rightarrow> ReportCompleted tid (tk_incident t) r
    | (Failed, _, e) \<Rightarrow> ReportFailed tid (tk_incident t) e
    | (Cancelled, _, _) \<Rightarrow> ReportCancelled tid (tk_incident t))
    \<and> running_count (tw_store w) \<le> max 0 limit"
proof -
  have ok: "tasks_ok ttl limit w" by (rule task_reachable_ok [OF assms(1)])
  then have "tk_id t = tid" "shown t = first_outcome tid (rev (tw_log w))"
    using assms(2) by (auto simp: tasks_ok_def get_task_def)
  with get_report_by_id [OF assms(2)] show ?thesis
    using ok running_count_card(1) [of "tw_store w"] by (simp add: tasks_ok_def)
qed

text \<open>
  A finished task stays as it is until its time is up: one step of any handler or run either
  leaves its record unchanged, or is a cleanup that removes it more than \<open>ttl\<close> seconds after
  it ended.
\<close>

lemma finished_task_kept:
  assumes "task_reachable ttl limit w" and "task_step w w'"
    and "get_task tid (tw_store w) = Some t" "tk_status t \<noteq> Running"
  shows "get_task tid (tw_store w') = Some t
    \<or> (\<exists>now ended. w' = w\<lparr>tw_store := snd (cleanup_expired now (tw_store w))\<rparr> \<and> get_task tid (tw_store w') = None
        \<and> tk_completed t = Some ended \<and> seconds ttl < now - ended)"
proof -
  have ok: "tasks_ok ttl limit w" by (rule task_reachable_ok [OF assms(1)])
  then have d: "distinct (keys (ts_tasks (tw_store w)))" "ts_ttl (tw_store w) = ttl" and used: "tid \<in> used_ids (tw_log w)"
    using assms(3) by (auto simp: tasks_ok_def get_task_def)
  have not: "\<not> running t" using assms(4) by (simp add: running_def)
  have upd: "map_of (ts_tasks (update_running i f st)) tid = Some t" if "map_of (ts_tasks st) tid = Some t" for i f st
    using that not by (simp add: map_of_update_running)
  note lk = assms(3) [unfolded get_task_def]
  from assms(2) show ?thesis
  proof (cases rule: task_step.cases)
    case (submit i inc now st)
    then have "i \<noteq> tid" using used by blast
    with submit lk show ?thesis by (auto simp: get_task_def create_task_def dict_simps split: if_splits)
  next
    case (ended i e now)
    with lk upd show ?thesis
      by (cases e) (auto simp: get_task_def run_ended_def complete_task_def fail_task_def update_progress_def)
  next
    case (cleaned now)
    then show ?thesis
      using lk cleanup_lookup [OF d(1), of now tid] d(2) by (auto simp: get_task_def expired_def split: option.splits if_splits)
  qed (use lk upd in \<open>auto simp: get_task_def run_started_def update_progress_def cancel_task_def\<close>)
qed

text \<open>A run that ends after its task was cancelled.\<close>

definition ex_pending_world :: "nat task_world" where
  "ex_pending_world =
     \<lparr>tw_store = snd (cancel_task ''t'' 5 (the (create_task ''t'' ''i'' 0 \<lparr>ts_tasks = [], ts_index = [], ts_ttl = 3600, ts_max = 1\<rparr>))),
      tw_runs = [''t''], tw_log = [CancelTaken ''t'', Submitted ''t'' ''i'']\<rparr>"

definition ex_late_world :: "nat task_world" where
  "ex_late_world = \<lparr>tw_store = run_ended ''t'' (Reported 7) 9 (tw_store ex_pending_world), tw_runs = [],
     tw_log = [Ended ''t'' (Reported 7), CancelTaken ''t'', Submitted ''t'' ''i'']\<rparr>"

definition ex_cancelled_record :: "nat task_record" where
  "ex_cancelled_record = (new_record ''t'' ''i'' 0)\<lparr>tk_status := Cancelled, tk_completed := Some 5\<rparr>"

lemma ex_cancelled_task:
  "get_task ''t'' (tw_store ex_pending_world) = Some ex_cancelled_record"
  "get_task ''t'' (tw_store ex_late_world) = Some ex_cancelled_record"
  by code_simp+

lemma ex_pending_reachable: "task_reachable 3600 1 ex_pending_world"
proof -
  let ?w0 = "\<lparr>tw_store = \<lparr>ts_tasks = [], ts_index = [], ts_ttl = 3600, ts_max = 1\<rparr>, tw_runs = [], tw_log = []\<rparr> :: nat task_world"
  let ?s1 = "the (create_task ''t'' ''i'' 0 (tw_store ?w0))"
  let ?w1 = "\<lparr>tw_store = ?s1, tw_runs = [''t''], tw_log = [Submitted ''t'' ''i'']\<rparr>"
  have s1: "create_task ''t'' ''i'' 0 (tw_store ?w0) = Some ?s1"
    by (simp add: create_task_def running_count_def vals_def)
  have "task_step ?w0 ?w1" using task_step.submit [OF s1] by simp
  moreover have "cancel_task ''t'' 5 ?s1 = (True, tw_store ex_pending_world)"
    by (simp add: create_task_def running_count_def vals_def cancel_task_def get_task_def new_record_def running_def ex_pending_world_def)
  then have "task_step ?w1 ex_pending_world"
    using task_step.cancelled [of "''t''" 5 ?w1 "tw_store ex_pending_world"] by (simp add: ex_pending_world_def)
  ultimately show ?thesis by (meson task_reachable.init task_reachable.step)
qed

lemma ex_late_step: "task_step ex_pending_world ex_late_world"
  using task_step.ended [of "''t''" ex_pending_world "Reported 7" 9] by (simp add: ex_late_world_def ex_pending_world_def)

theorem task_report_first_outcome_witness:
  "get_report ''t'' (Some (tw_store ex_late_world)) = ReportCancelled ''t'' ''i''"
  using task_report_first_outcome [OF task_reachable.step [OF ex_pending_reachable ex_late_step] ex_cancelled_task(2)]
  by (simp add: ex_late_world_def ex_cancelled_record_def new_record_def)

end
