(* ===== verification/Auth.thy ===== *)
theory Auth
  imports Prelude
begin

text \<open>
  Bearer token verification in front of the MCP server (\<open>mcp_server/auth.py\<close>): the
  configuration and its start-up checks, the verification of a header, and the middleware
  that lets a request through or refuses it. The JWT library is a parameter: the key it finds
  for a token, and what decoding the token with that key, the audience and the leeway gives.
\<close>

section \<open>Configuration\<close>

record auth_config =
  au_enabled :: bool
  au_issuer :: string
  au_audience :: string
  au_jwks_uri :: string
  au_scope :: "pyval option"
  au_cache :: int
  au_leeway :: int
  au_fetch_timeout :: int
  au_open_paths :: "string list"

datatype auth_config_error =
    MissingKeys "string list"
  | NoJwtLibrary
  | InsecureJwks string
  | NotAnInteger string
  | NotAMapping string

text \<open>\<open>s.rstrip("/")\<close>.\<close>

definition rstrip_slash :: "string \<Rightarrow> string" where
  "rstrip_slash s = rev (dropWhile (\<lambda>c. c = CHR ''/'') (rev s))"

text \<open>\<open>(d.get(k, {}) or {})\<close>; a value without \<open>get\<close> raises at its next use.\<close>

definition config_section :: "(string, pyval) dict \<Rightarrow> string \<Rightarrow> auth_config_error + (string, pyval) dict" where
  "config_section d k =
     (case map_of d k of
        None \<Rightarrow> Inr []
      | Some (PDict e) \<Rightarrow> Inr e
      | Some v \<Rightarrow> if truthy v then Inl (NotAMapping k) else Inr [])"

definition config_str :: "(pyval \<Rightarrow> string) \<Rightarrow> (string, pyval) dict \<Rightarrow> string \<Rightarrow> string" where
  "config_str F d k = (case map_of d k of None \<Rightarrow> [] | Some v \<Rightarrow> py_str F v)"

definition config_int :: "(string, pyval) dict \<Rightarrow> string \<Rightarrow> int \<Rightarrow> auth_config_error + int" where
  "config_int d k dflt =
     (case map_of d k of
        None \<Rightarrow> Inr dflt
      | Some v \<Rightarrow> (case py_int_of v of None \<Rightarrow> Inl (NotAnInteger k) | Some n \<Rightarrow> Inr n))"

definition missing_keys :: "auth_config \<Rightarrow> string list" where
  "missing_keys c =
     map fst (filter (\<lambda>(k, v). v = []) [(''issuer'', au_issuer c), (''audience'', au_audience c), (''jwks_uri'', au_jwks_uri c)])"

text \<open>\<open>url\<close> is \<open>urlparse\<close>: the scheme and the host of a URL. \<open>has_jwt\<close>: PyJWT is installed.\<close>

definition secure_jwks :: "(string \<Rightarrow> string \<times> string option) \<Rightarrow> string \<Rightarrow> bool" where
  "secure_jwks url uri \<longleftrightarrow> fst (url uri) = ''https'' \<or> snd (url uri) \<in> {Some ''localhost'', Some ''127.0.0.1''}"

definition from_cfg :: "(pyval \<Rightarrow> string) \<Rightarrow> (string \<Rightarrow> string \<times> string option) \<Rightarrow> bool \<Rightarrow> (string, pyval) dict
    \<Rightarrow> auth_config_error + auth_config" where
  "from_cfg F url has_jwt cfg =
     and_then (config_section cfg ''mcp_server'') (\<lambda>server.
     and_then (config_section server ''auth'') (\<lambda>d.
     and_then (config_int d ''jwks_cache_seconds'' 300) (\<lambda>cache.
     and_then (config_int d ''leeway_seconds'' 30) (\<lambda>leeway.
     and_then (config_int d ''jwks_fetch_timeout_seconds'' 10) (\<lambda>tmo.
     let c = \<lparr>au_enabled = (case map_of d ''enabled'' of None \<Rightarrow> False | Some v \<Rightarrow> truthy v),
              au_issuer = rstrip_slash (config_str F d ''issuer''), au_audience = config_str F d ''audience'',
              au_jwks_uri = config_str F d ''jwks_uri'',
              au_scope = (case map_of d ''required_scope'' of None \<Rightarrow> None | Some v \<Rightarrow> if truthy v then Some v else None),
              au_cache = cache, au_leeway = leeway, au_fetch_timeout = tmo,
              au_open_paths = [''/health'', ''/healthz'']\<rparr>
     in if \<not> au_enabled c then Inr c
        else if missing_keys c \<noteq> [] then Inl (MissingKeys (missing_keys c))
        else if \<not> has_jwt then Inl NoJwtLibrary
        else if \<not> secure_jwks url (au_jwks_uri c) then Inl (InsecureJwks (au_jwks_uri c))
        else Inr c)))))"

section \<open>Verifying a header\<close>

type_synonym claims = "(string, pyval) dict"

datatype decode_result = Decoded claims | TokenExpired | BadAudience | BadToken string

text \<open>
  \<open>jl_key\<close> is the key lookup of a client made at the given time (\<open>None\<close>: it raised);
  \<open>jl_decode\<close> verifies signature and required claims for an audience and a leeway.
\<close>

record 'k jwt_lib =
  jl_key :: "time \<Rightarrow> string \<Rightarrow> 'k option"
  jl_decode :: "string \<Rightarrow> 'k \<Rightarrow> string \<Rightarrow> int \<Rightarrow> decode_result"

datatype auth_error =
    NoHeader
  | NotBearer
  | EmptyToken
  | NoSigningKey
  | Expired
  | WrongAudience
  | Invalid string
  | UntrustedIssuer
  | MissingScope pyval

text \<open>The status code of a refusal.\<close>

fun status_code :: "auth_error \<Rightarrow> nat" where
  "status_code (MissingScope _) = 403"
| "status_code _ = 401"

text \<open>\<open>_get_jwk_client\<close>: when the current client was made; an old one is replaced.\<close>

definition jwk_client :: "auth_config \<Rightarrow> time \<Rightarrow> time option \<Rightarrow> time" where
  "jwk_client c now made = (case made of None \<Rightarrow> now | Some t \<Rightarrow> if now - t > seconds (au_cache c) then now else t)"

definition bearer_token :: "string option \<Rightarrow> auth_error + string" where
  "bearer_token hdr =
     (case hdr of
        None \<Rightarrow> Inl NoHeader
      | Some h \<Rightarrow>
          if h = [] then Inl NoHeader
          else if CHR '' '' \<notin> set h \<or> lower (before_char CHR '' '' h) \<noteq> ''bearer'' then Inl NotBearer
          else let token = strip (after_char CHR '' '' h) in if token = [] then Inl EmptyToken else Inr token)"

definition claim_str :: "(pyval \<Rightarrow> string) \<Rightarrow> claims \<Rightarrow> string \<Rightarrow> string" where
  "claim_str F cl k = (case map_of cl k of None \<Rightarrow> [] | Some v \<Rightarrow> py_str F v)"

definition check_claims :: "(pyval \<Rightarrow> string) \<Rightarrow> auth_config \<Rightarrow> claims \<Rightarrow> auth_error + claims" where
  "check_claims F c cl =
     (if rstrip_slash (claim_str F cl ''iss'') \<noteq> au_issuer c then Inl UntrustedIssuer
      else case au_scope c of
             None \<Rightarrow> Inr cl
           | Some v \<Rightarrow> if v \<in> PStr ` set (split_ws [] (claim_str F cl ''scope'')) then Inr cl else Inl (MissingScope v))"

text \<open>\<open>verify\<close>, with the time the key client was made as its state.\<close>

definition verify :: "(pyval \<Rightarrow> string) \<Rightarrow> 'k jwt_lib \<Rightarrow> auth_config \<Rightarrow> time \<Rightarrow> string option \<Rightarrow> time option
    \<Rightarrow> (auth_error + claims) \<times> time option" where
  "verify F L c now hdr made =
     (case bearer_token hdr of
        Inl e \<Rightarrow> (Inl e, made)
      | Inr token \<Rightarrow>
          let client = jwk_client c now made in
          ((case jl_key L client token of
              None \<Rightarrow> Inl NoSigningKey
            | Some key \<Rightarrow>
                (case jl_decode L token key (au_audience c) (au_leeway c) of
                   TokenExpired \<Rightarrow> Inl Expired
                 | BadAudience \<Rightarrow> Inl WrongAudience
                 | BadToken m \<Rightarrow> Inl (Invalid m)
                 | Decoded cl \<Rightarrow> check_claims F c cl)), Some client))"

section \<open>The middleware\<close>

record asgi_scope =
  as_type :: string
  as_path :: string
  as_headers :: "(string \<times> string) list"

text \<open>The wrapped application is called, with the claims of the caller if there are any, or not.\<close>

datatype middleware_result = Forward "claims option" | Refuse nat auth_error

text \<open>The dictionary of lower case header names: a repeated name keeps its last value.\<close>

definition header :: "asgi_scope \<Rightarrow> string \<Rightarrow> string option" where
  "header sc name = map_of (rev (map (\<lambda>(k, v). (lower k, v)) (as_headers sc))) name"

definition middleware :: "(pyval \<Rightarrow> string) \<Rightarrow> 'k jwt_lib \<Rightarrow> auth_config \<Rightarrow> time \<Rightarrow> asgi_scope \<Rightarrow> time option
    \<Rightarrow> middleware_result \<times> time option" where
  "middleware F L c now sc made =
     (if as_type sc \<noteq> ''http'' \<or> \<not> au_enabled c then (Forward None, made)
      else if as_path sc \<in> set (au_open_paths c) then (Forward None, made)
      else case verify F L c now (header sc ''authorization'') made of
             (Inl e, made') \<Rightarrow> (Refuse (status_code e) e, made')
           | (Inr cl, made') \<Rightarrow> (Forward (Some cl), made'))"

section \<open>Facts\<close>

lemma from_cfg_enabled:
  assumes "from_cfg F url has_jwt cfg = Inr c" and "au_enabled c"
  shows "au_issuer c \<noteq> [] \<and> au_audience c \<noteq> [] \<and> secure_jwks url (au_jwks_uri c) \<and> au_open_paths c = [''/health'', ''/healthz'']"
proof -
  have "missing_keys c = [] \<and> secure_jwks url (au_jwks_uri c) \<and> au_open_paths c = [''/health'', ''/healthz'']"
    using assms by (auto simp: from_cfg_def and_then_Inr Let_def split: if_splits)
  then show ?thesis by (simp add: missing_keys_def split: if_splits)
qed

lemma check_claims_Inr:
  "check_claims F c cl = Inr cl' \<longleftrightarrow> cl' = cl \<and> rstrip_slash (claim_str F cl ''iss'') = au_issuer c
     \<and> (\<forall>v. au_scope c = Some v \<longrightarrow> v \<in> PStr ` set (split_ws [] (claim_str F cl ''scope'')))"
  by (auto simp: check_claims_def split: option.splits)

lemma verify_Inr:
  "fst (verify F L c now hdr made) = Inr cl \<longleftrightarrow>
     (\<exists>token key. bearer_token hdr = Inr token \<and> jl_key L (jwk_client c now made) token = Some key
       \<and> jl_decode L token key (au_audience c) (au_leeway c) = Decoded cl
       \<and> rstrip_slash (claim_str F cl ''iss'') = au_issuer c
       \<and> (\<forall>v. au_scope c = Some v \<longrightarrow> v \<in> PStr ` set (split_ws [] (claim_str F cl ''scope''))))"
  by (auto simp: verify_def Let_def check_claims_Inr split: sum.splits option.splits decode_result.splits)

lemma jwk_client_fresh: "0 \<le> au_cache c \<Longrightarrow> now - jwk_client c now made \<le> seconds (au_cache c)"
  by (auto simp: jwk_client_def split: option.splits)

section \<open>Properties\<close>

text \<open>
  C10: The server fails closed. With verification enabled by an accepted configuration, a request
  for any other than the two health paths reaches the application iff its (last)
  Authorization header is a bearer token that the library decodes with a key of the current
  client, for the configured audience and leeway, into claims issued by the configured,
  non-empty issuer and holding the required scope; it then arrives with exactly these
  claims. Otherwise it is refused, with 403 only for a missing scope.
\<close>
theorem auth_fails_closed:
  assumes "from_cfg F url has_jwt cfg = Inr c" and "au_enabled c"
    and "as_type sc = ''http'' \<and> as_path sc \<notin> {''/health'', ''/healthz''}"
  shows "(fst (middleware F L c now sc made) = Forward x \<longleftrightarrow>
      (\<exists>cl token key. x = Some cl \<and> bearer_token (header sc ''authorization'') = Inr token
        \<and> jl_key L (jwk_client c now made) token = Some key
        \<and> jl_decode L token key (au_audience c) (au_leeway c) = Decoded cl
        \<and> rstrip_slash (claim_str F cl ''iss'') = au_issuer c
        \<and> (\<forall>v. au_scope c = Some v \<longrightarrow> v \<in> PStr ` set (split_ws [] (claim_str F cl ''scope'')))))
    \<and> au_issuer c \<noteq> [] \<and> secure_jwks url (au_jwks_uri c)
    \<and> (\<forall>k e. fst (middleware F L c now sc made) = Refuse k e \<longrightarrow> (k = 403 \<longleftrightarrow> (\<exists>v. e = MissingScope v)) \<and> k \<in> {401, 403})"
proof -
  note cfg = from_cfg_enabled [OF assms(1,2)]
  have code: "status_code e = 403 \<longleftrightarrow> (\<exists>v. e = MissingScope v)" "status_code e \<in> {401, 403}" for e
    by (cases e; simp)+
  have run: "fst (middleware F L c now sc made) =
      (case fst (verify F L c now (header sc ''authorization'') made) of Inl e \<Rightarrow> Refuse (status_code e) e | Inr cl \<Rightarrow> Forward (Some cl))"
    using assms(2,3) cfg by (simp add: middleware_def split: prod.splits sum.splits)
  have "fst (middleware F L c now sc made) = Forward x \<longleftrightarrow>
      (\<exists>cl. x = Some cl \<and> fst (verify F L c now (header sc ''authorization'') made) = Inr cl)"
    unfolding run by (auto split: sum.splits)
  moreover have "\<forall>k e. fst (middleware F L c now sc made) = Refuse k e \<longrightarrow> (k = 403 \<longleftrightarrow> (\<exists>v. e = MissingScope v)) \<and> k \<in> {401, 403}"
    unfolding run using code by (auto split: sum.splits)
  ultimately show ?thesis using cfg unfolding verify_Inr by blast
qed

definition ex_auth_cfg :: "(string, pyval) dict" where
  "ex_auth_cfg = [(''mcp_server'', PDict [(''auth'', PDict [(''enabled'', PBool True), (''issuer'', PStr ''https://idp/''),
     (''audience'', PStr ''rca''), (''jwks_uri'', PStr ''https://idp/jwks''), (''required_scope'', PStr ''run'')])])]"

definition ex_jwt :: "nat jwt_lib" where
  "ex_jwt = \<lparr>jl_key = \<lambda>_ _. Some 1,
     jl_decode = \<lambda>tok _ aud _. if tok = ''good'' \<and> aud = ''rca''
       then Decoded [(''iss'', PStr ''https://idp''), (''scope'', PStr ''read run'')] else BadToken ''x''\<rparr>"

definition ex_auth_config :: auth_config where
  "ex_auth_config = \<lparr>au_enabled = True, au_issuer = ''https://idp'', au_audience = ''rca'', au_jwks_uri = ''https://idp/jwks'',
     au_scope = Some (PStr ''run''), au_cache = 300, au_leeway = 30, au_fetch_timeout = 10,
     au_open_paths = [''/health'', ''/healthz'']\<rparr>"

definition ex_scope :: "string \<Rightarrow> asgi_scope" where
  "ex_scope h = \<lparr>as_type = ''http'', as_path = ''/mcp'', as_headers = [(''Authorization'', h)]\<rparr>"

lemma ex_auth_accepted: "from_cfg (\<lambda>_. []) (\<lambda>_. (''https'', None)) True ex_auth_cfg = Inr ex_auth_config"
  by code_simp

theorem auth_fails_closed_witness:
  "(\<exists>cl. fst (middleware (\<lambda>_. []) ex_jwt ex_auth_config 0 (ex_scope ''Bearer good'') None) = Forward (Some cl))
   \<and> (\<forall>x. fst (middleware (\<lambda>_. []) ex_jwt ex_auth_config 0 (ex_scope ''Bearer bad'') None) \<noteq> Forward x)"
proof -
  have sc: "as_type (ex_scope h) = ''http'' \<and> as_path (ex_scope h) \<notin> {''/health'', ''/healthz''}" for h
    by (simp add: ex_scope_def)
  have on: "au_enabled ex_auth_config" by (simp add: ex_auth_config_def)
  note closed = auth_fails_closed [OF ex_auth_accepted on sc, where L = ex_jwt and now = 0 and made = None, THEN conjunct1]
  have tok: "bearer_token (header (ex_scope ''Bearer good'') ''authorization'') = Inr ''good''"
    "bearer_token (header (ex_scope ''Bearer bad'') ''authorization'') = Inr ''bad''" by code_simp+
  have claims: "rstrip_slash (claim_str (\<lambda>_. []) [(''iss'', PStr ''https://idp''), (''scope'', PStr ''read run'')] ''iss'') = ''https://idp''"
    "PStr ''run'' \<in> PStr ` set (split_ws [] (claim_str (\<lambda>_. []) [(''iss'', PStr ''https://idp''), (''scope'', PStr ''read run'')] ''scope''))"
    by code_simp+
  show ?thesis unfolding closed tok by (simp add: ex_jwt_def ex_auth_config_def claims)
qed

end
