(* ===== verification/Json.thy ===== *)
theory Json
  imports Prelude
begin

text \<open>
  Reading parsed JSON the way the adapters do: \<open>get\<close> with a default, indexing, \<open>or\<close>, and the
  exceptions a value of the wrong shape gives.
\<close>

definition as_dict :: "pyval \<Rightarrow> (string, pyval) dict option" where
  "as_dict v = (case v of PDict d \<Rightarrow> Some d | _ \<Rightarrow> None)"

text \<open>\<open>d.get(k, dflt)\<close>, \<open>d[k]\<close>, \<open>a or b\<close>, \<open>xs[0]\<close>.\<close>

definition get_or :: "(string, pyval) dict \<Rightarrow> string \<Rightarrow> pyval \<Rightarrow> pyval" where
  "get_or d k dflt = (case map_of d k of None \<Rightarrow> dflt | Some v \<Rightarrow> v)"

definition item :: "pyval \<Rightarrow> string \<Rightarrow> pyval option" where
  "item v k = Option.bind (as_dict v) (\<lambda>d. map_of d k)"

definition or_val :: "pyval \<Rightarrow> pyval \<Rightarrow> pyval" where
  "or_val a b = (if truthy a then a else b)"

definition first_item :: "pyval \<Rightarrow> pyval option" where
  "first_item v = (case v of PList (x # _) \<Rightarrow> Some x | _ \<Rightarrow> None)"

text \<open>A set holds hashable values only.\<close>

definition hashable :: "pyval \<Rightarrow> pyval option" where
  "hashable v = (case v of PList _ \<Rightarrow> None | PDict _ \<Rightarrow> None | _ \<Rightarrow> Some v)"

lemmas json_simps = as_dict_def get_or_def item_def or_val_def first_item_def

end
