(* ===== verification/Router.thy ===== *)
theory Router
  imports Json
begin

text \<open>
  The A2A message layer: the JSON-RPC task envelope the router builds
  (\<open>communication/a2a_router.py\<close>, \<open>communication/message_types.py\<close>) and the agents read and
  answer (\<open>agents/a2a_protocol.py\<close>), and the registration of agents
  (\<open>communication/agent_registry.py\<close>). Messages are JSON values; \<open>None\<close> is an exception of
  the code on a value of the wrong shape. HTTP is a parameter.
\<close>

section \<open>The envelope\<close>

text \<open>\<open>JsonRpcPart\<close>, \<open>TaskParams\<close> and \<open>TaskRequest\<close>, as \<open>model_dump\<close> writes them.\<close>

definition rpc_part :: "string \<Rightarrow> pyval \<Rightarrow> pyval \<Rightarrow> pyval" where
  "rpc_part kind txt d = PDict [(''type'', PStr kind), (''text'', txt), (''data'', d)]"

definition task_params :: "string \<Rightarrow> string \<Rightarrow> pyval list \<Rightarrow> pyval" where
  "task_params tid session parts =
     PDict [(''id'', PStr tid), (''sessionId'', PStr session), (''message'', PDict [(''parts'', PList parts)])]"

definition task_request :: "string \<Rightarrow> string \<Rightarrow> string \<Rightarrow> string \<Rightarrow> (string, pyval) dict \<Rightarrow> (string, pyval) dict" where
  "task_request rid tid session txt d =
     [(''jsonrpc'', PStr ''2.0''), (''method'', PStr ''tasks/send''), (''id'', PStr rid),
      (''params'', task_params tid session [rpc_part ''text'' (PStr txt) PNone, rpc_part ''data'' PNone (PDict d)])]"

text \<open>The first part of kind \<open>data\<close> that holds an object.\<close>

fun find_data :: "pyval list \<Rightarrow> (string, pyval) dict option" where
  "find_data [] = Some []"
| "find_data (PDict p # rest) =
     (if or_val (get_or p ''kind'' PNone) (get_or p ''type'' PNone) = PStr ''data''
      then (case get_or p ''data'' PNone of PDict d \<Rightarrow> Some d | _ \<Rightarrow> find_data rest)
      else find_data rest)"
| "find_data (_ # rest) = None"

text \<open>\<open>extract_request_context\<close>; \<open>fresh\<close> is the id made up when the request has none.\<close>

definition extract_request_context :: "(pyval \<Rightarrow> string) \<Rightarrow> string \<Rightarrow> (string, pyval) dict
    \<Rightarrow> (string \<times> string \<times> (string, pyval) dict) option" where
  "extract_request_context F fresh payload =
     Option.bind (as_dict (get_or payload ''params'' (PDict []))) (\<lambda>params.
     Option.bind (as_dict (get_or params ''message'' (PDict []))) (\<lambda>msg.
     Option.bind (case get_or msg ''parts'' (PList []) of PList ps \<Rightarrow> find_data ps
         | PDict ps \<Rightarrow> if ps = [] then Some [] else None | PStr ps \<Rightarrow> if ps = [] then Some [] else None | _ \<Rightarrow> None) (\<lambda>d.
     Some (py_str F (or_val (get_or params ''id'' PNone) (or_val (get_or params ''taskId'' PNone) (PStr fresh))),
           py_str F (or_val (get_or params ''sessionId'' PNone) (or_val (get_or msg ''contextId'' PNone)
             (or_val (get_or params ''contextId'' PNone) (PStr [])))), d))))"

definition task_artifact :: "string \<Rightarrow> string \<Rightarrow> (string, pyval) dict \<Rightarrow> pyval" where
  "task_artifact aid name d = PDict [(''artifactId'', PStr aid), (''name'', PStr name),
     (''parts'', PList [PDict [(''kind'', PStr ''data''), (''data'', PDict d)]])]"

definition build_task_result :: "string \<Rightarrow> string \<Rightarrow> (string, pyval) dict \<Rightarrow> string \<Rightarrow> string \<Rightarrow> string
    \<Rightarrow> (string \<times> (string, pyval) dict) option \<Rightarrow> (string, pyval) dict" where
  "build_task_result stamp aid payload tid cid state artifact =
     [(''jsonrpc'', PStr ''2.0''), (''id'', get_or payload ''id'' PNone),
      (''result'', PDict ([(''kind'', PStr ''task''), (''id'', PStr tid), (''contextId'', PStr cid),
         (''status'', PDict [(''state'', PStr state), (''timestamp'', PStr stamp)])] @
         (case artifact of None \<Rightarrow> [] | Some (name, d) \<Rightarrow> [(''artifacts'', PList [task_artifact aid name d])])))]"

section \<open>The agent's endpoint\<close>

text \<open>
  \<open>tasks_send\<close>: read the request, handle it, reply. The handler is a parameter here (it is
  modelled in the theory of the domain agent); when it raises, the server answers with an
  HTTP error.
\<close>

record handler_env =
  he_str :: "pyval \<Rightarrow> string"
  he_fresh :: string
  he_stamp :: string
  he_artifact :: string

definition serve :: "handler_env \<Rightarrow> (string \<Rightarrow> (string, pyval) dict \<Rightarrow> (string \<times> (string, pyval) dict) option)
    \<Rightarrow> (string, pyval) dict \<Rightarrow> pyval option" where
  "serve E h payload =
     Option.bind (extract_request_context (he_str E) (he_fresh E) payload) (\<lambda>(tid, cid, d).
     Option.bind (h cid d) (\<lambda>(name, body).
     Some (PDict (build_task_result (he_stamp E) (he_artifact E) payload tid cid ''completed'' (Some (name, body))))))"

section \<open>Registration\<close>

datatype agent_status = Ready

record registered_agent =
  ra_endpoint :: string
  ra_card :: "(string, pyval) dict"
  ra_status :: agent_status

type_synonym registry = "(string, registered_agent) dict"

datatype registration_error = BadOutputSchema string | MissingSkill string string | MalformedCard string

definition default_skills :: "(string, string) dict" where
  "default_skills = [(''metrics'', ''analyze-metrics''), (''log'', ''analyze-logs''), (''routing'', ''analyze-routing''),
     (''config'', ''analyze-config'')]"

definition card_skills :: "(string, pyval) dict \<Rightarrow> pyval list option" where
  "card_skills acard =
     (case get_or acard ''skills'' (PList []) of
        PList xs \<Rightarrow> those (map (\<lambda>s. Option.bind (as_dict s) (\<lambda>d. hashable (get_or d ''id'' PNone))) xs)
      | _ \<Rightarrow> None)"

definition required_skill_of :: "string \<Rightarrow> string option \<Rightarrow> string option" where
  "required_skill_of agent req =
     (case req of Some s \<Rightarrow> if s = [] then map_of default_skills agent else Some s | None \<Rightarrow> map_of default_skills agent)"

definition register_from_card :: "string \<Rightarrow> string \<Rightarrow> string option \<Rightarrow> (string, pyval) dict \<Rightarrow> registry
    \<Rightarrow> registration_error + registry" where
  "register_from_card agent endpoint req acard reg =
     (case (card_skills acard, as_dict (get_or acard ''schemaContract'' (PDict []))) of
        (Some skills, Some schema) \<Rightarrow>
          if get_or schema ''outputSchema'' PNone \<noteq> PStr ''AgentFinding'' then Inl (BadOutputSchema agent)
          else (case required_skill_of agent req of
                  Some s \<Rightarrow> if s \<noteq> [] \<and> PStr s \<notin> set skills then Inl (MissingSkill agent s)
                            else if PStr ''respond-to-peer'' \<notin> set skills then Inl (MissingSkill agent ''respond-to-peer'')
                            else Inr (AList.update agent \<lparr>ra_endpoint = endpoint, ra_card = acard, ra_status = Ready\<rparr> reg)
                | None \<Rightarrow> if PStr ''respond-to-peer'' \<notin> set skills then Inl (MissingSkill agent ''respond-to-peer'')
                          else Inr (AList.update agent \<lparr>ra_endpoint = endpoint, ra_card = acard, ra_status = Ready\<rparr> reg))
      | _ \<Rightarrow> Inl (MalformedCard agent))"

section \<open>The router\<close>

text \<open>\<open>_post_task\<close>: what a POST of a request to an endpoint gives; \<open>None\<close> is any exception.\<close>

type_synonym transport = "string \<Rightarrow> (string, pyval) dict \<Rightarrow> pyval option"

definition analysis_request :: "string \<Rightarrow> string \<Rightarrow> string \<Rightarrow> string \<Rightarrow> (string, pyval) dict \<Rightarrow> (string, pyval) dict" where
  "analysis_request rid agent incident skill payload =
     task_request rid (''task-'' @ agent @ ''-'' @ incident) incident (''Run '' @ skill)
       (dict_merge [(''skill'', PStr skill)] payload)"

text \<open>\<open>validate\<close> is \<open>AgentFinding.model_validate\<close>.\<close>

definition send_analysis :: "registry \<Rightarrow> transport \<Rightarrow> (pyval \<Rightarrow> 'f option) \<Rightarrow> string \<Rightarrow> string \<Rightarrow> string \<Rightarrow> string
    \<Rightarrow> (string, pyval) dict \<Rightarrow> 'f option" where
  "send_analysis reg post validate rid agent incident skill payload =
     Option.bind (map_of reg agent) (\<lambda>ra.
     Option.bind (post (ra_endpoint ra) (analysis_request rid agent incident skill payload)) (\<lambda>resp.
     Option.bind (item resp ''result'') (\<lambda>result.
     Option.bind (item result ''artifacts'') (\<lambda>arts.
     Option.bind (first_item arts) (\<lambda>art.
     Option.bind (item art ''parts'') (\<lambda>parts.
     Option.bind (first_item parts) (\<lambda>part.
     Option.bind (item part ''data'') validate)))))))"

definition peer_data :: "string \<Rightarrow> string \<Rightarrow> nat \<Rightarrow> (string, pyval) dict \<Rightarrow> (string, pyval) dict" where
  "peer_data sender mtype rnd payload =
     [(''skill'', PStr ''respond-to-peer''), (''message_type'', PStr mtype), (''sender_agent'', PStr sender),
      (''round_number'', PNum (real rnd)), (''payload'', PDict payload)]"

definition direct_request :: "string \<Rightarrow> string \<Rightarrow> string \<Rightarrow> string \<Rightarrow> (string, pyval) dict \<Rightarrow> nat \<Rightarrow> string
    \<Rightarrow> (string, pyval) dict" where
  "direct_request rid sender target mtype payload rnd session =
     task_request rid (''task-a2a-'' @ sender @ ''-to-'' @ target @ ''-r'' @ nat_str rnd) session mtype
       (peer_data sender mtype rnd payload)"

text \<open>What the states of a task mean for the sender.\<close>

definition normalize_state :: "string \<Rightarrow> string" where
  "normalize_state s =
     (let n = lower s
      in if n \<in> {''completed'', ''queued'', ''working'', ''submitted''} then n
         else if n \<in> {''canceled'', ''cancelled''} then ''cancelled'' else ''failed'')"

text \<open>The object of the first part of the first artifact; \<open>None\<close> is an exception.\<close>

definition response_data :: "(string, pyval) dict \<Rightarrow> (string, pyval) dict option option" where
  "response_data result =
     (let arts = or_val (get_or result ''artifacts'' PNone) (PList [])
      in if \<not> truthy arts then Some None
         else Option.bind (first_item arts) (\<lambda>art.
              Option.bind (as_dict art) (\<lambda>a.
              let parts = get_or a ''parts'' (PList [])
              in if \<not> truthy parts then Some None
                 else Option.bind (first_item parts) (\<lambda>part.
                      Option.bind (as_dict part) (\<lambda>p. Some (as_dict (get_or p ''data'' PNone)))))))"

definition read_response :: "(pyval \<Rightarrow> string) \<Rightarrow> pyval \<Rightarrow> (string \<times> (string, pyval) dict option) option" where
  "read_response F resp =
     Option.bind (as_dict resp) (\<lambda>r.
     Option.bind (as_dict (get_or r ''result'' (PDict []))) (\<lambda>result.
     (case get_or result ''status'' PNone of
        PDict st \<Rightarrow>
          (case map_of st ''state'' of
             None \<Rightarrow> Some (''failed'', None)
           | Some v \<Rightarrow> map_option (Pair (normalize_state (py_str F v))) (response_data result))
      | _ \<Rightarrow> Some (''failed'', None))))"

record a2a_message =
  am_sender :: string
  am_target :: string
  am_type :: string
  am_payload :: "(string, pyval) dict"
  am_round :: nat

definition message_types :: "string list" where
  "message_types = [''finding_publish'', ''clarification_request'', ''clarification_response'', ''validation_request'',
     ''validation_response'', ''finding_update'']"

definition mk_message :: "string \<Rightarrow> string \<Rightarrow> string \<Rightarrow> (string, pyval) dict \<Rightarrow> nat \<Rightarrow> string
    \<Rightarrow> (string, pyval) dict option \<Rightarrow> a2a_message" where
  "mk_message sender target mtype payload rnd status resp =
     \<lparr>am_sender = sender, am_target = target, am_type = mtype,
      am_payload = dict_merge (dict_merge [(''status'', PStr status)] payload)
        (case resp of None \<Rightarrow> [] | Some d \<Rightarrow> [(''response'', PDict d)]),
      am_round = rnd\<rparr>"

text \<open>The code builds the message last, and an unknown message type raises there.\<close>

definition checked_message :: "a2a_message \<Rightarrow> a2a_message option" where
  "checked_message m = (if am_type m \<in> set message_types then Some m else None)"

definition send_direct :: "(pyval \<Rightarrow> string) \<Rightarrow> registry \<Rightarrow> transport \<Rightarrow> string \<Rightarrow> string \<Rightarrow> string \<Rightarrow> string
    \<Rightarrow> (string, pyval) dict \<Rightarrow> nat \<Rightarrow> string \<Rightarrow> a2a_message option" where
  "send_direct F reg post rid sender target mtype payload rnd session =
     Option.bind (map_of reg target) (\<lambda>ra.
     (case post (ra_endpoint ra) (direct_request rid sender target mtype payload rnd session) of
        None \<Rightarrow> checked_message (mk_message sender target mtype payload rnd ''failed'' None)
      | Some resp \<Rightarrow> Option.bind (read_response F resp)
          (\<lambda>(status, d). checked_message (mk_message sender target mtype payload rnd status d))))"

definition broadcast :: "(pyval \<Rightarrow> string) \<Rightarrow> registry \<Rightarrow> transport \<Rightarrow> (string \<Rightarrow> string) \<Rightarrow> string \<Rightarrow> string
    \<Rightarrow> (string, pyval) dict \<Rightarrow> nat \<Rightarrow> string \<Rightarrow> a2a_message list option" where
  "broadcast F reg post rids sender mtype payload rnd session =
     those (map (\<lambda>target. send_direct F reg post (rids target) sender target mtype payload rnd session)
       (filter (\<lambda>t. t \<noteq> sender) (keys reg)))"

section \<open>Facts\<close>

lemma extract_task_request:
  "tid \<noteq> [] \<Longrightarrow> extract_request_context F fresh (task_request rid tid session txt d) = Some (tid, session, d)"
  by (simp add: extract_request_context_def task_request_def task_params_def rpc_part_def json_simps py_str_def)

lemma read_task_result:
  "read_response F (PDict (build_task_result stamp aid payload tid cid state (Some (name, d)))) = Some (normalize_state state, Some d)"
  by (simp add: read_response_def build_task_result_def response_data_def task_artifact_def json_simps py_str_def)

lemma normalize_completed: "normalize_state ''completed'' = ''completed''"
  by code_simp

lemma normalize_completedD:
  assumes "normalize_state s = ''completed''"
  shows "lower s = ''completed''"
proof (cases "lower s \<in> {''completed'', ''queued'', ''working'', ''submitted''}")
  case True
  then have "normalize_state s = lower s" by (simp only: normalize_state_def Let_def if_True)
  then show ?thesis using assms by simp
next
  case False
  then have "normalize_state s = ''cancelled'' \<or> normalize_state s = ''failed''"
    by (cases "lower s \<in> {''canceled'', ''cancelled''}") (simp_all only: normalize_state_def Let_def if_False if_True simp_thms)
  then show ?thesis using assms by (elim disjE) simp_all
qed

lemma send_direct_served:
  assumes "map_of reg target = Some ra"
    and "post (ra_endpoint ra) = serve E h"
    and "mtype \<in> set message_types"
  shows "send_direct F reg post rid sender target mtype payload rnd session =
    Some (case h session (peer_data sender mtype rnd payload) of
        None \<Rightarrow> mk_message sender target mtype payload rnd ''failed'' None
      | Some (name, body) \<Rightarrow> mk_message sender target mtype payload rnd ''completed'' (Some body))"
  using assms
  by (simp add: send_direct_def serve_def direct_request_def extract_task_request read_task_result normalize_completed
      checked_message_def mk_message_def [where mtype = mtype]
      split: option.splits)

lemma send_analysis_served:
  assumes "map_of reg agent = Some ra" and "post (ra_endpoint ra) = serve E h"
  shows "send_analysis reg post validate rid agent incident skill payload =
    Option.bind (h incident (dict_merge [(''skill'', PStr skill)] payload)) (\<lambda>(name, body). validate (PDict body))"
  using assms
  by (cases "h incident (dict_merge [(''skill'', PStr skill)] payload)")
    (auto simp: send_analysis_def serve_def analysis_request_def extract_task_request build_task_result_def
      task_artifact_def json_simps)

lemma map_of_rev_None: "k \<notin> set (keys d) \<Longrightarrow> map_of (rev d) k = None"
  by (simp add: keys_def map_of_eq_None_iff)

lemma map_of_message_status:
  "''status'' \<notin> set (keys payload) \<Longrightarrow> map_of (am_payload (mk_message a b m payload rnd st resp)) ''status'' = Some (PStr st)"
  by (cases resp) (simp_all add: mk_message_def map_of_dict_merge map_of_rev_None map_add_def)

lemma map_of_message_response:
  "map_of (am_payload (mk_message a b m payload rnd st (Some d))) ''response'' = Some (PDict d)"
  by (simp add: mk_message_def map_of_dict_merge)

text \<open>A payload with a status of its own hides that the delivery failed.\<close>

lemma payload_status_wins:
  "map_of (am_payload (mk_message a b m [(''status'', PStr ''completed'')] rnd ''failed'' None)) ''status'' = Some (PStr ''completed'')"
  by (simp add: mk_message_def map_of_dict_merge)

text \<open>A JSON-RPC error answer that spells out \<open>"result": null\<close> raises instead of reading as failed.\<close>

lemma null_result_raises:
  "read_response F (PDict [(''jsonrpc'', PStr ''2.0''), (''id'', PStr ''1''), (''result'', PNone), (''error'', PDict [])]) = None"
  "read_response F (PDict [(''jsonrpc'', PStr ''2.0''), (''id'', PStr ''1''), (''error'', PDict [])]) = Some (''failed'', None)"
  by (simp_all add: read_response_def json_simps)

lemma read_response_completed:
  assumes "read_response F resp = Some (''completed'', d)"
  shows "\<exists>r result st v. resp = PDict r \<and> map_of r ''result'' = Some (PDict result) \<and> map_of result ''status'' = Some (PDict st)
    \<and> map_of st ''state'' = Some v \<and> lower (py_str F v) = ''completed''"
proof -
  from assms obtain r where r: "resp = PDict r" by (auto simp: read_response_def as_dict_def split: pyval.splits option.splits)
  from assms obtain result where res: "get_or r ''result'' (PDict []) = PDict result"
    by (auto simp: r read_response_def as_dict_def split: pyval.splits option.splits)
  have run: "(case get_or result ''status'' PNone of
        PDict st \<Rightarrow>
          (case map_of st ''state'' of
             None \<Rightarrow> Some (''failed'', None)
           | Some v \<Rightarrow> map_option (Pair (normalize_state (py_str F v))) (response_data result))
      | _ \<Rightarrow> Some (''failed'', None)) = Some (''completed'', d)"
    using assms by (simp add: r read_response_def as_dict_def res)
  obtain st where st1: "get_or result ''status'' PNone = PDict st"
    using run by (cases "get_or result ''status'' PNone") simp_all
  obtain v where st2: "map_of st ''state'' = Some v"
    using run by (cases "map_of st ''state''") (simp_all add: st1)
  have n: "normalize_state (py_str F v) = ''completed''"
    using run by (auto simp: st1 st2)
  note st = st1 st2
  have k: "map_of result ''status'' = Some (PDict st)" using st(1) by (auto simp: get_or_def split: option.splits)
  then have "result \<noteq> []" by auto
  then have l: "map_of r ''result'' = Some (PDict result)" using res by (auto simp: get_or_def split: option.splits)
  show ?thesis by (intro exI conjI) (rule r, rule l, rule k, rule st(2), rule normalize_completedD [OF n])
qed

lemma those_map_Some: "(\<And>x. x \<in> set xs \<Longrightarrow> f x = Some (g x)) \<Longrightarrow> those (map f xs) = Some (map g xs)"
  by (induction xs) auto

definition peer_message :: "string \<Rightarrow> string \<Rightarrow> string \<Rightarrow> (string, pyval) dict \<Rightarrow> nat
    \<Rightarrow> (string \<times> (string, pyval) dict) option \<Rightarrow> a2a_message" where
  "peer_message sender target mtype payload rnd reply =
     (case reply of
        None \<Rightarrow> mk_message sender target mtype payload rnd ''failed'' None
      | Some (name, body) \<Rightarrow> mk_message sender target mtype payload rnd ''completed'' (Some body))"

lemma peer_message_target [simp]: "am_target (peer_message sender target mtype payload rnd reply) = target"
  by (cases reply) (auto simp: peer_message_def mk_message_def)

lemma broadcast_served:
  assumes "distinct (keys reg)"
    and srv: "\<And>t ra. map_of reg t = Some ra \<Longrightarrow> post (ra_endpoint ra) = serve E (H t)"
    and mt: "mtype \<in> set message_types"
  shows "broadcast F reg post rids sender mtype payload rnd session =
    Some (map (\<lambda>t. peer_message sender t mtype payload rnd (H t session (peer_data sender mtype rnd payload)))
      (filter (\<lambda>t. t \<noteq> sender) (keys reg)))"
  unfolding broadcast_def
proof (rule those_map_Some)
  fix t assume "t \<in> set (filter (\<lambda>t. t \<noteq> sender) (keys reg))"
  then have "map_of reg t \<noteq> None" by (simp add: keys_def map_of_eq_None_iff)
  then obtain ra where ra: "map_of reg t = Some ra" by blast
  show "send_direct F reg post (rids t) sender t mtype payload rnd session =
      Some (peer_message sender t mtype payload rnd (H t session (peer_data sender mtype rnd payload)))"
    using send_direct_served [OF ra, where post = post and h = "H t"] srv [OF ra] mt
    by (simp add: peer_message_def)
qed

lemma peer_message_reads:
  assumes "''status'' \<notin> set (keys payload)"
  shows "case reply of
      None \<Rightarrow> map_of (am_payload (peer_message a b m payload rnd reply)) ''status'' = Some (PStr ''failed'')
    | Some (name, body) \<Rightarrow>
        map_of (am_payload (peer_message a b m payload rnd reply)) ''status'' = Some (PStr ''completed'')
        \<and> map_of (am_payload (peer_message a b m payload rnd reply)) ''response'' = Some (PDict body)"
  using assms by (cases reply) (auto simp: peer_message_def map_of_message_status map_of_message_response)

lemma register_keys:
  "register_from_card agent ep req acard reg = Inr reg' \<Longrightarrow> distinct (keys reg) \<Longrightarrow> distinct (keys reg')"
  by (auto simp: register_from_card_def keys_def distinct_update split: option.splits if_splits)

lemma send_direct_completed:
  assumes "send_direct F reg post rid sender target mtype payload rnd session = Some m"
    and "''status'' \<notin> set (keys payload)"
    and "map_of (am_payload m) ''status'' = Some (PStr ''completed'')"
  shows "\<exists>ra resp d. map_of reg target = Some ra
    \<and> post (ra_endpoint ra) (direct_request rid sender target mtype payload rnd session) = Some resp
    \<and> read_response F resp = Some (''completed'', d)
    \<and> m = mk_message sender target mtype payload rnd ''completed'' d"
  using assms
  by (auto simp: send_direct_def checked_message_def map_of_message_status bind_eq_Some_conv split: option.splits if_splits)

section \<open>Properties\<close>

text \<open>
  C11: a round of peer messages comes back. When the registered agents are served by their
  handlers, a broadcast gives one message per agent other than the sender, in the order of
  registration; the handler reads exactly the session and the data the sender wrote, and its
  message carries the status completed with the handler's answer, or failed when it raised.
\<close>

theorem peer_exchange_roundtrip:
  assumes "distinct (keys reg)"
    and "\<And>t ra. map_of reg t = Some ra \<Longrightarrow> post (ra_endpoint ra) = serve E (H t)"
    and "mtype \<in> set message_types"
    and "''status'' \<notin> set (keys payload)"
  shows "\<exists>ms. broadcast F reg post rids sender mtype payload rnd session = Some ms
    \<and> map am_target ms = filter (\<lambda>t. t \<noteq> sender) (keys reg)
    \<and> (\<forall>m\<in>set ms.
         case H (am_target m) session (peer_data sender mtype rnd payload) of
           None \<Rightarrow> map_of (am_payload m) ''status'' = Some (PStr ''failed'')
         | Some (name, body) \<Rightarrow> map_of (am_payload m) ''status'' = Some (PStr ''completed'')
             \<and> map_of (am_payload m) ''response'' = Some (PDict body))"
proof -
  have b: "broadcast F reg post rids sender mtype payload rnd session =
      Some (map (\<lambda>t. peer_message sender t mtype payload rnd (H t session (peer_data sender mtype rnd payload)))
        (filter (\<lambda>t. t \<noteq> sender) (keys reg)))"
    by (rule broadcast_served [where H = H]) (rule assms(1), rule assms(2), assumption, rule assms(3))
  show ?thesis
    by (rule exI, rule conjI, rule b) (use peer_message_reads [OF assms(4)] in \<open>simp add: comp_def\<close>)
qed

text \<open>A concrete exchange: \<open>log\<close> answers with what it was asked, \<open>config\<close> raises.\<close>

definition ex_env :: handler_env where
  "ex_env = \<lparr>he_str = \<lambda>_. [], he_fresh = ''task-x'', he_stamp = ''t'', he_artifact = ''artifact-x''\<rparr>"

definition ex_handler :: "string \<Rightarrow> string \<Rightarrow> (string, pyval) dict \<Rightarrow> (string \<times> (string, pyval) dict) option" where
  "ex_handler t cid d = (if t = ''log'' then Some (''peer_answer'', [(''asked_by'', get_or d ''sender_agent'' PNone)]) else None)"

definition ex_reg :: registry where
  "ex_reg = map (\<lambda>t. (t, \<lparr>ra_endpoint = t, ra_card = [], ra_status = Ready\<rparr>)) [''metrics'', ''log'', ''config'']"

definition ex_post :: transport where
  "ex_post ep = serve ex_env (ex_handler ep)"

lemma ex_reg_distinct: "distinct (keys ex_reg)"
  by code_simp

lemma ex_reg_served: "map_of ex_reg t = Some ra \<Longrightarrow> ex_post (ra_endpoint ra) = serve ex_env (ex_handler t)"
  by (auto simp: ex_reg_def ex_post_def split: if_splits)

lemma ex_type: "''clarification_request'' \<in> set message_types"
  by code_simp

theorem peer_exchange_roundtrip_witness:
  "\<exists>ms. broadcast (\<lambda>_. []) ex_reg ex_post id ''metrics'' ''clarification_request'' [(''question'', PStr ''q'')] 1 ''INC'' = Some ms
    \<and> map am_target ms = [''log'', ''config'']
    \<and> (\<forall>m\<in>set ms.
         case ex_handler (am_target m) ''INC'' (peer_data ''metrics'' ''clarification_request'' 1 [(''question'', PStr ''q'')]) of
           None \<Rightarrow> map_of (am_payload m) ''status'' = Some (PStr ''failed'')
         | Some (name, body) \<Rightarrow> map_of (am_payload m) ''status'' = Some (PStr ''completed'')
             \<and> map_of (am_payload m) ''response'' = Some (PDict body))"
proof -
  have others: "filter (\<lambda>t. t \<noteq> ''metrics'') (keys ex_reg) = [''log'', ''config'']"
    by (simp add: ex_reg_def keys_def)
  have payload: "''status'' \<notin> set (keys [(''question'', PStr ''q'')])"
    by (simp add: keys_def)
  show ?thesis
    unfolding others [symmetric]
    by (rule peer_exchange_roundtrip [OF ex_reg_distinct _ ex_type payload]) (rule ex_reg_served)
qed

text \<open>
  the status of a peer message is the peer's own. A message reads completed only when
  the transport gave an answer to that very request whose task status says completed, in
  whatever case; a lost connection, a JSON-RPC error or an answer without a status never does.
\<close>

lemma peer_status_not_invented:
  assumes "send_direct F reg post rid sender target mtype payload rnd session = Some m"
    and "''status'' \<notin> set (keys payload)"
    and "map_of (am_payload m) ''status'' = Some (PStr ''completed'')"
  shows "\<exists>ra r result st v. map_of reg target = Some ra
    \<and> post (ra_endpoint ra) (direct_request rid sender target mtype payload rnd session) = Some (PDict r)
    \<and> map_of r ''result'' = Some (PDict result) \<and> map_of result ''status'' = Some (PDict st)
    \<and> map_of st ''state'' = Some v \<and> lower (py_str F v) = ''completed''"
proof -
  obtain ra resp d where *: "map_of reg target = Some ra"
      "post (ra_endpoint ra) (direct_request rid sender target mtype payload rnd session) = Some resp"
      "read_response F resp = Some (''completed'', d)"
    using send_direct_completed [OF assms] by blast
  show ?thesis using read_response_completed [OF *(3)] *(1,2) by fastforce
qed

end
