(* ===== verification/Ingestion.thy ===== *)
theory Ingestion
  imports Json Findings "HOL-Library.Multiset"
begin

text \<open>
  Incident ingestion: CloudWatch alarm events become incidents
  (\<open>ingestion/cloudwatch_alarms.py\<close>, \<open>ingestion/incident_normalizer.py\<close>), the webhook that
  accepts them (\<open>ingestion/webhook_server.py\<close>) and the bridge that groups the alarms of an SQS
  queue and posts them (\<open>ingestion/sqs_alarm_bridge.py\<close>). Reading and writing ISO texts,
  pydantic's reading of an integer, the HTTP calls and the clock are parameters.
\<close>

section \<open>Alarm events\<close>

text \<open>\<open>BadValue\<close> is a ValueError, \<open>WrongShape\<close> any other exception (attribute, key, type).\<close>

datatype ingest_error = BadValue | WrongShape

text \<open>
  \<open>ie_parse\<close> is \<open>datetime.fromisoformat\<close> moved to UTC (a naive time is read as UTC), \<open>ie_iso\<close>
  is \<open>isoformat\<close>, \<open>ie_int\<close> is the lax integer field of pydantic.
\<close>

record ingest_env =
  ie_str :: "pyval \<Rightarrow> string"
  ie_parse :: "string \<Rightarrow> time option"
  ie_iso :: "time \<Rightarrow> string"
  ie_int :: "pyval \<Rightarrow> int option"

type_synonym event = "(string, pyval) dict"

definition dict_at :: "event \<Rightarrow> string \<Rightarrow> ingest_error + event" where
  "dict_at d k = (case get_or d k (PDict []) of PDict x \<Rightarrow> Inr x | _ \<Rightarrow> Inl WrongShape)"

definition dict_or :: "event \<Rightarrow> string \<Rightarrow> ingest_error + event" where
  "dict_or d k = (case or_val (get_or d k (PDict [])) (PDict []) of PDict x \<Rightarrow> Inr x | _ \<Rightarrow> Inl WrongShape)"

definition alarm_state :: "event \<Rightarrow> ingest_error + event" where
  "alarm_state e = and_then (dict_at e ''detail'') (\<lambda>d. dict_or d ''state'')"

definition is_alarm_event :: "pyval \<Rightarrow> bool" where
  "is_alarm_event v = (case v of
       PDict e \<Rightarrow> map_of e ''source'' = Some (PStr ''aws.cloudwatch'')
         \<and> map_of e ''detail-type'' = Some (PStr ''CloudWatch Alarm State Change'')
     | _ \<Rightarrow> False)"

text \<open>\<open>raw.replace('Z', '+00:00')\<close>.\<close>

definition replace_z :: "string \<Rightarrow> string" where
  "replace_z s = concat (map (\<lambda>c. if c = CHR ''Z'' then ''+00:00'' else [c]) s)"

definition parse_time :: "ingest_env \<Rightarrow> string \<Rightarrow> ingest_error + time" where
  "parse_time E s = (case ie_parse E s of None \<Rightarrow> Inl BadValue | Some t \<Rightarrow> Inr t)"

definition state_time :: "ingest_env \<Rightarrow> event \<Rightarrow> ingest_error + time" where
  "state_time E e = and_then (alarm_state e) (\<lambda>st.
     parse_time E (replace_z (py_str (ie_str E) (or_val (get_or st ''timestamp'' PNone) (get_or e ''time'' PNone)))))"

definition is_alarming :: "event \<Rightarrow> ingest_error + bool" where
  "is_alarming e = and_then (alarm_state e) (\<lambda>st. Inr (get_or st ''value'' PNone = PStr ''ALARM''))"

definition ALARM_DIMENSIONS :: "(string \<times> string) list" where
  "ALARM_DIMENSIONS =
     [(''TunnelIpAddress'', ''tunnel''), (''Neighbor'', ''bgp_neighbor''), (''Flow'', ''flow''),
      (''TargetGroup'', ''target_group''), (''LoadBalancer'', ''load_balancer''), (''NatGatewayId'', ''nat_gateway''),
      (''InstanceId'', ''instance''), (''TransitGatewayAttachment'', ''tgw_attachment''),
      (''TransitGateway'', ''transit_gateway''), (''VpnId'', ''vpn_connection'')]"

text \<open>The entity of one metric: the first dimension of the table with a value.\<close>

definition metric_entity :: "(pyval \<Rightarrow> string) \<Rightarrow> event \<Rightarrow> (string \<times> string) option" where
  "metric_entity F dims =
     map_option (\<lambda>(name, etype). (etype, py_str F (get_or dims name PNone)))
       (List.find (\<lambda>(name, etype). truthy (get_or dims name PNone)) ALARM_DIMENSIONS)"

definition metric_dims :: "pyval \<Rightarrow> ingest_error + event" where
  "metric_dims v = (case v of
       PDict m \<Rightarrow> and_then (dict_or m ''metricStat'') (\<lambda>s. and_then (dict_or s ''metric'') (\<lambda>n. dict_or n ''dimensions''))
     | _ \<Rightarrow> Inl WrongShape)"

definition metric_list :: "event \<Rightarrow> ingest_error + pyval list" where
  "metric_list conf = (case or_val (get_or conf ''metrics'' (PList [])) (PList []) of PList ms \<Rightarrow> Inr ms | _ \<Rightarrow> Inl WrongShape)"

definition alarm_entities :: "(pyval \<Rightarrow> string) \<Rightarrow> event \<Rightarrow> ingest_error + (string \<times> string) list" where
  "alarm_entities F e =
     and_then (dict_at e ''detail'') (\<lambda>d.
     and_then (dict_or d ''configuration'') (\<lambda>conf.
     and_then (metric_list conf) (\<lambda>ms.
     and_then (traverse metric_dims ms) (\<lambda>dims.
     Inr (List.map_filter (metric_entity F) dims)))))"

section \<open>A burst of alarms\<close>

text \<open>\<open>reason[:200]\<close>.\<close>

definition cut_reason :: "pyval \<Rightarrow> ingest_error + pyval" where
  "cut_reason v = (case v of
       PStr s \<Rightarrow> Inr (PStr (take 200 s)) | PList xs \<Rightarrow> Inr (PList (take 200 xs)) | _ \<Rightarrow> Inl WrongShape)"

definition alarm_text :: "(pyval \<Rightarrow> string) \<Rightarrow> pyval \<Rightarrow> pyval \<Rightarrow> pyval \<Rightarrow> string" where
  "alarm_text F name desc reason =
     (if truthy desc then strip (py_str F name @ '': '' @ py_str F desc) else py_str F name @ '': '' @ py_str F reason)"

text \<open>What one event adds: its entities, its alarm's name and text.\<close>

definition event_facts :: "(pyval \<Rightarrow> string) \<Rightarrow> event \<Rightarrow> ingest_error + (string \<times> string) list \<times> pyval \<times> string" where
  "event_facts F e =
     and_then (alarm_entities F e) (\<lambda>ents.
     and_then (dict_at e ''detail'') (\<lambda>d.
     and_then (dict_or d ''configuration'') (\<lambda>conf.
     and_then (dict_or d ''state'') (\<lambda>st.
     and_then (cut_reason (get_or st ''reason'' (PStr []))) (\<lambda>reason.
     case hashable (get_or d ''alarmName'' (PStr ''unknown-alarm'')) of
       None \<Rightarrow> Inl WrongShape
     | Some name \<Rightarrow> Inr (ents, name, alarm_text F name (or_val (get_or conf ''description'' PNone) (PStr [])) reason))))))"

definition add_new :: "'a \<Rightarrow> 'a list \<Rightarrow> 'a list" where
  "add_new x xs = (if x \<in> set xs then xs else xs @ [x])"

definition burst_step :: "(pyval \<Rightarrow> string) \<Rightarrow> event \<Rightarrow> (string \<times> string) list \<times> (pyval, string) dict
    \<Rightarrow> ingest_error + (string \<times> string) list \<times> (pyval, string) dict" where
  "burst_step F e = (\<lambda>(entities, seen).
     and_then (event_facts F e) (\<lambda>(ents, name, txt). Inr (fold add_new ents entities, set_default name txt seen)))"

definition entity_dict :: "string \<times> string \<Rightarrow> pyval" where
  "entity_dict x = PDict [(''type'', PStr (fst x)), (''id'', PStr (snd x))]"

definition incident_payload :: "ingest_env \<Rightarrow> event list \<Rightarrow> ingest_error + event" where
  "incident_payload E events =
     (if events = [] then Inl BadValue
      else and_then (traverse (\<lambda>e. and_then (state_time E e) (\<lambda>t. Inr (t, e))) events) (\<lambda>timed.
           let es = sort_key fst timed; first = hd es
           in and_then (fold_sum (burst_step (ie_str E)) (map snd es) ([], [])) (\<lambda>(entities, seen).
              case map_of (snd first) ''detail'' of
                Some (PDict d) \<Rightarrow>
                  Inr [(''description'', PStr (''CloudWatch alarms went into ALARM: '' @ join_with ''; '' (vals seen))),
                       (''region'', get_or (snd first) ''region'' (PStr ''us-east-1'')),
                       (''severity'', PStr ''high''),
                       (''source_system'', PStr ''cloudwatch''),
                       (''external_incident_id'', PStr (py_str (ie_str E) (get_or d ''alarmName'' (PStr ''alarm'')) @ ''@'' @ ie_iso E (fst first))),
                       (''reported_at'', PStr (ie_iso E (fst (last es)))),
                       (''alarms'', PList (keys seen)),
                       (''alarm_entities'', PList (map entity_dict entities))]
              | _ \<Rightarrow> Inl WrongShape)))"

section \<open>Normalizing a payload\<close>

fun first_time :: "ingest_env \<Rightarrow> time \<Rightarrow> event \<Rightarrow> string list \<Rightarrow> ingest_error + time" where
  "first_time E now p [] = Inr now"
| "first_time E now p (k # ks) =
     (case get_or p k PNone of
        PNone \<Rightarrow> first_time E now p ks
      | PTime t \<Rightarrow> Inr t
      | v \<Rightarrow> if v = PStr [] then first_time E now p ks else parse_time E (py_str (ie_str E) v))"

definition alarm_time :: "ingest_env \<Rightarrow> time \<Rightarrow> event \<Rightarrow> ingest_error + time" where
  "alarm_time E now p = first_time E now p [''reported_at'', ''alarm_time'', ''StateChangeTime'']"

text \<open>The \<open>IncidentRequest\<close> of the payload; its id is made up. Alarm entities are any objects.\<close>

record incident_input =
  ii_scenario :: "int option"
  ii_description :: string
  ii_region :: string
  ii_reported_at :: time
  ii_severity :: incident_severity
  ii_source_system :: "string option"
  ii_external_id :: "string option"
  ii_alarm_entities :: "event list"

definition str_field :: "pyval \<Rightarrow> ingest_error + string" where
  "str_field v = (case v of PStr s \<Rightarrow> Inr s | _ \<Rightarrow> Inl BadValue)"

definition opt_str_field :: "pyval \<Rightarrow> ingest_error + string option" where
  "opt_str_field v = (case v of PNone \<Rightarrow> Inr None | PStr s \<Rightarrow> Inr (Some s) | _ \<Rightarrow> Inl BadValue)"

definition opt_int_field :: "ingest_env \<Rightarrow> pyval \<Rightarrow> ingest_error + int option" where
  "opt_int_field E v =
     (if v = PNone then Inr None else case ie_int E v of None \<Rightarrow> Inl BadValue | Some i \<Rightarrow> Inr (Some i))"

definition severity_field :: "pyval \<Rightarrow> ingest_error + incident_severity" where
  "severity_field v =
     (if v = PStr ''low'' then Inr SevLow else if v = PStr ''medium'' then Inr SevMedium
      else if v = PStr ''high'' then Inr SevHigh else if v = PStr ''critical'' then Inr SevCritical else Inl BadValue)"

definition entities_field :: "pyval \<Rightarrow> ingest_error + event list" where
  "entities_field v = (case v of
       PList xs \<Rightarrow> traverse (\<lambda>x. case x of PDict d \<Rightarrow> Inr d | _ \<Rightarrow> Inl BadValue) xs
     | _ \<Rightarrow> Inl BadValue)"

definition request_of :: "ingest_env \<Rightarrow> time \<Rightarrow> event \<Rightarrow> ingest_error + incident_input" where
  "request_of E now p =
     and_then (alarm_time E now p) (\<lambda>t.
     and_then (str_field (get_or p ''description'' (PStr ''Unknown incident''))) (\<lambda>desc.
     and_then (str_field (get_or p ''region'' (PStr ''us-east''))) (\<lambda>region.
     and_then (severity_field (get_or p ''severity'' (PStr ''medium''))) (\<lambda>sev.
     and_then (opt_int_field E (get_or p ''scenario_id'' PNone)) (\<lambda>scen.
     and_then (opt_str_field (get_or p ''source_system'' PNone)) (\<lambda>src.
     and_then (opt_str_field (get_or p ''external_incident_id'' PNone)) (\<lambda>ext.
     and_then (entities_field (or_val (get_or p ''alarm_entities'' PNone) (PList []))) (\<lambda>ents.
     Inr \<lparr>ii_scenario = scen, ii_description = desc, ii_region = region, ii_reported_at = t, ii_severity = sev,
          ii_source_system = src, ii_external_id = ext, ii_alarm_entities = ents\<rparr>))))))))"

definition normalize_incident :: "ingest_env \<Rightarrow> time \<Rightarrow> event \<Rightarrow> ingest_error + incident_input" where
  "normalize_incident E now p =
     and_then (if is_alarm_event (PDict p) then incident_payload E [p] else Inr p) (request_of E now)"

section \<open>The webhook\<close>

record webhook =
  wh_auth :: bool
  wh_token :: string

datatype webhook_error = TokenNotSet string | BadSection

text \<open>\<open>WebhookServer.__init__\<close>; \<open>env\<close> is the environment of the process.\<close>

definition start_webhook :: "(pyval \<Rightarrow> string) \<Rightarrow> (string \<Rightarrow> string option) \<Rightarrow> event \<Rightarrow> webhook_error + webhook" where
  "start_webhook F env cfg =
     (case (dict_at cfg ''ingestion'') of
        Inl _ \<Rightarrow> Inl BadSection
      | Inr ing \<Rightarrow>
          (case dict_or ing ''auth'' of
             Inl _ \<Rightarrow> Inl BadSection
           | Inr a \<Rightarrow>
               let enabled = truthy (get_or a ''enabled'' (PBool False));
                   var = py_str F (get_or a ''token_env'' (PStr ''NETCORTEX_WEBHOOK_TOKEN''));
                   token = (case env var of None \<Rightarrow> [] | Some s \<Rightarrow> s)
               in if enabled \<and> token = [] then Inl (TokenNotSet var) else Inr \<lparr>wh_auth = enabled, wh_token = token\<rparr>))"

text \<open>\<open>s.partition(' ')\<close>: what is before and after the first blank.\<close>

definition partition_blank :: "string \<Rightarrow> string \<times> string" where
  "partition_blank s = (takeWhile (\<lambda>c. c \<noteq> CHR '' '') s, drop 1 (dropWhile (\<lambda>c. c \<noteq> CHR '' '') s))"

datatype 'r ingest_reply = Unauthorized | NoHandler | Unprocessable | ServerError | Handled 'r

text \<open>\<open>POST /incidents\<close>: the handler is what \<open>set_handler\<close> installed, and may raise.\<close>

definition ingest :: "ingest_env \<Rightarrow> webhook \<Rightarrow> (incident_input \<Rightarrow> 'r option) option \<Rightarrow> time \<Rightarrow> string option \<Rightarrow> event
    \<Rightarrow> 'r ingest_reply" where
  "ingest E w handler now auth p =
     (let (scheme, token) = partition_blank (case auth of None \<Rightarrow> [] | Some s \<Rightarrow> s)
      in if wh_auth w \<and> (lower scheme \<noteq> ''bearer'' \<or> token \<noteq> wh_token w) then Unauthorized
         else (case handler of
                 None \<Rightarrow> NoHandler
               | Some h \<Rightarrow>
                   (case normalize_incident E now p of
                      Inl BadValue \<Rightarrow> Unprocessable
                    | Inl WrongShape \<Rightarrow> ServerError
                    | Inr incident \<Rightarrow> (case h incident of None \<Rightarrow> ServerError | Some r \<Rightarrow> Handled r))))"

section \<open>The SQS bridge\<close>

text \<open>
  A message is its parsed body (\<open>None\<close> when it is not JSON), its receipt and the two readings
  of the clock the bridge takes when it buffers it.
\<close>

record sqs_msg =
  sm_body :: "pyval option"
  sm_receipt :: string
  sm_opened :: real
  sm_seen :: real

record bridge =
  sb_events :: "event list"
  sb_receipts :: "string list"
  sb_seen_ids :: "pyval list"
  sb_first :: real
  sb_last :: real
  sb_retry_at :: real

definition new_bridge :: bridge where
  "new_bridge = \<lparr>sb_events = [], sb_receipts = [], sb_seen_ids = [], sb_first = 0, sb_last = 0, sb_retry_at = 0\<rparr>"

definition RETRY_SECONDS :: real where "RETRY_SECONDS = 30"

text \<open>The alarm a message carries, \<open>None\<close> for everything that is not a change to ALARM.\<close>

definition alarm_of :: "sqs_msg \<Rightarrow> ingest_error + event option" where
  "alarm_of m = (case sm_body m of
       Some (PDict e) \<Rightarrow>
         if is_alarm_event (PDict e) then and_then (is_alarming e) (\<lambda>b. Inr (if b then Some e else None)) else Inr None
     | _ \<Rightarrow> Inr None)"

definition event_id :: "event \<Rightarrow> pyval" where
  "event_id e = get_or e ''id'' PNone"

definition buffer_event :: "sqs_msg \<Rightarrow> event \<Rightarrow> bridge \<Rightarrow> bridge" where
  "buffer_event m e st =
     st\<lparr>sb_seen_ids := event_id e # sb_seen_ids st,
        sb_first := (if sb_events st = [] then sm_opened m else sb_first st),
        sb_last := sm_seen m,
        sb_events := sb_events st @ [e],
        sb_receipts := sb_receipts st @ [sm_receipt m]\<rparr>"

text \<open>One message of a poll; the second component collects the receipts to delete.\<close>

definition poll_msg :: "sqs_msg \<Rightarrow> bridge \<times> string list \<Rightarrow> ingest_error + bridge \<times> string list" where
  "poll_msg m = (\<lambda>(st, ignored).
     and_then (alarm_of m) (\<lambda>a. case a of
         None \<Rightarrow> Inr (st, ignored @ [sm_receipt m])
       | Some e \<Rightarrow>
           (case hashable (event_id e) of
              None \<Rightarrow> Inl WrongShape
            | Some i \<Rightarrow> if i \<in> set (sb_seen_ids st) then Inr (st, ignored @ [sm_receipt m])
                        else Inr (buffer_event m e st, ignored))))"

definition poll_once :: "sqs_msg list \<Rightarrow> bridge \<Rightarrow> ingest_error + bridge \<times> string list" where
  "poll_once msgs st = fold_sum poll_msg msgs (st, [])"

text \<open>\<open>_delete\<close> sends the receipts in batches of ten, numbered from 0.\<close>

function delete_batches :: "string list \<Rightarrow> (nat \<times> string) list list" where
  "delete_batches rs = (if rs = [] then [] else enumerate 0 (take 10 rs) # delete_batches (drop 10 rs))"
  by pat_completeness auto
termination by (relation "measure length") auto

declare delete_batches.simps [simp del]

definition due :: "real \<Rightarrow> real \<Rightarrow> real \<Rightarrow> real \<Rightarrow> bridge \<Rightarrow> bool" where
  "due quiet max_group retry_now now st =
     (if sb_events st = [] \<or> retry_now < sb_retry_at st then False
      else quiet \<le> now - sb_last st \<or> max_group \<le> now - sb_first st)"

text \<open>An answer to a POST: an HTTP error, or a reply whose body may not be JSON.\<close>

datatype http_answer = HttpError | HttpReply "pyval option"

datatype flushed = NotPosted | Posted event pyval

definition flush :: "ingest_env \<Rightarrow> (event \<Rightarrow> http_answer) \<Rightarrow> real \<Rightarrow> bridge
    \<Rightarrow> ingest_error + bridge \<times> flushed \<times> string list" where
  "flush E post now st =
     and_then (incident_payload E (sb_events st)) (\<lambda>p.
     case post p of
       HttpError \<Rightarrow> Inr (st\<lparr>sb_retry_at := now + RETRY_SECONDS\<rparr>, NotPosted, [])
     | HttpReply None \<Rightarrow> Inl BadValue
     | HttpReply (Some report) \<Rightarrow>
         (case item report ''incident_id'' of
            None \<Rightarrow> Inl WrongShape
          | Some _ \<Rightarrow> Inr (st\<lparr>sb_events := [], sb_receipts := [], sb_retry_at := 0\<rparr>, Posted p report, sb_receipts st)))"

definition poll_wait :: "bridge \<Rightarrow> nat" where
  "poll_wait st = (if sb_events st \<noteq> [] then 5 else 20)"

text \<open>
  One round of \<open>run\<close>, with what the queue, the clock and the webhook gave. An exception ends
  the loop. \<open>br_deleted\<close> and \<open>br_posted\<close> record what the queue and the webhook saw.
\<close>

record tick =
  tk_msgs :: "sqs_msg list"
  tk_retry_now :: real
  tk_now :: real
  tk_failed_now :: real
  tk_post :: "event \<Rightarrow> http_answer"

record bridge_run =
  br_bridge :: bridge
  br_deleted :: "string list"
  br_posted :: "((event \<times> string) list \<times> event) list"

definition bridge_tick :: "ingest_env \<Rightarrow> real \<Rightarrow> real \<Rightarrow> tick \<Rightarrow> bridge_run \<Rightarrow> ingest_error + bridge_run" where
  "bridge_tick E quiet max_group k r =
     and_then (poll_once (tk_msgs k) (br_bridge r)) (\<lambda>(st, ignored).
     let r1 = r\<lparr>br_bridge := st, br_deleted := br_deleted r @ map snd (concat (delete_batches ignored))\<rparr>
     in if due quiet max_group (tk_retry_now k) (tk_now k) st
        then and_then (flush E (tk_post k) (tk_failed_now k) st) (\<lambda>(st2, res, receipts).
             case res of
               NotPosted \<Rightarrow> Inr (r1\<lparr>br_bridge := st2\<rparr>)
             | Posted p _ \<Rightarrow> Inr (r1\<lparr>br_bridge := st2,
                 br_deleted := br_deleted r1 @ map snd (concat (delete_batches receipts)),
                 br_posted := br_posted r1 @ [(zip (sb_events st) (sb_receipts st), p)]\<rparr>))
        else Inr r1)"

definition run_bridge :: "ingest_env \<Rightarrow> real \<Rightarrow> real \<Rightarrow> tick list \<Rightarrow> ingest_error + bridge_run" where
  "run_bridge E quiet max_group ticks =
     fold_sum (bridge_tick E quiet max_group) ticks \<lparr>br_bridge = new_bridge, br_deleted = [], br_posted = []\<rparr>"

section \<open>Facts about the bridge\<close>

lemma deleted_batches: "map snd (concat (delete_batches rs)) = rs"
proof (induction rs rule: delete_batches.induct)
  case (1 rs)
  show ?case
  proof (cases "rs = []")
    case True
    then show ?thesis by (subst delete_batches.simps) simp
  next
    case False
    then have "map snd (concat (delete_batches rs)) = take 10 rs @ map snd (concat (delete_batches (drop 10 rs)))"
      by (subst delete_batches.simps) simp
    then show ?thesis using 1 [OF False] by simp
  qed
qed

text \<open>The alarms of the messages, each with its receipt, and the first with each id.\<close>

definition alarms :: "sqs_msg list \<Rightarrow> (event \<times> string) list" where
  "alarms ms = List.map_filter (\<lambda>m. case alarm_of m of Inr (Some e) \<Rightarrow> Some (e, sm_receipt m) | _ \<Rightarrow> None) ms"

fun keep_first :: "('a \<Rightarrow> 'k) \<Rightarrow> 'a list \<Rightarrow> 'a list" where
  "keep_first f [] = []"
| "keep_first f (x # xs) = x # filter (\<lambda>y. f y \<noteq> f x) (keep_first f xs)"

lemma image_filter_neq: "f ` {y \<in> A. f y \<noteq> c} = f ` A - {c}"
  by auto

lemma keep_first_keys: "f ` set (keep_first f xs) = f ` set xs"
  by (induction xs) (simp_all add: image_filter_neq)

lemma keep_first_snoc: "keep_first f (xs @ [x]) = keep_first f xs @ (if f x \<in> f ` set xs then [] else [x])"
  by (induction xs) auto

lemma alarms_snoc:
  "alarms (ms @ [m]) = alarms ms @ (case alarm_of m of Inr (Some e) \<Rightarrow> [(e, sm_receipt m)] | _ \<Rightarrow> [])"
  by (auto simp: alarms_def List.map_filter_def split: option.splits sum.splits)

abbreviation "id_of \<equiv> event_id \<circ> fst"

text \<open>What every reachable state keeps: \<open>ms\<close> are the messages received so far.\<close>

definition accounts :: "sqs_msg list \<Rightarrow> (event \<times> string) list \<Rightarrow> string list \<Rightarrow> bridge \<Rightarrow> bool" where
  "accounts ms posted deleted st =
     (length (sb_events st) = length (sb_receipts st)
      \<and> posted @ zip (sb_events st) (sb_receipts st) = keep_first id_of (alarms ms)
      \<and> mset deleted + mset (sb_receipts st) = mset (map sm_receipt ms)
      \<and> set (sb_seen_ids st) = id_of ` set (alarms ms))"

lemma hashable_Some: "hashable v = Some i \<Longrightarrow> i = v"
  by (cases v) (auto simp: hashable_def)

lemma poll_msg_accounts:
  assumes "poll_msg m (st, ignored) = Inr (st', ignored')"
    and "accounts ms posted (deleted @ ignored) st"
  shows "accounts (ms @ [m]) posted (deleted @ ignored') st'"
proof -
  from assms(1) obtain a where a: "alarm_of m = Inr a" by (auto simp: poll_msg_def and_then_Inr)
  show ?thesis
  proof (cases a)
    case None
    then have "st' = st" "ignored' = ignored @ [sm_receipt m]" using assms(1) a by (auto simp: poll_msg_def)
    then show ?thesis using assms(2) a None by (auto simp: accounts_def alarms_snoc)
  next
    case (Some e)
    obtain i where i: "hashable (event_id e) = Some i"
      using assms(1) a Some by (auto simp: poll_msg_def split: option.splits)
    note idef = hashable_Some [OF i]
    show ?thesis
    proof (cases "event_id e \<in> set (sb_seen_ids st)")
      case True
      then have "st' = st" "ignored' = ignored @ [sm_receipt m]" using assms(1) a Some i idef by (auto simp: poll_msg_def)
      then show ?thesis using assms(2) a Some True by (auto simp: accounts_def alarms_snoc keep_first_snoc)
    next
      case False
      then have "st' = buffer_event m e st" "ignored' = ignored" using assms(1) a Some i idef by (auto simp: poll_msg_def)
      then show ?thesis using assms(2) a Some False
        by (auto simp: accounts_def alarms_snoc keep_first_snoc buffer_event_def)
    qed
  qed
qed

lemma poll_accounts:
  assumes "fold_sum poll_msg msgs (st, ignored) = Inr (st', ignored')"
    and "accounts ms posted (deleted @ ignored) st"
  shows "accounts (ms @ msgs) posted (deleted @ ignored') st'"
  using assms
proof (induction msgs arbitrary: st ignored ms)
  case (Cons m msgs)
  obtain s1 g1 where 1: "poll_msg m (st, ignored) = Inr (s1, g1)" and 2: "fold_sum poll_msg msgs (s1, g1) = Inr (st', ignored')"
    using Cons.prems(1) by (auto split: sum.splits)
  have "accounts (ms @ [m]) posted (deleted @ g1) s1" by (rule poll_msg_accounts [OF 1 Cons.prems(2)])
  from Cons.IH [OF 2 this] show ?case by simp
qed simp

lemma tick_cases:
  assumes "bridge_tick E quiet max_group k r = Inr r'"
  obtains st ignored where "poll_once (tk_msgs k) (br_bridge r) = Inr (st, ignored)"
    and "(r' = r\<lparr>br_bridge := st, br_deleted := br_deleted r @ ignored\<rparr>)
      \<or> (\<exists>t. r' = r\<lparr>br_bridge := st\<lparr>sb_retry_at := t\<rparr>, br_deleted := br_deleted r @ ignored\<rparr>)
      \<or> (sb_events st \<noteq> [] \<and> (\<exists>p. incident_payload E (sb_events st) = Inr p
          \<and> r' = r\<lparr>br_bridge := st\<lparr>sb_events := [], sb_receipts := [], sb_retry_at := 0\<rparr>,
                br_deleted := (br_deleted r @ ignored) @ sb_receipts st,
                br_posted := br_posted r @ [(zip (sb_events st) (sb_receipts st), p)]\<rparr>))"
proof -
  obtain st ignored where poll: "poll_once (tk_msgs k) (br_bridge r) = Inr (st, ignored)"
    using assms by (auto simp: bridge_tick_def and_then_Inr)
  show ?thesis
  proof (cases "due quiet max_group (tk_retry_now k) (tk_now k) st")
    case False
    then show ?thesis using assms poll by (intro that [OF poll]) (simp add: bridge_tick_def deleted_batches)
  next
    case True
    then have ne: "sb_events st \<noteq> []" by (auto simp: due_def)
    obtain p where p: "incident_payload E (sb_events st) = Inr p"
      using assms poll True by (auto simp: bridge_tick_def flush_def and_then_Inr Let_def)
    show ?thesis
    proof (cases "tk_post k p")
      case HttpError
      then have "r' = r\<lparr>br_bridge := st\<lparr>sb_retry_at := tk_failed_now k + RETRY_SECONDS\<rparr>, br_deleted := br_deleted r @ ignored\<rparr>"
        using assms poll True p by (cases r) (simp add: bridge_tick_def flush_def deleted_batches)
      then show ?thesis by (intro that [OF poll] disjI2 disjI1) blast
    next
      case (HttpReply body)
      then show ?thesis using assms poll True p ne
        by (intro that [OF poll] disjI2)
          (cases r; auto simp: bridge_tick_def flush_def deleted_batches split: option.splits)
    qed
  qed
qed

definition run_accounts :: "ingest_env \<Rightarrow> sqs_msg list \<Rightarrow> bridge_run \<Rightarrow> bool" where
  "run_accounts E ms r =
     (accounts ms (concat (map fst (br_posted r))) (br_deleted r) (br_bridge r)
      \<and> (\<forall>(burst, p) \<in> set (br_posted r). burst \<noteq> [] \<and> incident_payload E (map fst burst) = Inr p))"

lemma accounts_retry: "accounts ms posted deleted (st\<lparr>sb_retry_at := t\<rparr>) = accounts ms posted deleted st"
  by (simp add: accounts_def)

lemma accounts_flushed:
  "accounts ms posted deleted st \<Longrightarrow>
    accounts ms (posted @ zip (sb_events st) (sb_receipts st)) (deleted @ sb_receipts st)
      (st\<lparr>sb_events := [], sb_receipts := [], sb_retry_at := t\<rparr>)"
  by (simp add: accounts_def)

lemma tick_accounts:
  assumes "bridge_tick E quiet max_group k r = Inr r'" and "run_accounts E ms r"
  shows "run_accounts E (ms @ tk_msgs k) r'"
  using assms(1)
proof (rule tick_cases)
  fix st ignored
  assume poll: "poll_once (tk_msgs k) (br_bridge r) = Inr (st, ignored)"
    and step: "(r' = r\<lparr>br_bridge := st, br_deleted := br_deleted r @ ignored\<rparr>)
      \<or> (\<exists>t. r' = r\<lparr>br_bridge := st\<lparr>sb_retry_at := t\<rparr>, br_deleted := br_deleted r @ ignored\<rparr>)
      \<or> (sb_events st \<noteq> [] \<and> (\<exists>p. incident_payload E (sb_events st) = Inr p
          \<and> r' = r\<lparr>br_bridge := st\<lparr>sb_events := [], sb_receipts := [], sb_retry_at := 0\<rparr>,
                br_deleted := (br_deleted r @ ignored) @ sb_receipts st,
                br_posted := br_posted r @ [(zip (sb_events st) (sb_receipts st), p)]\<rparr>))"
  have acc: "accounts (ms @ tk_msgs k) (concat (map fst (br_posted r))) (br_deleted r @ ignored) st"
    by (rule poll_accounts [OF poll [unfolded poll_once_def]]) (use assms(2) in \<open>simp add: run_accounts_def\<close>)
  have len: "length (sb_events st) = length (sb_receipts st)" using acc by (simp add: accounts_def)
  from step show ?thesis
  proof (elim disjE)
    assume r': "r' = r\<lparr>br_bridge := st, br_deleted := br_deleted r @ ignored\<rparr>"
    show ?thesis using acc assms(2) by (simp add: run_accounts_def r')
  next
    assume "\<exists>t. r' = r\<lparr>br_bridge := st\<lparr>sb_retry_at := t\<rparr>, br_deleted := br_deleted r @ ignored\<rparr>"
    then obtain t where r': "r' = r\<lparr>br_bridge := st\<lparr>sb_retry_at := t\<rparr>, br_deleted := br_deleted r @ ignored\<rparr>" ..
    show ?thesis using acc assms(2) by (simp add: run_accounts_def r' accounts_retry)
  next
    assume *: "sb_events st \<noteq> [] \<and> (\<exists>p. incident_payload E (sb_events st) = Inr p
          \<and> r' = r\<lparr>br_bridge := st\<lparr>sb_events := [], sb_receipts := [], sb_retry_at := 0\<rparr>,
                br_deleted := (br_deleted r @ ignored) @ sb_receipts st,
                br_posted := br_posted r @ [(zip (sb_events st) (sb_receipts st), p)]\<rparr>)"
    then obtain p where ne: "sb_events st \<noteq> []" and p: "incident_payload E (sb_events st) = Inr p"
      and r': "r' = r\<lparr>br_bridge := st\<lparr>sb_events := [], sb_receipts := [], sb_retry_at := 0\<rparr>,
                br_deleted := (br_deleted r @ ignored) @ sb_receipts st,
                br_posted := br_posted r @ [(zip (sb_events st) (sb_receipts st), p)]\<rparr>" by blast
    have "sb_receipts st \<noteq> []" using ne len by auto
    then show ?thesis using accounts_flushed [OF acc] assms(2) ne p len by (auto simp: run_accounts_def r')
  qed
qed

lemma ticks_account:
  "fold_sum (bridge_tick E quiet max_group) ticks r = Inr r' \<Longrightarrow> run_accounts E ms r
    \<Longrightarrow> run_accounts E (ms @ concat (map tk_msgs ticks)) r'"
proof (induction ticks arbitrary: r ms)
  case (Cons k ticks)
  obtain r1 where 1: "bridge_tick E quiet max_group k r = Inr r1"
    and 2: "fold_sum (bridge_tick E quiet max_group) ticks r1 = Inr r'"
    using Cons.prems(1) by (auto split: sum.splits)
  from Cons.IH [OF 2 tick_accounts [OF 1 Cons.prems(2)]] show ?case by simp
qed simp

section \<open>Facts about payloads\<close>

lemma traverse_pairs:
  "traverse (\<lambda>e. and_then (f e) (\<lambda>t. Inr (t, e))) es = Inr timed
    \<Longrightarrow> map snd timed = es \<and> (\<forall>(t, e) \<in> set timed. f e = Inr t)"
proof (induction es arbitrary: timed)
  case (Cons e es)
  then obtain t rest where "f e = Inr t" "traverse (\<lambda>e. and_then (f e) (\<lambda>t. Inr (t, e))) es = Inr rest" "timed = (t, e) # rest"
    by (auto simp: and_then_def split: sum.splits)
  with Cons.IH [of rest] show ?case by simp
qed simp

lemma incident_payload_cases:
  assumes "incident_payload E es = Inr p"
  obtains timed entities seen d where
    "es \<noteq> []" and "map snd timed = es" and "\<forall>(t, e) \<in> set timed. state_time E e = Inr t"
    and "fold_sum (burst_step (ie_str E)) (map snd (sort_key fst timed)) ([], []) = Inr (entities, seen)"
    and "map_of (snd (hd (sort_key fst timed))) ''detail'' = Some (PDict d)"
    and "p = [(''description'', PStr (''CloudWatch alarms went into ALARM: '' @ join_with ''; '' (vals seen))),
       (''region'', get_or (snd (hd (sort_key fst timed))) ''region'' (PStr ''us-east-1'')),
       (''severity'', PStr ''high''),
       (''source_system'', PStr ''cloudwatch''),
       (''external_incident_id'', PStr (py_str (ie_str E) (get_or d ''alarmName'' (PStr ''alarm'')) @ ''@''
          @ ie_iso E (fst (hd (sort_key fst timed))))),
       (''reported_at'', PStr (ie_iso E (fst (last (sort_key fst timed))))),
       (''alarms'', PList (keys seen)),
       (''alarm_entities'', PList (map entity_dict entities))]"
proof -
  have ne: "es \<noteq> []" using assms by (auto simp: incident_payload_def)
  obtain timed where t: "traverse (\<lambda>e. and_then (state_time E e) (\<lambda>t. Inr (t, e))) es = Inr timed"
    using assms ne by (auto simp: incident_payload_def and_then_Inr)
  have 1: "map snd timed = es" and 2: "\<forall>(t, e) \<in> set timed. state_time E e = Inr t"
    using traverse_pairs [OF t] by blast+
  obtain entities seen where 3: "fold_sum (burst_step (ie_str E)) (map snd (sort_key fst timed)) ([], []) = Inr (entities, seen)"
    using assms ne t by (auto simp: incident_payload_def and_then_Inr Let_def)
  obtain d where 4: "map_of (snd (hd (sort_key fst timed))) ''detail'' = Some (PDict d)"
    using assms ne t 3 by (auto simp: incident_payload_def Let_def split: option.splits pyval.splits)
  show ?thesis
    by (rule that [OF ne 1 2 3 4]) (use assms ne t 3 4 in \<open>simp add: incident_payload_def Let_def\<close>)
qed

text \<open>The loop of \<open>incident_payload\<close> raises only when one event alone does.\<close>

lemma burst_fold_total:
  "\<forall>e\<in>set es. \<exists>f. event_facts F e = Inr f \<Longrightarrow> \<exists>s'. fold_sum (burst_step F) es s = Inr s'"
  by (rule fold_sum_total) (auto simp: burst_step_def and_then_def split: prod.splits)

lemma payload_one:
  assumes "incident_payload E [e] = Inr p"
  shows "\<exists>t f d. state_time E e = Inr t \<and> event_facts (ie_str E) e = Inr f \<and> map_of e ''detail'' = Some (PDict d)"
  using assms
proof (rule incident_payload_cases)
  fix timed entities seen d
  assume 1: "map snd timed = [e]" and 2: "\<forall>(t, e) \<in> set timed. state_time E e = Inr t"
    and 3: "fold_sum (burst_step (ie_str E)) (map snd (sort_key fst timed)) ([], []) = Inr (entities, seen)"
    and 4: "map_of (snd (hd (sort_key fst timed))) ''detail'' = Some (PDict d)"
  from 1 obtain t where timed: "timed = [(t, e)]" by (cases timed) auto
  from 3 obtain f where "event_facts (ie_str E) e = Inr f"
    by (auto simp: timed burst_step_def and_then_def split: sum.splits)
  then show ?thesis using 2 4 by (cases f) (auto simp: timed)
qed

lemma incident_payload_total:
  assumes "es \<noteq> []" and "\<forall>e\<in>set es. \<exists>p. incident_payload E [e] = Inr p"
  shows "\<exists>p. incident_payload E es = Inr p"
proof -
  have each: "\<exists>t f d. state_time E e = Inr t \<and> event_facts (ie_str E) e = Inr f \<and> map_of e ''detail'' = Some (PDict d)"
    if "e \<in> set es" for e using assms(2) that payload_one by blast
  have "\<exists>timed. traverse (\<lambda>e. and_then (state_time E e) (\<lambda>t. Inr (t, e))) es = Inr timed"
    by (rule traverse_total) (use each in fastforce)
  then obtain timed where t: "traverse (\<lambda>e. and_then (state_time E e) (\<lambda>t. Inr (t, e))) es = Inr timed" by blast
  define order where "order = sort_key fst timed"
  have "set (map snd order) = set (map snd timed)" by (simp add: order_def)
  then have snds: "set (map snd order) = set es" using traverse_pairs [OF t] by simp
  have "\<exists>s'. fold_sum (burst_step (ie_str E)) (map snd order) ([], []) = Inr s'"
    by (rule burst_fold_total) (use each snds in blast)
  then obtain entities seen where f: "fold_sum (burst_step (ie_str E)) (map snd order) ([], []) = Inr (entities, seen)" by auto
  have "order \<noteq> []" using snds assms(1) by auto
  then have "snd (hd order) \<in> set es" using snds by (metis hd_in_set image_eqI set_map)
  then obtain d where "map_of (snd (hd order)) ''detail'' = Some (PDict d)" using each by blast
  then show ?thesis using assms(1) t f by (simp add: incident_payload_def Let_def order_def)
qed

text \<open>What the loop collects: every entity once, every alarm name once.\<close>

definition entities_of :: "(pyval \<Rightarrow> string) \<Rightarrow> event \<Rightarrow> (string \<times> string) list" where
  "entities_of F e = (case alarm_entities F e of Inl _ \<Rightarrow> [] | Inr xs \<Rightarrow> xs)"

lemma fold_add_new: "set (fold add_new xs ys) = set ys \<union> set xs" "distinct ys \<Longrightarrow> distinct (fold add_new xs ys)"
proof -
  show "set (fold add_new xs ys) = set ys \<union> set xs" by (induction xs arbitrary: ys) (auto simp: add_new_def)
  show "distinct ys \<Longrightarrow> distinct (fold add_new xs ys)" by (induction xs arbitrary: ys) (auto simp: add_new_def)
qed

lemma burst_fold_entities:
  "fold_sum (burst_step F) es (ents, seen) = Inr (ents', seen') \<Longrightarrow> distinct ents
    \<Longrightarrow> distinct ents' \<and> set ents' = set ents \<union> (\<Union>e\<in>set es. set (entities_of F e))"
proof (induction es arbitrary: ents seen)
  case (Cons e es)
  obtain e1 s1 where 1: "burst_step F e (ents, seen) = Inr (e1, s1)" and 2: "fold_sum (burst_step F) es (e1, s1) = Inr (ents', seen')"
    using Cons.prems(1) by (auto split: sum.splits)
  from 1 have e1: "e1 = fold add_new (entities_of F e) ents"
    by (auto simp: burst_step_def event_facts_def entities_of_def and_then_Inr split: option.splits)
  show ?case using Cons.IH [OF 2] Cons.prems(2) by (auto simp: e1 fold_add_new)
qed simp

text \<open>Well-formed input: every alarm of a message makes a payload of its own, every reply has an id.\<close>

definition good_msg :: "ingest_env \<Rightarrow> sqs_msg \<Rightarrow> bool" where
  "good_msg E m = (\<exists>a. alarm_of m = Inr a \<and> (\<forall>e. a = Some e \<longrightarrow>
     (\<exists>p. incident_payload E [e] = Inr p) \<and> hashable (event_id e) \<noteq> None))"

definition good_answer :: "http_answer \<Rightarrow> bool" where
  "good_answer x = (case x of HttpError \<Rightarrow> True | HttpReply None \<Rightarrow> False | HttpReply (Some r) \<Rightarrow> item r ''incident_id'' \<noteq> None)"

definition good_tick :: "ingest_env \<Rightarrow> tick \<Rightarrow> bool" where
  "good_tick E k = ((\<forall>m\<in>set (tk_msgs k). good_msg E m) \<and> (\<forall>p. good_answer (tk_post k p)))"

definition all_good :: "ingest_env \<Rightarrow> bridge \<Rightarrow> bool" where
  "all_good E st = (\<forall>e\<in>set (sb_events st). \<exists>p. incident_payload E [e] = Inr p)"

lemma poll_total:
  "\<forall>m\<in>set msgs. good_msg E m \<Longrightarrow> all_good E st \<Longrightarrow>
    \<exists>st' ignored'. fold_sum poll_msg msgs (st, ignored) = Inr (st', ignored') \<and> all_good E st'"
proof (induction msgs arbitrary: st ignored)
  case (Cons m msgs)
  obtain a where a: "alarm_of m = Inr a" and good: "\<And>e. a = Some e \<Longrightarrow>
      (\<exists>p. incident_payload E [e] = Inr p) \<and> hashable (event_id e) \<noteq> None"
    using Cons.prems(1) by (auto simp: good_msg_def)
  have "\<exists>s1 g1. poll_msg m (st, ignored) = Inr (s1, g1) \<and> all_good E s1"
  proof (cases a)
    case None
    then show ?thesis using a Cons.prems(2) by (simp add: poll_msg_def)
  next
    case (Some e)
    then show ?thesis using a good [OF Some] Cons.prems(2)
      by (auto simp: poll_msg_def all_good_def buffer_event_def)
  qed
  then obtain s1 g1 where 1: "poll_msg m (st, ignored) = Inr (s1, g1)" "all_good E s1" by blast
  have "\<forall>m\<in>set msgs. good_msg E m" using Cons.prems(1) by simp
  from Cons.IH [OF this 1(2)] show ?case using 1(1) by simp
qed simp

lemma tick_total:
  assumes "good_tick E k" and "all_good E (br_bridge r)"
  shows "\<exists>r'. bridge_tick E quiet max_group k r = Inr r' \<and> all_good E (br_bridge r')"
proof -
  have "\<forall>m\<in>set (tk_msgs k). good_msg E m" using assms(1) by (simp add: good_tick_def)
  from poll_total [OF this assms(2), of "[]"] obtain st ignored
    where fold: "fold_sum poll_msg (tk_msgs k) (br_bridge r, []) = Inr (st, ignored)" and good: "all_good E st" by blast
  have poll: "poll_once (tk_msgs k) (br_bridge r) = Inr (st, ignored)" using fold by (simp add: poll_once_def)
  show ?thesis
  proof (cases "due quiet max_group (tk_retry_now k) (tk_now k) st")
    case False
    then show ?thesis using poll good by (simp add: bridge_tick_def)
  next
    case True
    then have "sb_events st \<noteq> []" by (auto simp: due_def)
    then obtain p where p: "incident_payload E (sb_events st) = Inr p"
      using incident_payload_total [OF _ good [unfolded all_good_def]] by blast
    have answer: "good_answer (tk_post k p)" using assms(1) by (simp add: good_tick_def)
    show ?thesis
    proof (cases "tk_post k p")
      case HttpError
      then show ?thesis using poll good True p by (simp add: bridge_tick_def flush_def all_good_def)
    next
      case (HttpReply body)
      obtain rep i where "body = Some rep" "item rep ''incident_id'' = Some i"
        using answer HttpReply by (cases body) (auto simp: good_answer_def)
      then show ?thesis using HttpReply poll True p by (simp add: bridge_tick_def flush_def all_good_def)
    qed
  qed
qed

lemma ticks_total:
  "\<forall>k\<in>set ticks. good_tick E k \<Longrightarrow> all_good E (br_bridge r) \<Longrightarrow>
    \<exists>r'. fold_sum (bridge_tick E quiet max_group) ticks r = Inr r'"
proof (induction ticks arbitrary: r)
  case (Cons k ticks)
  obtain r1 where 1: "bridge_tick E quiet max_group k r = Inr r1" "all_good E (br_bridge r1)"
    using tick_total [of E k r quiet max_group] Cons.prems by auto
  have "\<forall>k\<in>set ticks. good_tick E k" using Cons.prems(1) by simp
  from Cons.IH [OF this 1(2)] show ?case using 1(1) by simp
qed simp

text \<open>
  A copy of an alarm that is still waiting to be posted is deleted from the queue at once:
  the alarm then lives in the memory of the bridge only.
\<close>

lemma redelivery_deleted_before_post:
  assumes "alarm_of m = Inr (Some e)" and "hashable (event_id e) = Some i" and "event_id e \<in> set (sb_seen_ids st)"
  shows "poll_once [m] st = Inr (st, [sm_receipt m])"
  using assms hashable_Some [OF assms(2)] by (simp add: poll_once_def poll_msg_def)

text \<open>A second alarm without an id is taken for a copy of the first.\<close>

lemma events_without_id_dropped:
  assumes "alarm_of m = Inr (Some e)" and "map_of e ''id'' = None"
    and "poll_msg m0 (st0, g) = Inr (buffer_event m0 e0 st0, g)" and "map_of e0 ''id'' = None"
  shows "poll_msg m (buffer_event m0 e0 st0, g) = Inr (buffer_event m0 e0 st0, g @ [sm_receipt m])"
  using assms by (simp add: poll_msg_def event_id_def get_or_def hashable_def buffer_event_def)

text \<open>The order of a burst: the first alarm is an earliest one, the last a latest one.\<close>

lemma last_sort_key:
  assumes "xs \<noteq> []"
  shows "last (sort_key f xs) \<in> set xs" "x \<in> set xs \<Longrightarrow> f x \<le> f (last (sort_key f xs))"
proof -
  have ne: "sort_key f xs \<noteq> []" using assms by (metis set_empty set_sort)
  then show "last (sort_key f xs) \<in> set xs" by (metis last_in_set set_sort)
  assume "x \<in> set xs"
  then have "x \<in> set (sort_key f xs)" by simp
  then obtain i where i: "i < length (sort_key f xs)" "sort_key f xs ! i = x" by (metis in_set_conv_nth)
  have "map f (sort_key f xs) ! i \<le> map f (sort_key f xs) ! (length (sort_key f xs) - 1)"
    by (rule sorted_nth_mono) (use i ne in auto)
  then show "f x \<le> f (last (sort_key f xs))" using i ne by (simp add: last_conv_nth)
qed

text \<open>Only a bearer token equal to the configured, non-empty one gets past a guarded webhook.\<close>

lemma webhook_guarded:
  assumes "start_webhook F env cfg = Inr w" and "wh_auth w"
  shows "wh_token w \<noteq> [] \<and>
    (ingest E w handler now auth p = Unauthorized \<longleftrightarrow>
      \<not> (\<exists>hdr. (case auth of None \<Rightarrow> [] | Some s \<Rightarrow> s) = hdr
          \<and> lower (fst (partition_blank hdr)) = ''bearer'' \<and> snd (partition_blank hdr) = wh_token w))"
proof -
  have "wh_token w \<noteq> []"
    using assms by (auto simp: start_webhook_def Let_def split: sum.splits if_splits)
  then show ?thesis using assms(2)
    by (simp add: ingest_def Let_def split_def split: option.splits sum.splits ingest_error.splits)
qed

section \<open>Properties\<close>

text \<open>
  C9: no alarm is lost or reported twice. Whatever the queue delivers and however the webhook
  answers, the posted bursts followed by the buffer are exactly the alarms received, in order,
  the first copy of each event id; every message is either deleted from the queue or still
  held with its receipt; every posted burst is non-empty and was posted as one payload.
  And on alarms that make a payload and replies that carry an incident id, the loop never stops.
\<close>

theorem bridge_accounts:
  "((\<forall>k\<in>set ticks. good_tick E k) \<longrightarrow> (\<exists>r. run_bridge E quiet max_group ticks = Inr r))
    \<and> (\<forall>r. run_bridge E quiet max_group ticks = Inr r \<longrightarrow>
        concat (map fst (br_posted r)) @ zip (sb_events (br_bridge r)) (sb_receipts (br_bridge r))
          = keep_first id_of (alarms (concat (map tk_msgs ticks)))
        \<and> mset (br_deleted r) + mset (sb_receipts (br_bridge r)) = mset (map sm_receipt (concat (map tk_msgs ticks)))
        \<and> (\<forall>(burst, p) \<in> set (br_posted r). burst \<noteq> [] \<and> incident_payload E (map fst burst) = Inr p))"
proof (intro conjI impI allI)
  assume good: "\<forall>k\<in>set ticks. good_tick E k"
  show "\<exists>r. run_bridge E quiet max_group ticks = Inr r"
    unfolding run_bridge_def by (rule ticks_total [OF good]) (simp add: all_good_def new_bridge_def)
next
  fix r assume run: "run_bridge E quiet max_group ticks = Inr r"
  have "run_accounts E [] \<lparr>br_bridge = new_bridge, br_deleted = [], br_posted = []\<rparr>"
    by (simp add: run_accounts_def accounts_def new_bridge_def alarms_def)
  from ticks_account [OF run [unfolded run_bridge_def] this]
  have acc: "run_accounts E (concat (map tk_msgs ticks)) r" by simp
  then show "concat (map fst (br_posted r)) @ zip (sb_events (br_bridge r)) (sb_receipts (br_bridge r))
      = keep_first id_of (alarms (concat (map tk_msgs ticks)))"
    and "mset (br_deleted r) + mset (sb_receipts (br_bridge r)) = mset (map sm_receipt (concat (map tk_msgs ticks)))"
    and "\<forall>(burst, p) \<in> set (br_posted r). burst \<noteq> [] \<and> incident_payload E (map fst burst) = Inr p"
    by (simp_all add: run_accounts_def accounts_def)
qed

text \<open>
  C15: the incident of a burst says when and where. The payload of a burst, posted to the
  webhook, becomes an incident of high severity that is reported at the time of the latest
  alarm, so that no alarm lies after its telemetry window, and carries every entity the
  alarms watch exactly once and no other. The hypotheses on the time format are that an ISO
  text reads back as the time it was written from, and that the empty text is no time.
\<close>

theorem burst_incident_sound:
  assumes "incident_payload E es = Inr p"
    and "\<And>t. ie_parse E (ie_iso E t) = Some t" and "ie_parse E [] = None"
    and "\<And>e v. e \<in> set es \<Longrightarrow> map_of e ''region'' = Some v \<Longrightarrow> \<exists>s. v = PStr s"
  shows "\<exists>inc. normalize_incident E now p = Inr inc \<and> ii_severity inc = SevHigh
    \<and> (\<exists>e\<in>set es. state_time E e = Inr (ii_reported_at inc))
    \<and> (\<forall>e\<in>set es. \<exists>t. state_time E e = Inr t \<and> t \<le> ii_reported_at inc)
    \<and> (\<exists>entities. distinct entities \<and> set entities = (\<Union>e\<in>set es. set (entities_of (ie_str E) e))
        \<and> map PDict (ii_alarm_entities inc) = map entity_dict entities)"
  using assms(1)
proof (rule incident_payload_cases)
  fix timed :: "(time \<times> event) list" and entities :: "(string \<times> string) list"
    and seen :: "(pyval, string) dict" and d :: event
  let ?order = "sort_key fst timed"
  assume ne: "es \<noteq> []" and snds: "map snd timed = es" and times: "\<forall>(t, e) \<in> set timed. state_time E e = Inr t"
    and loop: "fold_sum (burst_step (ie_str E)) (map snd ?order) ([], []) = Inr (entities, seen)"
    and p: "p = [(''description'', PStr (''CloudWatch alarms went into ALARM: '' @ join_with ''; '' (vals seen))),
       (''region'', get_or (snd (hd ?order)) ''region'' (PStr ''us-east-1'')),
       (''severity'', PStr ''high''),
       (''source_system'', PStr ''cloudwatch''),
       (''external_incident_id'', PStr (py_str (ie_str E) (get_or d ''alarmName'' (PStr ''alarm'')) @ ''@'' @ ie_iso E (fst (hd ?order)))),
       (''reported_at'', PStr (ie_iso E (fst (last ?order)))),
       (''alarms'', PList (keys seen)),
       (''alarm_entities'', PList (map entity_dict entities))]"
  have timed_ne: "timed \<noteq> []" using snds ne by auto
  have order_set: "snd ` set ?order = set es" using arg_cong [OF snds, of set] by simp
  obtain region where region: "get_or (snd (hd ?order)) ''region'' (PStr ''us-east-1'') = PStr region"
  proof -
    have "hd ?order \<in> set ?order" using timed_ne by (metis hd_in_set set_empty set_sort)
    then have "snd (hd ?order) \<in> set es" using order_set by blast
    then show ?thesis using assms(4) that by (cases "map_of (snd (hd ?order)) ''region''") (auto simp: get_or_def)
  qed
  have iso: "ie_iso E t \<noteq> []" for t using assms(2) [of t] assms(3) by auto
  have ents: "entities_field (PList (map entity_dict xs)) = Inr (map (\<lambda>x. [(''type'', PStr (fst x)), (''id'', PStr (snd x))]) xs)" for xs
    by (simp add: entities_field_def, induction xs) (simp_all add: entity_dict_def)
  define inc where "inc = \<lparr>ii_scenario = None,
      ii_description = ''CloudWatch alarms went into ALARM: '' @ join_with ''; '' (vals seen),
      ii_region = region, ii_reported_at = fst (last ?order), ii_severity = SevHigh,
      ii_source_system = Some ''cloudwatch'',
      ii_external_id = Some (py_str (ie_str E) (get_or d ''alarmName'' (PStr ''alarm'')) @ ''@'' @ ie_iso E (fst (hd ?order))),
      ii_alarm_entities = map (\<lambda>x. [(''type'', PStr (fst x)), (''id'', PStr (snd x))]) entities\<rparr>"
  have or: "or_val (PList (map entity_dict entities)) (PList []) = PList (map entity_dict entities)"
    by (simp add: or_val_def)
  have "alarm_time E now p = Inr (fst (last ?order))"
    by (simp add: alarm_time_def p get_or_def iso py_str_def parse_time_def assms(2))
  moreover have "get_or p ''region'' v = PStr region" for v
    using region by (simp add: get_or_def p)
  moreover have "get_or p ''description'' v = PStr (ii_description inc)" "get_or p ''severity'' v = PStr ''high''"
      "get_or p ''scenario_id'' v = v" "get_or p ''source_system'' v = PStr ''cloudwatch''"
      "get_or p ''external_incident_id'' v = PStr (the (ii_external_id inc))"
      "get_or p ''alarm_entities'' v = PList (map entity_dict entities)" for v
    by (simp_all add: get_or_def p inc_def)
  ultimately have "request_of E now p = Inr inc"
    unfolding request_of_def
    by (simp add: inc_def str_field_def severity_field_def opt_int_field_def opt_str_field_def or ents)
  then have "normalize_incident E now p = Inr inc"
    by (simp add: normalize_incident_def is_alarm_event_def p)
  moreover have "\<exists>e\<in>set es. state_time E e = Inr (ii_reported_at inc)"
  proof -
    have "last ?order \<in> set timed" by (rule last_sort_key(1) [OF timed_ne])
    then have "snd (last ?order) \<in> set es" "state_time E (snd (last ?order)) = Inr (fst (last ?order))"
      using times snds by (auto simp: split_def)
    then show ?thesis by (auto simp: inc_def)
  qed
  moreover have "\<forall>e\<in>set es. \<exists>t. state_time E e = Inr t \<and> t \<le> ii_reported_at inc"
  proof
    fix e assume "e \<in> set es"
    then obtain t where t: "(t, e) \<in> set timed" using snds by auto
    have "t \<le> fst (last ?order)" using last_sort_key(2) [OF timed_ne t, of fst] by simp
    then show "\<exists>t. state_time E e = Inr t \<and> t \<le> ii_reported_at inc" using times t by (auto simp: inc_def)
  qed
  moreover have "distinct entities \<and> set entities = (\<Union>e\<in>set es. set (entities_of (ie_str E) e))"
  proof -
    have "set (map snd ?order) = set es" using order_set by simp
    then show ?thesis using burst_fold_entities [OF loop] by (simp only: set_simps distinct.simps simp_thms Un_empty_left)
  qed
  moreover have "map PDict (ii_alarm_entities inc) = map entity_dict entities"
    by (simp add: inc_def entity_dict_def)
  ultimately show ?thesis by (intro exI [of _ inc]) (auto simp: inc_def)
qed

text \<open>A burst of two alarms; a time is written as a row of letters, of odd length when it is not negative.\<close>

definition ex_ingest :: ingest_env where
  "ex_ingest = \<lparr>ie_str = \<lambda>_. [],
     ie_parse = \<lambda>s. if s = [] then None
       else Some (if odd (length s) then int (length s div 2) else - int (length s div 2)),
     ie_iso = \<lambda>t. replicate (if 0 \<le> t then 2 * nat t + 1 else 2 * nat (- t)) (CHR ''t''),
     ie_int = \<lambda>_. None\<rparr>"

definition ex_alarm :: "string \<Rightarrow> string \<Rightarrow> string \<Rightarrow> event \<Rightarrow> event" where
  "ex_alarm i name t dims =
     [(''source'', PStr ''aws.cloudwatch''), (''detail-type'', PStr ''CloudWatch Alarm State Change''), (''id'', PStr i),
      (''region'', PStr ''eu-west-1''),
      (''detail'', PDict [(''alarmName'', PStr name),
         (''state'', PDict [(''value'', PStr ''ALARM''), (''timestamp'', PStr t), (''reason'', PStr ''threshold crossed'')]),
         (''configuration'', PDict [(''metrics'', PList [PDict [(''metricStat'', PDict [(''metric'',
            PDict [(''dimensions'', PDict dims)])])]])])])]"

definition ex_burst :: "event list" where
  "ex_burst = [ex_alarm ''e2'' ''tunnel-down'' ''ttttt'' [(''TunnelIpAddress'', PStr ''198.51.100.1'')],
     ex_alarm ''e1'' ''nat-drops'' ''ttt'' [(''NatGatewayId'', PStr ''nat-1'')]]"

lemma ex_ingest_iso: "ie_parse ex_ingest (ie_iso ex_ingest t) = Some t" "ie_parse ex_ingest [] = None"
  by (auto simp: ex_ingest_def)

lemma ex_burst_region: "e \<in> set ex_burst \<Longrightarrow> map_of e ''region'' = Some v \<Longrightarrow> \<exists>s. v = PStr s"
  by (auto simp: ex_burst_def ex_alarm_def)

theorem burst_incident_sound_witness:
  "case incident_payload ex_ingest ex_burst of
     Inl _ \<Rightarrow> False
   | Inr p \<Rightarrow> \<exists>inc. normalize_incident ex_ingest 9 p = Inr inc \<and> ii_severity inc = SevHigh
      \<and> (\<exists>e\<in>set ex_burst. state_time ex_ingest e = Inr (ii_reported_at inc))
      \<and> (\<forall>e\<in>set ex_burst. \<exists>t. state_time ex_ingest e = Inr t \<and> t \<le> ii_reported_at inc)
      \<and> (\<exists>entities. distinct entities \<and> set entities = (\<Union>e\<in>set ex_burst. set (entities_of (ie_str ex_ingest) e))
          \<and> map PDict (ii_alarm_entities inc) = map entity_dict entities)"
proof -
  have "(case incident_payload ex_ingest ex_burst of Inl _ \<Rightarrow> False | Inr _ \<Rightarrow> True)"
    by code_simp
  then obtain p where p: "incident_payload ex_ingest ex_burst = Inr p"
    by (cases "incident_payload ex_ingest ex_burst") simp_all
  show ?thesis
    unfolding p sum.case by (rule burst_incident_sound [OF p ex_ingest_iso ex_burst_region])
qed

text \<open>
  Two rounds: the two alarms and a copy of the first arrive with a message that is no alarm;
  after the quiet time they are posted as one burst.
\<close>

definition ex_msg :: "pyval option \<Rightarrow> string \<Rightarrow> real \<Rightarrow> sqs_msg" where
  "ex_msg b r t = \<lparr>sm_body = b, sm_receipt = r, sm_opened = t, sm_seen = t\<rparr>"

definition ex_ticks :: "tick list" where
  "ex_ticks =
     [\<lparr>tk_msgs = [ex_msg (Some (PDict (hd ex_burst))) ''r1'' 1, ex_msg None ''r2'' 1, ex_msg (Some (PDict (hd ex_burst))) ''r3'' 2,
                  ex_msg (Some (PDict (last ex_burst))) ''r4'' 3],
        tk_retry_now = 4, tk_now = 4, tk_failed_now = 4, tk_post = \<lambda>_. HttpError\<rparr>,
      \<lparr>tk_msgs = [], tk_retry_now = 70, tk_now = 70, tk_failed_now = 70,
        tk_post = \<lambda>_. HttpReply (Some (PDict [(''incident_id'', PStr ''INC-1'')]))\<rparr>]"

lemma ex_ticks_good: "\<forall>k\<in>set ex_ticks. good_tick ex_ingest k"
proof -
  have one: "\<forall>e\<in>set ex_burst. \<exists>p. incident_payload ex_ingest [e] = Inr p"
  proof -
    have "list_all (\<lambda>e. case incident_payload ex_ingest [e] of Inl _ \<Rightarrow> False | Inr _ \<Rightarrow> True) ex_burst" by code_simp
    then have "(case incident_payload ex_ingest [e] of Inl _ \<Rightarrow> False | Inr _ \<Rightarrow> True)" if "e \<in> set ex_burst" for e
      using that by (simp only: list_all_iff)
    then show ?thesis by (metis (no_types, lifting) sum.exhaust sum.case(1))
  qed
  have alarm: "alarm_of (ex_msg (Some (PDict e)) r t) = Inr (Some e) \<and> hashable (event_id e) \<noteq> None" if "e \<in> set ex_burst" for e r t
    using that by (auto simp: ex_burst_def ex_alarm_def ex_msg_def alarm_of_def is_alarm_event_def is_alarming_def alarm_state_def
        dict_at_def dict_or_def get_or_def or_val_def event_id_def hashable_def)
  have "hd ex_burst \<in> set ex_burst" "last ex_burst \<in> set ex_burst" by (simp_all add: ex_burst_def)
  then have "good_msg ex_ingest (ex_msg (Some (PDict (hd ex_burst))) r t)"
      "good_msg ex_ingest (ex_msg (Some (PDict (last ex_burst))) r t)" for r t
    unfolding good_msg_def using alarm one by blast+
  moreover have "good_msg ex_ingest (ex_msg None r t)" for r t
    by (simp add: good_msg_def ex_msg_def alarm_of_def)
  ultimately show ?thesis
    by (simp add: ex_ticks_def good_tick_def good_answer_def item_def as_dict_def)
qed

theorem bridge_accounts_witness:
  "(\<exists>r. run_bridge ex_ingest 60 180 ex_ticks = Inr r
      \<and> concat (map fst (br_posted r)) @ zip (sb_events (br_bridge r)) (sb_receipts (br_bridge r))
          = keep_first id_of (alarms (concat (map tk_msgs ex_ticks)))
      \<and> mset (br_deleted r) + mset (sb_receipts (br_bridge r)) = mset [''r1'', ''r2'', ''r3'', ''r4''])
    \<and> keep_first id_of (alarms (concat (map tk_msgs ex_ticks))) = [(hd ex_burst, ''r1''), (last ex_burst, ''r4'')]"
proof
  note both = bridge_accounts [of ex_ticks ex_ingest 60 180]
  obtain r where r: "run_bridge ex_ingest 60 180 ex_ticks = Inr r"
    using conjunct1 [OF both] ex_ticks_good by blast
  have msgs: "map sm_receipt (concat (map tk_msgs ex_ticks)) = [''r1'', ''r2'', ''r3'', ''r4'']"
    by (simp add: ex_ticks_def ex_msg_def)
  note acc = conjunct2 [OF both, rule_format, OF r, unfolded msgs]
  show "\<exists>r. run_bridge ex_ingest 60 180 ex_ticks = Inr r
      \<and> concat (map fst (br_posted r)) @ zip (sb_events (br_bridge r)) (sb_receipts (br_bridge r))
          = keep_first id_of (alarms (concat (map tk_msgs ex_ticks)))
      \<and> mset (br_deleted r) + mset (sb_receipts (br_bridge r)) = mset [''r1'', ''r2'', ''r3'', ''r4'']"
    by (rule exI [of _ r], intro conjI, rule r, rule conjunct1 [OF acc], rule conjunct1 [OF conjunct2 [OF acc]])
  show "keep_first id_of (alarms (concat (map tk_msgs ex_ticks))) = [(hd ex_burst, ''r1''), (last ex_burst, ''r4'')]"
    by code_simp
qed

end
