(* ===== verification/AwsBase.thy ===== *)
theory AwsBase
  imports Telemetry Json
begin

text \<open>
  What the AWS source plugins share (\<open>mcp_telemetry_server/plugins/aws/base.py\<close>): the region a
  query is read in and paginated calls; and the Transit Gateway route source built on them
  (\<open>plugins/aws/tgw.py\<close>). The AWS API is a parameter: for a service, a region, an operation
  and its parameters the pages the paginator would give and the exception that would end them,
  or the answer of a single call. Building boto3 clients is left out.
\<close>

section \<open>Calls\<close>

text \<open>\<open>ApiError\<close> has the name of the exception's class and its text; \<open>BadAnswer\<close> is an answer
  that lacks a documented field.\<close>

datatype aws_error =
    ApiError string string
  | BadAnswer string
  | NotAwsRegion string
  | BadTime string
  | AllFailed "string list"

type_synonym page = "(string, pyval) dict"

record aws_api =
  aa_pages :: "string \<Rightarrow> string \<Rightarrow> string \<Rightarrow> (string, pyval) dict \<Rightarrow> page list \<times> aws_error option"
  aa_call :: "string \<Rightarrow> string \<Rightarrow> string \<Rightarrow> (string, pyval) dict \<Rightarrow> aws_error + page"

text \<open>\<open>f"{type(exc).__name__}: {exc}"\<close>.\<close>

definition error_text :: "aws_error \<Rightarrow> string" where
  "error_text err = (case err of
       ApiError name msg \<Rightarrow> name @ '': '' @ msg
     | BadAnswer k \<Rightarrow> ''KeyError: '' @ k
     | NotAwsRegion r \<Rightarrow> ''ValueError: '' @ r
     | BadTime t \<Rightarrow> ''ValueError: '' @ t
     | AllFailed es \<Rightarrow> ''RuntimeError: '' @ join_with ''; '' es)"

definition next_token :: "page \<Rightarrow> bool" where
  "next_token p \<longleftrightarrow> truthy (or_val (get_or p ''NextToken'' PNone) (get_or p ''nextToken'' PNone))"

text \<open>The loop of \<open>paginate\<close>: at most \<open>max_pages\<close> pages are asked for.\<close>

fun read_pages :: "nat \<Rightarrow> page list \<Rightarrow> page list \<Rightarrow> aws_error option \<Rightarrow> aws_error + page list \<times> bool" where
  "read_pages max_pages seen [] None = Inr (seen, False)"
| "read_pages max_pages seen [] (Some e) = Inl e"
| "read_pages max_pages seen (p # ps) err =
     (if length seen + 1 \<ge> max_pages then Inr (seen @ [p], next_token p)
      else read_pages max_pages (seen @ [p]) ps err)"

definition paginate :: "aws_api \<Rightarrow> nat \<Rightarrow> string \<Rightarrow> string \<Rightarrow> string \<Rightarrow> (string, pyval) dict \<Rightarrow> aws_error + page list \<times> bool" where
  "paginate A max_pages service region op params =
     (let (ps, err) = aa_pages A service region op params in read_pages max_pages [] ps err)"

text \<open>\<open>page.get(key, [])\<close> over all pages, as objects.\<close>

definition items_of :: "page \<Rightarrow> string \<Rightarrow> aws_error + page list" where
  "items_of p k =
     (case get_or p k (PList []) of
        PList xs \<Rightarrow> (case those (map as_dict xs) of None \<Rightarrow> Inl (BadAnswer k) | Some ds \<Rightarrow> Inr ds)
      | _ \<Rightarrow> Inl (BadAnswer k))"

definition page_items :: "page list \<Rightarrow> string \<Rightarrow> aws_error + page list" where
  "page_items ps k = and_then (traverse (\<lambda>p. items_of p k) ps) (\<lambda>xss. Inr (concat xss))"

definition str_item :: "page \<Rightarrow> string \<Rightarrow> aws_error + string" where
  "str_item d k = (case map_of d k of Some (PStr s) \<Rightarrow> Inr s | _ \<Rightarrow> Inl (BadAnswer k))"

section \<open>Regions\<close>

fun split_on :: "char \<Rightarrow> string \<Rightarrow> string \<Rightarrow> string list" where
  "split_on d w [] = [rev w]"
| "split_on d w (c # cs) = (if c = d then rev w # split_on d [] cs else split_on d (c # w) cs)"

definition lower_word :: "string \<Rightarrow> bool" where
  "lower_word s \<longleftrightarrow> s \<noteq> [] \<and> list_all lower_alpha s"

text \<open>
  \<open>AWS_REGION\<close>: two letters, an optional partition, a word and a number; \<open>$\<close> also matches
  before a final line feed.
\<close>

definition aws_region :: "string \<Rightarrow> bool" where
  "aws_region s =
     (let s = (if s \<noteq> [] \<and> last s = CHR 0x0A then butlast s else s);
          cc = (\<lambda>w. length w = 2 \<and> list_all lower_alpha w);
          num = (\<lambda>w. w \<noteq> [] \<and> list_all is_digit w)
      in case split_on CHR ''-'' [] s of
           [a, b, n] \<Rightarrow> cc a \<and> lower_word b \<and> num n
         | [a, p, b, n] \<Rightarrow> cc a \<and> (p = ''gov'' \<or> starts_with ''iso'' p \<and> list_all lower_alpha p) \<and> lower_word b \<and> num n
         | _ \<Rightarrow> False)"

record aws_plugin = plugin +
  ap_profile :: "string option"
  ap_region :: "string option"

text \<open>
  \<open>AwsPlugin.__init__\<close>: a configured region must be an AWS region; an empty one counts as not
  configured. A truthy value that is no text makes the match raise.
\<close>

definition fixed_region :: "string \<Rightarrow> (string, pyval) dict \<Rightarrow> string + string option" where
  "fixed_region name cfg =
     (case get_or cfg ''region'' PNone of
        PStr r \<Rightarrow> if r = [] then Inr None
                  else if aws_region r then Inr (Some r)
                  else Inl (''ConfigValidationError: sources.'' @ name @ ''.region '' @ r @ '' is not an AWS region'')
      | v \<Rightarrow> if truthy v then Inl ''TypeError'' else Inr None)"

definition region_for :: "aws_plugin \<Rightarrow> string \<Rightarrow> aws_error + string" where
  "region_for p region =
     (let r = (case ap_region p of None \<Rightarrow> region | Some s \<Rightarrow> s) in if aws_region r then Inr r else Inl (NotAwsRegion r))"

definition aws_health :: "bool \<Rightarrow> aws_plugin \<Rightarrow> (string, string) dict" where
  "aws_health has_boto3 p =
     (if \<not> has_boto3 then [(''status'', ''down''), (''error'', ''boto3 is not installed'')]
      else [(''status'', ''ok''), (''profile'', case ap_profile p of None \<Rightarrow> ''default chain'' | Some s \<Rightarrow> s),
            (''region'', case ap_region p of None \<Rightarrow> ''per query'' | Some s \<Rightarrow> s)])"

text \<open>\<open>self.coverage(status, truncated=..., error=...)\<close>.\<close>

definition aws_coverage :: "aws_plugin \<Rightarrow> cov_status \<Rightarrow> bool \<Rightarrow> string option \<Rightarrow> coverage" where
  "aws_coverage p st capped err =
     \<lparr>c_source = pl_name p, c_status = st, c_lag = None, c_truncated = capped, c_error = err, c_required = pl_required p\<rparr>"

section \<open>Transit Gateway routes\<close>

record tgw_config =
  tw_ids :: "string list"
  tw_states :: "string list"
  tw_max_routes :: nat
  tw_max_age :: int

text \<open>Texts of numbers and times: \<open>f"{age:.0f}"\<close> and \<open>isoformat\<close>.\<close>

record printers =
  pr_str :: "pyval \<Rightarrow> string"
  pr_age :: "int \<Rightarrow> string"
  pr_iso :: "time \<Rightarrow> string"

definition strings :: "string list \<Rightarrow> pyval" where
  "strings xs = PList (map PStr xs)"

definition route_signal :: "printers \<Rightarrow> string \<Rightarrow> string \<Rightarrow> time \<Rightarrow> time \<Rightarrow> page \<Rightarrow> string \<Rightarrow> page \<Rightarrow> aws_error + signal" where
  "route_signal F name region stamp observed tbl rtb route =
     (case or_val (get_or route ''DestinationCidrBlock'' PNone) (get_or route ''PrefixListId'' (PStr [])) of
        PStr cidr \<Rightarrow>
          and_then (items_of route ''TransitGatewayAttachments'') (\<lambda>atts.
          Inr \<lparr>s_type = State, s_timestamp = stamp, s_observed_at = observed,
               s_entity = \<lparr>e_type = ''tgw_route_table'', e_id = rtb, e_labels = [(''cidr'', cidr)]\<rparr>,
               s_name = ''tgw_route'', s_value = None, s_unit = None, s_severity = Info, s_domain = ''routing'', s_source = name,
               s_attributes = [(''state'', get_or route ''State'' PNone), (''destination_cidr'', PStr cidr),
                 (''route_type'', get_or route ''Type'' PNone),
                 (''attachments'', PList (map (\<lambda>a. get_or a ''TransitGatewayAttachmentId'' PNone) atts)),
                 (''transit_gateway'', get_or tbl ''TransitGatewayId'' PNone), (''api'', PStr ''SearchTransitGatewayRoutes''),
                 (''snapshot'', PBool True), (''region'', PStr region)],
               s_evidence_ref = Some (''tgw_routes:'' @ rtb @ ''/'' @ cidr @ ''@'' @ pr_iso F stamp)\<rparr>)
      | _ \<Rightarrow> Inl (BadAnswer ''DestinationCidrBlock''))"

definition table_step :: "printers \<Rightarrow> aws_api \<Rightarrow> aws_plugin \<Rightarrow> tgw_config \<Rightarrow> string \<Rightarrow> time \<Rightarrow> time \<Rightarrow> page
    \<Rightarrow> signal list \<times> bool \<Rightarrow> aws_error + signal list \<times> bool" where
  "table_step F A p c region stamp observed tbl = (\<lambda>(signals, capped).
     and_then (str_item tbl ''TransitGatewayRouteTableId'') (\<lambda>rtb.
     and_then (aa_call A ''ec2'' region ''search_transit_gateway_routes''
         [(''TransitGatewayRouteTableId'', PStr rtb),
          (''Filters'', PList [PDict [(''Name'', PStr ''state''), (''Values'', strings (tw_states c))]]),
          (''MaxResults'', PNum (real (tw_max_routes c)))]) (\<lambda>answer.
     and_then (items_of answer ''Routes'') (\<lambda>routes.
     and_then (traverse (route_signal F (pl_name p) region stamp observed tbl rtb) routes) (\<lambda>ss.
     Inr (signals @ ss, capped \<or> truthy (get_or answer ''AdditionalRoutesAvailable'' PNone)))))))"

definition tgw_fetch :: "printers \<Rightarrow> aws_api \<Rightarrow> aws_plugin \<Rightarrow> tgw_config \<Rightarrow> time \<Rightarrow> telemetry_query
    \<Rightarrow> aws_error + signal list \<times> coverage" where
  "tgw_fetch F A p c observed q =
     (let age = observed - q_end q
      in if age > seconds (tw_max_age c)
         then Inr ([], aws_coverage p CovPartial False (Some (''route snapshot skipped: window ended '' @ pr_age F age
                @ ''s ago (> snapshot_max_age_seconds='' @ int_str (tw_max_age c) @ '')'')))
         else and_then (region_for p (q_region q)) (\<lambda>region.
              and_then (paginate A 10 ''ec2'' region ''describe_transit_gateway_route_tables''
                  (if tw_ids c = [] then []
                   else [(''Filters'', PList [PDict [(''Name'', PStr ''transit-gateway-id''), (''Values'', strings (tw_ids c))]])])) (\<lambda>(pages, _).
              and_then (page_items pages ''TransitGatewayRouteTables'') (\<lambda>tables.
              and_then (fold_sum (table_step F A p c region (min observed (q_end q)) observed)
                  (filter (\<lambda>t. get_or t ''State'' PNone = PStr ''available'') tables) ([], False)) (\<lambda>(signals, capped).
              Inr (signals,
                (aws_coverage p (if capped then CovPartial else CovOk) capped
                   (if capped then Some (''route cap max_routes='' @ nat_str (tw_max_routes c) @ '' hit'') else None))
                \<lparr>c_lag := Some (max 0 (real_of_int age / 1000000))\<rparr>))))))"

section \<open>Facts\<close>

text \<open>Pagination asks for no page beyond the limit, and reports truncation only there.\<close>

lemma read_pages_Inr:
  assumes "read_pages n seen ps err = Inr (got, capped)" and "length seen < n"
  shows "got = seen @ take (n - length seen) ps"
    and "capped \<longrightarrow> length got = n \<and> next_token (last got)"
    and "\<not> capped \<longrightarrow> (length ps + length seen < n \<and> err = None \<and> got = seen @ ps) \<or> (length got = n \<and> \<not> next_token (last got))"
proof -
  have "got = seen @ take (n - length seen) ps
      \<and> (capped \<longrightarrow> length got = n \<and> next_token (last got))
      \<and> (\<not> capped \<longrightarrow> (length ps + length seen < n \<and> err = None \<and> got = seen @ ps) \<or> (length got = n \<and> \<not> next_token (last got)))"
    using assms
  proof (induction n seen ps err rule: read_pages.induct)
    case (3 n seen p ps err)
    have e: "n - length seen = Suc (n - Suc (length seen))" using 3 by simp
    show ?case using 3 by (auto simp: e split: if_splits)
  qed auto
  then show "got = seen @ take (n - length seen) ps"
    and "capped \<longrightarrow> length got = n \<and> next_token (last got)"
    and "\<not> capped \<longrightarrow> (length ps + length seen < n \<and> err = None \<and> got = seen @ ps) \<or> (length got = n \<and> \<not> next_token (last got))"
    by blast+
qed

lemma region_for_Inr: "region_for p region = Inr r \<Longrightarrow> aws_region r \<and> r = (case ap_region p of None \<Rightarrow> region | Some s \<Rightarrow> s)"
  by (auto simp: region_for_def Let_def split: if_splits)

text \<open>
  A snapshot is never passed off as an old window's routes: it is dropped with partial
  coverage, and every route signal is stamped at the query's end or at the read, if earlier.
\<close>

lemma tgw_old_window: "observed - q_end q > seconds (tw_max_age c) \<Longrightarrow> \<exists>cv. tgw_fetch F A p c observed q = Inr ([], cv) \<and> c_status cv = CovPartial"
  by (simp add: tgw_fetch_def aws_coverage_def)

lemma tgw_stamps:
  assumes "tgw_fetch F A p c observed q = Inr (ss, cv)" and "s \<in> set ss"
  shows "s_timestamp s = min observed (q_end q) \<and> s_name s = ''tgw_route'' \<and> observed - q_end q \<le> seconds (tw_max_age c)"
proof -
  have recent: "\<not> observed - q_end q > seconds (tw_max_age c)"
    using assms by (auto simp: tgw_fetch_def)
  obtain region pages m tables capped where
    fold: "fold_sum (table_step F A p c region (min observed (q_end q)) observed)
        (filter (\<lambda>t. get_or t ''State'' PNone = PStr ''available'') tables) ([], False) = Inr (ss, capped)"
    using assms(1) recent by (auto simp: tgw_fetch_def Let_def and_then_Inr)
  have one: "s_timestamp s = st \<and> s_name s = ''tgw_route''" if "route_signal F n r st ob t rtb ro = Inr s" for n r st ob t rtb ro s
    using that by (auto simp: route_signal_def and_then_Inr split: pyval.splits)
  have "\<forall>s\<in>set (fst (ss, capped)). s_timestamp s = min observed (q_end q) \<and> s_name s = ''tgw_route''"
  proof (rule fold_sum_invariant [OF fold, where P = "\<lambda>x. \<forall>s\<in>set (fst x). s_timestamp s = min observed (q_end q) \<and> s_name s = ''tgw_route''"])
    fix t x x' assume "\<forall>s\<in>set (fst x). s_timestamp s = min observed (q_end q) \<and> s_name s = ''tgw_route''"
      and "table_step F A p c region (min observed (q_end q)) observed t x = Inr x'"
    then obtain rtb routes ss' where old: "\<forall>s\<in>set (fst x). s_timestamp s = min observed (q_end q) \<and> s_name s = ''tgw_route''"
      and tr: "traverse (route_signal F (pl_name p) region (min observed (q_end q)) observed t rtb) routes = Inr ss'"
      and x': "fst x' = fst x @ ss'"
      by (cases x) (auto simp: table_step_def and_then_Inr)
    have "s_timestamp s = min observed (q_end q) \<and> s_name s = ''tgw_route''" if "s \<in> set ss'" for s
    proof -
      have "Inr s \<in> set (map (route_signal F (pl_name p) region (min observed (q_end q)) observed t rtb) routes)"
        using that traverse_Inr [OF tr] by simp
      then obtain ro where "Inr s = route_signal F (pl_name p) region (min observed (q_end q)) observed t rtb ro" by auto
      then show ?thesis by (rule one [OF sym])
    qed
    then show "\<forall>s\<in>set (fst x'). s_timestamp s = min observed (q_end q) \<and> s_name s = ''tgw_route''" using old x' by auto
  qed simp
  then show ?thesis using assms(2) recent by simp
qed

text \<open>Route tables beyond the tenth page are not read, and the coverage does not say so.\<close>

lemma tgw_tables_beyond_cap:
  assumes "aa_pages A ''ec2'' region ''describe_transit_gateway_route_tables'' [] = (ps, err)" and "length ps \<ge> 10"
  shows "\<exists>b. paginate A 10 ''ec2'' region ''describe_transit_gateway_route_tables'' [] = Inr (take 10 ps, b)"
proof -
  have "\<exists>b. read_pages n seen ps err = Inr (seen @ take (n - length seen) ps, b)"
    if "length seen < n" "n \<le> length seen + length ps" for n seen and ps :: "page list"
    using that
  proof (induction n seen ps err rule: read_pages.induct)
    case (3 n seen p ps err)
    have e: "n - length seen = Suc (n - Suc (length seen))" using 3 by simp
    show ?case using 3 by (auto simp: e)
  qed auto
  from this [of "[]" 10 ps] assms show ?thesis by (simp add: paginate_def)
qed

end
