(* ===== verification/AwsLogs.thy ===== *)
theory AwsLogs
  imports AwsBase "HOL-Library.Multiset"
begin

text \<open>
  CloudWatch Logs (\<open>plugins/aws/logs.py\<close>): log lines are parsed, named by the first classify
  rule that matches, and emitted as events or as counts per minute; the lines no rule keeps can
  be passed on under a neutral name. Regular expressions, JSON and ISO texts are parameters.
\<close>

section \<open>Configuration\<close>

text \<open>A match: its named groups (\<open>None\<close> for one that took no part) and the matched text.\<close>

record regex_match =
  rm_groups :: "(string, string option) dict"
  rm_text :: string

record entity_spec =
  es_type :: string
  es_field :: string
  es_pattern :: "string option"

record classify_rule =
  cl_name :: string
  cl_severity :: severity
  cl_field :: string
  cl_equals :: "string option"
  cl_pattern :: "string option"
  cl_entity :: "entity_spec option"

record unmatched_spec =
  un_name :: string
  un_severity :: severity
  un_entity :: "entity_spec option"
  un_max_events :: nat

datatype log_format = TextLines | JsonLines | FieldLines

record log_query =
  lq_id :: string
  lq_group :: string
  lq_domain :: string
  lq_optional :: bool
  lq_filter :: string
  lq_format :: log_format
  lq_fields :: "string list"
  lq_time_field :: "string option"
  lq_entity :: entity_spec
  lq_classify :: "classify_rule list"
  lq_count_per_minute :: bool
  lq_attributes :: "(string, string) dict"
  lq_unmatched :: "unmatched_spec option"

record logs_config =
  lc_deny :: "string list"
  lc_max_events :: nat
  lc_queries :: "log_query list"

datatype logs_config_error =
    NoTest string
  | NoFields string
  | UnmatchedCounted string
  | NoClassify string
  | NoQueries
  | BadCap string
  | DeniedGroup string string
  | NotServed string string
  | BadPattern string

text \<open>The validators of the configuration models, in the order pydantic runs them.\<close>

definition check_query :: "log_query \<Rightarrow> logs_config_error + unit" where
  "check_query q =
     (if lq_classify q = [] then Inl (NoClassify (lq_id q))
      else case List.find (\<lambda>r. cl_equals r = None \<and> cl_pattern r = None) (lq_classify q) of
             Some r \<Rightarrow> Inl (NoTest (cl_name r))
           | None \<Rightarrow>
               if (case lq_unmatched q of None \<Rightarrow> False | Some u \<Rightarrow> un_max_events u = 0) then Inl (BadCap (lq_id q))
               else if lq_format q = FieldLines \<and> lq_fields q = [] then Inl (NoFields (lq_id q))
               else if lq_unmatched q \<noteq> None \<and> lq_count_per_minute q then Inl (UnmatchedCounted (lq_id q))
               else Inr ())"

definition denied :: "string \<Rightarrow> string list \<Rightarrow> bool" where
  "denied grp deny =
     list_ex (\<lambda>d. grp = d \<or> (d \<noteq> [] \<and> last d = CHR ''*'' \<and> starts_with (butlast d) grp)) deny"

definition LOG_DOMAINS :: "string list" where "LOG_DOMAINS = [''logs'', ''routing'']"

definition check_group :: "logs_config \<Rightarrow> log_query \<Rightarrow> logs_config_error + unit" where
  "check_group c q =
     (if denied (lq_group q) (lc_deny c) then Inl (DeniedGroup (lq_id q) (lq_group q))
      else if lq_domain q \<notin> set LOG_DOMAINS then Inl (NotServed (lq_id q) (lq_domain q)) else Inr ())"

text \<open>The compiled patterns: one per query id and rule position; empty patterns are left out.\<close>

type_synonym pattern_table = "(string \<times> nat, string) dict"

definition pattern_entries :: "logs_config \<Rightarrow> ((string \<times> nat) \<times> string) list" where
  "pattern_entries c =
     concat (map (\<lambda>q. List.map_filter (\<lambda>(i, r). case cl_pattern r of
         None \<Rightarrow> None | Some p \<Rightarrow> if p = [] then None else Some ((lq_id q, i), p)) (enumerate 0 (lq_classify q))) (lc_queries c))"

record logs_plugin = aws_plugin +
  lp_config :: logs_config
  lp_patterns :: pattern_table

definition start_logs :: "(string \<Rightarrow> bool) \<Rightarrow> aws_plugin \<Rightarrow> logs_config \<Rightarrow> logs_config_error + logs_plugin" where
  "start_logs rx_ok p c =
     (if lc_queries c = [] then Inl NoQueries
      else if lc_max_events c = 0 then Inl (BadCap ''max_events'')
      else and_then (traverse check_query (lc_queries c)) (\<lambda>_.
           and_then (traverse (check_group c) (lc_queries c)) (\<lambda>_.
           case List.find (\<lambda>(k, pat). \<not> rx_ok pat) (pattern_entries c) of
             Some (k, pat) \<Rightarrow> Inl (BadPattern pat)
           | None \<Rightarrow> Inr \<lparr>pl_name = pl_name p, pl_domains = pl_domains p, pl_required = pl_required p, pl_timeout = pl_timeout p,
               ap_profile = ap_profile p, ap_region = ap_region p, lp_config = c,
               lp_patterns = dict_merge [] (pattern_entries c)\<rparr>)))"

section \<open>One line\<close>

text \<open>An event of FilterLogEvents; every field is optional, the timestamp is in milliseconds.\<close>

record log_event =
  le_id :: "string option"
  le_stream :: "string option"
  le_message :: "string option"
  le_timestamp :: "int option"

definition text_or_empty :: "string option \<Rightarrow> string" where
  "text_or_empty x = (case x of None \<Rightarrow> [] | Some s \<Rightarrow> s)"

record logs_env =
  lv_str :: "pyval \<Rightarrow> string"
  lv_search :: "string \<Rightarrow> string \<Rightarrow> regex_match option"
  lv_json :: "string \<Rightarrow> pyval option"
  lv_parse :: "string \<Rightarrow> time option"
  lv_iso :: "time \<Rightarrow> string"

type_synonym log_record = "(string, pyval) dict"

definition all_digits :: "string \<Rightarrow> bool" where
  "all_digits s \<longleftrightarrow> s \<noteq> [] \<and> list_all is_digit s"

fun walk_path :: "pyval \<Rightarrow> string list \<Rightarrow> pyval" where
  "walk_path v [] = v"
| "walk_path (PDict d) (p # ps) = walk_path (get_or d p PNone) ps"
| "walk_path (PList xs) (p # ps) = (if all_digits p \<and> digits_val p < length xs then walk_path (xs ! digits_val p) ps else PNone)"
| "walk_path v (p # ps) = PNone"

definition get_field :: "log_record \<Rightarrow> string \<Rightarrow> pyval" where
  "get_field rec path =
     (case map_of rec path of Some v \<Rightarrow> v | None \<Rightarrow> walk_path (PDict rec) (split_on CHR ''.'' [] path))"

definition parse_line :: "logs_env \<Rightarrow> log_query \<Rightarrow> log_event \<Rightarrow> log_record option" where
  "parse_line V q e =
     (let msg = text_or_empty (le_message e);
          rec = [(''@message'', PStr msg), (''@stream'', PStr (text_or_empty (le_stream e)))]
      in case lq_format q of
           JsonLines \<Rightarrow> (case lv_json V msg of
               None \<Rightarrow> None
             | Some (PDict d) \<Rightarrow> Some (dict_merge rec d)
             | Some _ \<Rightarrow> Some rec)
         | FieldLines \<Rightarrow> Some (dict_merge rec (zip (lq_fields q) (map PStr (split_ws [] msg))))
         | TextLines \<Rightarrow> Some rec)"

text \<open>
  \<open>datetime.fromtimestamp\<close>: the nearest microsecond; a time outside the years 1 to 9999 raises.
\<close>

definition of_seconds :: "real \<Rightarrow> aws_error + time" where
  "of_seconds x =
     (if x < - 62135596800 \<or> 253402300800 \<le> x then Inl (BadTime ''year is out of range'')
      else Inr (round_half_even (x * 1000000)))"

definition epoch_time :: "real \<Rightarrow> aws_error + time" where
  "epoch_time x = of_seconds (if x > 1000000000000 then x / 1000 else x)"

definition event_time :: "log_event \<Rightarrow> aws_error + time" where
  "event_time e = (case le_timestamp e of None \<Rightarrow> Inl (BadAnswer ''timestamp'') | Some ms \<Rightarrow> of_seconds (real_of_int ms / 1000))"

definition replace_zulu :: "string \<Rightarrow> string" where
  "replace_zulu s = concat (map (\<lambda>c. if c = CHR ''Z'' then ''+00:00'' else [c]) s)"

definition line_time :: "logs_env \<Rightarrow> log_query \<Rightarrow> log_record \<Rightarrow> log_event \<Rightarrow> aws_error + time" where
  "line_time V q rec e =
     (case (case lq_time_field q of None \<Rightarrow> PNone | Some f \<Rightarrow> if f = [] then PNone else get_field rec f) of
        PNum x \<Rightarrow> epoch_time x
      | PBool b \<Rightarrow> epoch_time (if b then 1 else 0)
      | PStr s \<Rightarrow> if all_digits s then epoch_time (real (digits_val s))
                  else if s = [] then event_time e
                  else (case lv_parse V (replace_zulu s) of Some t \<Rightarrow> Inr t | None \<Rightarrow> event_time e)
      | _ \<Rightarrow> event_time e)"

definition field_text :: "(pyval \<Rightarrow> string) \<Rightarrow> log_record \<Rightarrow> string \<Rightarrow> string" where
  "field_text F rec f = (case get_field rec f of PNone \<Rightarrow> [] | v \<Rightarrow> py_str F v)"

definition id_group :: "regex_match \<Rightarrow> string option" where
  "id_group m = (case map_of (rm_groups m) ''id'' of Some (Some s) \<Rightarrow> if s = [] then None else Some s | _ \<Rightarrow> None)"

definition entity_id :: "logs_env \<Rightarrow> entity_spec \<Rightarrow> log_record \<Rightarrow> regex_match option \<Rightarrow> string" where
  "entity_id V spec rec m =
     (case Option.bind m id_group of
        Some s \<Rightarrow> s
      | None \<Rightarrow>
          let value = field_text (lv_str V) rec (es_field spec)
          in case es_pattern spec of
               None \<Rightarrow> value
             | Some pat \<Rightarrow>
                 if pat = [] then value
                 else (case lv_search V pat value of
                         None \<Rightarrow> value
                       | Some m2 \<Rightarrow> (case id_group m2 of Some s \<Rightarrow> s | None \<Rightarrow> rm_text m2)))"

text \<open>
  \<open>_classify\<close>: the first rule whose tests pass, with its match. A rule with an empty pattern
  has no compiled one, and looking it up raises.
\<close>

fun classify :: "logs_env \<Rightarrow> pattern_table \<Rightarrow> string \<Rightarrow> log_record \<Rightarrow> nat \<Rightarrow> classify_rule list
    \<Rightarrow> aws_error + (classify_rule \<times> regex_match option) option" where
  "classify V tab qid rec i [] = Inr None"
| "classify V tab qid rec i (r # rs) =
     (let value = field_text (lv_str V) rec (cl_field r)
      in if cl_equals r \<noteq> None \<and> cl_equals r \<noteq> Some value then classify V tab qid rec (Suc i) rs
         else case cl_pattern r of
                None \<Rightarrow> Inr (Some (r, None))
              | Some _ \<Rightarrow>
                  (case map_of tab (qid, i) of
                     None \<Rightarrow> Inl (BadAnswer ''pattern'')
                   | Some pat \<Rightarrow>
                       (case lv_search V pat value of
                          None \<Rightarrow> classify V tab qid rec (Suc i) rs
                        | Some m \<Rightarrow> Inr (Some (r, Some m)))))"

section \<open>One query\<close>

definition line_attributes :: "log_query \<Rightarrow> string \<Rightarrow> (pyval \<Rightarrow> string) \<Rightarrow> log_record \<Rightarrow> (string, pyval) dict" where
  "line_attributes q region F rec =
     dict_merge (List.map_filter (\<lambda>(k, f). case get_field rec f of PNone \<Rightarrow> None | v \<Rightarrow> Some (k, v)) (lq_attributes q))
       [(''log_group'', PStr (lq_group q)),
        (''message'', PStr (take 500 (py_str F (get_or rec ''@message'' PNone)))),
        (''region'', PStr region)]"

definition line_ref :: "log_query \<Rightarrow> log_event \<Rightarrow> string" where
  "line_ref q e = ''cloudwatch_logs:'' @ lq_group q @ ''/'' @ text_or_empty (le_stream e) @ ''/'' @ text_or_empty (le_id e)"

definition log_signal :: "string \<Rightarrow> log_query \<Rightarrow> time \<Rightarrow> time \<Rightarrow> entity \<Rightarrow> string \<Rightarrow> severity \<Rightarrow> (string, pyval) dict \<Rightarrow> string \<Rightarrow> signal" where
  "log_signal source q ts observed ent name sev attrs ref =
     \<lparr>s_type = Event, s_timestamp = ts, s_observed_at = observed, s_entity = ent, s_name = name, s_value = None, s_unit = None,
      s_severity = sev, s_domain = lq_domain q, s_source = source, s_attributes = attrs, s_evidence_ref = Some ref\<rparr>"

definition plain_entity :: "entity_spec \<Rightarrow> string \<Rightarrow> entity" where
  "plain_entity spec i = \<lparr>e_type = es_type spec, e_id = i, e_labels = []\<rparr>"

text \<open>\<open>ts.replace(second=0, microsecond=0)\<close>.\<close>

definition minute_of :: "time \<Rightarrow> time" where
  "minute_of t = t - t mod minutes 1"

type_synonym count_key = "string \<times> string \<times> string \<times> time"

record run_state =
  rs_signals :: "signal list"
  rs_kept :: "string list"
  rs_counts :: "(count_key, signal \<times> nat) dict"

definition count_signal :: "string \<Rightarrow> logs_env \<Rightarrow> log_query \<Rightarrow> time \<Rightarrow> entity \<Rightarrow> classify_rule \<Rightarrow> time \<Rightarrow> (string, pyval) dict \<Rightarrow> signal" where
  "count_signal source V q observed ent r minute attrs =
     (log_signal source q minute observed ent (cl_name r) (cl_severity r)
        (AList.update ''sample'' (get_or attrs ''message'' PNone) (AList.delete ''message'' attrs))
        (''cloudwatch_logs:'' @ lq_group q @ ''/'' @ cl_name r @ ''/'' @ e_id ent @ ''@'' @ lv_iso V minute))
     \<lparr>s_type := Metric, s_unit := Some ''Count''\<rparr>"

definition add_count :: "count_key \<Rightarrow> signal \<Rightarrow> (count_key, signal \<times> nat) dict \<Rightarrow> (count_key, signal \<times> nat) dict" where
  "add_count k s counts =
     (case map_of counts k of None \<Rightarrow> AList.update k (s, 1) counts | Some (old, n) \<Rightarrow> AList.update k (old, n + 1) counts)"

text \<open>One event of the classified read.\<close>

definition run_event :: "logs_env \<Rightarrow> logs_plugin \<Rightarrow> log_query \<Rightarrow> string \<Rightarrow> time \<Rightarrow> log_event \<Rightarrow> run_state \<Rightarrow> aws_error + run_state" where
  "run_event V p q region observed e st =
     (case parse_line V q e of
        None \<Rightarrow> Inr st
      | Some rec \<Rightarrow>
          and_then (classify V (lp_patterns p) (lq_id q) rec 0 (lq_classify q)) (\<lambda>found. case found of
              None \<Rightarrow> Inr st
            | Some (r, m) \<Rightarrow>
                let spec = (case cl_entity r of None \<Rightarrow> lq_entity q | Some x \<Rightarrow> x);
                    ent = plain_entity spec (entity_id V spec rec m);
                    st1 = st\<lparr>rs_kept := rs_kept st @ [text_or_empty (le_id e)]\<rparr>
                in and_then (line_time V q rec e) (\<lambda>ts.
                   let attrs = line_attributes q region (lv_str V) rec
                   in if lq_count_per_minute q
                      then Inr (st1\<lparr>rs_counts := add_count (cl_name r, e_type ent, e_id ent, minute_of ts)
                                (count_signal (pl_name p) V q observed ent r (minute_of ts) attrs) (rs_counts st1)\<rparr>)
                      else Inr (st1\<lparr>rs_signals := rs_signals st1 @
                                [log_signal (pl_name p) q ts observed ent (cl_name r) (cl_severity r) attrs (line_ref q e)]\<rparr>))))"

definition counted :: "signal \<times> nat \<Rightarrow> signal" where
  "counted x = (fst x)\<lparr>s_value := Some (real (snd x))\<rparr>"

text \<open>\<open>_unmatched\<close>: the lines whose event id the classified read did not keep, up to the cap.\<close>

definition unmatched_signal :: "logs_env \<Rightarrow> logs_plugin \<Rightarrow> log_query \<Rightarrow> unmatched_spec \<Rightarrow> string \<Rightarrow> time \<Rightarrow> log_event \<Rightarrow> aws_error + signal" where
  "unmatched_signal V p q u region observed e =
     (let rec = (case parse_line V q e of
            Some r \<Rightarrow> r
          | None \<Rightarrow> [(''@message'', PStr (text_or_empty (le_message e))), (''@stream'', PStr (text_or_empty (le_stream e)))]);
          spec = (case un_entity u of
            None \<Rightarrow> lq_entity q
          | Some x \<Rightarrow>
              (case es_pattern x of
                 None \<Rightarrow> x
               | Some pat \<Rightarrow> if pat = [] \<or> lv_search V pat (field_text (lv_str V) rec (es_field x)) \<noteq> None then x else lq_entity q))
      in and_then (line_time V q rec e) (\<lambda>ts.
         Inr (log_signal (pl_name p) q ts observed (plain_entity spec (entity_id V spec rec None)) (un_name u) (un_severity u)
           (line_attributes q region (lv_str V) rec) (line_ref q e))))"

fun pass_unmatched :: "logs_env \<Rightarrow> logs_plugin \<Rightarrow> log_query \<Rightarrow> unmatched_spec \<Rightarrow> string \<Rightarrow> time \<Rightarrow> string list \<Rightarrow> signal list
    \<Rightarrow> log_event list \<Rightarrow> aws_error + signal list" where
  "pass_unmatched V p q u region observed kept out [] = Inr out"
| "pass_unmatched V p q u region observed kept out (e # es) =
     (if text_or_empty (le_id e) \<in> set kept then pass_unmatched V p q u region observed kept out es
      else (case unmatched_signal V p q u region observed e of
              Inl err \<Rightarrow> Inl err
            | Inr s \<Rightarrow>
                if un_max_events u \<le> length out + 1 then Inr (out @ [s])
                else pass_unmatched V p q u region observed kept (out @ [s]) es))"

text \<open>
  \<open>_read\<close>: FilterLogEvents over the window in milliseconds, at most 100 pages; the events and
  whether pages were left.
\<close>

type_synonym log_reader = "log_query \<Rightarrow> telemetry_query \<Rightarrow> string \<Rightarrow> bool \<Rightarrow> aws_error + log_event list \<times> bool"

definition opt_str :: "page \<Rightarrow> string \<Rightarrow> string option" where
  "opt_str d k = (case map_of d k of Some (PStr s) \<Rightarrow> Some s | _ \<Rightarrow> None)"

definition event_of :: "page \<Rightarrow> log_event" where
  "event_of d = \<lparr>le_id = opt_str d ''eventId'', le_stream = opt_str d ''logStreamName'', le_message = opt_str d ''message'',
     le_timestamp = (case map_of d ''timestamp'' of Some (PNum x) \<Rightarrow> Some \<lfloor>x\<rfloor> | _ \<Rightarrow> None)\<rparr>"

definition read_params :: "log_query \<Rightarrow> telemetry_query \<Rightarrow> bool \<Rightarrow> (string, pyval) dict" where
  "read_params q tq filtered =
     [(''logGroupName'', PStr (lq_group q)), (''startTime'', PNum (real_of_int (q_start tq div 1000))),
      (''endTime'', PNum (real_of_int (q_end tq div 1000)))] @
     (if filtered \<and> lq_filter q \<noteq> [] then [(''filterPattern'', PStr (lq_filter q))] else [])"

definition read_events :: "aws_api \<Rightarrow> log_reader" where
  "read_events A q tq region filtered =
     and_then (paginate A 100 ''logs'' region ''filter_log_events'' (read_params q tq filtered)) (\<lambda>(pages, pages_left).
     and_then (page_items pages ''events'') (\<lambda>es. Inr (map event_of es, pages_left)))"

definition run_query :: "logs_env \<Rightarrow> log_reader \<Rightarrow> logs_plugin \<Rightarrow> time \<Rightarrow> telemetry_query \<Rightarrow> string \<Rightarrow> log_query
    \<Rightarrow> aws_error + signal list \<times> bool" where
  "run_query V read p observed tq region q =
     and_then (read q tq region True) (\<lambda>(all_events, pages_left).
     let cap = lc_max_events (lp_config p);
         events = take cap all_events
     in and_then (fold_sum (run_event V p q region observed) events \<lparr>rs_signals = [], rs_kept = [], rs_counts = []\<rparr>) (\<lambda>st.
        let signals = rs_signals st @ map counted (vals (rs_counts st)); capped = (pages_left \<or> cap < length all_events)
        in case lq_unmatched q of
             None \<Rightarrow> Inr (signals, capped)
           | Some u \<Rightarrow>
               and_then (if lq_filter q = [] then Inr events else and_then (read q tq region False) (\<lambda>(es, _). Inr es)) (\<lambda>es.
               and_then (pass_unmatched V p q u region observed (rs_kept st) [] es) (\<lambda>out.
               Inr (signals @ out, capped)))))"

section \<open>The fetch\<close>

definition missing_group :: "aws_error \<Rightarrow> bool" where
  "missing_group err = (case err of ApiError name msg \<Rightarrow> name = ''ResourceNotFoundException'' | _ \<Rightarrow> False)"

record logs_sum =
  ls_signals :: "signal list"
  ls_errors :: "string list"
  ls_capped :: bool

definition collect_query :: "log_query \<times> (aws_error + signal list \<times> bool) \<Rightarrow> logs_sum \<Rightarrow> logs_sum" where
  "collect_query x a =
     (case snd x of
        Inl err \<Rightarrow> if lq_optional (fst x) \<and> missing_group err then a
                   else a\<lparr>ls_errors := ls_errors a @ [lq_id (fst x) @ '': '' @ error_text err]\<rparr>
      | Inr (ss, capped) \<Rightarrow> a\<lparr>ls_signals := ls_signals a @ ss, ls_capped := ls_capped a \<or> capped\<rparr>)"

definition logs_fetch :: "logs_env \<Rightarrow> aws_api \<Rightarrow> logs_plugin \<Rightarrow> time \<Rightarrow> telemetry_query \<Rightarrow> string
    \<Rightarrow> aws_error + signal list \<times> coverage" where
  "logs_fetch V A p observed tq domain =
     and_then (region_for (aws_plugin.truncate p) (q_region tq)) (\<lambda>region.
     let queries = filter (\<lambda>q. lq_domain q = domain) (lc_queries (lp_config p));
         a = fold collect_query (map (\<lambda>q. (q, run_query V (read_events A) p observed tq region q)) queries)
               \<lparr>ls_signals = [], ls_errors = [], ls_capped = False\<rparr>
     in if queries \<noteq> [] \<and> length (ls_errors a) = length queries then Inl (AllFailed (ls_errors a))
        else let problems = ls_errors a @
                   (if ls_capped a then [''event cap max_events='' @ nat_str (lc_max_events (lp_config p)) @ '' hit''] else [])
             in Inr (sort_key s_timestamp (ls_signals a),
                  aws_coverage (aws_plugin.truncate p) (if problems \<noteq> [] then CovPartial else CovOk) (ls_capped a)
                    (if problems = [] then None else Some (join_with ''; '' problems))))"

section \<open>Facts\<close>

definition classified :: "logs_env \<Rightarrow> logs_plugin \<Rightarrow> log_query \<Rightarrow> log_event \<Rightarrow> bool" where
  "classified V p q e =
     (case parse_line V q e of
        None \<Rightarrow> False
      | Some rec \<Rightarrow> (case classify V (lp_patterns p) (lq_id q) rec 0 (lq_classify q) of Inr (Some _) \<Rightarrow> True | _ \<Rightarrow> False))"

definition count_key_of :: "signal \<Rightarrow> count_key" where
  "count_key_of s = (s_name s, e_type (s_entity s), e_id (s_entity s), s_timestamp s)"

definition counts_ok :: "(count_key, signal \<times> nat) dict \<Rightarrow> bool" where
  "counts_ok counts = (distinct (keys counts) \<and> (\<forall>(k, s, n) \<in> set counts. count_key_of s = k))"

definition total_count :: "(count_key, signal \<times> nat) dict \<Rightarrow> nat" where
  "total_count counts = sum_list (map (snd \<circ> snd) counts)"

lemma update_sum:
  "distinct (keys d) \<Longrightarrow> map_of d k = Some v \<Longrightarrow>
    sum_list (map (f \<circ> snd) (AList.update k w d)) + f v = sum_list (map (f \<circ> snd) d) + (f w :: nat)"
  by (induction d) (auto simp: keys_def split: if_splits)

lemma update_new: "map_of d k = None \<Longrightarrow> AList.update k v d = d @ [(k, v)]"
  by (induction d) (auto split: if_splits)

lemma add_count_total:
  assumes "counts_ok counts"
  shows "total_count (add_count k s counts) = Suc (total_count counts)"
proof (cases "map_of counts k")
  case None
  then show ?thesis by (simp add: add_count_def total_count_def update_new)
next
  case (Some v)
  obtain old n where v: "v = (old, n)" by (cases v)
  have "distinct (keys counts)" using assms by (simp add: counts_ok_def)
  from update_sum [OF this Some, of snd "(old, n + 1)"] show ?thesis
    using Some v by (simp add: add_count_def total_count_def)
qed

lemma set_update: "set (AList.update k v d) \<subseteq> insert (k, v) (set d)"
  by (induction d) auto

lemma add_count_ok:
  assumes "counts_ok counts" and "count_key_of s = k"
  shows "counts_ok (add_count k s counts)"
proof -
  have dist: "distinct (keys (AList.update k v counts))" for v
    using assms(1) by (simp add: counts_ok_def keys_def distinct_update)
  have upd: "counts_ok (AList.update k (s', n) counts)" if "count_key_of s' = k" for s' n
    using set_update [of k "(s', n)" counts] assms(1) that dist by (fastforce simp: counts_ok_def)
  show ?thesis
  proof (cases "map_of counts k")
    case None
    then show ?thesis using upd [OF assms(2)] by (simp add: add_count_def)
  next
    case (Some v)
    obtain old n where v: "v = (old, n)" by (cases v)
    have "count_key_of old = k" using map_of_SomeD [OF Some] assms(1) by (auto simp: counts_ok_def v)
    then show ?thesis using upd Some by (simp add: add_count_def v)
  qed
qed

lemma run_event_step:
  assumes "run_event V p q region observed e st = Inr st'"
  shows "if classified V p q e
    then rs_kept st' = rs_kept st @ [text_or_empty (le_id e)]
      \<and> (if lq_count_per_minute q
         then rs_signals st' = rs_signals st \<and> (\<exists>s. s_domain s = lq_domain q \<and> rs_counts st' = add_count (count_key_of s) s (rs_counts st))
         else rs_counts st' = rs_counts st
           \<and> (\<exists>s. s_domain s = lq_domain q \<and> s_evidence_ref s = Some (line_ref q e) \<and> rs_signals st' = rs_signals st @ [s]))
    else st' = st"
proof (cases "parse_line V q e")
  case None
  then show ?thesis using assms by (simp add: run_event_def classified_def)
next
  case (Some rec)
  obtain found where f: "classify V (lp_patterns p) (lq_id q) rec 0 (lq_classify q) = Inr found"
    using assms Some by (auto simp: run_event_def and_then_Inr)
  show ?thesis
  proof (cases found)
    case None
    then show ?thesis using assms Some f by (simp add: run_event_def classified_def)
  next
    case (Some rm)
    obtain r m where rm: "rm = (r, m)" by (cases rm)
    have cl: "classified V p q e" using \<open>parse_line V q e = Some rec\<close> f Some by (simp add: classified_def)
    note facts = \<open>parse_line V q e = Some rec\<close> f Some rm
    obtain ts where ts: "line_time V q rec e = Inr ts"
      using assms facts by (cases "line_time V q rec e") (simp_all add: run_event_def Let_def)
    show ?thesis
    proof (cases "lq_count_per_minute q")
      case True
      define spec where "spec = (case cl_entity r of None \<Rightarrow> lq_entity q | Some x \<Rightarrow> x)"
      define ent where "ent = plain_entity spec (entity_id V spec rec m)"
      have st': "st' = st\<lparr>rs_kept := rs_kept st @ [text_or_empty (le_id e)],
          rs_counts := add_count (cl_name r, e_type ent, e_id ent, minute_of ts)
            (count_signal (pl_name p) V q observed ent r (minute_of ts) (line_attributes q region (lv_str V) rec)) (rs_counts st)\<rparr>"
        using assms facts ts True by (simp add: run_event_def Let_def spec_def ent_def)
      have "count_key_of (count_signal (pl_name p) V q observed ent r (minute_of ts) attrs)
          = (cl_name r, e_type ent, e_id ent, minute_of ts)" for attrs
        by (simp add: count_key_of_def count_signal_def log_signal_def)
      then have "\<exists>s. s_domain s = lq_domain q \<and> rs_counts st' = add_count (count_key_of s) s (rs_counts st)"
        using st' by (intro exI [of _ "count_signal (pl_name p) V q observed ent r (minute_of ts) (line_attributes q region (lv_str V) rec)"])
          (simp add: count_signal_def log_signal_def)
      then show ?thesis using cl True st' by simp
    next
      case False
      then show ?thesis using assms facts ts cl by (auto simp: run_event_def Let_def log_signal_def)
    qed
  qed
qed

lemma run_events:
  assumes "fold_sum (run_event V p q region observed) es st = Inr st'" and "counts_ok (rs_counts st)"
  shows "rs_kept st' = rs_kept st @ map (text_or_empty \<circ> le_id) (filter (classified V p q) es)"
    and "lq_count_per_minute q \<Longrightarrow> rs_signals st' = rs_signals st
      \<and> total_count (rs_counts st') = total_count (rs_counts st) + length (filter (classified V p q) es)
      \<and> counts_ok (rs_counts st')"
    and "\<not> lq_count_per_minute q \<Longrightarrow> rs_counts st' = rs_counts st
      \<and> map s_evidence_ref (rs_signals st') = map s_evidence_ref (rs_signals st) @ map (Some \<circ> line_ref q) (filter (classified V p q) es)"
proof -
  have "rs_kept st' = rs_kept st @ map (text_or_empty \<circ> le_id) (filter (classified V p q) es)
    \<and> (if lq_count_per_minute q
       then rs_signals st' = rs_signals st
        \<and> total_count (rs_counts st') = total_count (rs_counts st) + length (filter (classified V p q) es)
        \<and> counts_ok (rs_counts st')
       else rs_counts st' = rs_counts st
        \<and> map s_evidence_ref (rs_signals st')
          = map s_evidence_ref (rs_signals st) @ map (Some \<circ> line_ref q) (filter (classified V p q) es))"
    using assms
  proof (induction es arbitrary: st)
    case (Cons e es)
    obtain s1 where 1: "run_event V p q region observed e st = Inr s1"
      and 2: "fold_sum (run_event V p q region observed) es s1 = Inr st'"
      using Cons.prems(1) by (auto split: sum.splits)
    note step = run_event_step [OF 1]
    have ok: "counts_ok (rs_counts s1)"
      using step Cons.prems(2) by (auto simp: add_count_ok split: if_splits)
    have tot: "total_count (rs_counts s1) = total_count (rs_counts st) + (if classified V p q e then 1 else 0)" if "lq_count_per_minute q"
      using step that by (auto simp: add_count_total [OF Cons.prems(2)] split: if_splits)
    show ?case using Cons.IH [OF 2 ok] step tot by (auto split: if_splits)
  qed auto
  then show "rs_kept st' = rs_kept st @ map (text_or_empty \<circ> le_id) (filter (classified V p q) es)"
    and "lq_count_per_minute q \<Longrightarrow> rs_signals st' = rs_signals st
      \<and> total_count (rs_counts st') = total_count (rs_counts st) + length (filter (classified V p q) es)
      \<and> counts_ok (rs_counts st')"
    and "\<not> lq_count_per_minute q \<Longrightarrow> rs_counts st' = rs_counts st
      \<and> map s_evidence_ref (rs_signals st') = map s_evidence_ref (rs_signals st) @ map (Some \<circ> line_ref q) (filter (classified V p q) es)"
    by simp_all
qed

lemma unmatched_ref: "unmatched_signal V p q u region observed e = Inr s \<Longrightarrow> s_evidence_ref s = Some (line_ref q e)"
  by (auto simp: unmatched_signal_def Let_def and_then_Inr log_signal_def)

lemma pass_unmatched_refs:
  assumes "pass_unmatched V p q u region observed kept out es = Inr out'" and "length out < un_max_events u"
  shows "map s_evidence_ref out' = map s_evidence_ref out
    @ take (un_max_events u - length out) (map (Some \<circ> line_ref q) (filter (\<lambda>e. text_or_empty (le_id e) \<notin> set kept) es))"
  using assms
proof (induction es arbitrary: out)
  case (Cons e es)
  show ?case
  proof (cases "text_or_empty (le_id e) \<in> set kept")
    case True
    then show ?thesis using Cons by simp
  next
    case False
    obtain s where s: "unmatched_signal V p q u region observed e = Inr s"
      using Cons.prems(1) False by (auto split: sum.splits)
    note ref = unmatched_ref [OF s]
    have d: "un_max_events u - length out = Suc (un_max_events u - Suc (length out))" using Cons.prems(2) by simp
    show ?thesis
    proof (cases "un_max_events u \<le> length out + 1")
      case True
      then have "un_max_events u - Suc (length out) = 0" by simp
      moreover have "out' = out @ [s]" using Cons.prems(1) False s True by simp
      ultimately show ?thesis using False ref by (simp add: d)
    next
      case no: False
      have "pass_unmatched V p q u region observed kept (out @ [s]) es = Inr out'"
        using Cons.prems(1) False s no by simp
      from Cons.IH [OF this] show ?thesis using no False ref by (simp add: d)
    qed
  qed
qed simp

lemma start_logs_Inr:
  assumes "start_logs rx_ok base c = Inr p" and "q \<in> set (lc_queries (lp_config p))"
  shows "\<not> denied (lq_group q) (lc_deny c)" and "lq_domain q \<in> set LOG_DOMAINS"
    and "lq_unmatched q = Some u \<Longrightarrow> 1 \<le> un_max_events u \<and> \<not> lq_count_per_minute q"
proof -
  have run: "traverse check_query (lc_queries c) \<noteq> Inl e" "traverse (check_group c) (lc_queries c) \<noteq> Inl e" for e
    using assms(1) by (auto simp: start_logs_def and_then_Inr split: if_splits)
  then obtain xs ys where xs: "traverse check_query (lc_queries c) = Inr xs" and ys: "traverse (check_group c) (lc_queries c) = Inr ys"
    by (meson old.sum.exhaust)
  have c: "lp_config p = c" using assms(1)
    by (auto simp: start_logs_def and_then_Inr split: if_splits option.splits)
  have q: "q \<in> set (lc_queries c)" using assms(2) c by simp
  have "check_query q \<in> set (map Inr xs)" "check_group c q \<in> set (map Inr ys)"
    using q traverse_Inr [OF xs] traverse_Inr [OF ys] by (metis image_eqI set_map)+
  then obtain x y where g: "check_query q = Inr x" "check_group c q = Inr y" by auto
  show "\<not> denied (lq_group q) (lc_deny c)" "lq_domain q \<in> set LOG_DOMAINS"
    using g(2) by (auto simp: check_group_def split: if_splits)
  show "lq_unmatched q = Some u \<Longrightarrow> 1 \<le> un_max_events u \<and> \<not> lq_count_per_minute q"
    using g(1) by (auto simp: check_query_def Suc_le_eq split: if_splits option.splits)
qed

text \<open>Every signal of a query carries the query's domain.\<close>

definition in_domain :: "string \<Rightarrow> run_state \<Rightarrow> bool" where
  "in_domain d st = ((\<forall>s\<in>set (rs_signals st). s_domain s = d) \<and> (\<forall>(k, s, n)\<in>set (rs_counts st). s_domain s = d))"

lemma add_count_in_domain:
  assumes "\<forall>(k, s, n)\<in>set counts. s_domain s = d" and "s_domain s' = d"
  shows "\<forall>(k, s, n)\<in>set (add_count k' s' counts). s_domain s = d"
proof (cases "map_of counts k'")
  case None
  then show ?thesis using assms by (auto simp: add_count_def update_new)
next
  case (Some v)
  obtain old n where v: "v = (old, n)" by (cases v)
  have "s_domain old = d" using map_of_SomeD [OF Some] assms(1) by (auto simp: v)
  then show ?thesis using assms(1) set_update [of k' "(old, n + 1)" counts] Some
    by (fastforce simp: add_count_def v)
qed

lemma run_event_domain:
  assumes "run_event V p q region observed e st = Inr st'" and "in_domain (lq_domain q) st"
  shows "in_domain (lq_domain q) st'"
proof (cases "classified V p q e \<and> lq_count_per_minute q")
  case True
  then obtain s where "s_domain s = lq_domain q" "rs_counts st' = add_count (count_key_of s) s (rs_counts st)"
      "rs_signals st' = rs_signals st"
    using run_event_step [OF assms(1)] by auto
  then show ?thesis using assms(2) add_count_in_domain [of "rs_counts st" "lq_domain q" s]
    unfolding in_domain_def by simp
next
  case False
  then show ?thesis using run_event_step [OF assms(1)] assms(2)
    by (auto simp: in_domain_def split: if_splits)
qed

lemma pass_unmatched_domain:
  "pass_unmatched V p q u region observed kept out es = Inr out' \<Longrightarrow> \<forall>s\<in>set out. s_domain s = lq_domain q
    \<Longrightarrow> \<forall>s\<in>set out'. s_domain s = lq_domain q"
proof (induction es arbitrary: out)
  case (Cons e es)
  show ?case
  proof (cases "text_or_empty (le_id e) \<in> set kept")
    case True
    then show ?thesis using Cons by simp
  next
    case False
    obtain s where s: "unmatched_signal V p q u region observed e = Inr s"
      using Cons.prems(1) False by (cases "unmatched_signal V p q u region observed e") simp_all
    have "s_domain s = lq_domain q" using s by (auto simp: unmatched_signal_def Let_def and_then_Inr log_signal_def)
    then have out: "\<forall>s\<in>set (out @ [s]). s_domain s = lq_domain q" using Cons.prems(2) by simp
    show ?thesis
    proof (cases "un_max_events u \<le> length out + 1")
      case True
      then have "out' = out @ [s]" using Cons.prems(1) False s by simp
      then show ?thesis using out by simp
    next
      case no: False
      have "pass_unmatched V p q u region observed kept (out @ [s]) es = Inr out'" using Cons.prems(1) False s no by simp
      from Cons.IH [OF this out] show ?thesis .
    qed
  qed
qed simp

lemma run_query_Inr:
  assumes "run_query V read p observed tq region q = Inr (ss, capped)"
  obtains all_events pages_left st where
    "read q tq region True = Inr (all_events, pages_left)"
    and "fold_sum (run_event V p q region observed) (take (lc_max_events (lp_config p)) all_events)
        \<lparr>rs_signals = [], rs_kept = [], rs_counts = []\<rparr> = Inr st"
    and "capped = (pages_left \<or> lc_max_events (lp_config p) < length all_events)"
    and "case lq_unmatched q of
        None \<Rightarrow> ss = rs_signals st @ map counted (vals (rs_counts st))
      | Some u \<Rightarrow> \<exists>es out. (if lq_filter q = [] then es = take (lc_max_events (lp_config p)) all_events
            else \<exists>m. read q tq region False = Inr (es, m))
          \<and> pass_unmatched V p q u region observed (rs_kept st) [] es = Inr out
          \<and> ss = rs_signals st @ map counted (vals (rs_counts st)) @ out"
proof -
  obtain all_events pages_left where r: "read q tq region True = Inr (all_events, pages_left)"
    using assms by (cases "read q tq region True") (auto simp: run_query_def)
  obtain st where st: "fold_sum (run_event V p q region observed) (take (lc_max_events (lp_config p)) all_events)
      \<lparr>rs_signals = [], rs_kept = [], rs_counts = []\<rparr> = Inr st"
    using assms r
    by (cases "fold_sum (run_event V p q region observed) (take (lc_max_events (lp_config p)) all_events)
      \<lparr>rs_signals = [], rs_kept = [], rs_counts = []\<rparr>") (simp_all add: run_query_def Let_def)
  show ?thesis
    by (rule that [OF r st]; use assms r st in \<open>simp add: run_query_def Let_def\<close>)
      (auto simp: and_then_Inr split: option.splits if_splits)
qed

lemma run_query_domain:
  assumes "run_query V read p observed tq region q = Inr (ss, capped)"
  shows "\<forall>s\<in>set ss. s_domain s = lq_domain q"
  using assms
proof (rule run_query_Inr)
  fix all_events pages_left st
  assume fold: "fold_sum (run_event V p q region observed) (take (lc_max_events (lp_config p)) all_events)
        \<lparr>rs_signals = [], rs_kept = [], rs_counts = []\<rparr> = Inr st"
    and res: "case lq_unmatched q of
        None \<Rightarrow> ss = rs_signals st @ map counted (vals (rs_counts st))
      | Some u \<Rightarrow> \<exists>es out. (if lq_filter q = [] then es = take (lc_max_events (lp_config p)) all_events
            else \<exists>m. read q tq region False = Inr (es, m))
          \<and> pass_unmatched V p q u region observed (rs_kept st) [] es = Inr out
          \<and> ss = rs_signals st @ map counted (vals (rs_counts st)) @ out"
  have "in_domain (lq_domain q) st"
    by (rule fold_sum_invariant [OF fold, where P = "in_domain (lq_domain q)"])
      (simp add: in_domain_def, rule run_event_domain, assumption+)
  then have old: "\<forall>s \<in> set (rs_signals st @ map counted (vals (rs_counts st))). s_domain s = lq_domain q"
    by (auto simp: in_domain_def vals_def counted_def)
  show ?thesis
  proof (cases "lq_unmatched q")
    case None
    then show ?thesis using res old by simp
  next
    case (Some u)
    then obtain es out where *: "pass_unmatched V p q u region observed (rs_kept st) [] es = Inr out"
      "ss = rs_signals st @ map counted (vals (rs_counts st)) @ out" using res by auto
    have "\<forall>s\<in>set out. s_domain s = lq_domain q" by (rule pass_unmatched_domain [OF *(1)]) simp
    then show ?thesis using old by (auto simp: *(2))
  qed
qed

text \<open>The loop over the results of the queries.\<close>

definition query_ok :: "log_query \<times> (aws_error + signal list \<times> bool) \<Rightarrow> bool" where
  "query_ok x = (case snd x of Inr _ \<Rightarrow> True | Inl err \<Rightarrow> lq_optional (fst x) \<and> missing_group err)"

definition query_signals :: "log_query \<times> (aws_error + signal list \<times> bool) \<Rightarrow> signal list" where
  "query_signals x = (case snd x of Inr (ss, _) \<Rightarrow> ss | Inl _ \<Rightarrow> [])"

definition query_capped :: "log_query \<times> (aws_error + signal list \<times> bool) \<Rightarrow> bool" where
  "query_capped x = (case snd x of Inr (_, capped) \<Rightarrow> capped | Inl _ \<Rightarrow> False)"

lemma collect_queries:
  "ls_signals (fold collect_query xs a) = ls_signals a @ concat (map query_signals xs)"
  "length (ls_errors (fold collect_query xs a)) = length (ls_errors a) + length (filter (Not \<circ> query_ok) xs)"
  "ls_capped (fold collect_query xs a) \<longleftrightarrow> ls_capped a \<or> list_ex query_capped xs"
  by (induction xs arbitrary: a)
    (auto simp: collect_query_def query_signals_def query_ok_def query_capped_def split: sum.splits if_splits)

lemma counted_values: "sum_list (map (the \<circ> s_value) (map counted (vals counts))) = real (total_count counts)"
  by (induction counts) (auto simp: vals_def counted_def total_count_def)

lemma counted_keys: "counts_ok counts \<Longrightarrow> map count_key_of (map counted (vals counts)) = keys counts"
  by (auto simp: counts_ok_def vals_def keys_def counted_def count_key_of_def)

lemma filter_not_kept:
  assumes "distinct (map f es)"
  shows "filter (\<lambda>e. f e \<notin> set (map f (filter P es))) es = filter (\<lambda>e. \<not> P e) es"
proof (rule filter_cong)
  fix e assume e: "e \<in> set es"
  have "f e \<in> f ` {x \<in> set es. P x} \<longleftrightarrow> P e"
  proof
    assume "f e \<in> f ` {x \<in> set es. P x}"
    then obtain x where x: "x \<in> set es" "P x" "f x = f e" by auto
    then have "x = e" using assms e by (auto simp: distinct_map inj_on_def)
    then show "P e" using x by simp
  qed (use e in auto)
  then show "(f e \<notin> set (map f (filter P es))) = (\<not> P e)" by simp
qed simp

text \<open>A timestamp field in microseconds makes the whole query unreadable.\<close>

lemma microseconds_raise: "epoch_time 1700000000000000 = Inl (BadTime ''year is out of range'')"
  by (simp add: epoch_time_def of_seconds_def)

text \<open>An empty pattern passes the validator and raises on the first line it is tried on.\<close>

lemma empty_pattern_raises:
  assumes "lq_classify q = [r]" and "cl_pattern r = Some []" and "cl_equals r = None"
    and "lq_unmatched q = None" and "lq_format q = TextLines"
    and "start_logs rx_ok base \<lparr>lc_deny = [], lc_max_events = n, lc_queries = [q]\<rparr> = Inr p"
  shows "check_query q = Inr () \<and> run_event V p q region observed e st = Inl (BadAnswer ''pattern'')"
proof -
  have none: "pattern_entries \<lparr>lc_deny = [], lc_max_events = n, lc_queries = [q]\<rparr> = []"
    using assms(1,2) by (simp add: pattern_entries_def List.map_filter_def)
  have "lp_patterns p = []" using assms(6) none
    by (auto simp: start_logs_def and_then_Inr dict_merge_def split: if_splits)
  then show ?thesis using assms by (simp add: check_query_def run_event_def parse_line_def Let_def)
qed

section \<open>Properties\<close>

text \<open>
  C17: no log line is lost or counted twice. A query reads at most the configured number of
  lines and says so when there were more. Counted per minute, the values of its metrics add up
  to the number of lines a classify rule kept, with one metric for each name, entity and
  minute. Emitted as events, there is one event per kept line, in order; with a pass-through
  and no filter these are followed by the other lines, each once, up to the pass-through's cap.
\<close>

theorem log_lines_accounted:
  assumes "start_logs rx_ok base c = Inr p" and "q \<in> set (lc_queries (lp_config p))"
    and "run_query V read p observed tq region q = Inr (ss, capped)"
    and "read q tq region True = Inr (lines, pages_left)" and "used = take (lc_max_events (lp_config p)) lines"
  shows "(capped \<longleftrightarrow> pages_left \<or> used \<noteq> lines)
    \<and> (lq_count_per_minute q \<longrightarrow>
        sum_list (map (the \<circ> s_value) ss) = real (length (filter (classified V p q) used)) \<and> distinct (map count_key_of ss))
    \<and> (\<not> lq_count_per_minute q \<and> lq_unmatched q = None \<longrightarrow>
        map s_evidence_ref ss = map (Some \<circ> line_ref q) (filter (classified V p q) used))
    \<and> (\<forall>u. lq_unmatched q = Some u \<and> lq_filter q = [] \<and> distinct (map (text_or_empty \<circ> le_id) used) \<longrightarrow>
        map s_evidence_ref ss = map (Some \<circ> line_ref q)
          (filter (classified V p q) used @ take (un_max_events u) (filter (\<lambda>e. \<not> classified V p q e) used)))"
  using assms(3)
proof (rule run_query_Inr)
  fix all_events m st
  assume r: "read q tq region True = Inr (all_events, m)"
    and fold: "fold_sum (run_event V p q region observed) (take (lc_max_events (lp_config p)) all_events)
        \<lparr>rs_signals = [], rs_kept = [], rs_counts = []\<rparr> = Inr st"
    and cp: "capped = (m \<or> lc_max_events (lp_config p) < length all_events)"
    and res: "case lq_unmatched q of
        None \<Rightarrow> ss = rs_signals st @ map counted (vals (rs_counts st))
      | Some u \<Rightarrow> \<exists>es out. (if lq_filter q = [] then es = take (lc_max_events (lp_config p)) all_events
            else \<exists>m. read q tq region False = Inr (es, m))
          \<and> pass_unmatched V p q u region observed (rs_kept st) [] es = Inr out
          \<and> ss = rs_signals st @ map counted (vals (rs_counts st)) @ out"
  have eq: "all_events = lines" "m = pages_left" using r assms(4) by simp_all
  have fold': "fold_sum (run_event V p q region observed) used \<lparr>rs_signals = [], rs_kept = [], rs_counts = []\<rparr> = Inr st"
    using fold by (simp add: assms(5) eq)
  note run = run_events [OF fold', simplified counts_ok_def keys_def, simplified]
  note checked = start_logs_Inr [OF assms(1,2)]
  have "(capped \<longleftrightarrow> pages_left \<or> used \<noteq> lines)"
    unfolding cp eq assms(5) by (simp add: not_le)
  moreover have "sum_list (map (the \<circ> s_value) ss) = real (length (filter (classified V p q) used)) \<and> distinct (map count_key_of ss)"
    if count: "lq_count_per_minute q"
  proof -
    have "lq_unmatched q = None" using checked(3) count by (cases "lq_unmatched q") auto
    then have ss: "ss = map counted (vals (rs_counts st))" using res run(2) [OF count] by simp
    have ok: "counts_ok (rs_counts st)" using run(2) [OF count] by (simp add: counts_ok_def keys_def)
    have "total_count (rs_counts st) = length (filter (classified V p q) used)"
      using run(2) [OF count] by (simp add: total_count_def)
    moreover have "distinct (keys (rs_counts st))" using ok by (simp add: counts_ok_def)
    ultimately show ?thesis unfolding ss counted_values counted_keys [OF ok] by simp
  qed
  moreover have "map s_evidence_ref ss = map (Some \<circ> line_ref q) (filter (classified V p q) used)"
    if "\<not> lq_count_per_minute q \<and> lq_unmatched q = None"
    using res run(3) that by (simp add: vals_def)
  moreover have "map s_evidence_ref ss = map (Some \<circ> line_ref q)
      (filter (classified V p q) used @ take (un_max_events u) (filter (\<lambda>e. \<not> classified V p q e) used))"
    if u: "lq_unmatched q = Some u \<and> lq_filter q = [] \<and> distinct (map (text_or_empty \<circ> le_id) used)" for u
  proof -
    obtain out where out: "pass_unmatched V p q u region observed (rs_kept st) [] used = Inr out"
      and ss: "ss = rs_signals st @ map counted (vals (rs_counts st)) @ out"
      using res u by (auto simp: eq assms(5))
    have count: "\<not> lq_count_per_minute q" and pos: "1 \<le> un_max_events u" using checked(3) u by blast+
    have "map s_evidence_ref out = take (un_max_events u)
        (map (Some \<circ> line_ref q) (filter (\<lambda>e. text_or_empty (le_id e) \<notin> set (rs_kept st)) used))"
      using pass_unmatched_refs [OF out] pos by simp
    also have "filter (\<lambda>e. text_or_empty (le_id e) \<notin> set (rs_kept st)) used = filter (\<lambda>e. \<not> classified V p q e) used"
      unfolding run(1) using filter_not_kept [of "text_or_empty \<circ> le_id" used "classified V p q"] u by simp
    finally show ?thesis using run(3) [OF count] by (simp add: ss vals_def take_map)
  qed
  ultimately show ?thesis by blast
qed

text \<open>
  the coverage of a logs read is honest. A fetch that answers holds, in time order, exactly
  the signals of the queries of the asked domain that were read, all of that domain and none
  from a denied group; it is complete iff every query was read whole or is optional with its
  log group missing; and it does not answer when every query failed.
\<close>

lemma logs_fetch_accounts:
  assumes "start_logs rx_ok base c = Inr p"
    and "logs_fetch V A p observed tq domain = Inr (ss, cov)"
    and "region_for (aws_plugin.truncate p) (q_region tq) = Inr region"
    and "runs = map (\<lambda>q. (q, run_query V (read_events A) p observed tq region q))
      (filter (\<lambda>q. lq_domain q = domain) (lc_queries (lp_config p)))"
  shows "ss = sort_key s_timestamp (concat (map query_signals runs))
    \<and> (\<forall>s\<in>set ss. s_domain s = domain)
    \<and> (c_status cov = CovOk \<longleftrightarrow> (\<forall>x\<in>set runs. query_ok x \<and> \<not> query_capped x))
    \<and> (runs \<noteq> [] \<longrightarrow> (\<exists>x\<in>set runs. query_ok x))
    \<and> (\<forall>(q, res)\<in>set runs. \<not> denied (lq_group q) (lc_deny c))"
proof -
  define a where "a = fold collect_query runs \<lparr>ls_signals = [], ls_errors = [], ls_capped = False\<rparr>"
  have sums: "ls_signals a = concat (map query_signals runs)" "length (ls_errors a) = length (filter (Not \<circ> query_ok) runs)"
      "ls_capped a \<longleftrightarrow> list_ex query_capped runs"
    by (simp_all add: a_def collect_queries)
  have len: "length runs = length (filter (\<lambda>q. lq_domain q = domain) (lc_queries (lp_config p)))" by (simp add: assms(4))
  have "\<not> (filter (\<lambda>q. lq_domain q = domain) (lc_queries (lp_config p)) \<noteq> [] \<and> length (ls_errors a) = length runs)"
    and ss: "ss = sort_key s_timestamp (ls_signals a)"
    and st: "c_status cov = CovOk \<longleftrightarrow> ls_errors a = [] \<and> \<not> ls_capped a"
    using assms(2) unfolding logs_fetch_def assms(3) and_then_simps Let_def assms(4) [symmetric] a_def [symmetric] len [symmetric]
    by (auto simp: aws_coverage_def split: if_splits)
  then have some: "runs \<noteq> [] \<Longrightarrow> length (ls_errors a) \<noteq> length runs" using len by auto
  have "ls_errors a = [] \<longleftrightarrow> (\<forall>x\<in>set runs. query_ok x)"
    using sums(2) by (auto simp: filter_empty_conv)
  then have "c_status cov = CovOk \<longleftrightarrow> (\<forall>x\<in>set runs. query_ok x \<and> \<not> query_capped x)"
    using st sums(3) by (auto simp: list_ex_iff)
  moreover have "\<exists>x\<in>set runs. query_ok x" if "runs \<noteq> []"
  proof (rule ccontr)
    assume "\<not> (\<exists>x\<in>set runs. query_ok x)"
    then have "filter (Not \<circ> query_ok) runs = runs" by (simp add: filter_id_conv)
    then show False using some [OF that] sums(2) by simp
  qed
  moreover have "s_domain s = domain" if "s \<in> set ss" for s
  proof -
    note mem = that
    obtain q where q: "lq_domain q = domain" "s \<in> set (query_signals (q, run_query V (read_events A) p observed tq region q))"
      using mem by (auto simp: ss sums(1) assms(4))
    then obtain xs b where "run_query V (read_events A) p observed tq region q = Inr (xs, b)" "s \<in> set xs"
      by (cases "run_query V (read_events A) p observed tq region q") (auto simp: query_signals_def)
    then show ?thesis using run_query_domain q(1) by blast
  qed
  moreover have "\<forall>(q, res)\<in>set runs. \<not> denied (lq_group q) (lc_deny c)"
    using start_logs_Inr(1) [OF assms(1)] by (auto simp: assms(4))
  moreover have "ss = sort_key s_timestamp (concat (map query_signals runs))" using ss sums(1) by simp
  ultimately show ?thesis by (intro conjI impI ballI) (assumption | blast)+
qed

text \<open>Two queries of a router log: one emits events and passes on what no rule names, one counts.\<close>

definition ex_env :: logs_env where
  "ex_env = \<lparr>lv_str = \<lambda>_. [], lv_search = \<lambda>pat s. if contains_str pat s then Some \<lparr>rm_groups = [], rm_text = pat\<rparr> else None,
     lv_json = \<lambda>_. None, lv_parse = \<lambda>_. None, lv_iso = \<lambda>_. ''t''\<rparr>"

definition ex_rule :: classify_rule where
  "ex_rule = \<lparr>cl_name = ''bgp_neighbor_down'', cl_severity = Error, cl_field = ''@message'', cl_equals = None,
     cl_pattern = Some ''Down'', cl_entity = None\<rparr>"

definition ex_query :: "string \<Rightarrow> bool \<Rightarrow> log_query" where
  "ex_query i per_minute = \<lparr>lq_id = i, lq_group = ''/lab/router/frr'', lq_domain = ''logs'', lq_optional = False, lq_filter = [],
     lq_format = TextLines, lq_fields = [], lq_time_field = None,
     lq_entity = \<lparr>es_type = ''bgp_neighbor'', es_field = ''@stream'', es_pattern = None\<rparr>, lq_classify = [ex_rule],
     lq_count_per_minute = per_minute, lq_attributes = [],
     lq_unmatched = (if per_minute then None else Some \<lparr>un_name = ''frr_unmatched'', un_severity = Info, un_entity = None, un_max_events = 5\<rparr>)\<rparr>"

definition ex_config :: logs_config where
  "ex_config = \<lparr>lc_deny = [''/lab/faults*''], lc_max_events = 10, lc_queries = [ex_query ''frr'' False, ex_query ''frr-count'' True]\<rparr>"

definition ex_plugin :: aws_plugin where
  "ex_plugin = \<lparr>pl_name = ''cloudwatch_logs'', pl_domains = [''logs'', ''routing''], pl_required = True, pl_timeout = 10,
     ap_profile = None, ap_region = Some ''eu-west-1''\<rparr>"

definition ex_logs :: logs_plugin where
  "ex_logs = (case start_logs (\<lambda>_. True) ex_plugin ex_config of Inr p \<Rightarrow> p
     | Inl _ \<Rightarrow> aws_plugin.extend ex_plugin (logs_plugin.fields ex_config []))"

lemma ex_start: "start_logs (\<lambda>_. True) ex_plugin ex_config = Inr ex_logs"
proof -
  have "(case start_logs (\<lambda>_. True) ex_plugin ex_config of Inl _ \<Rightarrow> False | Inr _ \<Rightarrow> True)" by code_simp
  then show ?thesis by (auto simp: ex_logs_def split: sum.splits)
qed

definition ex_page :: page where
  "ex_page = [(''events'', PList [
     PDict [(''eventId'', PStr ''1''), (''logStreamName'', PStr ''r1''), (''message'', PStr ''neighbor Down''), (''timestamp'', PNum 1000)],
     PDict [(''eventId'', PStr ''2''), (''logStreamName'', PStr ''r1''), (''message'', PStr ''keepalive''), (''timestamp'', PNum 2000)],
     PDict [(''eventId'', PStr ''3''), (''logStreamName'', PStr ''r1''), (''message'', PStr ''peer Down''), (''timestamp'', PNum 3000)]])]"

definition ex_api :: aws_api where
  "ex_api = \<lparr>aa_pages = \<lambda>_ _ _ _. ([ex_page], None), aa_call = \<lambda>_ _ _ _. Inl (BadAnswer ''none'')\<rparr>"

definition ex_tq :: telemetry_query where
  "ex_tq = \<lparr>q_region = ''eu-west-1'', q_start = 0, q_end = 9000000, q_filters = None, q_include_baseline = False, q_scenario = None, q_anchor = None\<rparr>"

definition ex_lines :: "log_event list" where
  "ex_lines = map (\<lambda>(i, m, t). \<lparr>le_id = Some i, le_stream = Some ''r1'', le_message = Some m, le_timestamp = Some t\<rparr>)
     [(''1'', ''neighbor Down'', 1000), (''2'', ''keepalive'', 2000), (''3'', ''peer Down'', 3000)]"

lemma ex_read: "read_events ex_api q tq r b = Inr (ex_lines, False)"
  by (simp add: read_events_def paginate_def ex_api_def page_items_def items_of_def ex_page_def get_or_def as_dict_def
      event_of_def opt_str_def ex_lines_def next_token_def or_val_def)

theorem log_lines_accounted_witness:
  "case run_query ex_env (read_events ex_api) ex_logs 0 ex_tq ''eu-west-1'' (ex_query ''frr'' False) of
     Inl _ \<Rightarrow> False
   | Inr (ss, capped) \<Rightarrow> \<not> capped
      \<and> map s_evidence_ref ss = map (Some \<circ> line_ref (ex_query ''frr'' False)) [ex_lines ! 0, ex_lines ! 2, ex_lines ! 1]"
proof -
  let ?q = "ex_query ''frr'' False"
  have "(case run_query ex_env (read_events ex_api) ex_logs 0 ex_tq ''eu-west-1'' ?q of Inl _ \<Rightarrow> False | Inr _ \<Rightarrow> True)"
    by code_simp
  then obtain ss capped where run: "run_query ex_env (read_events ex_api) ex_logs 0 ex_tq ''eu-west-1'' ?q = Inr (ss, capped)"
    by (cases "run_query ex_env (read_events ex_api) ex_logs 0 ex_tq ''eu-west-1'' ?q") auto
  have cfg: "lp_config ex_logs = ex_config" by code_simp
  have mem: "?q \<in> set (lc_queries (lp_config ex_logs))" by (simp add: cfg ex_config_def)
  have used: "ex_lines = take (lc_max_events (lp_config ex_logs)) ex_lines" by (simp add: cfg ex_config_def ex_lines_def)
  have dist: "lq_unmatched ?q = Some \<lparr>un_name = ''frr_unmatched'', un_severity = Info, un_entity = None, un_max_events = 5\<rparr>
      \<and> lq_filter ?q = [] \<and> distinct (map (text_or_empty \<circ> le_id) ex_lines)"
    by code_simp
  have parts: "filter (classified ex_env ex_logs ?q) ex_lines = [ex_lines ! 0, ex_lines ! 2]"
      "take 5 (filter (\<lambda>e. \<not> classified ex_env ex_logs ?q e) ex_lines) = [ex_lines ! 1]"
    by code_simp+
  note all = log_lines_accounted [OF ex_start mem run ex_read used]
  have "\<not> capped" using conjunct1 [OF all] by simp
  moreover have "map s_evidence_ref ss = map (Some \<circ> line_ref ?q) [ex_lines ! 0, ex_lines ! 2, ex_lines ! 1]"
    using conjunct2 [OF conjunct2 [OF conjunct2 [OF all]], rule_format, OF dist] by (simp add: parts)
  ultimately show ?thesis by (simp add: run)
qed

end
