(* ===== verification/AwsTrail.thy ===== *)
theory AwsTrail
  imports AwsBase "HOL-Library.Multiset"
begin

text \<open>
  CloudTrail management events (\<open>plugins/aws/cloudtrail.py\<close>): which events become
  configuration signals and on which entity, and the cache that shares one LookupEvents read
  among concurrent queries of the same window. JSON text is a parameter; a JSON number counts
  as an integer when its value is integral.
\<close>

section \<open>The entity of an event\<close>

definition ENTITY_KEYS :: "(string \<times> string) list" where
  "ENTITY_KEYS =
     [(''transitGatewayRouteTableId'', ''tgw_route_table''), (''transitGatewayAttachmentId'', ''tgw_attachment''),
      (''vpnConnectionId'', ''vpn_connection''), (''groupId'', ''security_group''), (''networkAclId'', ''network_acl''),
      (''routeTableId'', ''route_table''), (''vpcPeeringConnectionId'', ''vpc_peering''), (''natGatewayId'', ''nat_gateway''),
      (''networkInterfaceId'', ''eni''), (''instanceId'', ''instance''), (''hostedZoneId'', ''hosted_zone''),
      (''targetGroupArn'', ''target_group''), (''loadBalancerArn'', ''load_balancer''),
      (''transitGatewayId'', ''transit_gateway''), (''vpcId'', ''vpc'')]"

definition RESOURCE_TYPES :: "(string, string) dict" where
  "RESOURCE_TYPES =
     [(''AWS::EC2::SecurityGroup'', ''security_group''), (''AWS::EC2::NetworkAcl'', ''network_acl''),
      (''AWS::EC2::RouteTable'', ''route_table''), (''AWS::EC2::TransitGatewayRouteTable'', ''tgw_route_table''),
      (''AWS::EC2::TransitGatewayAttachment'', ''tgw_attachment''), (''AWS::EC2::VPNConnection'', ''vpn_connection''),
      (''AWS::EC2::Instance'', ''instance''), (''AWS::EC2::VPC'', ''vpc''), (''AWS::Route53::HostedZone'', ''hosted_zone'')]"

text \<open>\<open>isinstance(v, (str, int))\<close>; a boolean is an integer.\<close>

definition str_or_int :: "pyval \<Rightarrow> bool" where
  "str_or_int v = (case v of PStr _ \<Rightarrow> True | PBool _ \<Rightarrow> True | PNum x \<Rightarrow> x = of_int \<lfloor>x\<rfloor> | _ \<Rightarrow> False)"

definition direct_key :: "(pyval \<Rightarrow> string) \<Rightarrow> string \<Rightarrow> (string, pyval) dict \<Rightarrow> string option" where
  "direct_key F key d = map_option (\<lambda>(k, v). py_str F v) (List.find (\<lambda>(k, v). lower k = lower key \<and> str_or_int v) d)"

text \<open>
  \<open>_find_key\<close>: a key of this object first, then the values one by one; an empty text found
  below counts as not found.
\<close>

function (sequential) find_key :: "(pyval \<Rightarrow> string) \<Rightarrow> string \<Rightarrow> pyval \<Rightarrow> string option"
  and find_values :: "(pyval \<Rightarrow> string) \<Rightarrow> string \<Rightarrow> (string \<times> pyval) list \<Rightarrow> string option"
  and find_items :: "(pyval \<Rightarrow> string) \<Rightarrow> string \<Rightarrow> pyval list \<Rightarrow> string option" where
  "find_key F key (PDict d) = (case direct_key F key d of Some s \<Rightarrow> Some s | None \<Rightarrow> find_values F key d)"
| "find_key F key (PList xs) = find_items F key xs"
| "find_key F key v = None"
| "find_values F key [] = None"
| "find_values F key ((k, v) # d) = (case find_key F key v of Some (c # cs) \<Rightarrow> Some (c # cs) | _ \<Rightarrow> find_values F key d)"
| "find_items F key [] = None"
| "find_items F key (v # vs) = (case find_key F key v of Some (c # cs) \<Rightarrow> Some (c # cs) | _ \<Rightarrow> find_items F key vs)"
  by pat_completeness auto
termination
  by (relation "measure (\<lambda>x. case x of Inl (F, k, v) \<Rightarrow> size v
      | Inr (Inl (F, k, d)) \<Rightarrow> size_list (\<lambda>p. Suc (size (snd p))) d | Inr (Inr (F, k, xs)) \<Rightarrow> size_list size xs)")
    (auto simp: size_list_conv_sum_list size_prod_simp comp_def)

text \<open>\<open>found.rsplit("/", 1)[-1]\<close>.\<close>

definition after_last_slash :: "string \<Rightarrow> string" where
  "after_last_slash s = rev (takeWhile (\<lambda>c. c \<noteq> CHR ''/'') (rev s))"

fun request_entity :: "(pyval \<Rightarrow> string) \<Rightarrow> pyval \<Rightarrow> (string \<times> string) list \<Rightarrow> (string \<times> string) option" where
  "request_entity F request [] = None"
| "request_entity F request ((key, kind) # ks) =
     (case find_key F key request of
        Some (c # cs) \<Rightarrow> Some (kind, if kind = ''hosted_zone'' then after_last_slash (c # cs) else c # cs)
      | _ \<Rightarrow> request_entity F request ks)"

text \<open>The first resource of a known type with a name; a name that is no text raises.\<close>

fun resource_entity :: "page list \<Rightarrow> aws_error + (string \<times> string) option" where
  "resource_entity [] = Inr None"
| "resource_entity (r # rs) =
     (case get_or r ''ResourceType'' (PStr []) of
        PStr t \<Rightarrow>
          (case map_of RESOURCE_TYPES t of
             None \<Rightarrow> resource_entity rs
           | Some kind \<Rightarrow>
               let name = get_or r ''ResourceName'' PNone
               in if truthy name then (case name of PStr n \<Rightarrow> Inr (Some (kind, n)) | _ \<Rightarrow> Inl (BadAnswer ''ResourceName''))
                  else resource_entity rs)
      | _ \<Rightarrow> resource_entity rs)"

definition trail_entity :: "(pyval \<Rightarrow> string) \<Rightarrow> pyval \<Rightarrow> page list \<Rightarrow> string \<Rightarrow> aws_error + entity" where
  "trail_entity F request resources event_source =
     (case request_entity F request ENTITY_KEYS of
        Some (kind, i) \<Rightarrow> Inr \<lparr>e_type = kind, e_id = i, e_labels = []\<rparr>
      | None \<Rightarrow>
          and_then (resource_entity resources) (\<lambda>x. case x of
              Some (kind, i) \<Rightarrow> Inr \<lparr>e_type = kind, e_id = i, e_labels = []\<rparr>
            | None \<Rightarrow> Inr \<lparr>e_type = ''aws_service'', e_id = event_source, e_labels = []\<rparr>))"

section \<open>Events to signals\<close>

record trail_env =
  tv_str :: "pyval \<Rightarrow> string"
  tv_json :: "string \<Rightarrow> pyval option"
  tv_dumps :: "pyval \<Rightarrow> string"

record trail_config =
  tc_sources :: "string list"
  tc_read_only :: bool
  tc_max_events :: nat

definition DEFAULT_EVENT_SOURCES :: "string list" where
  "DEFAULT_EVENT_SOURCES = [''ec2.amazonaws.com'', ''elasticloadbalancing.amazonaws.com'', ''route53.amazonaws.com'']"

text \<open>\<open>json.loads(event.get("CloudTrailEvent") or "{}")\<close>, an empty object when that is no JSON.\<close>

definition event_body :: "trail_env \<Rightarrow> page \<Rightarrow> aws_error + page" where
  "event_body V e =
     (case or_val (get_or e ''CloudTrailEvent'' PNone) (PStr ''{}'') of
        PStr s \<Rightarrow> (case tv_json V s of None \<Rightarrow> Inr [] | Some (PDict d) \<Rightarrow> Inr d | Some _ \<Rightarrow> Inl (BadAnswer ''CloudTrailEvent''))
      | _ \<Rightarrow> Inl (BadAnswer ''CloudTrailEvent''))"

definition event_source :: "page \<Rightarrow> page \<Rightarrow> pyval" where
  "event_source e body = or_val (get_or e ''EventSource'' PNone) (get_or body ''eventSource'' (PStr []))"

definition resources_of :: "page \<Rightarrow> aws_error + page list" where
  "resources_of e =
     (case or_val (get_or e ''Resources'' PNone) (PList []) of
        PList xs \<Rightarrow> (case those (map as_dict xs) of None \<Rightarrow> Inl (BadAnswer ''Resources'') | Some ds \<Rightarrow> Inr ds)
      | _ \<Rightarrow> Inl (BadAnswer ''Resources''))"

text \<open>One event: \<open>None\<close> when its source is not on the allow-list.\<close>

definition trail_signal :: "trail_env \<Rightarrow> trail_config \<Rightarrow> string \<Rightarrow> string \<Rightarrow> time \<Rightarrow> page \<Rightarrow> aws_error + signal option" where
  "trail_signal V c name region observed e =
     and_then (event_body V e) (\<lambda>body.
     case event_source e body of
       PStr src \<Rightarrow>
         if src \<notin> set (tc_sources c) then Inr None
         else (case map_of e ''EventTime'' of
                 Some (PTime ts) \<Rightarrow>
                   let request = or_val (get_or body ''requestParameters'' PNone) (PDict []);
                       error_code = get_or body ''errorCode'' PNone;
                       read_only = (lower (py_str (tv_str V) (get_or e ''ReadOnly'' (get_or body ''readOnly'' (PStr ''false'')))) = ''true'')
                   in and_then (resources_of e) (\<lambda>resources.
                      and_then (trail_entity (tv_str V) request resources src) (\<lambda>ent.
                      and_then (str_item e ''EventName'') (\<lambda>ev.
                      Inr (Some \<lparr>s_type = Event, s_timestamp = ts, s_observed_at = observed, s_entity = ent, s_name = ev,
                        s_value = None, s_unit = None, s_severity = (if truthy error_code then Debug else Info),
                        s_domain = ''config'', s_source = name,
                        s_attributes = [(''event_source'', PStr src), (''read_only'', PBool read_only), (''region'', PStr region),
                          (''username'', get_or e ''Username'' PNone), (''error_code'', error_code),
                          (''request'', PStr (take 1000 (tv_dumps V request))),
                          (''raw'', PDict [(''EventId'', get_or e ''EventId'' PNone), (''EventName'', PStr ev)])],
                        s_evidence_ref = Some (''cloudtrail:'' @ py_str (tv_str V) (get_or e ''EventId'' PNone))\<rparr>))))
               | _ \<Rightarrow> Inl (BadAnswer ''EventTime''))
     | v \<Rightarrow> (case hashable v of None \<Rightarrow> Inl (BadAnswer ''EventSource'') | Some _ \<Rightarrow> Inr None))"

definition lookup_params :: "trail_config \<Rightarrow> telemetry_query \<Rightarrow> (string, pyval) dict" where
  "lookup_params c q =
     [(''StartTime'', PTime (q_start q)), (''EndTime'', PTime (q_end q))] @
     (if tc_read_only c then []
      else [(''LookupAttributes'', PList [PDict [(''AttributeKey'', PStr ''ReadOnly''), (''AttributeValue'', PStr ''false'')]])])"

definition max_lookup_pages :: "trail_config \<Rightarrow> nat" where
  "max_lookup_pages c = (tc_max_events c + 49) div 50"

text \<open>What \<open>fetch\<close> makes of the pages a lookup gave.\<close>

definition trail_result :: "trail_env \<Rightarrow> trail_config \<Rightarrow> aws_plugin \<Rightarrow> string \<Rightarrow> time \<Rightarrow> page list \<times> bool
    \<Rightarrow> aws_error + signal list \<times> coverage" where
  "trail_result V c p region observed = (\<lambda>(pages, capped).
     and_then (page_items pages ''Events'') (\<lambda>events.
     and_then (traverse (trail_signal V c (pl_name p) region observed) events) (\<lambda>ss.
     Inr (sort_key s_timestamp (List.map_filter id ss),
       aws_coverage p (if capped then CovPartial else CovOk) capped
         (if capped then Some (''event cap max_events='' @ nat_str (tc_max_events c) @ '' hit'') else None)))))"

definition trail_fetch :: "trail_env \<Rightarrow> aws_api \<Rightarrow> trail_config \<Rightarrow> aws_plugin \<Rightarrow> time \<Rightarrow> telemetry_query \<Rightarrow> aws_error + signal list \<times> coverage" where
  "trail_fetch V A c p observed q =
     and_then (region_for p (q_region q)) (\<lambda>region.
     and_then (paginate A (max_lookup_pages c) ''cloudtrail'' region ''lookup_events'' (lookup_params c q))
       (trail_result V c p region observed))"

section \<open>The shared lookups\<close>

text \<open>
  \<open>_lookup\<close> as steps: a call prunes the table and either waits on the entry of its key or
  becomes its reader; a reader ends with a result or an exception. A future is a number; its
  record keeps the key and the time it was made for and how it ended.
\<close>

type_synonym lookup_key = "string \<times> time \<times> time"

datatype 'r outcome = Running | Result 'r | Raised aws_error

record 'r future =
  ft_key :: lookup_key
  ft_begun :: real
  ft_outcome :: "'r outcome"

record 'r trail_cache =
  tl_table :: "(lookup_key, real \<times> nat) dict"
  tl_futures :: "'r future list"

definition LOOKUP_CACHE_SECONDS :: real where "LOOKUP_CACHE_SECONDS = 60"

definition empty_cache :: "'r trail_cache" where
  "empty_cache = \<lparr>tl_table = [], tl_futures = []\<rparr>"

datatype lookup_step = WaitFor nat | ReadInto nat

definition begin_lookup :: "real \<Rightarrow> lookup_key \<Rightarrow> 'r trail_cache \<Rightarrow> lookup_step \<times> 'r trail_cache" where
  "begin_lookup now k st =
     (let tab = filter (\<lambda>(_, t, _). now - t < LOOKUP_CACHE_SECONDS) (tl_table st)
      in case map_of tab k of
           Some (t, f) \<Rightarrow> (WaitFor f, st\<lparr>tl_table := tab\<rparr>)
         | None \<Rightarrow>
             let f = length (tl_futures st)
             in (ReadInto f, st\<lparr>tl_table := AList.update k (now, f) tab,
                   tl_futures := tl_futures st @ [\<lparr>ft_key = k, ft_begun = now, ft_outcome = Running\<rparr>]\<rparr>))"

text \<open>An exception takes the key out of the table, whosever entry it is by then.\<close>

definition end_lookup :: "nat \<Rightarrow> aws_error + 'r \<Rightarrow> 'r trail_cache \<Rightarrow> 'r trail_cache" where
  "end_lookup f res st =
     (if f < length (tl_futures st) \<and> ft_outcome (tl_futures st ! f) = Running
      then (case res of
              Inr r \<Rightarrow> st\<lparr>tl_futures := (tl_futures st)[f := (tl_futures st ! f)\<lparr>ft_outcome := Result r\<rparr>]\<rparr>
            | Inl e \<Rightarrow> st\<lparr>tl_table := AList.delete (ft_key (tl_futures st ! f)) (tl_table st),
                         tl_futures := (tl_futures st)[f := (tl_futures st ! f)\<lparr>ft_outcome := Raised e\<rparr>]\<rparr>)
      else st)"

datatype 'r lookup_event = Begin real lookup_key | End nat "aws_error + 'r"

fun cache_step :: "'r lookup_event \<Rightarrow> 'r trail_cache \<Rightarrow> 'r trail_cache" where
  "cache_step (Begin now k) st = snd (begin_lookup now k st)"
| "cache_step (End f res) st = end_lookup f res st"

section \<open>Facts\<close>

definition allowed_event :: "trail_env \<Rightarrow> trail_config \<Rightarrow> page \<Rightarrow> bool" where
  "allowed_event V c e =
     (case event_body V e of
        Inl _ \<Rightarrow> False
      | Inr body \<Rightarrow> (case event_source e body of PStr src \<Rightarrow> src \<in> set (tc_sources c) | _ \<Rightarrow> False))"

definition trail_ref :: "trail_env \<Rightarrow> page \<Rightarrow> string" where
  "trail_ref V e = ''cloudtrail:'' @ py_str (tv_str V) (get_or e ''EventId'' PNone)"

definition failed_call :: "trail_env \<Rightarrow> page \<Rightarrow> bool" where
  "failed_call V e = (case event_body V e of Inl _ \<Rightarrow> False | Inr body \<Rightarrow> truthy (get_or body ''errorCode'' PNone))"

text \<open>What one event's signal says of it.\<close>

definition signal_of_event :: "trail_env \<Rightarrow> trail_config \<Rightarrow> page \<Rightarrow> signal \<Rightarrow> bool" where
  "signal_of_event V c e s =
     (s_evidence_ref s = Some (trail_ref V e) \<and> s_domain s = ''config'' \<and> map_of e ''EventTime'' = Some (PTime (s_timestamp s))
      \<and> map_of e ''EventName'' = Some (PStr (s_name s)) \<and> s_severity s = (if failed_call V e then Debug else Info)
      \<and> (\<exists>src\<in>set (tc_sources c). map_of (s_attributes s) ''event_source'' = Some (PStr src)))"

lemma trail_signal_cases:
  assumes "trail_signal V c name region observed e = Inr r"
  shows "case r of None \<Rightarrow> \<not> allowed_event V c e | Some s \<Rightarrow> allowed_event V c e \<and> signal_of_event V c e s"
proof -
  obtain body where body: "event_body V e = Inr body" using assms by (cases "event_body V e") (simp_all add: trail_signal_def)
  show ?thesis
  proof (cases "\<exists>src. event_source e body = PStr src")
    case False
    then have "r = None" using assms body
      by (cases "event_source e body") (simp_all add: trail_signal_def split: option.splits)
    then show ?thesis using False body by (auto simp: allowed_event_def split: pyval.splits)
  next
    case True
    then obtain src where src: "event_source e body = PStr src" by blast
    show ?thesis
    proof (cases "src \<in> set (tc_sources c)")
      case False
      then show ?thesis using assms body src by (auto simp: trail_signal_def allowed_event_def)
    next
      case allowed: True
      obtain ts where ts: "map_of e ''EventTime'' = Some (PTime ts)"
      proof (cases "map_of e ''EventTime''")
        case None
        then show ?thesis using assms body src allowed by (simp add: trail_signal_def)
      next
        case (Some v)
        then show ?thesis using assms body src allowed that by (cases v) (simp_all add: trail_signal_def)
      qed
      obtain resources where res: "resources_of e = Inr resources"
        using assms body src allowed ts by (cases "resources_of e") (simp_all add: trail_signal_def Let_def)
      obtain ent where ent: "trail_entity (tv_str V) (or_val (get_or body ''requestParameters'' PNone) (PDict [])) resources src = Inr ent"
        using assms body src allowed ts res
        by (cases "trail_entity (tv_str V) (or_val (get_or body ''requestParameters'' PNone) (PDict [])) resources src")
          (simp_all add: trail_signal_def Let_def)
      obtain ev where ev: "str_item e ''EventName'' = Inr ev"
        using assms body src allowed ts res ent by (cases "str_item e ''EventName''") (simp_all add: trail_signal_def Let_def)
      have name: "map_of e ''EventName'' = Some (PStr ev)" using ev by (auto simp: str_item_def split: option.splits pyval.splits)
      obtain s where r: "r = Some s" and s: "s_evidence_ref s = Some (trail_ref V e)" "s_domain s = ''config''" "s_timestamp s = ts"
          "s_name s = ev" "s_severity s = (if failed_call V e then Debug else Info)"
          "map_of (s_attributes s) ''event_source'' = Some (PStr src)"
        using assms body src allowed ts res ent ev by (auto simp: trail_signal_def Let_def trail_ref_def failed_call_def)
      show ?thesis using r s ts name allowed body src by (auto simp: signal_of_event_def allowed_event_def)
    qed
  qed
qed

lemma trail_signals:
  "traverse (trail_signal V c name region observed) events = Inr xs
    \<Longrightarrow> list_all2 (signal_of_event V c) (filter (allowed_event V c) events) (List.map_filter id xs)"
proof (induction events arbitrary: xs)
  case Nil
  then show ?case by (simp add: List.map_filter_def)
next
  case (Cons e events)
  obtain r rest where 1: "trail_signal V c name region observed e = Inr r"
    and 2: "traverse (trail_signal V c name region observed) events = Inr rest" and xs: "xs = r # rest"
    using Cons.prems by (auto split: sum.splits)
  show ?case using trail_signal_cases [OF 1] Cons.IH [OF 2]
    by (cases r) (simp_all add: xs List.map_filter_def)
qed

lemma refs_of_events:
  "list_all2 (signal_of_event V c) es ss \<Longrightarrow> map s_evidence_ref ss = map (Some \<circ> trail_ref V) es"
  by (induction rule: list_all2_induct) (simp_all add: signal_of_event_def)

definition cache_ok :: "'r trail_cache \<Rightarrow> bool" where
  "cache_ok st = (distinct (keys (tl_table st)) \<and>
     (\<forall>(k, t, f) \<in> set (tl_table st). f < length (tl_futures st) \<and> ft_key (tl_futures st ! f) = k \<and> ft_begun (tl_futures st ! f) = t
       \<and> (\<forall>e. ft_outcome (tl_futures st ! f) \<noteq> Raised e)))"

lemma begin_ok: "cache_ok st \<Longrightarrow> cache_ok (snd (begin_lookup now k st))"
proof -
  assume ok: "cache_ok st"
  define tab where "tab = filter (\<lambda>(_, t, _). now - t < LOOKUP_CACHE_SECONDS) (tl_table st)"
  have dist: "distinct (keys tab)" using ok by (simp add: cache_ok_def tab_def keys_def distinct_map_filter)
  have ents: "\<forall>(k, t, f) \<in> set tab. f < length (tl_futures st) \<and> ft_key (tl_futures st ! f) = k
      \<and> ft_begun (tl_futures st ! f) = t \<and> (\<forall>e. ft_outcome (tl_futures st ! f) \<noteq> Raised e)"
    using ok by (auto simp: cache_ok_def tab_def)
  show ?thesis
  proof (cases "map_of tab k")
    case None
    have "cache_ok (st\<lparr>tl_table := tab @ [(k, now, length (tl_futures st))],
        tl_futures := tl_futures st @ [\<lparr>ft_key = k, ft_begun = now, ft_outcome = Running\<rparr>]\<rparr>)"
      using dist ents None by (auto simp: cache_ok_def keys_def nth_append map_of_eq_None_iff)
    moreover have "AList.update k (now, length (tl_futures st)) tab = tab @ [(k, now, length (tl_futures st))]"
      using None by (induction tab) (auto split: if_splits)
    ultimately show ?thesis using None by (simp add: begin_lookup_def tab_def [symmetric] Let_def)
  next
    case (Some tf)
    then show ?thesis using dist ents by (cases tf) (simp add: begin_lookup_def tab_def [symmetric] cache_ok_def)
  qed
qed

lemma end_ok:
  assumes "cache_ok st"
  shows "cache_ok (end_lookup f res st)"
proof (cases "f < length (tl_futures st) \<and> ft_outcome (tl_futures st ! f) = Running")
  case True
  show ?thesis
  proof (cases res)
    case (Inr r)
    then show ?thesis using True assms by (auto simp: end_lookup_def cache_ok_def nth_list_update)
  next
    case (Inl e)
    have "keys (AList.delete k d) = filter (\<lambda>x. x \<noteq> k) (keys d)" for k :: lookup_key and d :: "(lookup_key, real \<times> nat) dict"
      by (induction d) (auto simp: keys_def)
    moreover have "set (AList.delete k d) = {x \<in> set d. fst x \<noteq> k}" for k :: lookup_key and d :: "(lookup_key, real \<times> nat) dict"
      by (induction d) auto
    ultimately show ?thesis using True Inl assms
      by (auto simp: end_lookup_def cache_ok_def nth_list_update)
  qed
next
  case False
  then show ?thesis using assms by (auto simp: end_lookup_def)
qed

lemma steps_ok: "cache_ok st \<Longrightarrow> cache_ok (fold cache_step es st)"
proof (induction es arbitrary: st)
  case (Cons e es)
  have "cache_ok (cache_step e st)" using Cons.prems by (cases e) (simp_all add: begin_ok end_ok)
  then show ?case using Cons.IH by simp
qed simp

section \<open>Properties\<close>

text \<open>
  C19: CloudTrail reports exactly what the allow-list lets through. A fetch gives one signal per
  event of an allowed source, in time order and no other; each names its event and its time and
  is of debug severity iff the call failed; the coverage is complete iff no page was left.
\<close>

theorem trail_fetch_allowed:
  assumes "trail_fetch V A c p observed q = Inr (ss, cov)"
  shows "\<exists>region pages capped events xs. region_for p (q_region q) = Inr region
    \<and> paginate A (max_lookup_pages c) ''cloudtrail'' region ''lookup_events'' (lookup_params c q) = Inr (pages, capped)
    \<and> page_items pages ''Events'' = Inr events
    \<and> list_all2 (signal_of_event V c) (filter (allowed_event V c) events) xs
    \<and> ss = sort_key s_timestamp xs
    \<and> mset (map s_evidence_ref ss) = mset (map (Some \<circ> trail_ref V) (filter (allowed_event V c) events))
    \<and> (c_status cov = CovOk \<longleftrightarrow> \<not> capped)"
proof -
  obtain region where region: "region_for p (q_region q) = Inr region"
    using assms by (cases "region_for p (q_region q)") (simp_all add: trail_fetch_def)
  obtain pages capped where pages:
    "paginate A (max_lookup_pages c) ''cloudtrail'' region ''lookup_events'' (lookup_params c q) = Inr (pages, capped)"
    using assms region
    by (cases "paginate A (max_lookup_pages c) ''cloudtrail'' region ''lookup_events'' (lookup_params c q)") (auto simp: trail_fetch_def)
  have res: "trail_result V c p region observed (pages, capped) = Inr (ss, cov)"
    using assms region pages by (simp add: trail_fetch_def)
  obtain events where events: "page_items pages ''Events'' = Inr events"
    using res by (cases "page_items pages ''Events''") (simp_all add: trail_result_def)
  obtain xs where xs: "traverse (trail_signal V c (pl_name p) region observed) events = Inr xs"
    using res events by (cases "traverse (trail_signal V c (pl_name p) region observed) events") (simp_all add: trail_result_def)
  have ss: "ss = sort_key s_timestamp (List.map_filter id xs)" and st: "c_status cov = CovOk \<longleftrightarrow> \<not> capped"
    using res events xs by (auto simp: trail_result_def aws_coverage_def)
  note each = trail_signals [OF xs]
  have "mset (map s_evidence_ref ss) = mset (map (Some \<circ> trail_ref V) (filter (allowed_event V c) events))"
    unfolding refs_of_events [OF each, symmetric] by (simp add: ss)
  then show ?thesis using region pages events each ss st by blast
qed

text \<open>Two events, one from a source that is not on the list.\<close>

definition ex_tenv :: trail_env where
  "ex_tenv = \<lparr>tv_str = \<lambda>_. [], tv_json = \<lambda>s. if s = ''denied'' then Some (PDict [(''errorCode'', PStr ''AccessDenied''),
       (''requestParameters'', PDict [(''CreateRouteRequest'', PDict [(''RouteTableId'', PStr ''rtb-1'')])])]) else None, tv_dumps = \<lambda>_. ''{}''\<rparr>"

definition ex_tconfig :: trail_config where
  "ex_tconfig = \<lparr>tc_sources = DEFAULT_EVENT_SOURCES, tc_read_only = False, tc_max_events = 100\<rparr>"

definition ex_tplugin :: aws_plugin where
  "ex_tplugin = \<lparr>pl_name = ''cloudtrail'', pl_domains = [''config''], pl_required = True, pl_timeout = 10, ap_profile = None, ap_region = None\<rparr>"

definition ex_tevents :: "page list" where
  "ex_tevents =
     [[(''EventSource'', PStr ''ssm.amazonaws.com''), (''EventTime'', PTime 5), (''EventName'', PStr ''SendCommand''), (''EventId'', PStr ''e1'')],
      [(''EventSource'', PStr ''ec2.amazonaws.com''), (''EventTime'', PTime 3), (''EventName'', PStr ''CreateRoute''), (''EventId'', PStr ''e2''),
       (''CloudTrailEvent'', PStr ''denied'')]]"

definition ex_tapi :: aws_api where
  "ex_tapi = \<lparr>aa_pages = \<lambda>_ _ _ _. ([[(''Events'', PList (map PDict ex_tevents))]], None), aa_call = \<lambda>_ _ _ _. Inl (BadAnswer ''none'')\<rparr>"

definition ex_tquery :: telemetry_query where
  "ex_tquery = \<lparr>q_region = ''us-east-1'', q_start = 0, q_end = 9, q_filters = None, q_include_baseline = False, q_scenario = None, q_anchor = None\<rparr>"

theorem trail_fetch_allowed_witness:
  "case trail_fetch ex_tenv ex_tapi ex_tconfig ex_tplugin 9 ex_tquery of
     Inl _ \<Rightarrow> False
   | Inr (ss, cov) \<Rightarrow> mset (map s_evidence_ref ss) = {#Some ''cloudtrail:e2''#} \<and> c_status cov = CovOk"
proof -
  have "(case trail_fetch ex_tenv ex_tapi ex_tconfig ex_tplugin 9 ex_tquery of Inl _ \<Rightarrow> False | Inr _ \<Rightarrow> True)"
    by code_simp
  then obtain ss cov where run: "trail_fetch ex_tenv ex_tapi ex_tconfig ex_tplugin 9 ex_tquery = Inr (ss, cov)"
    by (cases "trail_fetch ex_tenv ex_tapi ex_tconfig ex_tplugin 9 ex_tquery") auto
  obtain region pages capped events where
    page: "paginate ex_tapi (max_lookup_pages ex_tconfig) ''cloudtrail'' region ''lookup_events'' (lookup_params ex_tconfig ex_tquery) = Inr (pages, capped)"
    and events: "page_items pages ''Events'' = Inr events"
    and refs: "mset (map s_evidence_ref ss) = mset (map (Some \<circ> trail_ref ex_tenv) (filter (allowed_event ex_tenv ex_tconfig) events))"
    and st: "c_status cov = CovOk \<longleftrightarrow> \<not> capped"
    using trail_fetch_allowed [OF run] by blast
  have p: "pages = [[(''Events'', PList (map PDict ex_tevents))]]" "\<not> capped"
    using page by (auto simp: paginate_def ex_tapi_def max_lookup_pages_def ex_tconfig_def)
  have e: "events = ex_tevents"
    using events by (simp add: p page_items_def items_of_def get_or_def as_dict_def ex_tevents_def)
  have "map (Some \<circ> trail_ref ex_tenv) (filter (allowed_event ex_tenv ex_tconfig) ex_tevents) = [Some ''cloudtrail:e2'']"
    by code_simp
  then show ?thesis using refs st p(2) by (simp add: run e)
qed

text \<open>
  sharing a read never mixes windows. Under any interleaving of lookups beginning and
  ending, a lookup that waits is given a read of its own region and window that began less
  than a minute ago and has not failed; otherwise it starts a read of its own.
\<close>

lemma trail_lookups_shared:
  assumes "st = fold cache_step es empty_cache" and "begin_lookup now k st = (act, st')"
  shows "case act of
      WaitFor f \<Rightarrow> f < length (tl_futures st) \<and> ft_key (tl_futures st ! f) = k
        \<and> now - ft_begun (tl_futures st ! f) < 60 \<and> (\<forall>e. ft_outcome (tl_futures st ! f) \<noteq> Raised e) \<and> tl_futures st' = tl_futures st
    | ReadInto f \<Rightarrow> f = length (tl_futures st)
        \<and> tl_futures st' = tl_futures st @ [\<lparr>ft_key = k, ft_begun = now, ft_outcome = Running\<rparr>]"
proof -
  have ok: "cache_ok st" unfolding assms(1) by (rule steps_ok) (simp add: cache_ok_def empty_cache_def keys_def)
  define tab where "tab = filter (\<lambda>(_, t, _). now - t < LOOKUP_CACHE_SECONDS) (tl_table st)"
  show ?thesis
  proof (cases "map_of tab k")
    case None
    then show ?thesis using assms(2) by (auto simp: begin_lookup_def tab_def [symmetric] Let_def)
  next
    case (Some tf)
    obtain t f where tf: "tf = (t, f)" by (cases tf)
    have "(k, t, f) \<in> set tab" using map_of_SomeD [OF Some] by (simp add: tf)
    then have "(k, t, f) \<in> set (tl_table st)" "now - t < 60" by (auto simp: tab_def LOOKUP_CACHE_SECONDS_def)
    then show ?thesis using ok assms(2) Some by (auto simp: begin_lookup_def tab_def [symmetric] cache_ok_def tf)
  qed
qed

end
