(* ===== verification/AwsMetrics.thy ===== *)
theory AwsMetrics
  imports AwsBase
begin

text \<open>
  CloudWatch metrics (\<open>plugins/aws/cloudwatch.py\<close>): the series of the configured metrics are
  discovered, capped, read in batches and turned into metric signals of the entity and under
  the name the configuration gives.
\<close>

section \<open>Configuration\<close>

record metric_spec =
  ms_namespace :: string
  ms_names :: "string list"
  ms_stat :: string
  ms_dims :: "string list"
  ms_etype :: string
  ms_eid :: string
  ms_unit :: "string option"
  ms_emit_as :: "string option"
  ms_scale :: real
  ms_per_second :: bool
  ms_labels :: "(string, string) dict"

record metrics_config =
  mc_period :: nat
  mc_max_series :: nat
  mc_specs :: "metric_spec list"

datatype metrics_config_error = BadField string | EntityNotADimension string string

text \<open>The bounds the model declares, then the plugin's own check.\<close>

definition check_metrics :: "metrics_config \<Rightarrow> metrics_config_error + unit" where
  "check_metrics c =
     (if mc_period c = 0 then Inl (BadField ''period_seconds'')
      else if mc_max_series c = 0 then Inl (BadField ''max_series'')
      else if mc_specs c = [] then Inl (BadField ''metrics'')
      else if list_ex (\<lambda>s. ms_names s = [] \<or> ms_dims s = [] \<or> ms_scale s \<le> 0) (mc_specs c) then Inl (BadField ''metrics'')
      else case List.find (\<lambda>s. ms_eid s \<notin> set (ms_dims s)) (mc_specs c) of
             Some s \<Rightarrow> Inl (EntityNotADimension (ms_namespace s) (ms_eid s))
           | None \<Rightarrow> Inr ())"

section \<open>Discovery\<close>

type_synonym dims = "(string, string) dict"
type_synonym series = "metric_spec \<times> string \<times> dims"

definition dim_pair :: "page \<Rightarrow> aws_error + string \<times> string" where
  "dim_pair d = and_then (str_item d ''Name'') (\<lambda>n. and_then (str_item d ''Value'') (\<lambda>v. Inr (n, v)))"

definition dims_of :: "page \<Rightarrow> aws_error + dims" where
  "dims_of metric = and_then (items_of metric ''Dimensions'') (\<lambda>ds. and_then (traverse dim_pair ds) (\<lambda>ps. Inr (dict_merge [] ps)))"

definition spec_dims :: "metric_spec \<Rightarrow> pyval" where
  "spec_dims s = PList (map (\<lambda>d. PDict [(''Name'', PStr d)]) (ms_dims s))"

definition discover_name :: "aws_api \<Rightarrow> string \<Rightarrow> metric_spec \<Rightarrow> string \<Rightarrow> aws_error + series list" where
  "discover_name A region s name =
     and_then (paginate A 20 ''cloudwatch'' region ''list_metrics''
         [(''Namespace'', PStr (ms_namespace s)), (''MetricName'', PStr name), (''Dimensions'', spec_dims s)]) (\<lambda>(pages, _).
     and_then (page_items pages ''Metrics'') (\<lambda>ms.
     and_then (traverse dims_of ms) (\<lambda>dss.
     Inr (map (\<lambda>ds. (s, name, ds)) (filter (\<lambda>ds. set (keys ds) = set (ms_dims s)) dss)))))"

definition discover :: "aws_api \<Rightarrow> string \<Rightarrow> metrics_config \<Rightarrow> aws_error + series list" where
  "discover A region c =
     and_then (traverse (\<lambda>s. and_then (traverse (discover_name A region s) (ms_names s)) (\<lambda>xss. Inr (concat xss))) (mc_specs c))
       (\<lambda>xss. Inr (concat xss))"

section \<open>Reading\<close>

text \<open>\<open>MAX_QUERIES_PER_CALL\<close> series are read at a time; each query has a number of its own.\<close>

definition query_id :: "nat \<Rightarrow> string" where
  "query_id n = ''m'' @ nat_str n"

definition sorted_dims :: "dims \<Rightarrow> (string \<times> string) list" where
  "sorted_dims ds = map (\<lambda>k. (k, the (map_of ds k))) (sorted_set (keys ds))"

definition metric_query :: "nat \<Rightarrow> nat \<Rightarrow> series \<Rightarrow> pyval" where
  "metric_query period n = (\<lambda>(s, name, ds).
     PDict [(''Id'', PStr (query_id n)),
       (''MetricStat'', PDict [(''Metric'', PDict [(''Namespace'', PStr (ms_namespace s)), (''MetricName'', PStr name),
            (''Dimensions'', PList (map (\<lambda>(k, v). PDict [(''Name'', PStr k), (''Value'', PStr v)]) (sorted_dims ds)))]),
          (''Period'', PNum (real period)), (''Stat'', PStr (ms_stat s))]),
       (''ReturnData'', PBool True)])"

function batches :: "'a list \<Rightarrow> nat \<Rightarrow> (nat \<times> 'a list) list" where
  "batches xs n = (if xs = [] then [] else (n, take 500 xs) # batches (drop 500 xs) (n + 500))"
  by pat_completeness auto
termination by (relation "measure (length \<circ> fst)") auto

declare batches.simps [simp del]

definition times_of :: "pyval \<Rightarrow> aws_error + time list" where
  "times_of v = (case v of
       PList xs \<Rightarrow> (case those (map (\<lambda>x. case x of PTime t \<Rightarrow> Some t | _ \<Rightarrow> None) xs) of None \<Rightarrow> Inl (BadAnswer ''Timestamps'') | Some ts \<Rightarrow> Inr ts)
     | _ \<Rightarrow> Inl (BadAnswer ''Timestamps''))"

definition values_of :: "pyval \<Rightarrow> aws_error + real list" where
  "values_of v = (case v of
       PList xs \<Rightarrow> (case those (map py_float xs) of None \<Rightarrow> Inl (BadAnswer ''Values'') | Some ys \<Rightarrow> Inr ys)
     | _ \<Rightarrow> Inl (BadAnswer ''Values''))"

record metrics_env =
  mv_iso :: "time \<Rightarrow> string"
  mv_catalog :: catalog

definition signal_name :: "metric_spec \<Rightarrow> string \<Rightarrow> string" where
  "signal_name s metric = (case ms_emit_as s of None \<Rightarrow> metric | Some n \<Rightarrow> if n = [] then metric else n)"

definition signal_unit :: "catalog \<Rightarrow> metric_spec \<Rightarrow> string \<Rightarrow> string option" where
  "signal_unit cat s name =
     (if truthy_str (ms_unit s) then ms_unit s
      else (case cat_signal cat name of None \<Rightarrow> None | Some (_, d) \<Rightarrow> sd_unit d))"

definition series_entity :: "series \<Rightarrow> entity" where
  "series_entity = (\<lambda>(s, _, ds). \<lparr>e_type = ms_etype s, e_id = the (map_of ds (ms_eid s)), e_labels = dict_merge (ms_labels s) ds\<rparr>)"

definition dim_key :: "dims \<Rightarrow> string" where
  "dim_key ds = join_with '','' (map (\<lambda>(k, v). k @ ''='' @ v) (sorted_dims ds))"

definition point_signal :: "metrics_env \<Rightarrow> string \<Rightarrow> string \<Rightarrow> nat \<Rightarrow> time \<Rightarrow> series \<Rightarrow> time \<times> real \<Rightarrow> signal" where
  "point_signal V source region period observed x = (\<lambda>(ts, v). case x of (s, metric, ds) \<Rightarrow>
     \<lparr>s_type = Metric, s_timestamp = ts, s_observed_at = observed, s_entity = series_entity x, s_name = signal_name s metric,
      s_value = Some (v * (ms_scale s / (if ms_per_second s then real period else 1))),
      s_unit = signal_unit (mv_catalog V) s (signal_name s metric), s_severity = Info, s_domain = ''metrics'', s_source = source,
      s_attributes = [(''namespace'', PStr (ms_namespace s)), (''statistic'', PStr (ms_stat s)), (''period'', PNum (real period)),
        (''region'', PStr region)],
      s_evidence_ref = Some (''cloudwatch:'' @ ms_namespace s @ ''/'' @ signal_name s metric @ ''/'' @ dim_key ds @ ''@'' @ mv_iso V ts)\<rparr>)"

text \<open>One result: the points of the series asked for under its id.\<close>

definition result_signals :: "metrics_env \<Rightarrow> string \<Rightarrow> string \<Rightarrow> nat \<Rightarrow> time \<Rightarrow> (string, series) dict \<Rightarrow> page \<Rightarrow> aws_error + signal list" where
  "result_signals V source region period observed by_id res =
     and_then (str_item res ''Id'') (\<lambda>i.
     case map_of by_id i of
       None \<Rightarrow> Inl (BadAnswer ''Id'')
     | Some x \<Rightarrow>
         and_then (times_of (get_or res ''Timestamps'' (PList []))) (\<lambda>ts.
         and_then (values_of (get_or res ''Values'' (PList []))) (\<lambda>vs.
         Inr (map (point_signal V source region period observed x) (zip ts vs)))))"

definition id_table :: "nat \<Rightarrow> series list \<Rightarrow> (string, series) dict" where
  "id_table n batch = map (\<lambda>(i, x). (query_id i, x)) (enumerate n batch)"

definition read_batch :: "metrics_env \<Rightarrow> aws_api \<Rightarrow> aws_plugin \<Rightarrow> metrics_config \<Rightarrow> string \<Rightarrow> time \<Rightarrow> time \<Rightarrow> time
    \<Rightarrow> nat \<times> series list \<Rightarrow> signal list \<times> bool \<Rightarrow> aws_error + signal list \<times> bool" where
  "read_batch V A p c region observed start finish = (\<lambda>(n, batch) (signals, capped).
     and_then (paginate A 50 ''cloudwatch'' region ''get_metric_data''
         [(''MetricDataQueries'', PList (map (\<lambda>(i, x). metric_query (mc_period c) i x) (enumerate n batch))),
          (''StartTime'', PTime start), (''EndTime'', PTime finish), (''ScanBy'', PStr ''TimestampAscending'')]) (\<lambda>(pages, pages_left).
     and_then (page_items pages ''MetricDataResults'') (\<lambda>results.
     and_then (traverse (result_signals V (pl_name p) region (mc_period c) observed (id_table n batch)) results) (\<lambda>sss.
     Inr (signals @ concat sss, capped \<or> pages_left)))))"

definition metrics_fetch :: "metrics_env \<Rightarrow> aws_api \<Rightarrow> aws_plugin \<Rightarrow> metrics_config \<Rightarrow> time \<Rightarrow> telemetry_query
    \<Rightarrow> aws_error + signal list \<times> coverage" where
  "metrics_fetch V A p c observed q =
     and_then (region_for p (q_region q)) (\<lambda>region.
     and_then (discover A region c) (\<lambda>found.
     and_then (fold_sum (\<lambda>b. read_batch V A p c region observed (lower_bound q) (q_end q) b)
         (batches (take (mc_max_series c) found) 0) ([], mc_max_series c < length found)) (\<lambda>(signals, capped).
     Inr (sort_key s_timestamp signals,
       aws_coverage p (if capped then CovPartial else CovOk) capped
         (if capped then Some (''series or pages capped at max_series='' @ nat_str (mc_max_series c)) else None)))))"

section \<open>Facts\<close>

lemma batches_concat: "concat (map snd (batches xs n)) = xs"
proof (induction xs n rule: batches.induct)
  case (1 xs n)
  then show ?case by (subst batches.simps) (cases "xs = []", simp_all)
qed

lemma id_table_lookup:
  assumes "i < length batch"
  shows "map_of (id_table n batch) (query_id (n + i)) = Some (batch ! i)"
proof -
  have keys: "map fst (id_table n batch) = map query_id [n..<n + length batch]"
  proof -
    have "map fst (id_table n batch) = map query_id (map fst (enumerate n batch))"
      unfolding id_table_def map_map by (rule map_cong) (auto simp: comp_def)
    then show ?thesis by simp
  qed
  have "distinct (map fst (id_table n batch))"
    unfolding keys by (auto simp: distinct_map inj_on_def query_id_def nat_str_inj)
  moreover have "(query_id (n + i), batch ! i) \<in> set (id_table n batch)"
    using assms by (force simp: id_table_def in_set_enumerate_eq)
  ultimately show ?thesis by simp
qed

lemma discover_sound:
  assumes "discover A region c = Inr found" and "(s, name, ds) \<in> set found"
  shows "s \<in> set (mc_specs c) \<and> name \<in> set (ms_names s) \<and> set (keys ds) = set (ms_dims s)"
proof -
  obtain xss where t: "traverse (\<lambda>s. and_then (traverse (discover_name A region s) (ms_names s)) (\<lambda>xss. Inr (concat xss))) (mc_specs c) = Inr xss"
    and f: "found = concat xss" using assms(1) by (auto simp: discover_def and_then_Inr)
  obtain xs where xs: "xs \<in> set xss" "(s, name, ds) \<in> set xs" using assms(2) f by auto
  then have "Inr xs \<in> set (map (\<lambda>s. and_then (traverse (discover_name A region s) (ms_names s)) (\<lambda>xss. Inr (concat xss))) (mc_specs c))"
    using traverse_Inr [OF t] by simp
  then obtain s' yss where s': "s' \<in> set (mc_specs c)" "traverse (discover_name A region s') (ms_names s') = Inr yss" "xs = concat yss"
    by (auto simp: and_then_Inr dest!: sym [of "Inr xs"])
  then obtain ys where ys: "ys \<in> set yss" "(s, name, ds) \<in> set ys" using xs(2) by auto
  then have "Inr ys \<in> set (map (discover_name A region s') (ms_names s'))" using traverse_Inr [OF s'(2)] by simp
  then obtain name' where "name' \<in> set (ms_names s')" "discover_name A region s' name' = Inr ys" by (metis imageE set_map)
  then show ?thesis using ys(2) s'(1) by (auto simp: discover_name_def and_then_Inr)
qed

lemma result_signals_Inr:
  assumes "result_signals V source region period observed (id_table n batch) res = Inr ss" and "s \<in> set ss"
  shows "\<exists>x\<in>set batch. \<exists>pt. s = point_signal V source region period observed x pt"
proof -
  obtain i where i: "str_item res ''Id'' = Inr i" using assms(1) by (auto simp: result_signals_def and_then_Inr)
  obtain x where x: "map_of (id_table n batch) i = Some x"
    using assms(1) i by (auto simp: result_signals_def split: option.splits)
  have "\<exists>j. (j, x) \<in> set (enumerate n batch)" using map_of_SomeD [OF x] by (auto simp: id_table_def)
  then have "x \<in> set batch" by (metis enumerate_eq_zip set_zip_rightD)
  moreover obtain ts vs where "ss = map (point_signal V source region period observed x) (zip ts vs)"
    using assms(1) i x by (auto simp: result_signals_def and_then_Inr)
  ultimately show ?thesis using assms(2) by auto
qed

lemma read_batch_Inr:
  assumes "read_batch V A p c region observed start finish (n, batch) st = Inr st'"
    and "\<forall>s\<in>set (fst st). \<exists>x\<in>X. \<exists>pt. s = point_signal V (pl_name p) region (mc_period c) observed x pt"
    and "set batch \<subseteq> X"
  shows "(\<forall>s\<in>set (fst st'). \<exists>x\<in>X. \<exists>pt. s = point_signal V (pl_name p) region (mc_period c) observed x pt)
    \<and> (snd st \<longrightarrow> snd st')"
proof -
  obtain signals capped where st: "st = (signals, capped)" by (cases st)
  obtain pages more_pages results sss where
    t: "traverse (result_signals V (pl_name p) region (mc_period c) observed (id_table n batch)) results = Inr sss"
    and st': "st' = (signals @ concat sss, capped \<or> more_pages)"
    using assms(1) by (auto simp: read_batch_def st and_then_Inr)
  have "\<exists>x\<in>X. \<exists>pt. s = point_signal V (pl_name p) region (mc_period c) observed x pt" if "s \<in> set (concat sss)" for s
  proof -
    note mem = that
    obtain ss where ss: "ss \<in> set sss" "s \<in> set ss" using mem by auto
    then have "Inr ss \<in> set (map (result_signals V (pl_name p) region (mc_period c) observed (id_table n batch)) results)"
      using traverse_Inr [OF t] by simp
    then obtain res where "result_signals V (pl_name p) region (mc_period c) observed (id_table n batch) res = Inr ss"
      by (metis imageE set_map)
    from result_signals_Inr [OF this ss(2)] show ?thesis using assms(3) by blast
  qed
  then have "\<forall>s\<in>set signals \<union> set (concat sss). \<exists>x\<in>X. \<exists>pt. s = point_signal V (pl_name p) region (mc_period c) observed x pt"
    using assms(2) unfolding st fst_conv by (elim ballE UnE; blast)
  then show ?thesis unfolding st st' fst_conv snd_conv set_append by blast
qed

text \<open>Series beyond the twentieth page of ListMetrics are not read, and the coverage does not say so.\<close>

lemma discovery_cap_unreported:
  "discover_name A region s name = Inr xs \<Longrightarrow>
    \<exists>pages b. paginate A 20 ''cloudwatch'' region ''list_metrics''
      [(''Namespace'', PStr (ms_namespace s)), (''MetricName'', PStr name), (''Dimensions'', spec_dims s)] = Inr (pages, b)
    \<and> length xs \<le> length (concat (map (\<lambda>p. case items_of p ''Metrics'' of Inl _ \<Rightarrow> [] | Inr ms \<Rightarrow> ms) pages))"
proof -
  assume d: "discover_name A region s name = Inr xs"
  obtain pages b ms dss where pg: "paginate A 20 ''cloudwatch'' region ''list_metrics''
      [(''Namespace'', PStr (ms_namespace s)), (''MetricName'', PStr name), (''Dimensions'', spec_dims s)] = Inr (pages, b)"
    and ms: "page_items pages ''Metrics'' = Inr ms" and dss: "traverse dims_of ms = Inr dss"
    and xs: "xs = map (\<lambda>ds. (s, name, ds)) (filter (\<lambda>ds. set (keys ds) = set (ms_dims s)) dss)"
    using d by (auto simp: discover_name_def and_then_Inr)
  have "length dss = length ms" using traverse_Inr [OF dss] by (metis length_map)
  moreover have "ms = concat (map (\<lambda>p. case items_of p ''Metrics'' of Inl _ \<Rightarrow> [] | Inr ms \<Rightarrow> ms) pages)"
  proof -
    obtain mss where t: "traverse (\<lambda>p. items_of p ''Metrics'') pages = Inr mss" and m: "ms = concat mss"
      using ms by (auto simp: page_items_def and_then_Inr)
    have "map (\<lambda>p. case items_of p ''Metrics'' of Inl _ \<Rightarrow> [] | Inr ms \<Rightarrow> ms) pages = mss"
      using traverse_Inr [OF t] by (induction pages arbitrary: mss) auto
    then show ?thesis using m by simp
  qed
  ultimately have "length xs \<le> length (concat (map (\<lambda>p. case items_of p ''Metrics'' of Inl _ \<Rightarrow> [] | Inr ms \<Rightarrow> ms) pages))"
    unfolding xs by (metis length_filter_le length_map)
  then show ?thesis using pg by blast
qed

section \<open>Properties\<close>

text \<open>
  every metric point is a point of the series it was asked for. Under an accepted
  configuration each signal of a fetch, in time order, carries the name, entity, unit and
  scaled value of one of the first series discovered, whose dimensions are exactly the
  configured ones and name the entity; within every batch a result's id leads back to the one
  series it was asked under, so points never move between series; and the coverage is complete
  only if no series was dropped.
\<close>

lemma metrics_fetch_sound:
  assumes "check_metrics c = Inr ()" and "metrics_fetch V A p c observed q = Inr (ss, cov)"
  shows "\<exists>region found. region_for p (q_region q) = Inr region \<and> discover A region c = Inr found
    \<and> (\<forall>s\<in>set ss. \<exists>x\<in>set (take (mc_max_series c) found). \<exists>pt. s = point_signal V (pl_name p) region (mc_period c) observed x pt)
    \<and> (\<forall>(s, name, ds)\<in>set found. s \<in> set (mc_specs c) \<and> name \<in> set (ms_names s) \<and> set (keys ds) = set (ms_dims s)
        \<and> map_of ds (ms_eid s) \<noteq> None)
    \<and> (\<forall>(n, batch)\<in>set (batches (take (mc_max_series c) found) 0). \<forall>i < length batch.
        map_of (id_table n batch) (query_id (n + i)) = Some (batch ! i))
    \<and> sorted (map s_timestamp ss) \<and> (c_status cov = CovOk \<longrightarrow> length found \<le> mc_max_series c)"
proof -
  obtain region where region: "region_for p (q_region q) = Inr region"
    using assms(2) by (cases "region_for p (q_region q)") (simp_all add: metrics_fetch_def)
  obtain found where found: "discover A region c = Inr found"
    using assms(2) region by (cases "discover A region c") (simp_all add: metrics_fetch_def)
  let ?bs = "batches (take (mc_max_series c) found) 0"
  let ?init = "([], mc_max_series c < length found) :: signal list \<times> bool"
  obtain signals capped where fold: "fold_sum (\<lambda>b. read_batch V A p c region observed (lower_bound q) (q_end q) b) ?bs ?init = Inr (signals, capped)"
    and ss: "ss = sort_key s_timestamp signals" and st: "c_status cov = CovOk \<longleftrightarrow> \<not> capped"
    using assms(2) region found by (auto simp: metrics_fetch_def and_then_Inr aws_coverage_def)
  let ?X = "set (take (mc_max_series c) found)"
  let ?P = "\<lambda>st :: signal list \<times> bool. (\<forall>s\<in>set (fst st). \<exists>x\<in>?X. \<exists>pt. s = point_signal V (pl_name p) region (mc_period c) observed x pt)
      \<and> (mc_max_series c < length found \<longrightarrow> snd st)"
  have sub: "set batch \<subseteq> ?X" if "(n, batch) \<in> set ?bs" for n batch
    using that arg_cong [OF batches_concat [of "take (mc_max_series c) found" 0], of set] by fastforce
  have "?P (signals, capped)"
  proof (rule fold_sum_invariant [OF fold, where P = ?P])
    fix b and s s' :: "signal list \<times> bool"
    assume b: "b \<in> set ?bs" and P: "?P s" and r: "read_batch V A p c region observed (lower_bound q) (q_end q) b s = Inr s'"
    obtain n batch where nb: "b = (n, batch)" by (cases b)
    show "?P s'" using read_batch_Inr [OF r [unfolded nb] conjunct1 [OF P] sub] P b nb by blast
  qed simp
  then have sound: "\<forall>s\<in>set ss. \<exists>x\<in>?X. \<exists>pt. s = point_signal V (pl_name p) region (mc_period c) observed x pt"
    and cap: "c_status cov = CovOk \<longrightarrow> length found \<le> mc_max_series c"
    using ss st by auto
  have dims: "ms_eid s \<in> set (ms_dims s)" if "s \<in> set (mc_specs c)" for s
    using assms(1) that by (auto simp: check_metrics_def find_None_iff split: if_splits option.splits)
  have each: "\<forall>(s, name, ds)\<in>set found. s \<in> set (mc_specs c) \<and> name \<in> set (ms_names s) \<and> set (keys ds) = set (ms_dims s)
      \<and> map_of ds (ms_eid s) \<noteq> None"
  proof (clarify, intro conjI)
    fix s name ds assume "(s, name, ds) \<in> set found"
    note d = discover_sound [OF found this]
    show "s \<in> set (mc_specs c)" "name \<in> set (ms_names s)" "set (keys ds) = set (ms_dims s)" using d by blast+
    have "ms_eid s \<in> set (keys ds)" using d dims [of s] by simp
    then show "map_of ds (ms_eid s) \<noteq> None" by (simp add: keys_def map_of_eq_None_iff)
  qed
  have ids: "\<forall>(n, batch)\<in>set ?bs. \<forall>i < length batch. map_of (id_table n batch) (query_id (n + i)) = Some (batch ! i)"
    by (auto simp: id_table_lookup)
  have sorted: "sorted (map s_timestamp ss)" by (simp add: ss)
  show ?thesis
    by (rule exI [of _ region], rule exI [of _ found], intro conjI)
      (rule region, rule found, rule sound, rule each, rule ids, rule sorted, rule cap)
qed

end
