(* ===== verification/AwsTopology.thy ===== *)
theory AwsTopology
  imports AwsBase
begin

text \<open>
  The AWS network topology (\<open>plugins/aws/topology.py\<close>): describe calls fill a graph of
  entities and relationships, step by step; a step that raises keeps what it had added. The
  first host of a tunnel's inside network (\<open>ipaddress\<close>) is a parameter.
\<close>

section \<open>The graph\<close>

record graph =
  gr_entities :: "(node, entity) dict"
  gr_edges :: "(string \<times> node \<times> node, topology_edge) dict"

definition empty_graph :: graph where
  "empty_graph = \<lparr>gr_entities = [], gr_edges = []\<rparr>"

text \<open>\<open>add\<close>: labels that are \<open>None\<close> or empty are left out, known ones are kept or overwritten.\<close>

definition clean_labels :: "(pyval \<Rightarrow> string) \<Rightarrow> (string \<times> pyval) list \<Rightarrow> (string, string) dict" where
  "clean_labels F labels =
     map (\<lambda>(k, v). (k, py_str F v)) (filter (\<lambda>(k, v). v \<noteq> PNone \<and> v \<noteq> PStr []) labels)"

definition g_add :: "(pyval \<Rightarrow> string) \<Rightarrow> string \<Rightarrow> string \<Rightarrow> (string \<times> pyval) list \<Rightarrow> graph \<Rightarrow> graph" where
  "g_add F etype eid labels g =
     (let known = (case map_of (gr_entities g) (etype, eid) of None \<Rightarrow> [] | Some e \<Rightarrow> e_labels e)
      in g\<lparr>gr_entities := AList.update (etype, eid)
             \<lparr>e_type = etype, e_id = eid, e_labels = dict_merge known (clean_labels F labels)\<rparr> (gr_entities g)\<rparr>)"

text \<open>\<open>link\<close>: nothing happens unless both ends are known.\<close>

definition g_link :: "string \<Rightarrow> node \<Rightarrow> node \<Rightarrow> graph \<Rightarrow> graph" where
  "g_link kind src dst g =
     (case (map_of (gr_entities g) src, map_of (gr_entities g) dst) of
        (Some a, Some b) \<Rightarrow> g\<lparr>gr_edges := AList.update (kind, src, dst)
             \<lparr>t_rel = kind, t_source = a, t_target = b, t_attributes = []\<rparr> (gr_edges g)\<rparr>
      | _ \<Rightarrow> g)"

definition g_find :: "string \<Rightarrow> string \<Rightarrow> graph \<Rightarrow> node list" where
  "g_find etype value g =
     map fst (filter (\<lambda>((t, i), e). t = etype \<and> (i = value \<or> value \<in> set (vals (e_labels e)))) (gr_entities g))"

section \<open>Steps\<close>

text \<open>A piece of a step: the graph after it, and the exception it ended with.\<close>

type_synonym act = "graph \<Rightarrow> graph \<times> aws_error option"

definition pure_act :: "(graph \<Rightarrow> graph) \<Rightarrow> act" where
  "pure_act f g = (f g, None)"

fun do_all :: "act list \<Rightarrow> act" where
  "do_all [] g = (g, None)"
| "do_all (a # as) g = (case a g of (g1, None) \<Rightarrow> do_all as g1 | (g1, Some e) \<Rightarrow> (g1, Some e))"

definition with_value :: "aws_error + 'a \<Rightarrow> ('a \<Rightarrow> act) \<Rightarrow> act" where
  "with_value x f = (case x of Inl e \<Rightarrow> (\<lambda>g. (g, Some e)) | Inr v \<Rightarrow> f v)"

abbreviation skip :: act where "skip \<equiv> pure_act id"

record topo_env =
  te_str :: "pyval \<Rightarrow> string"
  te_host :: "string \<Rightarrow> string option"

definition add_node :: "topo_env \<Rightarrow> string \<Rightarrow> string \<Rightarrow> (string \<times> pyval) list \<Rightarrow> act" where
  "add_node V etype eid labels = pure_act (g_add (te_str V) etype eid labels)"

definition link_nodes :: "string \<Rightarrow> node \<Rightarrow> node \<Rightarrow> act" where
  "link_nodes kind src dst = pure_act (g_link kind src dst)"

text \<open>A link to an id an answer gives: only a text can be the id of an entity.\<close>

definition link_value :: "string \<Rightarrow> node \<Rightarrow> string \<Rightarrow> pyval \<Rightarrow> act" where
  "link_value kind src etype v =
     (case v of PStr i \<Rightarrow> link_nodes kind src (etype, i) | PList _ \<Rightarrow> (\<lambda>g. (g, Some (BadAnswer etype)))
      | PDict _ \<Rightarrow> (\<lambda>g. (g, Some (BadAnswer etype))) | _ \<Rightarrow> skip)"

text \<open>\<open>(d.get(k) or {})\<close>, a list of objects, an id that may be missing or empty.\<close>

definition sub_dict :: "page \<Rightarrow> string \<Rightarrow> aws_error + page" where
  "sub_dict d k = (case or_val (get_or d k PNone) (PDict []) of PDict x \<Rightarrow> Inr x | _ \<Rightarrow> Inl (BadAnswer k))"

definition opt_id :: "page \<Rightarrow> string \<Rightarrow> aws_error + string option" where
  "opt_id d k = (case get_or d k PNone of
       PStr s \<Rightarrow> Inr (if s = [] then None else Some s) | v \<Rightarrow> if truthy v then Inl (BadAnswer k) else Inr None)"

definition list_or_empty :: "page \<Rightarrow> string \<Rightarrow> aws_error + page list" where
  "list_or_empty d k =
     (case or_val (get_or d k PNone) (PList []) of
        PList xs \<Rightarrow> (case those (map as_dict xs) of None \<Rightarrow> Inl (BadAnswer k) | Some ds \<Rightarrow> Inr ds)
      | _ \<Rightarrow> Inl (BadAnswer k))"

definition all_pages :: "aws_api \<Rightarrow> string \<Rightarrow> string \<Rightarrow> string \<Rightarrow> string \<Rightarrow> (string, pyval) dict \<Rightarrow> aws_error + page list" where
  "all_pages A service region op key params =
     and_then (paginate A 50 service region op params) (\<lambda>(pages, _). page_items pages key)"

text \<open>A loop over the items of a paginated call.\<close>

definition each_item :: "aws_api \<Rightarrow> string \<Rightarrow> string \<Rightarrow> string \<Rightarrow> string \<Rightarrow> (string, pyval) dict \<Rightarrow> (page \<Rightarrow> act) \<Rightarrow> act" where
  "each_item A service region op key params f = with_value (all_pages A service region op key params) (\<lambda>xs. do_all (map f xs))"

text \<open>The value of the first tag whose key is \<open>Name\<close>.\<close>

definition name_tag :: "page \<Rightarrow> aws_error + pyval" where
  "name_tag d =
     and_then (items_of d ''Tags'') (\<lambda>tags.
     case List.find (\<lambda>t. get_or t ''Key'' PNone = PStr ''Name'') tags of
       None \<Rightarrow> Inr PNone
     | Some t \<Rightarrow> (case map_of t ''Value'' of None \<Rightarrow> Inl (BadAnswer ''Value'') | Some v \<Rightarrow> Inr v))"

section \<open>VPN connections\<close>

definition inside_ip :: "topo_env \<Rightarrow> page \<Rightarrow> aws_error + string option" where
  "inside_ip V opt = and_then (opt_id opt ''TunnelInsideCidr'') (\<lambda>c. Inr (Option.bind c (te_host V)))"

definition tunnel_act :: "topo_env \<Rightarrow> int \<Rightarrow> string \<Rightarrow> page list \<Rightarrow> nat \<times> pyval \<Rightarrow> act" where
  "tunnel_act V capacity vid options = (\<lambda>(n, ip).
     let tid = vid @ ''-tunnel-'' @ nat_str n
     in do_all
          [add_node V ''tunnel'' tid [(''outside_ip'', ip), (''capacity_bps'', PStr (int_str capacity))],
           link_nodes ''member_of'' (''tunnel'', tid) (''vpn_connection'', vid),
           with_value (if n \<le> length options then inside_ip V (options ! (n - 1)) else Inr None) (\<lambda>inside. case inside of
               None \<Rightarrow> skip
             | Some i \<Rightarrow> if i = [] then skip else do_all
                 [add_node V ''bgp_neighbor'' i [(''tunnel'', PStr tid)],
                  link_nodes ''runs_over'' (''bgp_neighbor'', i) (''tunnel'', tid)])])"

definition vpn_conn :: "topo_env \<Rightarrow> int \<Rightarrow> page \<Rightarrow> act" where
  "vpn_conn V capacity conn =
     (if get_or conn ''State'' PNone = PStr ''deleted'' then skip
      else with_value (str_item conn ''VpnConnectionId'') (\<lambda>vid. do_all
        [add_node V ''vpn_connection'' vid [(''customer_gateway'', get_or conn ''CustomerGatewayId'' PNone),
           (''transit_gateway'', get_or conn ''TransitGatewayId'' PNone)],
         with_value (and_then (sub_dict conn ''Options'') (\<lambda>o1. list_or_empty o1 ''TunnelOptions'')) (\<lambda>options.
         with_value (if options \<noteq> [] then Inr options else items_of conn ''VgwTelemetry'') (\<lambda>ts.
           do_all (map (tunnel_act V capacity vid options) (enumerate 1 (map (\<lambda>t. get_or t ''OutsideIpAddress'' PNone) ts)))))]))"

definition vpn_step :: "topo_env \<Rightarrow> aws_api \<Rightarrow> string \<Rightarrow> int \<Rightarrow> act" where
  "vpn_step V A region capacity =
     with_value (and_then (aa_call A ''ec2'' region ''describe_vpn_connections'' []) (\<lambda>r. items_of r ''VpnConnections''))
       (\<lambda>conns. do_all (map (vpn_conn V capacity) conns))"

section \<open>Transit gateways\<close>

definition route_table_act :: "topo_env \<Rightarrow> page \<Rightarrow> act" where
  "route_table_act V rtb =
     with_value (str_item rtb ''TransitGatewayId'') (\<lambda>tgw. do_all
       [add_node V ''transit_gateway'' tgw [],
        with_value (str_item rtb ''TransitGatewayRouteTableId'') (\<lambda>i. do_all
          [add_node V ''tgw_route_table'' i [(''transit_gateway'', PStr tgw)],
           link_nodes ''belongs_to'' (''tgw_route_table'', i) (''transit_gateway'', tgw)])])"

definition attachment_act :: "topo_env \<Rightarrow> page \<Rightarrow> act" where
  "attachment_act V att =
     (if get_or att ''State'' PNone \<in> {PStr ''deleted'', PStr ''deleting''} then skip
      else with_value (str_item att ''TransitGatewayAttachmentId'') (\<lambda>aid.
        let kind = get_or att ''ResourceType'' PNone; rid = get_or att ''ResourceId'' PNone
        in do_all
          [add_node V ''tgw_attachment'' aid [(''resource_type'', kind), (''resource_id'', rid)],
           with_value (str_item att ''TransitGatewayId'') (\<lambda>tgw. do_all
             [add_node V ''transit_gateway'' tgw [],
              link_nodes ''belongs_to'' (''tgw_attachment'', aid) (''transit_gateway'', tgw)]),
           (if kind = PStr ''vpn'' \<or> kind = PStr ''vpc''
            then with_value (opt_id att ''ResourceId'') (\<lambda>r. case r of
                None \<Rightarrow> skip
              | Some i \<Rightarrow>
                  let etype = (if kind = PStr ''vpn'' then ''vpn_connection'' else ''vpc'')
                  in do_all [add_node V etype i [], link_nodes ''attached_via'' (etype, i) (''tgw_attachment'', aid)])
            else skip),
           with_value (and_then (sub_dict att ''Association'') (\<lambda>a. opt_id a ''TransitGatewayRouteTableId'')) (\<lambda>assoc. case assoc of
               None \<Rightarrow> skip
             | Some i \<Rightarrow> link_nodes ''associated_with'' (''tgw_attachment'', aid) (''tgw_route_table'', i))]))"

definition propagation_act :: "aws_api \<Rightarrow> string \<Rightarrow> node \<Rightarrow> act" where
  "propagation_act A region tbl =
     each_item A ''ec2'' region ''get_transit_gateway_route_table_propagations'' ''TransitGatewayRouteTablePropagations''
       [(''TransitGatewayRouteTableId'', PStr (snd tbl))] (\<lambda>prop.
         if get_or prop ''State'' PNone = PStr ''enabled''
         then with_value (str_item prop ''TransitGatewayAttachmentId'') (\<lambda>i. link_nodes ''propagates_to'' (''tgw_attachment'', i) tbl)
         else skip)"

definition tgw_step :: "topo_env \<Rightarrow> aws_api \<Rightarrow> string \<Rightarrow> act" where
  "tgw_step V A region = do_all
     [each_item A ''ec2'' region ''describe_transit_gateway_route_tables'' ''TransitGatewayRouteTables'' [] (route_table_act V),
      each_item A ''ec2'' region ''describe_transit_gateway_attachments'' ''TransitGatewayAttachments'' [] (attachment_act V),
      (\<lambda>g. do_all (map (propagation_act A region) (filter (\<lambda>n. fst n = ''tgw_route_table'') (keys (gr_entities g)))) g)]"

section \<open>Networks\<close>

text \<open>An entity in a network: its own labels, and a link to the network its answer names.\<close>

definition in_vpc_act :: "string \<Rightarrow> string \<Rightarrow> page \<Rightarrow> act" where
  "in_vpc_act etype i d = link_value ''in_vpc'' (etype, i) ''vpc'' (get_or d ''VpcId'' (PStr []))"

definition vpc_act :: "topo_env \<Rightarrow> page \<Rightarrow> act" where
  "vpc_act V d = with_value (str_item d ''VpcId'') (\<lambda>i. with_value (name_tag d) (\<lambda>n.
     add_node V ''vpc'' i [(''cidr'', get_or d ''CidrBlock'' PNone), (''name'', n)]))"

definition instance_act :: "topo_env \<Rightarrow> page \<Rightarrow> act" where
  "instance_act V d =
     with_value (sub_dict d ''State'') (\<lambda>st.
     if get_or st ''Name'' PNone = PStr ''terminated'' then skip
     else with_value (str_item d ''InstanceId'') (\<lambda>i. with_value (name_tag d) (\<lambda>n. do_all
       [add_node V ''instance'' i [(''name'', n), (''private_ip'', get_or d ''PrivateIpAddress'' PNone), (''vpc'', get_or d ''VpcId'' PNone)],
        in_vpc_act ''instance'' i d])))"

definition reservation_act :: "topo_env \<Rightarrow> page \<Rightarrow> act" where
  "reservation_act V d = with_value (items_of d ''Instances'') (\<lambda>is. do_all (map (instance_act V) is))"

definition subnet_act :: "topo_env \<Rightarrow> page \<Rightarrow> act" where
  "subnet_act V d = with_value (str_item d ''SubnetId'') (\<lambda>i. with_value (str_item d ''VpcId'') (\<lambda>v. do_all
     [add_node V ''subnet'' i [(''vpc'', PStr v), (''cidr'', get_or d ''CidrBlock'' PNone)],
      link_nodes ''in_vpc'' (''subnet'', i) (''vpc'', v)]))"

definition nat_act :: "topo_env \<Rightarrow> page \<Rightarrow> act" where
  "nat_act V d =
     (if get_or d ''State'' PNone \<in> {PStr ''deleted'', PStr ''deleting''} then skip
      else with_value (str_item d ''NatGatewayId'') (\<lambda>i. do_all
        [add_node V ''nat_gateway'' i [(''vpc'', get_or d ''VpcId'' PNone)], in_vpc_act ''nat_gateway'' i d]))"

text \<open>A peering links the two networks that are known.\<close>

definition peering_act :: "topo_env \<Rightarrow> page \<Rightarrow> act" where
  "peering_act V d =
     with_value (sub_dict d ''Status'') (\<lambda>st.
     if get_or st ''Code'' PNone \<noteq> PStr ''active'' then skip
     else case (item (PDict d) ''RequesterVpcInfo'', item (PDict d) ''AccepterVpcInfo'') of
         (Some (PDict r), Some (PDict a)) \<Rightarrow>
           with_value (str_item d ''VpcPeeringConnectionId'') (\<lambda>i.
           let req = get_or r ''VpcId'' PNone; acc = get_or a ''VpcId'' PNone
           in do_all
             [add_node V ''vpc_peering'' i [(''requester'', req), (''accepter'', acc)],
              do_all (map (\<lambda>v. case v of PStr w \<Rightarrow> link_nodes ''peers'' (''vpc'', w) (''vpc_peering'', i) | _ \<Rightarrow> skip) [req, acc])])
       | _ \<Rightarrow> (\<lambda>g. (g, Some (BadAnswer ''RequesterVpcInfo''))))"

definition ROUTE_TARGETS :: "(string \<times> string) list" where
  "ROUTE_TARGETS = [(''NatGatewayId'', ''nat_gateway''), (''VpcPeeringConnectionId'', ''vpc_peering''),
     (''TransitGatewayId'', ''transit_gateway''), (''InstanceId'', ''instance''), (''NetworkInterfaceId'', ''eni'')]"

definition route_act :: "topo_env \<Rightarrow> string \<Rightarrow> page \<Rightarrow> act" where
  "route_act V rid route = do_all (map (\<lambda>(key, etype).
     with_value (opt_id route key) (\<lambda>t. case t of
         None \<Rightarrow> skip
       | Some i \<Rightarrow> do_all [add_node V etype i [], link_nodes ''routes_via'' (''route_table'', rid) (etype, i)])) ROUTE_TARGETS)"

definition vpc_table_act :: "topo_env \<Rightarrow> page \<Rightarrow> act" where
  "vpc_table_act V d =
     with_value (str_item d ''RouteTableId'') (\<lambda>rid. do_all
       [add_node V ''route_table'' rid [(''vpc'', get_or d ''VpcId'' PNone)],
        in_vpc_act ''route_table'' rid d,
        with_value (items_of d ''Associations'') (\<lambda>as. do_all (map (\<lambda>a. with_value (opt_id a ''SubnetId'') (\<lambda>s. case s of
            None \<Rightarrow> skip
          | Some i \<Rightarrow> link_nodes ''associated_with'' (''subnet'', i) (''route_table'', rid))) as)),
        with_value (items_of d ''Routes'') (\<lambda>rs. do_all (map (route_act V rid) rs))])"

definition acl_act :: "topo_env \<Rightarrow> page \<Rightarrow> act" where
  "acl_act V d =
     with_value (str_item d ''NetworkAclId'') (\<lambda>i. do_all
       [add_node V ''network_acl'' i [(''vpc'', get_or d ''VpcId'' PNone)],
        with_value (items_of d ''Associations'') (\<lambda>as.
          do_all (map (\<lambda>a. link_value ''protects'' (''network_acl'', i) ''subnet'' (get_or a ''SubnetId'' (PStr []))) as))])"

definition group_act :: "topo_env \<Rightarrow> page \<Rightarrow> act" where
  "group_act V d =
     with_value (str_item d ''GroupId'') (\<lambda>i. do_all
       [add_node V ''security_group'' i [(''name'', get_or d ''GroupName'' PNone), (''vpc'', get_or d ''VpcId'' PNone)],
        in_vpc_act ''security_group'' i d])"

definition eni_act :: "topo_env \<Rightarrow> page \<Rightarrow> act" where
  "eni_act V d =
     with_value (str_item d ''NetworkInterfaceId'') (\<lambda>i. do_all
       [add_node V ''eni'' i [(''subnet'', get_or d ''SubnetId'' PNone), (''private_ip'', get_or d ''PrivateIpAddress'' PNone)],
        with_value (items_of d ''Groups'') (\<lambda>gs. do_all (map (\<lambda>g. with_value (str_item g ''GroupId'') (\<lambda>sg.
          link_nodes ''applies_to'' (''security_group'', sg) (''eni'', i))) gs)),
        with_value (and_then (sub_dict d ''Attachment'') (\<lambda>a. opt_id a ''InstanceId'')) (\<lambda>x. case x of
            None \<Rightarrow> skip
          | Some inst \<Rightarrow> do_all
              [add_node V ''instance'' inst [(''vpc'', get_or d ''VpcId'' PNone)],
               link_nodes ''attached_to'' (''eni'', i) (''instance'', inst),
               in_vpc_act ''instance'' inst d])])"

definition vpc_filter :: "string list \<Rightarrow> pyval" where
  "vpc_filter ids = PList (if ids = [] then [] else [PDict [(''Name'', PStr ''vpc-id''), (''Values'', strings ids)]])"

definition vpcs_step :: "topo_env \<Rightarrow> aws_api \<Rightarrow> string \<Rightarrow> string list \<Rightarrow> act" where
  "vpcs_step V A region ids =
     (let f = [(''Filters'', vpc_filter ids)] in do_all
       [each_item A ''ec2'' region ''describe_vpcs'' ''Vpcs'' f (vpc_act V),
        each_item A ''ec2'' region ''describe_instances'' ''Reservations'' f (reservation_act V),
        each_item A ''ec2'' region ''describe_subnets'' ''Subnets'' f (subnet_act V),
        each_item A ''ec2'' region ''describe_nat_gateways'' ''NatGateways'' [(''Filter'', vpc_filter ids)] (nat_act V),
        each_item A ''ec2'' region ''describe_vpc_peering_connections'' ''VpcPeeringConnections'' [] (peering_act V),
        each_item A ''ec2'' region ''describe_route_tables'' ''RouteTables'' f (vpc_table_act V),
        each_item A ''ec2'' region ''describe_network_acls'' ''NetworkAcls'' f (acl_act V),
        each_item A ''ec2'' region ''describe_security_groups'' ''SecurityGroups'' f (group_act V),
        each_item A ''ec2'' region ''describe_network_interfaces'' ''NetworkInterfaces'' f (eni_act V)])"

section \<open>Load balancers and names\<close>

text \<open>\<open>arn.split(marker, 1)[1] if marker in arn else arn\<close>.\<close>

fun after_text :: "string \<Rightarrow> string \<Rightarrow> string option" where
  "after_text m [] = (if m = [] then Some [] else None)"
| "after_text m (c # cs) = (if starts_with m (c # cs) then Some (drop (length m) (c # cs)) else after_text m cs)"

definition arn_suffix :: "string \<Rightarrow> string \<Rightarrow> string" where
  "arn_suffix arn m = (case after_text m arn of None \<Rightarrow> arn | Some s \<Rightarrow> s)"

definition balancer_act :: "topo_env \<Rightarrow> page \<Rightarrow> act" where
  "balancer_act V d =
     with_value (str_item d ''LoadBalancerArn'') (\<lambda>arn. do_all
       [add_node V ''load_balancer'' arn [(''dimension'', PStr (arn_suffix arn '':loadbalancer/'')), (''name'', get_or d ''LoadBalancerName'' PNone)],
        in_vpc_act ''load_balancer'' arn d])"

definition target_act :: "topo_env \<Rightarrow> string \<Rightarrow> page \<Rightarrow> act" where
  "target_act V arn desc =
     with_value (sub_dict desc ''Target'') (\<lambda>t. case get_or t ''Id'' (PStr []) of
         PStr i \<Rightarrow> if starts_with ''i-'' i
                   then do_all [add_node V ''instance'' i [], link_nodes ''registered_in'' (''instance'', i) (''target_group'', arn)]
                   else skip
       | _ \<Rightarrow> (\<lambda>g. (g, Some (BadAnswer ''Id''))))"

definition target_group_act :: "topo_env \<Rightarrow> aws_api \<Rightarrow> string \<Rightarrow> page \<Rightarrow> act" where
  "target_group_act V A region d =
     with_value (str_item d ''TargetGroupArn'') (\<lambda>arn. do_all
       [add_node V ''target_group'' arn [(''dimension'', PStr (''targetgroup/'' @ arn_suffix arn '':targetgroup/''))],
        (case get_or d ''LoadBalancerArns'' (PList []) of
           PList lbs \<Rightarrow> do_all (map (link_value ''serves'' (''target_group'', arn) ''load_balancer'') lbs)
         | _ \<Rightarrow> (\<lambda>g. (g, Some (BadAnswer ''LoadBalancerArns'')))),
        with_value (and_then (aa_call A ''elbv2'' region ''describe_target_health'' [(''TargetGroupArn'', PStr arn)])
            (\<lambda>h. items_of h ''TargetHealthDescriptions'')) (\<lambda>ds. do_all (map (target_act V arn) ds))])"

definition elb_step :: "topo_env \<Rightarrow> aws_api \<Rightarrow> string \<Rightarrow> act" where
  "elb_step V A region = do_all
     [each_item A ''elbv2'' region ''describe_load_balancers'' ''LoadBalancers'' [] (balancer_act V),
      each_item A ''elbv2'' region ''describe_target_groups'' ''TargetGroups'' [] (target_group_act V A region)]"

definition last_part :: "string \<Rightarrow> string" where
  "last_part s = rev (takeWhile (\<lambda>c. c \<noteq> CHR ''/'') (rev s))"

definition zone_act :: "topo_env \<Rightarrow> aws_api \<Rightarrow> page \<Rightarrow> act" where
  "zone_act V A zone =
     with_value (sub_dict zone ''Config'') (\<lambda>c.
     if \<not> truthy (get_or c ''PrivateZone'' PNone) then skip
     else with_value (str_item zone ''Id'') (\<lambda>zi. let zid = last_part zi in do_all
       [add_node V ''hosted_zone'' zid [(''name'', get_or zone ''Name'' PNone)],
        each_item A ''route53'' ''us-east-1'' ''list_resource_record_sets'' ''ResourceRecordSets'' [(''HostedZoneId'', PStr zid)] (\<lambda>r.
          if get_or r ''Type'' PNone \<in> {PStr ''A'', PStr ''AAAA'', PStr ''CNAME''}
          then with_value (str_item r ''Name'') (\<lambda>n. do_all
            [add_node V ''dns_name'' n [], link_nodes ''resolves'' (''hosted_zone'', zid) (''dns_name'', n)])
          else skip)]))"

definition dns_step :: "topo_env \<Rightarrow> aws_api \<Rightarrow> act" where
  "dns_step V A = each_item A ''route53'' ''us-east-1'' ''list_hosted_zones'' ''HostedZones'' [] (zone_act V A)"

section \<open>Probes and the read\<close>

record probe =
  pb_type :: string
  pb_id :: "string option"
  pb_match :: "string option"
  pb_all :: bool

record probe_flow =
  fl_id :: string
  fl_probes :: "probe list"

record topo_config =
  to_vpc_ids :: "string list"
  to_capacity :: int
  to_hosted_zones :: bool
  to_load_balancers :: bool
  to_cache :: int
  to_flows :: "probe_flow list"

text \<open>What a probe tests, in the graph; a target given by id is added when it is unknown.\<close>

definition probe_targets :: "topo_env \<Rightarrow> probe \<Rightarrow> graph \<Rightarrow> node list \<times> graph" where
  "probe_targets V pb g =
     (if pb_all pb then (filter (\<lambda>n. fst n = pb_type pb) (keys (gr_entities g)), g)
      else if truthy_str (pb_id pb) then
        (let n = (pb_type pb, the (pb_id pb))
         in ([n], if map_of (gr_entities g) n = None then g_add (te_str V) (fst n) (snd n) [] g else g))
      else (g_find (pb_type pb) (case pb_match pb of None \<Rightarrow> [] | Some m \<Rightarrow> m) g, g))"

definition probe_text :: "probe \<Rightarrow> string" where
  "probe_text pb = (if truthy_str (pb_id pb) then the (pb_id pb) else case pb_match pb of None \<Rightarrow> ''None'' | Some m \<Rightarrow> m)"

definition run_probe :: "topo_env \<Rightarrow> string \<Rightarrow> probe \<Rightarrow> graph \<times> string list \<Rightarrow> graph \<times> string list" where
  "run_probe V fid pb = (\<lambda>(g, errors).
     let (targets, g1) = probe_targets V pb g
     in (fold (\<lambda>t. g_link ''probes'' (''flow'', fid) t) targets g1,
         if targets = [] then errors @ [''flow '' @ fid @ '': no '' @ pb_type pb @ '' matches '' @ probe_text pb] else errors))"

definition run_flow :: "topo_env \<Rightarrow> probe_flow \<Rightarrow> graph \<times> string list \<Rightarrow> graph \<times> string list" where
  "run_flow V f = (\<lambda>(g, errors). fold (run_probe V (fl_id f)) (fl_probes f) (g_add (te_str V) ''flow'' (fl_id f) [] g, errors))"

definition run_step :: "string \<times> act \<Rightarrow> graph \<times> string list \<Rightarrow> graph \<times> string list" where
  "run_step = (\<lambda>(name, act) (g, errors).
     case act g of (g1, None) \<Rightarrow> (g1, errors) | (g1, Some e) \<Rightarrow> (g1, errors @ [take 200 (name @ '': '' @ error_text e)]))"

definition topology_steps :: "topo_env \<Rightarrow> aws_api \<Rightarrow> topo_config \<Rightarrow> string \<Rightarrow> (string \<times> act) list" where
  "topology_steps V A c region =
     [(''vpn'', vpn_step V A region (to_capacity c)), (''vpcs'', vpcs_step V A region (to_vpc_ids c)), (''tgw'', tgw_step V A region)] @
     (if to_load_balancers c then [(''elb'', elb_step V A region)] else []) @
     (if to_hosted_zones c then [(''dns'', dns_step V A)] else [])"

type_synonym topo_answer = "entity list \<times> topology_edge list \<times> coverage"

definition read_topology :: "topo_env \<Rightarrow> aws_api \<Rightarrow> aws_plugin \<Rightarrow> topo_config \<Rightarrow> string \<Rightarrow> topo_answer" where
  "read_topology V A p c region =
     (let (g, errors) = fold (run_flow V) (to_flows c) (fold run_step (topology_steps V A c region) (empty_graph, []))
      in (vals (gr_entities g), vals (gr_edges g),
          aws_coverage p (if errors = [] then CovOk else CovPartial) False (if errors = [] then None else Some (join_with ''; '' errors))))"

text \<open>The plugin's cache: a complete answer is kept for \<open>cache_seconds\<close> per region.\<close>

type_synonym topo_cache = "(string, time \<times> topo_answer) dict"

definition aws_topology :: "topo_env \<Rightarrow> aws_api \<Rightarrow> aws_plugin \<Rightarrow> topo_config \<Rightarrow> time \<Rightarrow> time \<Rightarrow> string \<Rightarrow> topo_cache
    \<Rightarrow> (aws_error + topo_answer) \<times> topo_cache" where
  "aws_topology V A p c now finished region cache =
     (case region_for p region of
        Inl e \<Rightarrow> (Inl e, cache)
      | Inr r \<Rightarrow>
          let fresh = (let answer = read_topology V A p c r
             in (Inr answer, if c_error (snd (snd answer)) = None then AList.update r (finished, answer) cache else cache))
          in (case map_of cache r of
                Some (t, answer) \<Rightarrow> if now - t < seconds (to_cache c) then (Inr answer, cache) else fresh
              | None \<Rightarrow> fresh))"

section \<open>Facts\<close>

text \<open>Entities are filed under their own names, and every edge joins known entities.\<close>

definition graph_ok :: "graph \<Rightarrow> bool" where
  "graph_ok g =
     (distinct (keys (gr_entities g)) \<and> distinct (keys (gr_edges g))
      \<and> (\<forall>(n, e) \<in> set (gr_entities g). entity_node e = n)
      \<and> (\<forall>((kind, a, b), x) \<in> set (gr_edges g). a \<in> set (keys (gr_entities g)) \<and> b \<in> set (keys (gr_entities g))
          \<and> t_rel x = kind \<and> entity_node (t_source x) = a \<and> entity_node (t_target x) = b))"

definition grows :: "graph \<Rightarrow> graph \<Rightarrow> bool" where
  "grows g g' = (graph_ok g \<longrightarrow> graph_ok g' \<and> set (keys (gr_entities g)) \<subseteq> set (keys (gr_entities g')))"

definition keeps :: "act \<Rightarrow> bool" where
  "keeps a = (\<forall>g. grows g (fst (a g)))"

named_theorems keeps_intros

lemma grows_refl [simp]: "grows g g" by (simp add: grows_def)
lemma grows_trans: "grows a b \<Longrightarrow> grows b c \<Longrightarrow> grows a c" by (auto simp: grows_def)

lemma set_update_distinct: "distinct (keys d) \<Longrightarrow> set (AList.update k v d) = insert (k, v) {x \<in> set d. fst x \<noteq> k}"
  by (induction d) (auto simp: keys_def rev_image_eqI)

lemma g_add_grows: "grows g (g_add F t i labels g)"
  unfolding grows_def
proof (intro impI conjI)
  assume ok: "graph_ok g"
  show "set (keys (gr_entities g)) \<subseteq> set (keys (gr_entities (g_add F t i labels g)))"
    by (auto simp: g_add_def Let_def keys_update)
  show "graph_ok (g_add F t i labels g)"
    using ok by (auto simp: graph_ok_def g_add_def Let_def keys_update distinct_keys_update set_update_distinct)
qed

lemma g_link_grows: "grows g (g_link kind a b g)"
proof (cases "map_of (gr_entities g) a")
  case None
  then show ?thesis by (simp add: g_link_def)
next
  case a: (Some x)
  show ?thesis
  proof (cases "map_of (gr_entities g) b")
    case None
    then show ?thesis using a by (simp add: g_link_def)
  next
    case b: (Some y)
    have mem: "(a, x) \<in> set (gr_entities g)" "(b, y) \<in> set (gr_entities g)" using map_of_SomeD [OF a] map_of_SomeD [OF b] .
    then have "a \<in> set (keys (gr_entities g))" "b \<in> set (keys (gr_entities g))" by (force simp: keys_def)+
    moreover have "entity_node x = a \<and> entity_node y = b" if "graph_ok g" using that mem by (auto simp: graph_ok_def)
    ultimately show ?thesis using a b
      by (auto simp: grows_def g_link_def graph_ok_def distinct_keys_update set_update_distinct)
  qed
qed

lemma keeps_pure: "(\<And>g. grows g (f g)) \<Longrightarrow> keeps (pure_act f)"
  by (simp add: keeps_def pure_act_def)

lemma keeps_skip [keeps_intros]: "keeps skip"
  by (simp add: keeps_def pure_act_def)

lemma keeps_add [keeps_intros]: "keeps (add_node V t i labels)"
  by (simp add: add_node_def keeps_pure g_add_grows)

lemma keeps_link [keeps_intros]: "keeps (link_nodes kind a b)"
  by (simp add: link_nodes_def keeps_pure g_link_grows)

lemma keeps_fail [keeps_intros]: "keeps (\<lambda>g. (g, Some e))"
  by (simp add: keeps_def)

lemma keeps_value [keeps_intros]: "(\<And>v. keeps (f v)) \<Longrightarrow> keeps (with_value x f)"
  by (cases x) (simp_all add: with_value_def keeps_fail)

lemma keeps_nil [keeps_intros]: "keeps (do_all [])"
  by (simp add: keeps_def)

lemma keeps_cons [keeps_intros]:
  assumes "keeps a" and "keeps (do_all as)"
  shows "keeps (do_all (a # as))"
  unfolding keeps_def
proof
  fix g
  obtain g1 e where a: "a g = (g1, e)" by (cases "a g")
  have g1: "grows g g1" using assms(1) a by (auto simp: keeps_def dest: spec [of _ g])
  show "grows g (fst (do_all (a # as) g))"
  proof (cases e)
    case None
    have "grows g1 (fst (do_all as g1))" using assms(2) by (simp add: keeps_def)
    then show ?thesis using a None grows_trans [OF g1] by simp
  next
    case (Some x)
    then show ?thesis using a g1 by simp
  qed
qed

lemma keeps_map [keeps_intros]: "(\<And>x. keeps (f x)) \<Longrightarrow> keeps (do_all (map f xs))"
  by (induction xs) (simp_all add: keeps_nil keeps_cons)

lemma keeps_link_value [keeps_intros]: "keeps (link_value kind a t v)"
  by (cases v) (simp_all add: link_value_def keeps_link keeps_fail keeps_skip)

lemma keeps_items [keeps_intros]: "(\<And>x. keeps (f x)) \<Longrightarrow> keeps (each_item A service region op key params f)"
  unfolding each_item_def by (intro keeps_value keeps_map)

lemma keeps_if [keeps_intros]: "keeps a \<Longrightarrow> keeps b \<Longrightarrow> keeps (if c then a else b)"
  by simp

lemma keeps_option [keeps_intros]: "keeps a \<Longrightarrow> (\<And>x. keeps (f x)) \<Longrightarrow> keeps (case v of None \<Rightarrow> a | Some x \<Rightarrow> f x)"
  by (cases v) simp_all

lemma keeps_pyval [keeps_intros]:
  "(\<And>s. keeps (f s)) \<Longrightarrow> keeps b \<Longrightarrow> keeps (case v of PStr s \<Rightarrow> f s | _ \<Rightarrow> b)"
  "(\<And>xs. keeps (h xs)) \<Longrightarrow> keeps b \<Longrightarrow> keeps (case v of PList xs \<Rightarrow> h xs | _ \<Rightarrow> b)"
  "(\<And>d. keeps (k d)) \<Longrightarrow> keeps b \<Longrightarrow> keeps (case v of PDict d \<Rightarrow> k d | _ \<Rightarrow> b)"
  by (cases v; simp)+

lemma keeps_pair [keeps_intros]: "(\<And>a b. keeps (f a b)) \<Longrightarrow> keeps (case x of (a, b) \<Rightarrow> f a b)"
  by (cases x) simp

subsection \<open>The steps only add\<close>

lemma keeps_vpn: "keeps (vpn_step V A region capacity)"
  unfolding vpn_step_def vpn_conn_def tunnel_act_def Let_def by (intro keeps_intros)

lemma keeps_tgw: "keeps (tgw_step V A region)"
proof -
  have "keeps (\<lambda>g. do_all (map (propagation_act A region) (xs g)) g)" for xs
  proof -
    have "keeps (propagation_act A region n)" for n unfolding propagation_act_def by (intro keeps_intros)
    then have "keeps (do_all (map (propagation_act A region) ys))" for ys by (rule keeps_map)
    then show ?thesis by (simp add: keeps_def)
  qed
  then show ?thesis
    unfolding tgw_step_def route_table_act_def attachment_act_def Let_def by (intro keeps_intros)
qed

lemma keeps_vpcs: "keeps (vpcs_step V A region ids)"
  unfolding vpcs_step_def Let_def vpc_act_def reservation_act_def instance_act_def in_vpc_act_def subnet_act_def nat_act_def
    peering_act_def vpc_table_act_def route_act_def acl_act_def group_act_def eni_act_def
  by (intro keeps_intros)

lemma keeps_elb: "keeps (elb_step V A region)"
  unfolding elb_step_def balancer_act_def target_group_act_def target_act_def in_vpc_act_def by (intro keeps_intros)

lemma keeps_dns: "keeps (dns_step V A)"
  unfolding dns_step_def zone_act_def Let_def by (intro keeps_intros)

lemma keeps_steps: "(name, act) \<in> set (topology_steps V A c region) \<Longrightarrow> keeps act"
  by (auto simp: topology_steps_def keeps_vpn keeps_tgw keeps_vpcs keeps_elb keeps_dns split: if_splits)

lemma fold_grows: "(\<And>x a. x \<in> set xs \<Longrightarrow> grows (fst a) (fst (f x a))) \<Longrightarrow> grows (fst a) (fst (fold f xs a))"
proof (induction xs arbitrary: a)
  case (Cons x xs)
  have "grows (fst (f x a)) (fst (fold f xs (f x a)))" by (rule Cons.IH) (simp add: Cons.prems)
  then show ?case using grows_trans [OF Cons.prems [of x a]] by simp
qed simp

lemma run_step_grows:
  assumes "keeps act"
  shows "grows (fst a) (fst (run_step (name, act) a))"
proof -
  obtain g errors where a: "a = (g, errors)" by (cases a)
  have "grows g (fst (act g))" using assms by (simp add: keeps_def)
  then show ?thesis by (cases "act g") (auto simp: run_step_def a split: option.splits)
qed

lemma run_probe_grows: "grows (fst a) (fst (run_probe V fid pb a))"
proof -
  obtain g errors where a: "a = (g, errors)" by (cases a)
  obtain targets g1 where t: "probe_targets V pb g = (targets, g1)" by (cases "probe_targets V pb g")
  have g1: "grows g g1" using t by (auto simp: probe_targets_def Let_def g_add_grows split: if_splits)
  have "grows g1 (fold (\<lambda>t. g_link ''probes'' (''flow'', fid) t) targets g1)"
  proof (induction targets arbitrary: g1)
    case (Cons t ts)
    show ?case using grows_trans [OF g_link_grows Cons.IH] by simp
  qed simp
  then show ?thesis using grows_trans [OF g1] by (simp add: run_probe_def a t)
qed

lemma run_flow_grows: "grows (fst a) (fst (run_flow V f a))"
proof -
  obtain g errors where a: "a = (g, errors)" by (cases a)
  have "grows (g_add (te_str V) ''flow'' (fl_id f) [] g)
      (fst (fold (run_probe V (fl_id f)) (fl_probes f) (g_add (te_str V) ''flow'' (fl_id f) [] g, errors)))"
    using fold_grows [of "fl_probes f" "run_probe V (fl_id f)" "(g_add (te_str V) ''flow'' (fl_id f) [] g, errors)"]
    by (simp add: run_probe_grows)
  then show ?thesis using grows_trans [OF g_add_grows] by (simp add: run_flow_def a)
qed

lemma run_flow_present:
  assumes "graph_ok (fst a)"
  shows "(''flow'', fl_id f) \<in> set (keys (gr_entities (fst (run_flow V f a))))"
proof -
  obtain g errors where a: "a = (g, errors)" by (cases a)
  let ?g1 = "g_add (te_str V) ''flow'' (fl_id f) [] g"
  have ok: "graph_ok ?g1" using assms g_add_grows [of g "te_str V" "''flow''" "fl_id f" "[]"] by (simp add: a grows_def)
  have "grows ?g1 (fst (fold (run_probe V (fl_id f)) (fl_probes f) (?g1, errors)))"
    using fold_grows [of "fl_probes f" "run_probe V (fl_id f)" "(?g1, errors)"] by (simp add: run_probe_grows)
  moreover have "(''flow'', fl_id f) \<in> set (keys (gr_entities ?g1))" by (simp add: g_add_def Let_def keys_update)
  ultimately show ?thesis using ok by (auto simp: run_flow_def a grows_def)
qed

lemma flows_present:
  "graph_ok (fst a) \<Longrightarrow> f \<in> set fs \<Longrightarrow> (''flow'', fl_id f) \<in> set (keys (gr_entities (fst (fold (run_flow V) fs a))))"
proof (induction fs arbitrary: a)
  case (Cons x fs)
  have ok: "graph_ok (fst (run_flow V x a))" using Cons.prems(1) run_flow_grows [of a V x] by (simp add: grows_def)
  have rest: "grows (fst (run_flow V x a)) (fst (fold (run_flow V) fs (run_flow V x a)))"
    by (rule fold_grows) (rule run_flow_grows)
  show ?case
  proof (cases "f = x")
    case True
    then show ?thesis using run_flow_present [OF Cons.prems(1), of f V] rest ok by (auto simp: grows_def)
  next
    case False
    then show ?thesis using Cons.IH [OF ok] Cons.prems(2) by simp
  qed
qed simp

text \<open>A topology whose edges join its own entities, each listed once.\<close>

definition closed_topology :: "entity list \<Rightarrow> topology_edge list \<Rightarrow> bool" where
  "closed_topology es edges =
     (distinct (map entity_node es) \<and> distinct (map (\<lambda>x. (t_rel x, entity_node (t_source x), entity_node (t_target x))) edges)
      \<and> (\<forall>x\<in>set edges. entity_node (t_source x) \<in> entity_node ` set es \<and> entity_node (t_target x) \<in> entity_node ` set es))"

lemma closed_of_graph:
  assumes "graph_ok g"
  shows "closed_topology (vals (gr_entities g)) (vals (gr_edges g))" and "entity_node ` set (vals (gr_entities g)) = set (keys (gr_entities g))"
proof -
  have ns: "map entity_node (vals (gr_entities g)) = keys (gr_entities g)"
    using assms by (auto simp: graph_ok_def vals_def keys_def)
  have es: "map (\<lambda>x. (t_rel x, entity_node (t_source x), entity_node (t_target x))) (vals (gr_edges g)) = keys (gr_edges g)"
    using assms by (fastforce simp: graph_ok_def vals_def keys_def)
  show img: "entity_node ` set (vals (gr_entities g)) = set (keys (gr_entities g))" using arg_cong [OF ns, of set] by simp
  have "entity_node (t_source x) \<in> set (keys (gr_entities g)) \<and> entity_node (t_target x) \<in> set (keys (gr_entities g))"
    if "x \<in> set (vals (gr_edges g))" for x
    using that assms by (fastforce simp: graph_ok_def vals_def)
  then show "closed_topology (vals (gr_entities g)) (vals (gr_edges g))"
    using assms by (simp add: closed_topology_def ns es img graph_ok_def)
qed

lemma read_topology_closed:
  assumes "read_topology V A p c region = (es, edges, cov)"
  shows "closed_topology es edges \<and> (\<forall>f\<in>set (to_flows c). (''flow'', fl_id f) \<in> entity_node ` set es)"
    and "c_status cov = CovOk \<longleftrightarrow> c_error cov = None"
proof -
  let ?a = "fold run_step (topology_steps V A c region) (empty_graph, [])"
  obtain g errors where run: "fold (run_flow V) (to_flows c) ?a = (g, errors)" by (cases "fold (run_flow V) (to_flows c) ?a")
  have "grows (fst b) (fst (run_step x b))" if "x \<in> set (topology_steps V A c region)" for x b
    using that keeps_steps [of "fst x" "snd x"] run_step_grows [of "snd x" b "fst x"] by simp
  then have "grows empty_graph (fst ?a)"
    using fold_grows [of "topology_steps V A c region" run_step "(empty_graph, [])"] by simp
  moreover have "graph_ok empty_graph" by (simp add: graph_ok_def empty_graph_def keys_def)
  ultimately have ok: "graph_ok (fst ?a)" by (simp add: grows_def)
  have "grows (fst ?a) (fst (fold (run_flow V) (to_flows c) ?a))" by (rule fold_grows) (rule run_flow_grows)
  then have g: "graph_ok g" using ok run by (simp add: grows_def)
  have res: "es = vals (gr_entities g)" "edges = vals (gr_edges g)"
      "cov = aws_coverage p (if errors = [] then CovOk else CovPartial) False (if errors = [] then None else Some (join_with ''; '' errors))"
    using assms run by (simp_all add: read_topology_def)
  have "\<forall>f\<in>set (to_flows c). (''flow'', fl_id f) \<in> set (keys (gr_entities g))"
    using flows_present [OF ok, of _ "to_flows c" V] run by simp
  then show "closed_topology es edges \<and> (\<forall>f\<in>set (to_flows c). (''flow'', fl_id f) \<in> entity_node ` set es)"
    using closed_of_graph [OF g] by (simp add: res)
  show "c_status cov = CovOk \<longleftrightarrow> c_error cov = None" by (simp add: res aws_coverage_def)
qed

text \<open>The cache over a sequence of calls, each with the API as it was then.\<close>

record topo_call =
  tk_api :: aws_api
  tk_now :: time
  tk_done :: time
  tk_region :: string

definition call_topology :: "topo_env \<Rightarrow> aws_plugin \<Rightarrow> topo_config \<Rightarrow> topo_call \<Rightarrow> topo_cache \<Rightarrow> topo_cache" where
  "call_topology V p c k cache = snd (aws_topology V (tk_api k) p c (tk_now k) (tk_done k) (tk_region k) cache)"

definition answer_ok :: "topo_config \<Rightarrow> topo_answer \<Rightarrow> bool" where
  "answer_ok c ans = (case ans of (es, edges, cov) \<Rightarrow>
     closed_topology es edges \<and> (\<forall>f\<in>set (to_flows c). (''flow'', fl_id f) \<in> entity_node ` set es)
     \<and> (c_status cov = CovOk \<longleftrightarrow> c_error cov = None))"

definition cache_ok :: "topo_config \<Rightarrow> topo_cache \<Rightarrow> bool" where
  "cache_ok c cache = (\<forall>(r, t, ans) \<in> set cache. answer_ok c ans \<and> c_status (snd (snd ans)) = CovOk)"

lemma read_answer_ok: "answer_ok c (read_topology V A p c r)"
proof -
  obtain es edges cov where a: "read_topology V A p c r = (es, edges, cov)" by (cases "read_topology V A p c r")
  show ?thesis using read_topology_closed [OF a] by (simp add: a answer_ok_def)
qed

lemma aws_topology_step:
  assumes "cache_ok c cache"
  shows "cache_ok c (snd (aws_topology V A p c now finished region cache))"
    and "fst (aws_topology V A p c now finished region cache) = Inr ans \<Longrightarrow> answer_ok c ans
      \<and> (c_status (snd (snd ans)) \<noteq> CovOk \<longrightarrow> (\<exists>r. region_for p region = Inr r \<and> ans = read_topology V A p c r))"
proof -
  have new: "cache_ok c (AList.update r (t, read_topology V A p c r) cache)"
    if "c_error (snd (snd (read_topology V A p c r))) = None" for r t
  proof -
    have "set (AList.update r v d) \<subseteq> insert (r, v) (set d)" for v and d :: topo_cache
      by (induction d) auto
    from subsetD [OF this] have sub: "x = (r, t, read_topology V A p c r) \<or> x \<in> set cache"
      if "x \<in> set (AList.update r (t, read_topology V A p c r) cache)" for x using that by blast
    moreover have "c_status (snd (snd (read_topology V A p c r))) = CovOk"
      using read_answer_ok [of c V A p r] that by (simp add: answer_ok_def split: prod.splits)
    ultimately show ?thesis using assms read_answer_ok [of c V A p r]
      unfolding cache_ok_def by (intro ballI) (drule sub, elim disjE, simp, blast)
  qed
  have cached: "answer_ok c ans \<and> c_status (snd (snd ans)) = CovOk" if "map_of cache r = Some (t, ans)" for r t ans
    using map_of_SomeD [OF that] assms by (auto simp: cache_ok_def)
  show "cache_ok c (snd (aws_topology V A p c now finished region cache))"
  proof (cases "region_for p region")
    case (Inl e)
    then show ?thesis using assms by (simp add: aws_topology_def)
  next
    case (Inr r)
    show ?thesis
    proof (cases "map_of cache r")
      case None
      then show ?thesis using Inr new [of r] assms by (simp add: aws_topology_def Let_def)
    next
      case (Some x)
      then show ?thesis using Inr new [of r] assms by (cases x) (simp add: aws_topology_def Let_def)
    qed
  qed
  assume ans: "fst (aws_topology V A p c now finished region cache) = Inr ans"
  then show "answer_ok c ans
      \<and> (c_status (snd (snd ans)) \<noteq> CovOk \<longrightarrow> (\<exists>r. region_for p region = Inr r \<and> ans = read_topology V A p c r))"
  proof (cases "region_for p region")
    case (Inl e)
    then show ?thesis using ans by (simp add: aws_topology_def)
  next
    case (Inr r)
    have "ans = read_topology V A p c r \<or> (\<exists>t. map_of cache r = Some (t, ans))"
    proof (cases "map_of cache r")
      case None
      then show ?thesis using Inr ans by (simp add: aws_topology_def Let_def)
    next
      case (Some x)
      then show ?thesis using Inr ans by (cases x) (auto simp: aws_topology_def Let_def split: if_splits)
    qed
    then show ?thesis
    proof
      assume "ans = read_topology V A p c r"
      then show ?thesis using Inr read_answer_ok [of c V A p r] by simp
    next
      assume "\<exists>t. map_of cache r = Some (t, ans)"
      then obtain t where "map_of cache r = Some (t, ans)" ..
      then show ?thesis using cached by simp
    qed
  qed
qed

section \<open>Properties\<close>

text \<open>
  C18: the topology never has a loose end. Whatever the describe calls answer and wherever a
  step raises, now or in any earlier call, an answer lists every entity and every relationship
  once, its relationships join listed entities only and every configured flow is listed; and
  an incomplete answer is one just read, never one from the cache.
\<close>

theorem topology_closed:
  assumes "cache = fold (call_topology V p c) calls []"
    and "fst (aws_topology V A p c now finished region cache) = Inr (es, edges, cov)"
  shows "distinct (map entity_node es)
    \<and> distinct (map (\<lambda>x. (t_rel x, entity_node (t_source x), entity_node (t_target x))) edges)
    \<and> (\<forall>x\<in>set edges. entity_node (t_source x) \<in> entity_node ` set es \<and> entity_node (t_target x) \<in> entity_node ` set es)
    \<and> (\<forall>f\<in>set (to_flows c). (''flow'', fl_id f) \<in> entity_node ` set es)
    \<and> (c_status cov \<noteq> CovOk \<longrightarrow> (\<exists>r. region_for p region = Inr r \<and> (es, edges, cov) = read_topology V A p c r))"
proof -
  have "cache_ok c st \<Longrightarrow> cache_ok c (fold (call_topology V p c) calls st)" for st
    by (induction calls arbitrary: st) (simp_all add: call_topology_def aws_topology_step(1))
  from this [of "[]"] have "cache_ok c cache" by (simp add: assms(1) cache_ok_def)
  from aws_topology_step(2) [OF this assms(2)] show ?thesis
    by (auto simp: answer_ok_def closed_topology_def)
qed

text \<open>A lab with one tunnel, read once; DescribeVpcs fails.\<close>

definition ex_tplugin :: aws_plugin where
  "ex_tplugin = \<lparr>pl_name = ''aws_topology'', pl_domains = [''topology''], pl_required = True, pl_timeout = 10, ap_profile = None,
     ap_region = Some ''eu-west-1''\<rparr>"

definition ex_tapi :: aws_api where
  "ex_tapi = \<lparr>aa_pages = \<lambda>_ _ op _. if op = ''describe_vpcs'' then ([], Some (ApiError ''ClientError'' ''denied'')) else ([], None),
     aa_call = \<lambda>_ _ _ _. Inr [(''VpnConnections'', PList [PDict [(''VpnConnectionId'', PStr ''vpn-1''),
       (''VgwTelemetry'', PList [PDict [(''OutsideIpAddress'', PStr ''198.51.100.1'')]])]])]\<rparr>"

definition ex_tconfig :: topo_config where
  "ex_tconfig = \<lparr>to_vpc_ids = [], to_capacity = 9, to_hosted_zones = False, to_load_balancers = False, to_cache = 300,
     to_flows = [\<lparr>fl_id = ''onprem'', fl_probes = [\<lparr>pb_type = ''tunnel'', pb_id = None, pb_match = None, pb_all = True\<rparr>]\<rparr>]\<rparr>"

definition ex_tenv :: topo_env where
  "ex_tenv = \<lparr>te_str = \<lambda>_. [], te_host = \<lambda>_. None\<rparr>"

definition ex_calls :: "topo_call list" where
  "ex_calls = [\<lparr>tk_api = ex_tapi, tk_now = 0, tk_done = 1, tk_region = ''eu-west-1''\<rparr>]"

theorem topology_closed_witness:
  "case fst (aws_topology ex_tenv ex_tapi ex_tplugin ex_tconfig 5 6 ''eu-west-1'' (fold (call_topology ex_tenv ex_tplugin ex_tconfig) ex_calls [])) of
     Inl _ \<Rightarrow> False
   | Inr (es, edges, cov) \<Rightarrow> map entity_node es = [(''vpn_connection'', ''vpn-1''), (''tunnel'', ''vpn-1-tunnel-1''), (''flow'', ''onprem'')]
      \<and> map t_rel edges = [''member_of'', ''probes''] \<and> c_status cov = CovPartial
      \<and> (\<forall>x\<in>set edges. entity_node (t_source x) \<in> entity_node ` set es \<and> entity_node (t_target x) \<in> entity_node ` set es)"
proof -
  let ?ans = "fst (aws_topology ex_tenv ex_tapi ex_tplugin ex_tconfig 5 6 ''eu-west-1''
      (fold (call_topology ex_tenv ex_tplugin ex_tconfig) ex_calls []))"
  have run: "case ?ans of Inl _ \<Rightarrow> False
   | Inr (es, edges, cov) \<Rightarrow> map entity_node es = [(''vpn_connection'', ''vpn-1''), (''tunnel'', ''vpn-1-tunnel-1''), (''flow'', ''onprem'')]
      \<and> map t_rel edges = [''member_of'', ''probes''] \<and> c_status cov = CovPartial"
    by code_simp
  obtain x where x: "?ans = Inr x"
  proof (cases ?ans)
    case (Inl e)
    then show ?thesis using run by (simp only: sum.case)
  qed
  obtain es edges cov where "x = (es, edges, cov)" by (cases x)
  with x have ans: "?ans = Inr (es, edges, cov)" by (simp only:)
  note all = topology_closed [OF refl ans]
  note got = run [unfolded ans sum.case prod.case]
  show ?thesis
    unfolding ans sum.case prod.case
    by (rule conjI, rule conjunct1 [OF got], rule conjI, rule conjunct1 [OF conjunct2 [OF got]], rule conjI,
        rule conjunct2 [OF conjunct2 [OF got]], rule conjunct1 [OF conjunct2 [OF conjunct2 [OF all]]])
qed

end
