(* ===== verification/Prometheus.thy ===== *)
theory Prometheus
  imports Telemetry Json
begin

text \<open>
  Prometheus and Mimir range queries (\<open>plugins/prometheus.py\<close>): every configured query is read
  over the window, each series that carries the entity's label becomes an entity and its
  samples metric signals, up to \<open>max_series\<close> series over all queries. HTTP and JSON are a
  parameter, which gives the parsed body of one range query or its exception; so are the texts
  of numbers and times.
\<close>

section \<open>Configuration\<close>

datatype prom_auth = NoAuth | BearerEnv | BasicEnv

record prom_query =
  pq_name :: string
  pq_expr :: string
  pq_etype :: string
  pq_eid :: string
  pq_labels :: "string list"
  pq_capacity :: "string option"
  pq_unit :: "string option"

record prom_config =
  pm_url :: string
  pm_tenant :: "string option"
  pm_auth :: string
  pm_token_env :: "string option"
  pm_user_env :: "string option"
  pm_password_env :: "string option"
  pm_step :: nat
  pm_timeout :: real
  pm_max_series :: nat
  pm_queries :: "prom_query list"

definition auth_of :: "string \<Rightarrow> prom_auth option" where
  "auth_of s = (if s = ''none'' then Some NoAuth else if s = ''bearer_env'' then Some BearerEnv
     else if s = ''basic_env'' then Some BasicEnv else None)"

text \<open>The bounds the model declares; the first field out of them is the one reported.\<close>

definition check_prom :: "prom_config \<Rightarrow> string + unit" where
  "check_prom c =
     (if auth_of (pm_auth c) = None then Inl ''ConfigValidationError: sources.prometheus: auth''
      else if pm_step c = 0 then Inl ''ConfigValidationError: sources.prometheus: step_seconds''
      else if pm_timeout c \<le> 0 then Inl ''ConfigValidationError: sources.prometheus: timeout_seconds''
      else if pm_max_series c = 0 then Inl ''ConfigValidationError: sources.prometheus: max_series''
      else if pm_queries c = [] then Inl ''ConfigValidationError: sources.prometheus: queries''
      else Inr ())"

section \<open>Requests\<close>

text \<open>\<open>os.environ.get(name or "", "")\<close>.\<close>

definition env_or_empty :: "(string \<Rightarrow> string option) \<Rightarrow> string option \<Rightarrow> string" where
  "env_or_empty env name =
     (case env (case name of None \<Rightarrow> [] | Some s \<Rightarrow> s) of None \<Rightarrow> [] | Some v \<Rightarrow> v)"

definition client_headers :: "(string \<Rightarrow> string option) \<Rightarrow> prom_config \<Rightarrow> (string, string) dict" where
  "client_headers env c =
     (case pm_tenant c of Some (t # ts) \<Rightarrow> [(''X-Scope-OrgID'', t # ts)] | _ \<Rightarrow> [])
     @ (if pm_auth c = ''bearer_env'' then [(''Authorization'', ''Bearer '' @ env_or_empty env (pm_token_env c))] else [])"

definition client_auth :: "(string \<Rightarrow> string option) \<Rightarrow> prom_config \<Rightarrow> (string \<times> string) option" where
  "client_auth env c =
     (if pm_auth c = ''basic_env''
      then Some (env_or_empty env (pm_user_env c), env_or_empty env (pm_password_env c)) else None)"

datatype prom_error =
    RequestFailed string
  | QueryFailed string string
  | BadBody string
  | BadStamp real

record prom_env =
  pv_str :: "pyval \<Rightarrow> string"
  pv_iso :: "time \<Rightarrow> string"
  pv_get :: "string \<Rightarrow> time \<Rightarrow> time \<Rightarrow> nat \<Rightarrow> prom_error + pyval"

text \<open>\<open>_range\<close>: the series of a successful answer.\<close>

definition prom_range :: "prom_env \<Rightarrow> prom_config \<Rightarrow> string \<Rightarrow> time \<Rightarrow> time \<Rightarrow> prom_error + pyval list" where
  "prom_range V c expr start finish =
     and_then (pv_get V expr start finish (pm_step c)) (\<lambda>answer.
     case as_dict answer of
       None \<Rightarrow> Inl (BadBody ''body'')
     | Some body \<Rightarrow>
         if get_or body ''status'' PNone \<noteq> PStr ''success''
         then Inl (QueryFailed (py_str (pv_str V) (get_or body ''errorType'' PNone)) (py_str (pv_str V) (get_or body ''error'' PNone)))
         else (case as_dict (get_or body ''data'' (PDict [])) of
                 None \<Rightarrow> Inl (BadBody ''data'')
               | Some d \<Rightarrow> (case get_or d ''result'' (PList []) of PList xs \<Rightarrow> Inr xs | _ \<Rightarrow> Inl (BadBody ''result''))))"

section \<open>Series\<close>

type_synonym labels = "(string, pyval) dict"

text \<open>A series and its labels; an answer of another shape raises.\<close>

definition series_labels :: "pyval \<Rightarrow> prom_error + (string, pyval) dict \<times> labels" where
  "series_labels x =
     (case as_dict x of
        None \<Rightarrow> Inl (BadBody ''series'')
      | Some sr \<Rightarrow> (case as_dict (get_or sr ''metric'' (PDict [])) of
                      None \<Rightarrow> Inl (BadBody ''metric'') | Some ls \<Rightarrow> Inr (sr, ls)))"

definition label_id :: "prom_query \<Rightarrow> labels \<Rightarrow> pyval option" where
  "label_id pq ls = (case get_or ls (pq_eid pq) PNone of PNone \<Rightarrow> None | v \<Rightarrow> Some v)"

definition second :: "pyval \<Rightarrow> prom_error + pyval" where
  "second v = (case v of PList (_ # y # _) \<Rightarrow> Inr y | _ \<Rightarrow> Inl (BadBody ''values''))"

definition hashed :: "pyval \<Rightarrow> prom_error + pyval" where
  "hashed v = (case hashable v of None \<Rightarrow> Inl (BadBody ''label'') | Some k \<Rightarrow> Inr k)"

definition capacity_step :: "prom_query \<Rightarrow> pyval \<Rightarrow> (pyval, pyval) dict \<Rightarrow> prom_error + (pyval, pyval) dict" where
  "capacity_step pq x caps =
     and_then (series_labels x) (\<lambda>(sr, ls).
     case label_id pq ls of
       None \<Rightarrow> Inr caps
     | Some i \<Rightarrow>
         (case get_or sr ''values'' PNone of
            PList (v # vs) \<Rightarrow> and_then (second (last (v # vs))) (\<lambda>y. and_then (hashed i) (\<lambda>k. Inr (AList.update k y caps)))
          | other \<Rightarrow> if truthy other then Inl (BadBody ''values'') else Inr caps))"

definition capacities :: "prom_env \<Rightarrow> prom_config \<Rightarrow> prom_query \<Rightarrow> time \<Rightarrow> prom_error + (pyval, pyval) dict" where
  "capacities V c pq finish =
     (case pq_capacity pq of
        Some (e # es) \<Rightarrow> and_then (prom_range V c (e # es) finish finish) (\<lambda>xs. fold_sum (capacity_step pq) xs [])
      | _ \<Rightarrow> Inr [])"

definition kept_labels :: "prom_env \<Rightarrow> prom_query \<Rightarrow> labels \<Rightarrow> pyval \<Rightarrow> (pyval, pyval) dict \<Rightarrow> (string, string) dict" where
  "kept_labels V pq ls i caps =
     (let kept = dict_merge [] (List.map_filter (\<lambda>k. map_option (\<lambda>v. (k, py_str (pv_str V) v)) (map_of ls k)) (pq_labels pq))
      in case map_of caps i of None \<Rightarrow> kept | Some y \<Rightarrow> AList.update ''capacity_bps'' (py_str (pv_str V) y) kept)"

definition selector :: "prom_env \<Rightarrow> labels \<Rightarrow> string" where
  "selector V ls = join_with '','' (map (\<lambda>(k, v). k @ ''='' @ py_str (pv_str V) v) (sort_key fst ls))"

text \<open>\<open>datetime.fromtimestamp\<close>.\<close>

definition stamp_of :: "real \<Rightarrow> prom_error + time" where
  "stamp_of x = (if x < - 62135596800 \<or> 253402300800 \<le> x then Inl (BadStamp x) else Inr (round_half_even (x * 1000000)))"

text \<open>One sample; a value that is no number is passed over, a time that is none raises.\<close>

definition sample :: "prom_env \<Rightarrow> string \<Rightarrow> time \<Rightarrow> prom_query \<Rightarrow> string \<Rightarrow> entity \<Rightarrow> labels \<Rightarrow> pyval \<Rightarrow> prom_error + signal list" where
  "sample V source observed pq region ent ls x =
     (case x of
        PList [ts, raw] \<Rightarrow>
          (case py_float raw of
             None \<Rightarrow> Inr []
           | Some value \<Rightarrow>
               (case py_float ts of
                  None \<Rightarrow> Inl (BadBody ''timestamp'')
                | Some t \<Rightarrow>
                    and_then (stamp_of t) (\<lambda>at_time.
                    Inr [\<lparr>s_type = Metric, s_timestamp = at_time, s_observed_at = observed, s_entity = ent, s_name = pq_name pq,
                          s_value = Some value, s_unit = pq_unit pq, s_severity = Info, s_domain = ''metrics'', s_source = source,
                          s_attributes = [(''expr'', PStr (pq_expr pq)), (''region'', PStr region)],
                          s_evidence_ref = Some (''prometheus:'' @ pq_name pq @ ''{'' @ selector V ls @ ''}@'' @ pv_iso V at_time)\<rparr>])))
      | _ \<Rightarrow> Inl (BadBody ''values''))"

definition series_entity :: "prom_env \<Rightarrow> prom_query \<Rightarrow> labels \<Rightarrow> pyval \<Rightarrow> (pyval, pyval) dict \<Rightarrow> entity" where
  "series_entity V pq ls i caps = \<lparr>e_type = pq_etype pq, e_id = py_str (pv_str V) i, e_labels = kept_labels V pq ls i caps\<rparr>"

definition series_signals :: "prom_env \<Rightarrow> string \<Rightarrow> time \<Rightarrow> prom_query \<Rightarrow> string \<Rightarrow> (pyval, pyval) dict
    \<Rightarrow> (string, pyval) dict \<Rightarrow> labels \<Rightarrow> pyval \<Rightarrow> prom_error + signal list" where
  "series_signals V source observed pq region caps sr ls i =
     and_then (hashed i) (\<lambda>k.
     case get_or sr ''values'' (PList []) of
       PList xs \<Rightarrow>
         and_then (traverse (sample V source observed pq region (series_entity V pq ls k caps) ls) xs) (\<lambda>sss. Inr (concat sss))
     | _ \<Rightarrow> Inl (BadBody ''values''))"

section \<open>The fetch\<close>

record prom_state =
  ps_signals :: "signal list"
  ps_seen :: nat
  ps_capped :: bool

text \<open>The loop over the series of one query; the cap ends it, and marks the answer cut.\<close>

fun series_loop :: "prom_env \<Rightarrow> prom_config \<Rightarrow> string \<Rightarrow> time \<Rightarrow> telemetry_query \<Rightarrow> prom_query \<Rightarrow> (pyval, pyval) dict
    \<Rightarrow> pyval list \<Rightarrow> prom_state \<Rightarrow> prom_error + prom_state" where
  "series_loop V c source observed q pq caps [] st = Inr st"
| "series_loop V c source observed q pq caps (x # xs) st =
     and_then (series_labels x) (\<lambda>(sr, ls).
     case label_id pq ls of
       None \<Rightarrow> series_loop V c source observed q pq caps xs st
     | Some i \<Rightarrow>
         if ps_seen st \<ge> pm_max_series c then Inr (st\<lparr>ps_capped := True\<rparr>)
         else and_then (series_signals V source observed pq (q_region q) caps sr ls i) (\<lambda>ss.
              series_loop V c source observed q pq caps xs
                (st\<lparr>ps_signals := ps_signals st @ filter (query_matches q) ss, ps_seen := ps_seen st + 1\<rparr>)))"

definition query_step :: "prom_env \<Rightarrow> prom_config \<Rightarrow> string \<Rightarrow> time \<Rightarrow> telemetry_query \<Rightarrow> prom_query \<Rightarrow> prom_state
    \<Rightarrow> prom_error + prom_state" where
  "query_step V c source observed q pq st =
     and_then (capacities V c pq (q_end q)) (\<lambda>caps.
     and_then (prom_range V c (pq_expr pq) (lower_bound q) (q_end q)) (\<lambda>xs.
     series_loop V c source observed q pq caps xs st))"

definition prom_fetch :: "prom_env \<Rightarrow> prom_config \<Rightarrow> plugin \<Rightarrow> time \<Rightarrow> telemetry_query \<Rightarrow> prom_error + signal list \<times> coverage" where
  "prom_fetch V c p observed q =
     and_then (fold_sum (query_step V c (pl_name p) observed q) (pm_queries c) \<lparr>ps_signals = [], ps_seen = 0, ps_capped = False\<rparr>) (\<lambda>st.
     Inr (ps_signals st,
       \<lparr>c_source = pl_name p, c_status = (if ps_capped st then CovPartial else CovOk), c_lag = None, c_truncated = ps_capped st,
        c_error = (if ps_capped st then Some (''series capped at max_series='' @ nat_str (pm_max_series c)) else None),
        c_required = pl_required p\<rparr>))"

definition prom_health :: "prom_config \<Rightarrow> (string, pyval) dict" where
  "prom_health c = [(''status'', PStr ''ok''), (''url'', PStr (pm_url c)), (''queries'', PNum (real (length (pm_queries c))))]"

section \<open>Facts\<close>

text \<open>The series of a query that carry its entity's label, with everything needed to read them.\<close>

type_synonym labelled = "prom_query \<times> (pyval, pyval) dict \<times> (string, pyval) dict \<times> labels \<times> pyval"

definition labelled_of :: "prom_query \<Rightarrow> (pyval, pyval) dict \<Rightarrow> pyval \<Rightarrow> labelled option" where
  "labelled_of pq caps x =
     (case series_labels x of Inl _ \<Rightarrow> None
      | Inr (sr, ls) \<Rightarrow> (case label_id pq ls of None \<Rightarrow> None | Some i \<Rightarrow> Some (pq, caps, sr, ls, i)))"

definition read_labelled :: "prom_env \<Rightarrow> string \<Rightarrow> time \<Rightarrow> telemetry_query \<Rightarrow> labelled \<Rightarrow> prom_error + signal list" where
  "read_labelled V source observed q = (\<lambda>(pq, caps, sr, ls, i).
     and_then (series_signals V source observed pq (q_region q) caps sr ls i) (\<lambda>ss. Inr (filter (query_matches q) ss)))"

text \<open>What the loops have done when \<open>seen\<close> is the labelled series met so far.\<close>

definition read_so_far :: "prom_env \<Rightarrow> string \<Rightarrow> time \<Rightarrow> telemetry_query \<Rightarrow> nat \<Rightarrow> labelled list \<Rightarrow> prom_state \<Rightarrow> bool" where
  "read_so_far V source observed q n seen st \<longleftrightarrow>
     (\<exists>sss. traverse (read_labelled V source observed q) (take n seen) = Inr sss \<and> ps_signals st = concat sss)
     \<and> ps_seen st = min n (length seen) \<and> (ps_capped st \<longleftrightarrow> n < length seen)"

lemma traverse_snoc_Inr:
  "traverse f xs = Inr ys \<Longrightarrow> f x = Inr y \<Longrightarrow> traverse f (xs @ [x]) = Inr (ys @ [y])"
  by (induction xs arbitrary: ys) (auto split: sum.splits)

lemma series_loop_reads:
  assumes "series_loop V c source observed q pq caps xs st = Inr st'"
    and "read_so_far V source observed q (pm_max_series c) seen st"
  shows "read_so_far V source observed q (pm_max_series c) (seen @ List.map_filter (labelled_of pq caps) xs) st'"
  using assms
proof (induction xs arbitrary: st seen)
  case Nil
  then show ?case by (simp add: map_filter_simps)
next
  case (Cons x xs)
  obtain sr ls where x: "series_labels x = Inr (sr, ls)"
    using Cons.prems(1) by (cases "series_labels x") auto
  show ?case
  proof (cases "label_id pq ls")
    case None
    then show ?thesis using Cons x by (simp add: map_filter_simps labelled_of_def)
  next
    case (Some i)
    let ?l = "(pq, caps, sr, ls, i)" and ?n = "pm_max_series c"
    let ?rest = "List.map_filter (labelled_of pq caps) xs"
    have l: "List.map_filter (labelled_of pq caps) (x # xs) = ?l # ?rest"
      using x Some by (simp add: map_filter_simps labelled_of_def)
    show ?thesis
    proof (cases "?n \<le> ps_seen st")
      case True
      then have st': "st' = st\<lparr>ps_capped := True\<rparr>" using Cons.prems(1) x Some by simp
      have "?n \<le> length seen" using True Cons.prems(2) by (simp add: read_so_far_def)
      then show ?thesis using Cons.prems(2) unfolding l st' by (simp add: read_so_far_def)
    next
      case False
      obtain ss where ss: "series_signals V source observed pq (q_region q) caps sr ls i = Inr ss"
        using Cons.prems(1) x Some False
        by (cases "series_signals V source observed pq (q_region q) caps sr ls i") auto
      let ?st = "st\<lparr>ps_signals := ps_signals st @ filter (query_matches q) ss, ps_seen := ps_seen st + 1\<rparr>"
      have short: "length seen < ?n" using False Cons.prems(2) by (simp add: read_so_far_def)
      obtain sss where sss: "traverse (read_labelled V source observed q) seen = Inr sss" "ps_signals st = concat sss"
        using Cons.prems(2) short by (auto simp: read_so_far_def)
      have "traverse (read_labelled V source observed q) (seen @ [?l]) = Inr (sss @ [filter (query_matches q) ss])"
        by (rule traverse_snoc_Inr [OF sss(1)]) (simp add: read_labelled_def ss)
      then have "read_so_far V source observed q ?n (seen @ [?l]) ?st"
        using short sss(2) Cons.prems(2) by (auto simp: read_so_far_def)
      moreover have "series_loop V c source observed q pq caps xs ?st = Inr st'"
        using Cons.prems(1) x Some False ss by simp
      ultimately show ?thesis using Cons.IH [of ?st "seen @ [?l]"] unfolding l by simp
    qed
  qed
qed

text \<open>The series a query's answer gives.\<close>

definition answer_series :: "prom_env \<Rightarrow> prom_config \<Rightarrow> telemetry_query \<Rightarrow> prom_query \<Rightarrow> prom_error + labelled list" where
  "answer_series V c q pq =
     and_then (capacities V c pq (q_end q)) (\<lambda>caps.
     and_then (prom_range V c (pq_expr pq) (lower_bound q) (q_end q)) (\<lambda>xs.
     Inr (List.map_filter (labelled_of pq caps) xs)))"

lemma query_step_reads:
  assumes "query_step V c source observed q pq st = Inr st'"
    and "read_so_far V source observed q (pm_max_series c) seen st"
  shows "\<exists>ls. answer_series V c q pq = Inr ls \<and> read_so_far V source observed q (pm_max_series c) (seen @ ls) st'"
  using assms by (auto simp: query_step_def answer_series_def and_then_Inr intro: series_loop_reads)

lemma queries_read:
  assumes "fold_sum (query_step V c source observed q) pqs st = Inr st'"
    and "read_so_far V source observed q (pm_max_series c) seen st"
  shows "\<exists>lss. traverse (answer_series V c q) pqs = Inr lss
    \<and> read_so_far V source observed q (pm_max_series c) (seen @ concat lss) st'"
  using assms
proof (induction pqs arbitrary: st seen)
  case Nil
  then show ?case by simp
next
  case (Cons pq pqs)
  obtain st1 where st1: "query_step V c source observed q pq st = Inr st1" "fold_sum (query_step V c source observed q) pqs st1 = Inr st'"
    using Cons.prems(1) by (auto split: sum.splits)
  obtain ls where ls: "answer_series V c q pq = Inr ls" "read_so_far V source observed q (pm_max_series c) (seen @ ls) st1"
    using query_step_reads [OF st1(1) Cons.prems(2)] by blast
  obtain lss where "traverse (answer_series V c q) pqs = Inr lss"
      "read_so_far V source observed q (pm_max_series c) ((seen @ ls) @ concat lss) st'"
    using Cons.IH [OF st1(2) ls(2)] by blast
  with ls(1) show ?case by simp
qed

section \<open>Properties\<close>

text \<open>
  C24: a Prometheus fetch reads every series up to the cap, and says when it could not. Every
  configured query was answered; the signals are the samples, within the query's filters, of
  the first \<open>max_series\<close> series carrying their entity's label, in the order of the
  configuration and of the answers; and the coverage is complete exactly when there were no
  more series than that.
\<close>

theorem prom_fetch_accounts:
  assumes "prom_fetch V c p observed q = Inr (ss, cov)"
  shows "\<exists>lss sss. traverse (answer_series V c q) (pm_queries c) = Inr lss
    \<and> traverse (read_labelled V (pl_name p) observed q) (take (pm_max_series c) (concat lss)) = Inr sss
    \<and> ss = concat sss
    \<and> (c_status cov = CovOk \<longleftrightarrow> length (concat lss) \<le> pm_max_series c)
    \<and> (c_truncated cov \<longleftrightarrow> pm_max_series c < length (concat lss))"
proof -
  let ?init = "\<lparr>ps_signals = [], ps_seen = 0, ps_capped = False\<rparr>"
  obtain st where st: "fold_sum (query_step V c (pl_name p) observed q) (pm_queries c) ?init = Inr st"
    and ss: "ss = ps_signals st"
    and cov: "c_status cov = (if ps_capped st then CovPartial else CovOk)" "c_truncated cov = ps_capped st"
    using assms by (auto simp: prom_fetch_def and_then_Inr)
  have "read_so_far V (pl_name p) observed q (pm_max_series c) [] ?init" by (simp add: read_so_far_def)
  from queries_read [OF st this] obtain lss where lss: "traverse (answer_series V c q) (pm_queries c) = Inr lss"
      "read_so_far V (pl_name p) observed q (pm_max_series c) (concat lss) st" by auto
  with ss cov show ?thesis by (fastforce simp: read_so_far_def)
qed

definition ex_prom_query :: prom_query where
  "ex_prom_query = \<lparr>pq_name = ''link_out_bps'', pq_expr = ''rate'', pq_etype = ''interface'', pq_eid = ''ifName'',
     pq_labels = [''instance''], pq_capacity = Some ''cap'', pq_unit = Some ''bps''\<rparr>"

definition ex_prom :: prom_config where
  "ex_prom = \<lparr>pm_url = ''http://p'', pm_tenant = None, pm_auth = ''none'', pm_token_env = None, pm_user_env = None,
     pm_password_env = None, pm_step = 60, pm_timeout = 15, pm_max_series = 1, pm_queries = [ex_prom_query]\<rparr>"

definition ex_series :: "string \<Rightarrow> pyval" where
  "ex_series i = PDict [(''metric'', PDict [(''ifName'', PStr i), (''instance'', PStr ''r1'')]),
     (''values'', PList [PList [PNum 60, PStr ''5''], PList [PNum 120, PStr ''x'']])]"

definition ex_prom_env :: prom_env where
  "ex_prom_env = \<lparr>pv_str = \<lambda>_. [], pv_iso = \<lambda>_. ''t'', pv_get = \<lambda>expr a b n.
     Inr (PDict [(''status'', PStr ''success''),
       (''data'', PDict [(''result'', PList (if expr = ''cap'' then [ex_series ''eth0''] else [ex_series ''eth0'', PDict [], ex_series ''eth1'']))])])\<rparr>"

definition ex_prom_plugin :: plugin where
  "ex_prom_plugin = \<lparr>pl_name = ''prometheus'', pl_domains = [''metrics''], pl_required = True, pl_timeout = 10\<rparr>"

definition ex_prom_asked :: telemetry_query where
  "ex_prom_asked = \<lparr>q_region = ''us-east-1'', q_start = 0, q_end = 9, q_filters = None, q_include_baseline = False, q_scenario = None, q_anchor = None\<rparr>"

lemma ex_prom_runs:
  "case prom_fetch ex_prom_env ex_prom ex_prom_plugin 0 ex_prom_asked of
     Inl _ \<Rightarrow> False
   | Inr (ss, cov) \<Rightarrow> map (\<lambda>s. e_labels (s_entity s)) ss = [[(''instance'', ''r1''), (''capacity_bps'', ''x'')]] \<and> c_truncated cov"
  by code_simp

theorem prom_fetch_accounts_witness:
  "\<exists>ss cov lss. prom_fetch ex_prom_env ex_prom ex_prom_plugin 0 ex_prom_asked = Inr (ss, cov)
    \<and> length ss = 1 \<and> traverse (answer_series ex_prom_env ex_prom ex_prom_asked) [ex_prom_query] = Inr lss
    \<and> 1 < length (concat lss)"
proof -
  obtain ss cov where f: "prom_fetch ex_prom_env ex_prom ex_prom_plugin 0 ex_prom_asked = Inr (ss, cov)"
    and one: "map (\<lambda>s. e_labels (s_entity s)) ss = [[(''instance'', ''r1''), (''capacity_bps'', ''x'')]]" and cut: "c_truncated cov"
    using ex_prom_runs by (auto split: sum.splits)
  have "length ss = 1" using one by auto
  moreover have "pm_queries ex_prom = [ex_prom_query]" "pm_max_series ex_prom = 1" by (simp_all add: ex_prom_def)
  ultimately show ?thesis using prom_fetch_accounts [OF f] f cut by auto
qed

end
