(* ===== verification/Sessions.thy ===== *)
theory Sessions
  imports Prelude
begin

text \<open>
  The shared MCP session of an endpoint (\<open>_SessionOwner\<close> and \<open>close_all_sessions\<close> of
  \<open>providers/adapters/mcp_adapter.py\<close>) on one event loop: callers share a session that an owner
  task keeps open, \<open>get\<close> opens one under a lock, \<open>reset\<close> drops the current one without it. A
  step is the code between two awaits; what the transport and cancellation do is any order of
  the steps. A session left behind on another event loop is not modelled.
\<close>

section \<open>State\<close>

datatype phase = Opening | Live | Ended
datatype ready = Waiting | HasClient | HasError

record owner_task =
  tk_phase :: phase
  tk_stop :: bool
  tk_cancel :: bool
  tk_ready :: ready

text \<open>
  \<open>_client\<close>, \<open>_task\<close> and \<open>_stop\<close> are set and cleared together, so a task stands for all three;
  \<open>so_lock\<close> is the task the holder of the lock waits for. \<open>so_given\<close> records the sessions handed
  out, for the statements below.
\<close>

record owner =
  so_current :: "nat option"
  so_lock :: "nat option"
  so_tasks :: "nat \<Rightarrow> owner_task"
  so_next :: nat
  so_opened :: nat
  so_given :: "nat list"

definition no_task :: owner_task where
  "no_task = \<lparr>tk_phase = Ended, tk_stop = False, tk_cancel = False, tk_ready = Waiting\<rparr>"

definition new_owner :: owner where
  "new_owner = \<lparr>so_current = None, so_lock = None, so_tasks = \<lambda>_. no_task, so_next = 0, so_opened = 0, so_given = []\<rparr>"

definition upd_task :: "nat \<Rightarrow> (owner_task \<Rightarrow> owner_task) \<Rightarrow> owner \<Rightarrow> owner" where
  "upd_task t f w = w\<lparr>so_tasks := (so_tasks w)(t := f (so_tasks w t))\<rparr>"

definition open_now :: "owner \<Rightarrow> nat \<Rightarrow> bool" where
  "open_now w t = (tk_phase (so_tasks w t) \<noteq> Ended)"

section \<open>Steps\<close>

datatype sess_event =
    GetEnters
  | TaskOpens nat
  | TaskEnds nat
  | GetReturns
  | GetRaises
  | Reset
  | CloseAll

text \<open>\<open>get\<close> once it holds the lock: the current session if its task still runs, else a new task.\<close>

definition spawn :: "owner \<Rightarrow> owner" where
  "spawn w = w\<lparr>so_tasks := (so_tasks w)(so_next w := \<lparr>tk_phase = Opening, tk_stop = False, tk_cancel = False, tk_ready = Waiting\<rparr>),
     so_lock := Some (so_next w), so_next := so_next w + 1\<rparr>"

definition get_enter :: "owner \<Rightarrow> owner" where
  "get_enter w =
     (case so_current w of
        Some t \<Rightarrow> if open_now w t then w\<lparr>so_given := t # so_given w\<rparr> else spawn w
      | None \<Rightarrow> spawn w)"

text \<open>\<open>_own\<close>: the session is entered; it is left, or could not be entered.\<close>

definition opened_task :: "owner_task \<Rightarrow> owner_task" where
  "opened_task k = k\<lparr>tk_phase := Live, tk_ready := (if tk_ready k = Waiting then HasClient else tk_ready k)\<rparr>"

definition ended_task :: "owner_task \<Rightarrow> owner_task" where
  "ended_task k = k\<lparr>tk_phase := Ended, tk_ready := (if tk_ready k = Waiting then HasError else tk_ready k)\<rparr>"

text \<open>What \<open>get\<close> does when its wait is over.\<close>

definition get_return :: "nat \<Rightarrow> owner \<Rightarrow> owner" where
  "get_return t w = w\<lparr>so_current := Some t, so_opened := so_opened w + 1, so_lock := None, so_given := t # so_given w\<rparr>"

definition get_raise :: "nat \<Rightarrow> owner \<Rightarrow> owner" where
  "get_raise t w = (upd_task t (\<lambda>k. k\<lparr>tk_stop := True, tk_cancel := True\<rparr>) w)\<lparr>so_lock := None\<rparr>"

definition reset :: "owner \<Rightarrow> owner" where
  "reset w =
     (case so_current w of
        None \<Rightarrow> w
      | Some t \<Rightarrow> (upd_task t (\<lambda>k. k\<lparr>tk_stop := True\<rparr>) w)\<lparr>so_current := None\<rparr>)"

definition close_all :: "owner \<Rightarrow> owner" where
  "close_all w =
     w\<lparr>so_tasks := (\<lambda>t. if open_now w t then (so_tasks w t)\<lparr>tk_stop := True\<rparr> else so_tasks w t)\<rparr>"

text \<open>\<open>None\<close>: the event cannot happen in this state.\<close>

definition sess_do :: "sess_event \<Rightarrow> owner \<Rightarrow> owner option" where
  "sess_do ev w =
     (case ev of
        GetEnters \<Rightarrow> if so_lock w = None then Some (get_enter w) else None
      | TaskOpens t \<Rightarrow>
          if tk_phase (so_tasks w t) = Opening \<and> \<not> tk_cancel (so_tasks w t) then Some (upd_task t opened_task w) else None
      | TaskEnds t \<Rightarrow> if open_now w t then Some (upd_task t ended_task w) else None
      | GetReturns \<Rightarrow>
          (case so_lock w of Some t \<Rightarrow> if tk_ready (so_tasks w t) = HasClient then Some (get_return t w) else None | None \<Rightarrow> None)
      | GetRaises \<Rightarrow> (case so_lock w of Some t \<Rightarrow> Some (get_raise t w) | None \<Rightarrow> None)
      | Reset \<Rightarrow> Some (reset w)
      | CloseAll \<Rightarrow> Some (close_all w))"

inductive reachable :: "owner \<Rightarrow> bool" where
  start: "reachable new_owner"
| happens: "reachable w \<Longrightarrow> sess_do ev w = Some w' \<Longrightarrow> reachable w'"

fun sess_run :: "sess_event list \<Rightarrow> owner \<Rightarrow> owner option" where
  "sess_run [] w = Some w"
| "sess_run (ev # evs) w = Option.bind (sess_do ev w) (sess_run evs)"

section \<open>Invariant\<close>

definition unstopped :: "owner \<Rightarrow> nat \<Rightarrow> bool" where
  "unstopped w t \<longleftrightarrow> open_now w t \<and> \<not> tk_stop (so_tasks w t)"

definition owner_ok :: "owner \<Rightarrow> bool" where
  "owner_ok w \<longleftrightarrow>
     (\<forall>t. unstopped w t \<longrightarrow> so_current w = Some t \<or> so_lock w = Some t)
     \<and> (\<forall>l t. so_lock w = Some l \<longrightarrow> so_current w = Some t \<longrightarrow> \<not> open_now w t)
     \<and> (\<forall>t. open_now w t \<longrightarrow> t < so_next w)
     \<and> (\<forall>t. so_current w = Some t \<or> so_lock w = Some t \<or> t \<in> set (so_given w) \<longrightarrow> t < so_next w)
     \<and> so_opened w \<le> so_next w - (if so_lock w = None then 0 else 1)"

lemmas owner_defs = unstopped_def open_now_def upd_task_def

lemma owner_okI:
  assumes "\<And>t. unstopped w t \<Longrightarrow> so_current w = Some t \<or> so_lock w = Some t"
    and "\<And>l t. so_lock w = Some l \<Longrightarrow> so_current w = Some t \<Longrightarrow> \<not> open_now w t"
    and "\<And>t. open_now w t \<Longrightarrow> t < so_next w"
    and "\<And>t. so_current w = Some t \<or> so_lock w = Some t \<or> t \<in> set (so_given w) \<Longrightarrow> t < so_next w"
    and "so_opened w \<le> so_next w - (if so_lock w = None then 0 else 1)"
  shows "owner_ok w"
  using assms unfolding owner_ok_def by blast

lemma owner_okD:
  assumes "owner_ok w"
  shows "unstopped w t \<Longrightarrow> so_current w = Some t \<or> so_lock w = Some t"
    and "so_lock w = Some l \<Longrightarrow> so_current w = Some t \<Longrightarrow> \<not> open_now w t"
    and "open_now w t \<Longrightarrow> t < so_next w"
    and "so_current w = Some t \<Longrightarrow> t < so_next w" "so_lock w = Some t \<Longrightarrow> t < so_next w" "t \<in> set (so_given w) \<Longrightarrow> t < so_next w"
    and "so_opened w \<le> so_next w - (if so_lock w = None then 0 else 1)"
  using assms unfolding owner_ok_def by blast+

lemma new_owner_ok: "owner_ok new_owner"
  by (rule owner_okI) (simp_all add: owner_defs new_owner_def no_task_def)

lemma spawn_fields:
  "so_current (spawn w) = so_current w" "so_lock (spawn w) = Some (so_next w)" "so_next (spawn w) = so_next w + 1"
  "so_given (spawn w) = so_given w" "so_opened (spawn w) = so_opened w"
  "open_now (spawn w) t \<longleftrightarrow> t = so_next w \<or> open_now w t"
  "unstopped (spawn w) t \<longleftrightarrow> t = so_next w \<or> t \<noteq> so_next w \<and> unstopped w t"
  by (auto simp: spawn_def owner_defs)

lemma spawn_ok:
  assumes ok: "owner_ok w" and "so_lock w = None" and closed: "\<And>t. so_current w = Some t \<Longrightarrow> \<not> open_now w t"
  shows "owner_ok (spawn w)"
proof (rule owner_okI, unfold spawn_fields)
  fix t assume "t = so_next w \<or> t \<noteq> so_next w \<and> unstopped w t"
  then show "so_current w = Some t \<or> Some (so_next w) = Some t" 
    using owner_okD(1) [OF ok, of t] assms(2) by auto
next
  fix l t assume "so_current w = Some t"
  then show "\<not> (t = so_next w \<or> open_now w t)" using closed owner_okD(4) [OF ok] by blast
next
  fix t assume "t = so_next w \<or> open_now w t"
  then show "t < so_next w + 1" using owner_okD(3) [OF ok, of t] by auto
next
  fix t assume "so_current w = Some t \<or> Some (so_next w) = Some t \<or> t \<in> set (so_given w)"
  then show "t < so_next w + 1" using owner_okD(4,6) [OF ok, of t] by auto
next
  show "so_opened w \<le> so_next w + 1 - (if Some (so_next w) = None then 0 else 1)"
    using owner_okD(7) [OF ok] assms(2) by simp
qed

lemma given_ok: "owner_ok w \<Longrightarrow> so_current w = Some t \<Longrightarrow> owner_ok (w\<lparr>so_given := t # so_given w\<rparr>)"
  unfolding owner_ok_def unstopped_def open_now_def by simp

lemma get_enter_ok: "owner_ok w \<Longrightarrow> so_lock w = None \<Longrightarrow> owner_ok (get_enter w)"
  unfolding get_enter_def by (auto split: option.split intro: spawn_ok given_ok)

text \<open>
  A step that changes tasks only, opening and unstopping none, keeps the invariant; so does
  dropping the current session once it is stopped, or the lock once its task is.
\<close>

lemma shrink_ok:
  assumes ok: "owner_ok w"
    and "\<And>t. open_now w' t \<Longrightarrow> open_now w t"
    and "\<And>t. unstopped w' t \<Longrightarrow> unstopped w t \<and> (so_current w = Some t \<longrightarrow> so_current w' = Some t) \<and> (so_lock w = Some t \<longrightarrow> so_lock w' = Some t)"
    and "so_current w' = so_current w \<or> so_current w' = None" "so_lock w' = so_lock w \<or> so_lock w' = None"
    and "so_next w' = so_next w" "so_given w' = so_given w" "so_opened w' = so_opened w"
  shows "owner_ok w'"
proof (rule owner_okI)
  fix t assume "unstopped w' t"
  then show "so_current w' = Some t \<or> so_lock w' = Some t" using assms(3) owner_okD(1) [OF ok] by blast
next
  fix l t assume "so_lock w' = Some l" "so_current w' = Some t"
  then show "\<not> open_now w' t" using assms(2,4,5) owner_okD(2) [OF ok, of l t] by auto
next
  fix t assume "open_now w' t"
  then show "t < so_next w'" using assms(2,6) owner_okD(3) [OF ok] by simp
next
  fix t assume "so_current w' = Some t \<or> so_lock w' = Some t \<or> t \<in> set (so_given w')"
  then show "t < so_next w'" using assms(4-7) owner_okD(4-6) [OF ok, of t] by auto
next
  show "so_opened w' \<le> so_next w' - (if so_lock w' = None then 0 else 1)"
    using owner_okD(7) [OF ok] assms(5,6,8) by (auto split: if_splits)
qed

lemma upd_task_simps [simp]:
  "so_current (upd_task t f w) = so_current w" "so_lock (upd_task t f w) = so_lock w" "so_next (upd_task t f w) = so_next w"
  "so_given (upd_task t f w) = so_given w" "so_opened (upd_task t f w) = so_opened w"
  "so_tasks (upd_task t f w) u = (if u = t then f (so_tasks w t) else so_tasks w u)"
  by (simp_all add: upd_task_def)

lemma get_return_ok:
  assumes ok: "owner_ok w" and lock: "so_lock w = Some t"
  shows "owner_ok (get_return t w)"
proof (rule owner_okI)
  fix u assume "unstopped (get_return t w) u"
  then have "unstopped w u" by (simp add: get_return_def unstopped_def open_now_def)
  then have "so_current w = Some u \<or> so_lock w = Some u" "open_now w u"
    using owner_okD(1) [OF ok] by (blast, simp add: unstopped_def)
  then show "so_current (get_return t w) = Some u \<or> so_lock (get_return t w) = Some u"
    using owner_okD(2) [OF ok lock] lock by (auto simp: get_return_def)
next
  fix u assume "open_now (get_return t w) u"
  then show "u < so_next (get_return t w)" using owner_okD(3) [OF ok] by (simp add: get_return_def open_now_def)
next
  fix u assume "so_current (get_return t w) = Some u \<or> so_lock (get_return t w) = Some u \<or> u \<in> set (so_given (get_return t w))"
  then show "u < so_next (get_return t w)"
    using owner_okD(5) [OF ok lock] owner_okD(6) [OF ok, of u] by (auto simp: get_return_def)
next
  have "t < so_next w" by (rule owner_okD(5) [OF ok lock])
  then show "so_opened (get_return t w) \<le> so_next (get_return t w) - (if so_lock (get_return t w) = None then 0 else 1)"
    using owner_okD(7) [OF ok] lock by (simp add: get_return_def)
qed (simp add: get_return_def)

lemma sess_do_ok:
  assumes ok: "owner_ok w" and do_it: "sess_do ev w = Some w'"
  shows "owner_ok w'"
proof (cases ev)
  case GetEnters
  then show ?thesis using assms get_enter_ok by (auto simp: sess_do_def split: if_splits)
next
  case (TaskOpens t)
  then have w': "w' = upd_task t opened_task w" "tk_phase (so_tasks w t) = Opening"
    using do_it by (auto simp: sess_do_def split: if_splits)
  show ?thesis
    by (rule shrink_ok [OF ok]) (use w' in \<open>auto simp: unstopped_def open_now_def opened_task_def split: if_splits\<close>)
next
  case (TaskEnds t)
  then have w': "w' = upd_task t ended_task w" using do_it by (auto simp: sess_do_def split: if_splits)
  show ?thesis
    by (rule shrink_ok [OF ok]) (use w' in \<open>auto simp: unstopped_def open_now_def ended_task_def split: if_splits\<close>)
next
  case GetReturns
  then show ?thesis using do_it get_return_ok [OF ok] by (auto simp: sess_do_def split: option.splits if_splits)
next
  case GetRaises
  then obtain t where w': "so_lock w = Some t" "w' = get_raise t w" using do_it by (auto simp: sess_do_def split: option.splits)
  show ?thesis
    by (rule shrink_ok [OF ok]) (use w' in \<open>auto simp: unstopped_def open_now_def get_raise_def split: if_splits\<close>)
next
  case Reset
  then have w': "w' = reset w" using do_it by (simp add: sess_do_def)
  show ?thesis
    by (rule shrink_ok [OF ok]) (use w' in \<open>auto simp: unstopped_def open_now_def reset_def split: if_splits option.splits\<close>)
next
  case CloseAll
  then have w': "w' = close_all w" using do_it by (simp add: sess_do_def)
  show ?thesis
    by (rule shrink_ok [OF ok]) (use w' in \<open>auto simp: unstopped_def open_now_def close_all_def split: if_splits\<close>)
qed

lemma reachable_ok: "reachable w \<Longrightarrow> owner_ok w"
  by (induction rule: reachable.induct) (auto intro: new_owner_ok sess_do_ok)

text \<open>A session that is current or was handed out had been entered.\<close>

definition given_ready :: "owner \<Rightarrow> bool" where
  "given_ready w \<longleftrightarrow> (\<forall>t. so_current w = Some t \<or> t \<in> set (so_given w) \<longrightarrow> tk_ready (so_tasks w t) = HasClient)"

lemma sess_do_ready:
  assumes ok: "owner_ok w" and r: "given_ready w" and do_it: "sess_do ev w = Some w'"
  shows "given_ready w'"
proof (cases ev)
  case GetEnters
  have s: "given_ready (spawn w)"
    using r owner_okD(4,6) [OF ok] by (fastforce simp: given_ready_def spawn_def)
  show ?thesis
    using GetEnters do_it r s by (auto simp: sess_do_def get_enter_def given_ready_def split: if_splits option.splits)
next
  case (TaskOpens t)
  then show ?thesis using do_it r by (auto simp: sess_do_def given_ready_def opened_task_def split: if_splits)
next
  case (TaskEnds t)
  then show ?thesis using do_it r by (auto simp: sess_do_def given_ready_def ended_task_def split: if_splits)
next
  case GetReturns
  then show ?thesis using do_it r by (auto simp: sess_do_def given_ready_def get_return_def split: if_splits option.splits)
next
  case GetRaises
  then show ?thesis using do_it r by (auto simp: sess_do_def given_ready_def get_raise_def split: if_splits option.splits)
next
  case Reset
  then show ?thesis using do_it r by (auto simp: sess_do_def given_ready_def reset_def split: if_splits option.splits)
next
  case CloseAll
  then show ?thesis using do_it r by (auto simp: sess_do_def given_ready_def close_all_def split: if_splits)
qed

lemma reachable_ready: "reachable w \<Longrightarrow> given_ready w"
proof (induction rule: reachable.induct)
  case start
  then show ?case by (simp add: given_ready_def new_owner_def)
next
  case (happens w ev w')
  then show ?case using sess_do_ready reachable_ok by blast
qed

lemma run_reachable: "reachable w \<Longrightarrow> sess_run evs w = Some w' \<Longrightarrow> reachable w'"
  by (induction evs arbitrary: w) (auto simp: bind_eq_Some_conv intro: reachable.happens)

text \<open>
  \<open>reset\<close> drops the current session, whichever session the failed call used: of two calls that
  fail on one session, the second one stops the session the first has opened since.
\<close>

lemma reset_stops_newer_session:
  "\<exists>w. sess_run [GetEnters, TaskOpens 0, GetReturns, GetEnters, Reset, GetEnters, TaskOpens 1, GetReturns, Reset] new_owner = Some w
    \<and> so_given w = [1, 0, 0] \<and> open_now w 1 \<and> tk_stop (so_tasks w 1)"
  by (simp add: sess_do_def new_owner_def get_enter_def spawn_def no_task_def upd_task_def opened_task_def get_return_def
      reset_def open_now_def)

section \<open>Properties\<close>

text \<open>
  C20: sessions are shared and never leaked. Under any order of calls, cancellations, transport
  failures and resets at most one session of an endpoint is open without being told to stop:
  the current one, or the one being opened. Without either every open session is on its way
  out, closing all sessions stops every open one, and every session ever handed out had
  been entered.
\<close>

theorem sessions_never_leak:
  assumes "reachable w"
  shows "(\<forall>t u. unstopped w t \<and> unstopped w u \<longrightarrow> t = u)
    \<and> (\<forall>t. unstopped w t \<longrightarrow> so_current w = Some t \<or> so_lock w = Some t)
    \<and> (so_lock w = None \<and> so_current w = None \<longrightarrow> (\<forall>t. open_now w t \<longrightarrow> tk_stop (so_tasks w t)))
    \<and> (\<forall>w'. sess_do CloseAll w = Some w' \<longrightarrow> (\<forall>t. open_now w' t \<longrightarrow> tk_stop (so_tasks w' t)))
    \<and> (\<forall>t\<in>set (so_given w). tk_ready (so_tasks w t) = HasClient)"
proof (intro conjI)
  note ok = reachable_ok [OF assms]
  note D = owner_okD [OF ok]
  have open_if: "open_now w t" if "unstopped w t" for t using that by (simp add: unstopped_def)
  show one: "\<forall>t. unstopped w t \<longrightarrow> so_current w = Some t \<or> so_lock w = Some t" using D(1) by blast
  show "\<forall>t u. unstopped w t \<and> unstopped w u \<longrightarrow> t = u"
  proof (intro allI impI, elim conjE)
    fix t u assume t: "unstopped w t" and u: "unstopped w u"
    show "t = u" using one t u D(2) open_if [OF t] open_if [OF u] by (metis option.inject)
  qed
  show "so_lock w = None \<and> so_current w = None \<longrightarrow> (\<forall>t. open_now w t \<longrightarrow> tk_stop (so_tasks w t))"
    using one by (auto simp: unstopped_def)
  show "\<forall>w'. sess_do CloseAll w = Some w' \<longrightarrow> (\<forall>t. open_now w' t \<longrightarrow> tk_stop (so_tasks w' t))"
    by (auto simp: sess_do_def close_all_def open_now_def)
  show "\<forall>t\<in>set (so_given w). tk_ready (so_tasks w t) = HasClient"
    using reachable_ready [OF assms] by (simp add: given_ready_def)
qed

theorem sessions_never_leak_witness:
  "\<exists>w. sess_run [GetEnters, TaskOpens 0, GetReturns, Reset, GetEnters, TaskOpens 1] new_owner = Some w
    \<and> so_lock w = Some 1 \<and> unstopped w 1 \<and> (\<forall>u. unstopped w u \<longrightarrow> 1 = u)"
proof -
  let ?evs = "[GetEnters, TaskOpens 0, GetReturns, Reset, GetEnters, TaskOpens 1]"
  obtain w where w: "sess_run ?evs new_owner = Some w" "so_lock w = Some 1" "unstopped w 1"
    by (simp add: sess_do_def new_owner_def get_enter_def spawn_def no_task_def upd_task_def opened_task_def get_return_def
        reset_def open_now_def unstopped_def)
  have "reachable w" by (rule run_reachable [OF reachable.start w(1)])
  from sessions_never_leak [OF this] w show ?thesis by blast
qed

end
