(* ===== verification/Server.thy ===== *)
theory Server
  imports Telemetry Endpoint
begin

text \<open>
  The tools of the telemetry server (\<open>mcp_telemetry_server/server.py\<close>) and the servers hosted in
  the RCA process (\<open>providers/inproc.py\<close>), and what a client's fetch gets from them. The MCP SDK is a
  parameter: it parses a call's arguments and carries the dumped answer, or the text of the
  error the tool raised.
\<close>

section \<open>Tools\<close>


datatype tool_error = BadContract contract_error | BadQuery contract_error | UnknownDomain string "string list" | UnknownTool string




definition tool_domains :: "(string, string) dict" where
  "tool_domains = [(''get_metrics'', ''metrics''), (''get_logs'', ''logs''), (''get_routing_events'', ''routing''),
     (''get_config_changes'', ''config'')]"



definition get_topology :: "(plugin \<Rightarrow> string \<Rightarrow> int option \<Rightarrow> (entity list \<times> topology_edge list) read) \<Rightarrow> plugin list
    \<Rightarrow> string \<Rightarrow> int option \<Rightarrow> string \<Rightarrow> tool_error + topology_response option" where
  "get_topology ask ps region scenario version =
     (case check_contract_version version of
        Inl e \<Rightarrow> Inl (BadContract e)
      | Inr _ \<Rightarrow> Inr (service_topology ask ps region scenario))"

text \<open>\<open>/health\<close> and \<open>/ready\<close>: status code and body status.\<close>

definition health_route :: "(plugin \<Rightarrow> string option) \<Rightarrow> plugin list \<Rightarrow> nat \<times> string" where
  "health_route health ps = (200, health_status health ps)"

definition ready_route :: "(plugin \<Rightarrow> string option) \<Rightarrow> plugin list \<Rightarrow> nat \<times> string" where
  "ready_route health ps = (let s = health_status health ps in (if s = ''down'' then 503 else 200, s))"

section \<open>Servers in the RCA process\<close>

definition strip_slashes :: "string \<Rightarrow> string" where
  "strip_slashes s = rev (dropWhile (\<lambda>c. c = CHR ''/'') (rev (dropWhile (\<lambda>c. c = CHR ''/'') s)))"

definition inproc_name :: "string \<Rightarrow> string" where
  "inproc_name url =
     (let s = strip_slashes (if starts_with ''inproc://'' url then drop 9 url else url) in if s = [] then ''local'' else s)"

type_synonym inproc_servers = "(string, plugin list) dict"

definition ensure_inproc_server :: "plugin_table \<Rightarrow> catalog \<Rightarrow> string \<Rightarrow> (string, pyval) dict \<Rightarrow> inproc_servers
    \<Rightarrow> service_error + inproc_servers" where
  "ensure_inproc_server tab cat url sources servers =
     (if inproc_name url \<in> set (keys servers) then Inr servers
      else and_then (start_service tab cat False (if sources = [] then DEFAULT_SOURCES else sources)) (\<lambda>ps.
           Inr (AList.update (inproc_name url) ps servers)))"

definition unregister_inproc_server :: "string \<Rightarrow> inproc_servers \<Rightarrow> inproc_servers" where
  "unregister_inproc_server url servers = AList.delete (inproc_name url) servers"

definition resolve_inproc_server :: "string \<Rightarrow> inproc_servers \<Rightarrow> string + plugin list" where
  "resolve_inproc_server url servers =
     (case map_of servers (inproc_name url) of
        None \<Rightarrow> Inl (''no in-process telemetry server registered for '' @ url) | Some ps \<Rightarrow> Inr ps)"

section \<open>A client's fetch from a server\<close>




text \<open>The tool the client picks answers for the domain it asks for.\<close>

definition tool_answers :: "catalog \<Rightarrow> string \<Rightarrow> string \<Rightarrow> bool" where
  "tool_answers cat domain t \<longleftrightarrow>
     map_of tool_domains t = Some domain \<or> t = GENERIC_TOOL \<and> domain \<in> set (keys (telemetry_domains cat))"

section \<open>Facts\<close>



lemma built_in_tools: "map_of DOMAIN_TOOLS domain = Some t \<Longrightarrow> tool_answers cat domain t"
  by (auto simp: DOMAIN_TOOLS_def tool_answers_def tool_domains_def split: if_splits)




lemma inproc_safe:
  assumes "ensure_inproc_server tab cat url sources servers = Inr servers'" and "inproc_name url \<notin> set (keys servers)"
  shows "\<exists>ps. resolve_inproc_server url servers' = Inr ps
    \<and> start_service tab cat False (if sources = [] then DEFAULT_SOURCES else sources) = Inr ps"
  using assms by (auto simp: ensure_inproc_server_def resolve_inproc_server_def and_then_Inr dict_simps)

section \<open>Properties\<close>







end
