(* ===== verification/Scoring.thy ===== *)
theory Scoring
  imports Orchestrator
begin

text \<open>
  How a report is scored against a known fault (\<open>evals/scoring.py\<close>), the drill score over the
  faults log (\<open>infra/faults/score.py\<close>) and the tally of the case runner
  (\<open>evals/runner.py\<close>). The report is the one the orchestrator writes; the expectations and the
  cases are the parsed \<open>expect.json\<close> and case files.
\<close>

section \<open>Expectations and cases\<close>

record expectation =
  xp_cause :: "string list"
  xp_symptoms :: "string list"
  xp_negative :: bool
  xp_no_config :: bool
  xp_no_cause :: bool

record culprit =
  cu_type :: string
  cu_ids :: "string list"
  cu_domain :: string

record eval_case =
  ec_name :: string
  ec_fault :: string
  ec_culprit :: "culprit option"
  ec_alarms :: "node list"
  ec_alarm_domain :: "string option"
  ec_expect_status :: "string option"

datatype case_verdict = FoundCause | FoundSymptom | Miss | Clean | FalsePositive

section \<open>Signals that fired\<close>

definition event_signals :: "key_event \<Rightarrow> string list" where
  "event_signals e = map rf_signal (ke_rules e)"

definition fired_signals :: "agent_finding list \<Rightarrow> string list" where
  "fired_signals fs =
     sorted_set (concat (map (\<lambda>f. concat (map event_signals (af_key_events f)) @ concat (map ev_signals (af_evidence f))) fs))"

text \<open>\<open>sorted(fired & set(names))\<close>.\<close>

definition fired_of :: "agent_finding list \<Rightarrow> string list \<Rightarrow> string list" where
  "fired_of fs names = sorted_set (filter (\<lambda>s. s \<in> set names) (fired_signals fs))"

definition case_verdict_of :: "expectation \<Rightarrow> agent_finding list \<Rightarrow> case_verdict \<times> string list \<times> string list" where
  "case_verdict_of x fs =
     (let cause = fired_of fs (xp_cause x); symptoms = fired_of fs (xp_symptoms x) in
      (if xp_negative x then (if anomalous fs \<noteq> [] then FalsePositive else Clean)
       else if cause \<noteq> [] then FoundCause
       else if symptoms \<noteq> [] then FoundSymptom else Miss,
       cause, symptoms))"

definition event_entity :: "printer \<Rightarrow> key_event \<Rightarrow> string" where
  "event_entity P e = lower (case ke_get (pr_reason P) e ''entity_id'' of None \<Rightarrow> [] | Some v \<Rightarrow> py_str (pr_val P) v)"

definition any_in :: "string list \<Rightarrow> string list \<Rightarrow> bool" where
  "any_in xs ys = list_ex (\<lambda>x. x \<in> set ys) xs"

definition finding_entities :: "printer \<Rightarrow> string list \<Rightarrow> agent_finding \<Rightarrow> string list" where
  "finding_entities P wanted f =
     map (event_entity P) (filter (\<lambda>e. any_in (event_signals e) wanted) (af_key_events f))
     @ map (lower \<circ> ev_id) (filter (\<lambda>r. any_in (ev_signals r) wanted) (af_evidence f))"

definition cause_entities :: "printer \<Rightarrow> expectation \<Rightarrow> agent_finding list \<Rightarrow> string list" where
  "cause_entities P x fs = filter (\<lambda>i. i \<noteq> []) (uniq (concat (map (finding_entities P (xp_cause x)) fs)))"

definition headline_names_culprit :: "printer \<Rightarrow> expectation \<Rightarrow> ('m, 'h) rca_report \<Rightarrow> string list \<Rightarrow> bool" where
  "headline_names_culprit P x r cause =
     (cause \<noteq> [] \<and> list_ex (\<lambda>n. contains_str (lower n) (lower (rp_root r))) (cause @ cause_entities P x (rp_findings r)))"

section \<open>Who wrote the root cause\<close>

text \<open>\<open>DETERMINISTIC_ROOT\<close>; a word character is a letter, a digit or an underscore.\<close>

definition is_word :: "char \<Rightarrow> bool" where "is_word c \<longleftrightarrow> is_alnum c \<or> c = CHR ''_''"

definition deterministic_root :: "string \<Rightarrow> bool" where
  "deterministic_root s =
     (takeWhile is_word s \<noteq> []
        \<and> (starts_with '' domain:'' (dropWhile is_word s) \<or> starts_with '' domain anomaly:'' (dropWhile is_word s))
      \<or> starts_with ''No anomaly detected'' s \<or> starts_with ''RCA inconclusive'' s)"

definition llm_used :: "('m, 'h) rca_report \<Rightarrow> bool" where
  "llm_used r = (\<not> deterministic_root (rp_root r))"

section \<open>Scoring a case\<close>

record case_score =
  sc_verdict :: case_verdict
  sc_cause :: "string list"
  sc_symptoms :: "string list"
  sc_status :: string
  sc_questions :: nat
  sc_supported :: nat
  sc_top_cause :: "string option"
  sc_llm_used :: bool
  sc_root :: string
  sc_cross_domain :: "bool option"
  sc_top1 :: "bool option"
  sc_in_root :: "bool option"
  sc_blamed :: "bool option"
  sc_status_ok :: "bool option"

definition incident_status_name :: "status \<Rightarrow> string" where
  "incident_status_name s =
     (case s of Ongoing \<Rightarrow> ''ongoing'' | Recovered \<Rightarrow> ''recovered'' | Flapping \<Rightarrow> ''flapping'' | UnknownStatus \<Rightarrow> ''unknown'')"

definition is_question :: "message \<Rightarrow> bool" where
  "is_question m = (case ms_body m of ValidationRequest _ \<Rightarrow> True | _ \<Rightarrow> False)"

definition supported_answer :: "message \<Rightarrow> bool" where
  "supported_answer m =
     (case ms_reply m of
        ReplyAnswer a \<Rightarrow> aw_verdict a = Some Supported
      | SlimAnswer a _ \<Rightarrow> aw_verdict a = Some Supported
      | _ \<Rightarrow> False)"

definition top_text :: "ranked_cause list \<Rightarrow> string option" where
  "top_text ranked =
     (case ranked of [] \<Rightarrow> None | c # _ \<Rightarrow> Some (rk_type c @ '':'' @ rk_entity c @ '' ('' @ rk_domain c @ '')''))"

definition culprit_ids :: "culprit \<Rightarrow> string list" where "culprit_ids c = map lower (cu_ids c)"

definition culprit_first :: "culprit \<Rightarrow> ranked_cause list \<Rightarrow> bool" where
  "culprit_first c ranked =
     (case ranked of [] \<Rightarrow> False | b # _ \<Rightarrow> rk_type b = cu_type c \<and> lower (rk_entity b) \<in> set (culprit_ids c))"

definition culprit_named :: "culprit \<Rightarrow> ('m, 'h) rca_report \<Rightarrow> bool" where
  "culprit_named c r = list_ex (\<lambda>i. contains_str i (lower (rp_root r))) (culprit_ids c)"

definition cross_domain :: "eval_case \<Rightarrow> culprit \<Rightarrow> bool" where
  "cross_domain c cu =
     (cu_domain cu \<noteq> (case ec_alarm_domain c of None \<Rightarrow> ''metrics'' | Some d \<Rightarrow> d)
      \<or> \<not> any_in (culprit_ids cu) (map (lower \<circ> snd) (ec_alarms c)))"

definition config_blamed :: "('m, 'h) rca_report \<Rightarrow> bool" where
  "config_blamed r =
     (list_ex (\<lambda>f. af_domain f = ''config'') (anomalous (rp_findings r))
      \<or> (case rp_ranked r of [] \<Rightarrow> False | b # _ \<Rightarrow> rk_domain b = ''config''))"

definition nonempty :: "string option \<Rightarrow> string option" where
  "nonempty x = (case x of Some (c # cs) \<Rightarrow> Some (c # cs) | _ \<Rightarrow> None)"

text \<open>\<open>expect[case["fault"]]\<close> raises on an unknown fault.\<close>

definition score_case :: "(string, expectation) dict \<Rightarrow> eval_case \<Rightarrow> (message, 'h) rca_report \<Rightarrow> case_score option" where
  "score_case expect c r =
     (case map_of expect (ec_fault c) of
        None \<Rightarrow> None
      | Some x \<Rightarrow>
          (case case_verdict_of x (rp_findings r) of (v, cause, symptoms) \<Rightarrow>
           let asked = filter is_question (rp_messages r) in
           Some \<lparr>sc_verdict = v, sc_cause = cause, sc_symptoms = symptoms, sc_status = incident_status_name (rp_status r),
             sc_questions = length asked, sc_supported = length (filter supported_answer asked),
             sc_top_cause = top_text (rp_ranked r), sc_llm_used = llm_used r, sc_root = take 240 (rp_root r),
             sc_cross_domain = map_option (cross_domain c) (ec_culprit c),
             sc_top1 = map_option (\<lambda>cu. culprit_first cu (rp_ranked r)) (ec_culprit c),
             sc_in_root = map_option (\<lambda>cu. culprit_named cu r) (ec_culprit c),
             sc_blamed = (if xp_no_config x \<or> ec_culprit c = None then Some (config_blamed r) else None),
             sc_status_ok = map_option (\<lambda>st. incident_status_name (rp_status r) = st) (nonempty (ec_expect_status c))\<rparr>))"

definition given :: "bool option \<Rightarrow> bool list" where
  "given b = (case b of None \<Rightarrow> [] | Some x \<Rightarrow> [x])"

definition case_checks :: "eval_case \<Rightarrow> expectation \<Rightarrow> case_score \<Rightarrow> bool list" where
  "case_checks c x out =
     (if xp_negative x then [sc_verdict out = Clean] else [])
     @ (if ec_culprit c = None then [] else (sc_verdict out = FoundCause) # given (sc_top1 out) @ given (sc_in_root out))
     @ (if xp_negative x then [] else map Not (given (sc_blamed out)))
     @ given (sc_status_ok out)"

definition passed :: "eval_case \<Rightarrow> expectation \<Rightarrow> case_score \<Rightarrow> bool" where
  "passed c x out =
     (if case_checks c x out \<noteq> [] then list_all (\<lambda>b. b) (case_checks c x out)
      else sc_verdict out \<in> {FoundCause, FoundSymptom})"

text \<open>The totals the runner prints: passed, culprit ranked first, and the cross-domain share of it.\<close>

definition tally :: "(case_score \<times> bool) list \<Rightarrow> nat \<times> nat \<times> nat \<times> nat \<times> nat" where
  "tally results =
     (let scores = map fst results;
          with_culprit = filter (\<lambda>s. sc_top1 s \<noteq> None) scores;
          cross = filter (\<lambda>s. sc_cross_domain s = Some True) with_culprit
      in (length (filter snd results), length (filter (\<lambda>s. sc_top1 s = Some True) with_culprit), length with_culprit,
          length (filter (\<lambda>s. sc_top1 s = Some True) cross), length cross))"

section \<open>The drill score\<close>

record fault_event =
  fv_fault :: "string option"
  fv_result :: "string option"
  fv_at :: time

datatype drill_verdict = Scored case_verdict | Stale

record drill_score =
  ds_verdict :: drill_verdict
  ds_injected :: time
  ds_reverted :: "time option"
  ds_other :: "string list"
  ds_top_domain :: "string option"
  ds_degraded :: "string list"
  ds_blamed :: "bool option"
  ds_headline :: bool
  ds_by_hypothesis :: bool
  ds_no_cause :: "bool option"

definition last_injected :: "string \<Rightarrow> fault_event list \<Rightarrow> fault_event option" where
  "last_injected fault evs =
     (case filter (\<lambda>e. fv_fault e = Some fault \<and> fv_result e = Some ''injected'') evs of [] \<Rightarrow> None | xs \<Rightarrow> Some (last xs))"

definition verified :: "hypothesis_row list \<Rightarrow> hypothesis_row list" where
  "verified hs = filter (\<lambda>h. hr_verdict h = Some Supported) hs"

text \<open>\<open>None\<close> is the exit for a fault the log never injected.\<close>

definition drill :: "printer \<Rightarrow> expectation \<Rightarrow> string \<Rightarrow> fault_event list \<Rightarrow> time \<Rightarrow> ('m, hypothesis_row) rca_report
    \<Rightarrow> drill_score option" where
  "drill P x fault evs reported_at r =
     (case last_injected fault evs of
        None \<Rightarrow> None
      | Some truth \<Rightarrow>
          (case case_verdict_of x (rp_findings r) of (v, cause, symptoms) \<Rightarrow>
           let anom = anomalous (rp_findings r);
               blamed = (if xp_no_config x then Some (list_ex (\<lambda>f. af_domain f = ''config'') anom) else None)
           in Some \<lparr>ds_verdict = (if reported_at < fv_at truth then Stale else Scored v),
                ds_injected = fv_at truth,
                ds_reverted = map_option fv_at (find (\<lambda>e. fv_result e = Some ''reverted'' \<and> fv_at e \<ge> fv_at truth) evs),
                ds_other = filter (\<lambda>s. s \<notin> set cause \<and> s \<notin> set symptoms) (fired_signals (rp_findings r)),
                ds_top_domain = (case anom of [] \<Rightarrow> None | a # as \<Rightarrow> Some (af_domain (max_by af_confidence a as))),
                ds_degraded = sort (map af_domain (filter af_degraded (rp_findings r))),
                ds_blamed = blamed,
                ds_headline = headline_names_culprit P x r cause,
                ds_by_hypothesis = list_ex (\<lambda>h. hy_signal (hr_hypothesis h) \<in> set (xp_cause x)) (verified (rp_hypotheses r)),
                ds_no_cause = (if xp_no_cause x then Some (verified (rp_hypotheses r) = [] \<and> blamed \<noteq> Some True) else None)\<rparr>))"

section \<open>Facts\<close>

lemma set_fired_signals:
  "set (fired_signals fs) =
     {s. \<exists>f\<in>set fs. (\<exists>e\<in>set (af_key_events f). s \<in> rf_signal ` set (ke_rules e)) \<or> (\<exists>r\<in>set (af_evidence f). s \<in> set (ev_signals r))}"
  by (auto simp: fired_signals_def event_signals_def)

text \<open>A signal of \<open>names\<close> fired: by a rule of a key event, or in an evidence row.\<close>

definition fired_any :: "agent_finding list \<Rightarrow> string list \<Rightarrow> bool" where
  "fired_any fs names \<longleftrightarrow> (\<exists>f\<in>set fs. (\<exists>e\<in>set (af_key_events f). \<exists>x\<in>set (ke_rules e). rf_signal x \<in> set names)
     \<or> (\<exists>r\<in>set (af_evidence f). \<exists>s\<in>set (ev_signals r). s \<in> set names))"

lemma fired_of_empty: "fired_of fs names = [] \<longleftrightarrow> \<not> fired_any fs names"
proof -
  have "fired_of fs names = [] \<longleftrightarrow> set (fired_of fs names) = {}" by simp
  also have "\<dots> \<longleftrightarrow> (\<forall>s\<in>set (fired_signals fs). s \<notin> set names)"
    unfolding fired_of_def set_sorted_set by auto
  also have "\<dots> \<longleftrightarrow> \<not> fired_any fs names"
    unfolding set_fired_signals fired_any_def by blast
  finally show ?thesis .
qed

lemma verdict_cause: "fst (case_verdict_of x fs) = FoundCause \<longleftrightarrow> \<not> xp_negative x \<and> fired_any fs (xp_cause x)"
  by (simp add: case_verdict_of_def Let_def fired_of_empty)

lemma verdict_clean: "fst (case_verdict_of x fs) = Clean \<longleftrightarrow> xp_negative x \<and> anomalous fs = []"
  by (simp add: case_verdict_of_def Let_def)

definition word_code :: "nat \<Rightarrow> bool" where
  "word_code n \<longleftrightarrow> (48 \<le> n \<and> n \<le> 57) \<or> (97 \<le> n \<and> n \<le> 122) \<or> (65 \<le> n \<and> n \<le> 90) \<or> n = 95"

lemma ex_underscore: "of_char CHR ''_'' = (95 :: nat)"
  by simp

lemma is_word_code: "is_word c \<longleftrightarrow> word_code (of_char c)"
proof -
  have "c = CHR ''_'' \<longleftrightarrow> of_char c = (95 :: nat)"
    by (metis of_char_eq_iff ex_underscore)
  then show ?thesis
    by (simp add: is_word_def word_code_def is_alnum_def is_digit_def less_eq_char_def)
qed

lemma word_case:
  assumes "is_word c"
  shows "is_word (to_lower c)" "is_word (to_upper c)"
  using assms unfolding is_word_code
  by (auto simp: word_code_def to_lower_def to_upper_def less_eq_char_def)

definition word_name :: "string \<Rightarrow> bool" where "word_name s \<longleftrightarrow> s \<noteq> [] \<and> list_all is_word s"

lemma word_capitalize: "word_name s \<Longrightarrow> word_name (capitalize s)"
  by (cases s) (auto simp: word_name_def capitalize_def list_all_iff word_case)

lemma space_not_word: "\<not> is_word CHR '' ''"
  by code_simp

lemma take_drop_word:
  assumes "word_name w"
  shows "takeWhile is_word (w @ CHR '' '' # s) = w" "dropWhile is_word (w @ CHR '' '' # s) = CHR '' '' # s"
proof -
  have "\<forall>c\<in>set w. is_word c" using assms by (simp add: word_name_def list_all_iff)
  then have "takeWhile is_word (w @ CHR '' '' # s) = w @ takeWhile is_word (CHR '' '' # s)"
    "dropWhile is_word (w @ CHR '' '' # s) = dropWhile is_word (CHR '' '' # s)"
    by (simp_all only: takeWhile_append2 dropWhile_append2)
  then show "takeWhile is_word (w @ CHR '' '' # s) = w" "dropWhile is_word (w @ CHR '' '' # s) = CHR '' '' # s"
    using space_not_word by simp_all
qed

lemma domain_sentence:
  assumes "word_name w"
  shows "deterministic_root (w @ '' domain:'' @ s)" "deterministic_root (w @ '' domain anomaly:'' @ s)"
proof -
  have ne: "w \<noteq> []" using assms by (simp add: word_name_def)
  show "deterministic_root (w @ '' domain:'' @ s)"
    using take_drop_word [OF assms, of "''domain:'' @ s"] ne
    by (simp add: deterministic_root_def starts_with_def)
  show "deterministic_root (w @ '' domain anomaly:'' @ s)"
    using take_drop_word [OF assms, of "''domain anomaly:'' @ s"] ne
    by (simp add: deterministic_root_def starts_with_def)
qed

definition word_domains :: "agent_finding list \<Rightarrow> ranked_cause list \<Rightarrow> bool" where
  "word_domains fs ranked \<longleftrightarrow> (\<forall>f\<in>set fs. word_name (af_domain f)) \<and> (\<forall>c\<in>set ranked. word_name (rk_domain c))"

lemma from_cause_deterministic:
  assumes "word_name (rk_domain c)"
  shows "deterministic_root (deterministic_from_cause T c fs alarms @ rest)"
proof -
  have "\<exists>s. deterministic_from_cause T c fs alarms @ rest = capitalize (rk_domain c) @ '' domain:'' @ s"
    by (simp add: deterministic_from_cause_def Let_def)
  then show ?thesis using domain_sentence(1) [OF word_capitalize [OF assms]] by metis
qed

lemma event_root_deterministic:
  assumes "word_name (af_domain f)"
  shows "deterministic_root (event_root T f @ rest)"
proof -
  have "(\<exists>s. event_root T f @ rest = capitalize (af_domain f) @ '' domain:'' @ s)
      \<or> (\<exists>s. event_root T f @ rest = capitalize (af_domain f) @ '' domain anomaly:'' @ s)"
    by (simp add: event_root_def Let_def)
  then show ?thesis using domain_sentence [OF word_capitalize [OF assms]] by metis
qed

lemma rules_root_deterministic:
  assumes "word_domains (sy_findings inp) ranked"
  shows "deterministic_root (rules_root T inp ranked)"
proof (cases "anomalous (sy_findings inp)")
  case Nil
  then show ?thesis
    by (simp add: rules_root_def inconclusive_def all_clear_def deterministic_root_def starts_with_def)
next
  case (Cons a as)
  have "set (a # as) \<subseteq> set (sy_findings inp)" unfolding Cons [symmetric] by (auto simp: anomalous_def)
  then have "word_name (af_domain (max_by af_confidence a as))"
    using max_by_mem [of af_confidence a as] assms by (auto simp: word_domains_def)
  with assms Cons show ?thesis
    by (cases ranked)
      (simp_all add: rules_root_def event_root_deterministic from_cause_deterministic word_domains_def)
qed

text \<open>The sentence a report holds when it is not the rules' own.\<close>

lemma model_root:
  assumes "synthesize_report T cat now answer inp = Inr r" and "rp_root r \<noteq> rules_root T inp (rp_ranked r)"
  shows "root_of_answer answer = Some (rp_root r)"
    "rp_ranked r \<noteq> [] \<longrightarrow> names_cause (rp_root r) (hd (rp_ranked r))"
    "cited_ok (rp_root r) (evidence_index T (rp_findings r))"
proof -
  note f = report_fields [OF assms(1)]
  obtain s where s: "root_of_answer (checked_answer (evidence_index T (sy_findings inp)) (ranking_of T answer inp) (consulted inp answer)) = Some s"
      "rp_root r = s"
    using f(4) assms(2) unfolding f(1) by (auto split: option.splits)
  have c: "root_of_answer (consulted inp answer) = Some s" "cited_ok s (evidence_index T (sy_findings inp))"
    "ranking_of T answer inp \<noteq> [] \<longrightarrow> names_cause s (hd (ranking_of T answer inp))"
    using checked_root [OF s(1)] by blast+
  then show "root_of_answer answer = Some (rp_root r)"
    by (simp add: s(2) consulted_def root_of_answer_def split: if_splits)
  from c show "rp_ranked r \<noteq> [] \<longrightarrow> names_cause (rp_root r) (hd (rp_ranked r))"
    "cited_ok (rp_root r) (evidence_index T (rp_findings r))"
    by (simp_all add: s(2) f)
qed

lemma score_fields:
  assumes "score_case expect c r = Some s" and "map_of expect (ec_fault c) = Some x"
  shows "sc_verdict s = fst (case_verdict_of x (rp_findings r))"
    "sc_top1 s = map_option (\<lambda>cu. culprit_first cu (rp_ranked r)) (ec_culprit c)"
    "sc_in_root s = map_option (\<lambda>cu. culprit_named cu r) (ec_culprit c)"
    "sc_blamed s = (if xp_no_config x \<or> ec_culprit c = None then Some (config_blamed r) else None)"
    "sc_status_ok s = map_option (\<lambda>st. incident_status_name (rp_status r) = st) (nonempty (ec_expect_status c))"
    "sc_llm_used s = llm_used r"
  using assms by (auto simp: score_case_def Let_def split: prod.splits)

lemma checks_nonempty:
  assumes "score_case expect c r = Some s" and "map_of expect (ec_fault c) = Some x"
  shows "case_checks c x s \<noteq> []"
  unfolding case_checks_def score_fields [OF assms] by (cases "ec_culprit c") (simp_all add: given_def)

text \<open>
  The fallback on the verdict is never reached: a case without a culprit passes on a report in
  which no expected signal fired.
\<close>

definition ex_expect :: expectation where
  "ex_expect = \<lparr>xp_cause = [], xp_symptoms = [''LossPercent''], xp_negative = False, xp_no_config = True, xp_no_cause = False\<rparr>"

definition ex_case :: "culprit option \<Rightarrow> string option \<Rightarrow> eval_case" where
  "ex_case cu st = \<lparr>ec_name = ''x'', ec_fault = ''loss'', ec_culprit = cu, ec_alarms = [(''flow'', ''web'')],
     ec_alarm_domain = None, ec_expect_status = st\<rparr>"

definition ex_scored :: "agent_finding list \<Rightarrow> ranked_cause list \<Rightarrow> string \<Rightarrow> (message, unit) rca_report" where
  "ex_scored fs ranked sentence =
     \<lparr>rp_incident = ''INC-1'', rp_root = sentence, rp_contributing = [], rp_chain = [], rp_affected = [], rp_summary = [],
      rp_findings = fs, rp_messages = [], rp_confidence = 0, rp_corroborating = 0, rp_conflict = False, rp_timed_out = [],
      rp_errored = [], rp_degraded = False, rp_unclassified = [], rp_alarms = [], rp_ranked = ranked, rp_status = Ongoing,
      rp_hypotheses = [], rp_generated = 0\<rparr>"

lemma silent_report_passes:
  "map_option (\<lambda>s. (sc_verdict s, passed (ex_case None None) ex_expect s))
     (score_case [(''loss'', ex_expect)] (ex_case None None) (ex_scored [] [] ''No anomaly detected across all monitored domains.''))
   = Some (Miss, True)"
  by code_simp

section \<open>Properties\<close>

text \<open>
  what a passing case means. A case passes exactly when: on a negative control nothing was
  anomalous; with a known culprit the fault has an impact, a rule fired on one of its cause
  signals, the culprit is ranked first and the root cause names it; where no configuration
  change is to blame none was blamed; and the status is the expected one, if one is.
\<close>

lemma score_case_sound:
  assumes "score_case expect c r = Some s" and "map_of expect (ec_fault c) = Some x"
  shows "passed c x s \<longleftrightarrow>
    (xp_negative x \<longrightarrow> anomalous (rp_findings r) = [])
    \<and> (\<forall>cu. ec_culprit c = Some cu \<longrightarrow>
         \<not> xp_negative x \<and> fired_any (rp_findings r) (xp_cause x) \<and> culprit_first cu (rp_ranked r) \<and> culprit_named cu r)
    \<and> (\<not> xp_negative x \<and> (xp_no_config x \<or> ec_culprit c = None) \<longrightarrow> \<not> config_blamed r)
    \<and> (\<forall>st. nonempty (ec_expect_status c) = Some st \<longrightarrow> incident_status_name (rp_status r) = st)"
proof -
  have "passed c x s \<longleftrightarrow> list_all (\<lambda>b. b) (case_checks c x s)"
    using checks_nonempty [OF assms] by (simp add: passed_def)
  also have "\<dots> \<longleftrightarrow>
      (xp_negative x \<longrightarrow> sc_verdict s = Clean)
      \<and> (\<forall>cu. ec_culprit c = Some cu \<longrightarrow> sc_verdict s = FoundCause \<and> culprit_first cu (rp_ranked r) \<and> culprit_named cu r)
      \<and> (\<not> xp_negative x \<and> (xp_no_config x \<or> ec_culprit c = None) \<longrightarrow> \<not> config_blamed r)
      \<and> (\<forall>st. nonempty (ec_expect_status c) = Some st \<longrightarrow> incident_status_name (rp_status r) = st)"
    unfolding case_checks_def score_fields [OF assms]
    by (cases "ec_culprit c"; cases "nonempty (ec_expect_status c)"; simp add: given_def)
  finally show ?thesis
    unfolding score_fields(1) [OF assms] verdict_cause verdict_clean by (simp cong: imp_cong)
qed

text \<open>
  C25: a report scored as written by the model is the model's, and grounded. When domains are
  named by words, a root cause that does not have one of the rules' fixed shapes is the
  sentence of the model's answer; it names the cause ranked first and cites only rule-fired
  evidence. The rules' own sentences are never taken for the model's.
\<close>

theorem llm_used_sound:
  assumes "synthesize_report T cat now answer inp = Inr r"
    and "word_domains (rp_findings r) (rp_ranked r)"
    and "llm_used r"
  shows "root_of_answer answer = Some (rp_root r) \<and> rp_root r \<noteq> rules_root T inp (rp_ranked r)
    \<and> (rp_ranked r \<noteq> [] \<longrightarrow> names_cause (rp_root r) (hd (rp_ranked r)))
    \<and> cited_ok (rp_root r) (evidence_index T (rp_findings r))"
proof -
  have "deterministic_root (rules_root T inp (rp_ranked r))"
    using assms(2) unfolding report_fields(2) [OF assms(1)] by (rule rules_root_deterministic)
  then have ne: "rp_root r \<noteq> rules_root T inp (rp_ranked r)" using assms(3) by (auto simp: llm_used_def)
  with model_root [OF assms(1) ne] show ?thesis by blast
qed

lemma ex_model_sentence:
  "root_of_answer (checked_answer (evidence_index ex_texts (sy_findings ex_input))
     (ranking_of ex_texts ex_answer_of ex_input) (consulted ex_input ex_answer_of)) = Some ''edge2 lost its peer [E1]''"
  by code_simp

lemma ex_words: "word_domains (sy_findings ex_input) (ranking_of ex_texts ex_answer_of ex_input)"
  unfolding word_domains_def word_name_def by code_simp

lemma ex_not_rules: "\<not> deterministic_root ''edge2 lost its peer [E1]''"
  by code_simp

theorem llm_used_sound_witness:
  "\<exists>r. synthesize_report ex_texts ex_cat 0 ex_answer_of ex_input = Inr r
    \<and> root_of_answer ex_answer_of = Some (rp_root r) \<and> names_cause (rp_root r) (hd (rp_ranked r))"
proof (rule ex_report)
  fix r
  assume r: "synthesize_report ex_texts ex_cat 0 ex_answer_of ex_input = Inr r"
  note f = report_fields [OF r]
  have w: "word_domains (rp_findings r) (rp_ranked r)" unfolding f by (rule ex_words)
  have u: "llm_used r" unfolding llm_used_def f ex_model_sentence using ex_not_rules by simp
  have "rp_ranked r \<noteq> []" using ex_ranking f(1) by auto
  with llm_used_sound [OF r w u] r show ?thesis by blast
qed

end
