(* ===== verification/App.thy ===== *)
theory App
  imports Router Auth Orchestrator Telemetry Loader
begin

text \<open>
  Starting the program and writing what it found (\<open>app/main.py\<close>, the environment file of
  \<open>deploy.py\<close>, the cards the agents serve in \<open>agents/domain_agent.py\<close>): the environment file, the
  registration of every agent and the choice of router, the gate in front of the MCP server,
  the files written per incident and the keyword coverage of an evaluation. Files hold values,
  not their JSON text; uvicorn, YAML and the command line are left out.
\<close>

section \<open>The environment file\<close>

text \<open>\<open>splitlines\<close>, for the ASCII line boundaries; an empty last line is none.\<close>

definition line_break :: "char \<Rightarrow> bool" where
  "line_break c \<longleftrightarrow> c \<in> {CHR 0x0A, CHR 0x0B, CHR 0x0C, CHR 0x0D, CHR 0x1C, CHR 0x1D, CHR 0x1E}"

fun split_lines :: "string \<Rightarrow> string \<Rightarrow> string list" where
  "split_lines w [] = (if w = [] then [] else [rev w])"
| "split_lines w (c # cs) =
     (if \<not> line_break c then split_lines (c # w) cs
      else rev w # (case cs of
             d # ds \<Rightarrow> if c = CHR 0x0D \<and> d = CHR 0x0A then split_lines [] ds else split_lines [] cs
           | [] \<Rightarrow> []))"

definition env_entry :: "string \<Rightarrow> (string \<times> string) option" where
  "env_entry line =
     (let s = strip line in
      if s = [] \<or> hd s = CHR ''#'' \<or> CHR ''='' \<notin> set s then None
      else Some (strip (before_char CHR ''='' s), strip (after_char CHR ''='' s)))"

definition env_entries :: "string option \<Rightarrow> (string \<times> string) list" where
  "env_entries content = (case content of None \<Rightarrow> [] | Some s \<Rightarrow> List.map_filter env_entry (split_lines [] s))"

text \<open>
  \<open>load_env_file\<close>: a variable that is set already keeps its value. The operating system refuses
  an empty name, so such a line raises.
\<close>

definition set_env :: "string \<times> string \<Rightarrow> (string, string) dict \<Rightarrow> unit + (string, string) dict" where
  "set_env = (\<lambda>(k, v) environ.
     if k \<in> set (keys environ) then Inr environ else if k = [] then Inl () else Inr (AList.update k v environ))"

definition load_env_file :: "string option \<Rightarrow> (string, string) dict \<Rightarrow> unit + (string, string) dict" where
  "load_env_file content environ = fold_sum set_env (env_entries content) environ"

text \<open>\<open>read_env_file\<close> of the deployment script: the same lines, into a dictionary of its own.\<close>

definition read_env_file :: "string option \<Rightarrow> (string, string) dict" where
  "read_env_file content = dict_merge [] (env_entries content)"

section \<open>Agents\<close>

text \<open>What the catalog says of an agent beside its name, port and skill: descriptions and tags.\<close>

record card_texts =
  ct_agent :: string
  ct_skill :: string
  ct_tags :: "string list"
  ct_peer :: string

definition agent_url :: "int \<Rightarrow> string \<Rightarrow> string" where
  "agent_url port path = ''http://localhost:'' @ int_str port @ path"

definition skill_dict :: "skill_card \<Rightarrow> card_texts \<Rightarrow> pyval" where
  "skill_dict s x = PDict [(''id'', PStr (sk_id s)), (''name'', PStr (sk_name s)), (''description'', PStr (ct_skill x)),
     (''tags'', PList (map PStr (ct_tags x)))]"

definition agent_card_of :: "agent_card \<Rightarrow> card_texts \<Rightarrow> (string, pyval) dict" where
  "agent_card_of a x =
     [(''name'', PStr (ag_name a)), (''version'', PStr ''1.0.0''), (''description'', PStr (ct_agent x)),
      (''url'', PStr (agent_url (ag_port a) ''/a2a'')), (''endpoint'', PStr (agent_url (ag_port a) ''/a2a'')),
      (''capabilities'', PDict [(''streaming'', PBool False), (''pushNotifications'', PBool False)]),
      (''defaultInputModes'', PList [PStr ''text/plain'', PStr ''application/json'']),
      (''defaultOutputModes'', PList [PStr ''application/json'']),
      (''skills'', PList [skill_dict (ag_skill a) x,
         PDict [(''id'', PStr ''respond-to-peer''), (''name'', PStr ''Respond To Peer''), (''description'', PStr (ct_peer x)),
           (''tags'', PList [PStr ''a2a'', PStr ''collaboration''])]]),
      (''schemaContract'', PDict [(''outputSchema'', PStr ''AgentFinding''), (''version'', PStr ''1.0.0'')])]"

text \<open>\<open>_agent_entry\<close>; \<open>configured\<close> is the agent's section of the configuration, if it has one.\<close>

definition agent_entry :: "(string, string) dict \<Rightarrow> int \<Rightarrow> string \<times> string" where
  "agent_entry configured port =
     (let e = set_default ''card_url'' (agent_url port ''/.well-known/agent.json'')
                (set_default ''endpoint'' (agent_url port ''/a2a'') configured)
      in (the (map_of e ''endpoint''), the (map_of e ''card_url'')))"

datatype baseline_choice = SimulationBaselines | NoBaselines | PrometheusBaselines

text \<open>\<open>_baseline_provider\<close>, from the configured name.\<close>

definition baseline_provider :: "string option \<Rightarrow> string + baseline_choice" where
  "baseline_provider name =
     (let n = (case name of None \<Rightarrow> ''simulation'' | Some s \<Rightarrow> lower s) in
      if n = ''simulation'' then Inr SimulationBaselines
      else if n = ''telemetry'' then Inr NoBaselines
      else if n = ''prometheus'' then Inr PrometheusBaselines
      else Inl (''ConfigValidationError: baselines.provider must be 'simulation' or 'telemetry'' @ [CHR 0x27]))"

section \<open>Starting the runtime\<close>

datatype router_kind = Adk | Custom

datatype start_error = CardUnavailable string | Registration registration_error | BadProtocolMode | BadTimeout

record runtime_config =
  rc_agents :: "(string, (string, string) dict) dict"
  rc_mode :: "string option"
  rc_timeout :: pyval

definition router_kind_of :: "string option \<Rightarrow> start_error + router_kind" where
  "router_kind_of mode =
     (let m = (case mode of None \<Rightarrow> ''custom'' | Some s \<Rightarrow> lower s) in
      if m = ''adk'' then Inr Adk else if m = ''custom'' then Inr Custom else Inl BadProtocolMode)"

text \<open>\<open>fetch_card\<close> is the GET of a card's URL; \<open>None\<close> is any exception.\<close>

definition register_agent :: "catalog \<Rightarrow> runtime_config \<Rightarrow> (string \<Rightarrow> (string, pyval) dict option) \<Rightarrow> string \<times> domain_def
    \<Rightarrow> Router.registry \<Rightarrow> start_error + Router.registry" where
  "register_agent cat cfg fetch_card = (\<lambda>(d, def) reg.
     let a = d_agent def;
         (endpoint, card_url) = agent_entry (case map_of (rc_agents cfg) d of None \<Rightarrow> [] | Some e \<Rightarrow> e) (ag_port a)
     in case fetch_card card_url of
          None \<Rightarrow> Inl (CardUnavailable d)
        | Some acard \<Rightarrow>
            (case register_from_card d endpoint (Some (sk_id (ag_skill a))) acard reg of
               Inl e \<Rightarrow> Inl (Registration e) | Inr reg' \<Rightarrow> Inr reg'))"

definition start_runtime :: "catalog \<Rightarrow> runtime_config \<Rightarrow> (string \<Rightarrow> (string, pyval) dict option)
    \<Rightarrow> start_error + Router.registry \<times> router_kind \<times> int" where
  "start_runtime cat cfg fetch_card =
     and_then (fold_sum (register_agent cat cfg fetch_card) (cat_domains cat) []) (\<lambda>reg.
     and_then (router_kind_of (rc_mode cfg)) (\<lambda>kind.
     case py_int_of (rc_timeout cfg) of None \<Rightarrow> Inl BadTimeout | Some n \<Rightarrow> Inr (reg, kind, n)))"

section \<open>The gate of the MCP server\<close>

text \<open>Whether the SDK gives the application to wrap; what serves the requests in the end.\<close>

datatype mcp_front = Wrapped auth_config | Unguarded

datatype mcp_start_error = AuthConfig auth_config_error | NoHook

definition mcp_serve :: "(pyval \<Rightarrow> string) \<Rightarrow> (string \<Rightarrow> string \<times> string option) \<Rightarrow> bool \<Rightarrow> (string, pyval) dict \<Rightarrow> bool
    \<Rightarrow> mcp_start_error + mcp_front" where
  "mcp_serve F url has_jwt cfg has_hook =
     (case from_cfg F url has_jwt cfg of
        Inl e \<Rightarrow> Inl (AuthConfig e)
      | Inr c \<Rightarrow> if has_hook then Inr (Wrapped c) else if au_enabled c then Inl NoHook else Inr Unguarded)"

text \<open>What one request meets.\<close>

definition mcp_request :: "(pyval \<Rightarrow> string) \<Rightarrow> 'k jwt_lib \<Rightarrow> mcp_front \<Rightarrow> time \<Rightarrow> asgi_scope \<Rightarrow> time option \<Rightarrow> middleware_result" where
  "mcp_request F L front now sc made =
     (case front of Unguarded \<Rightarrow> Forward None | Wrapped c \<Rightarrow> fst (middleware F L c now sc made))"

section \<open>What is written\<close>

record trace_row =
  tr_agent :: string
  tr_revision :: bool
  tr_detail :: string
  tr_domain :: string
  tr_anomaly :: bool
  tr_confidence :: real
  tr_count :: nat

definition trace_of :: "agent_finding \<Rightarrow> trace_row" where
  "trace_of f = \<lparr>tr_agent = af_agent f, tr_revision = af_revised f, tr_detail = af_summary f, tr_domain = af_domain f,
     tr_anomaly = af_anomaly f, tr_confidence = af_confidence f, tr_count = af_revision_count f\<rparr>"

text \<open>The phase and the action a trace row spells out.\<close>

definition trace_phase :: "trace_row \<Rightarrow> string \<times> string" where
  "trace_phase r = (if tr_revision r then (''collaboration'', ''finding_update'') else (''analysis'', ''anomaly_detected''))"

text \<open>One line of the message log: the message with the status of its payload.\<close>

definition message_status :: "(string, pyval) dict \<Rightarrow> pyval" where
  "message_status payload = get_or payload ''status'' (PStr ''unknown'')"

text \<open>What the engine remembers of the last run, and its summary; no state reads as an empty one.\<close>

record supervisor_state =
  sv_type :: string
  sv_active :: "string list"
  sv_round :: int
  sv_complete :: bool
  sv_timed_out :: "string list"
  sv_findings :: "agent_finding list"
  sv_revised :: "agent_finding list"
  sv_messages :: nat

record state_summary =
  sm_incident :: string
  sm_type :: string
  sm_active :: "string list"
  sm_round :: int
  sm_complete :: bool
  sm_timed_out :: "string list"
  sm_findings :: nat
  sm_revised :: nat
  sm_messages :: nat
  sm_generated :: time

definition no_state :: supervisor_state where
  "no_state = \<lparr>sv_type = ''unknown'', sv_active = [], sv_round = 0, sv_complete = False, sv_timed_out = [], sv_findings = [],
     sv_revised = [], sv_messages = 0\<rparr>"

definition summarize_state :: "string \<Rightarrow> time \<Rightarrow> supervisor_state option \<Rightarrow> state_summary" where
  "summarize_state incident generated state =
     (let s = (case state of None \<Rightarrow> no_state | Some x \<Rightarrow> x) in
      \<lparr>sm_incident = incident, sm_type = sv_type s, sm_active = sv_active s, sm_round = sv_round s, sm_complete = sv_complete s,
       sm_timed_out = sv_timed_out s, sm_findings = length (sv_findings s), sm_revised = length (sv_revised s),
       sm_messages = sv_messages s, sm_generated = generated\<rparr>)"

datatype ('m, 'h, 'd) written =
    ReportFile "('m, 'h) rca_report"
  | TraceFile "trace_row list"
  | MessagesFile "('m \<times> pyval) list"
  | StateFile state_summary
  | DraftsFile 'd

text \<open>
  \<open>write_outputs\<close>: the report, the trace, the messages, the summary of the state, and drafts
  when a hypothesis is supported. \<open>draft\<close> is \<open>draft_entries\<close> on the catalog; when it raises, no
  drafts are written.
\<close>

definition write_outputs :: "('m \<Rightarrow> (string, pyval) dict) \<Rightarrow> ('h \<Rightarrow> bool) \<Rightarrow> ('h list \<Rightarrow> 'd option) \<Rightarrow> ('m, 'h) rca_report
    \<Rightarrow> string \<Rightarrow> supervisor_state option \<Rightarrow> ('m, 'h, 'd) written list" where
  "write_outputs payload supported draft r incident state =
     [ReportFile r, TraceFile (map trace_of (rp_findings r)),
      MessagesFile (map (\<lambda>m. (m, message_status (payload m))) (rp_messages r)),
      StateFile (summarize_state incident (rp_generated r) state)]
     @ (if list_ex supported (rp_hypotheses r)
        then (case draft (rp_hypotheses r) of None \<Rightarrow> [] | Some ds \<Rightarrow> [DraftsFile ds]) else [])"

definition corpus :: "('m, 'h) rca_report \<Rightarrow> string" where
  "corpus r =
     lower (join_with [CHR 0x0A]
       ([rp_root r, rp_summary r, if rp_conflict r then ''conflict detected'' else ''no conflict'']
        @ rp_contributing r @ rp_chain r @ map af_summary (rp_findings r)))"

definition keyword_coverage :: "('m, 'h) rca_report \<Rightarrow> string list \<Rightarrow> string list \<times> string list \<times> real" where
  "keyword_coverage r expected =
     (let matched = filter (\<lambda>k. contains_str (lower k) (corpus r)) expected;
          absent = filter (\<lambda>k. \<not> contains_str (lower k) (corpus r)) expected
      in (matched, absent, if expected = [] then 1 else real (length matched) / real (length expected)))"

definition overall_coverage :: "(nat \<times> nat) list \<Rightarrow> real" where
  "overall_coverage results =
     (let expected = sum_list (map fst results); matched = sum_list (map snd results)
      in if expected = 0 then 1 else real matched / real expected)"

section \<open>Facts\<close>

lemma keyword_partition:
  "case keyword_coverage r expected of (matched, absent, cov) \<Rightarrow>
     set matched \<union> set absent = set expected \<and> length matched + length absent = length expected
     \<and> 0 \<le> cov \<and> cov \<le> 1 \<and> (cov = 1 \<longleftrightarrow> absent = [])"
proof -
  let ?P = "\<lambda>k. contains_str (lower k) (corpus r)"
  have s: "length (filter ?P expected) + length (filter (\<lambda>k. \<not> ?P k) expected) = length expected"
    by (rule sum_length_filter_compl)
  have u: "set (filter ?P expected) \<union> set (filter (\<lambda>k. \<not> ?P k) expected) = set expected" by auto
  have "real (length (filter ?P expected)) = real (length expected) - real (length (filter (\<lambda>k. \<not> ?P k) expected))"
    using s by linarith
  then show ?thesis using s u by (auto simp: keyword_coverage_def Let_def divide_simps)
qed

text \<open>The environment file in both readings.\<close>

lemma set_env_fold:
  "fold_sum set_env es environ = Inr environ' \<Longrightarrow>
    map_of environ' k = (case map_of environ k of Some v \<Rightarrow> Some v | None \<Rightarrow> map_of es k)"
proof (induction es arbitrary: environ)
  case (Cons e es)
  obtain k1 v1 where e: "e = (k1, v1)" by (cases e)
  obtain env1 where env1: "set_env e environ = Inr env1" "fold_sum set_env es env1 = Inr environ'"
    using Cons.prems by (auto split: sum.splits)
  have "map_of env1 k = (case map_of environ k of Some v \<Rightarrow> Some v | None \<Rightarrow> if k = k1 then Some v1 else None)"
    using env1(1) by (cases "k1 \<in> set (keys environ)")
      (auto simp: set_env_def e dict_simps in_keys_iff split: if_splits option.splits)
  then show ?case using Cons.IH [OF env1(2)] by (auto simp: e split: option.splits)
qed (auto split: option.splits)

lemma set_env_total: "\<forall>(k, v)\<in>set es. k \<noteq> [] \<Longrightarrow> \<exists>environ'. fold_sum set_env es environ = Inr environ'"
  by (induction es arbitrary: environ) (auto simp: set_env_def)

text \<open>A line that starts with \<open>=\<close> stops every command that loads its configuration.\<close>

lemma empty_name_raises: "load_env_file (Some ''=x'') [] = Inl ()" "read_env_file (Some ''=x'') = [([], ''x'')]"
  by code_simp+

text \<open>The last of two lines wins in the deployment script, the first one in the program.\<close>

lemma repeated_key_differs:
  "load_env_file (Some (''K=1'' @ [CHR 0x0A] @ ''K=2'')) [] = Inr [(''K'', ''1'')]" "read_env_file (Some (''K=1'' @ [CHR 0x0A] @ ''K=2'')) = [(''K'', ''2'')]"
  by code_simp+

text \<open>An agent's own card is accepted for its own skill.\<close>

lemma own_card_registers:
  assumes "sk_id (ag_skill a) \<noteq> []"
  shows "register_from_card d endpoint (Some (sk_id (ag_skill a))) (agent_card_of a x) reg =
    Inr (AList.update d \<lparr>ra_endpoint = endpoint, ra_card = agent_card_of a x, ra_status = Ready\<rparr> reg)"
  using assms
  by (simp add: register_from_card_def card_skills_def agent_card_of_def skill_dict_def json_simps hashable_def required_skill_of_def)

text \<open>With no name repeated, both readings agree on every variable that is not set already.\<close>

lemma map_of_dict_merge_empty: "distinct (keys es) \<Longrightarrow> map_of (dict_merge [] es) k = map_of es k"
  by (simp add: map_of_dict_merge map_of_rev_distinct)

lemma env_files_agree:
  assumes "load_env_file content environ = Inr environ'" and "distinct (keys (env_entries content))"
  shows "map_of environ' k = (case map_of environ k of Some v \<Rightarrow> Some v | None \<Rightarrow> map_of (read_env_file content) k)"
  using set_env_fold [OF assms(1) [unfolded load_env_file_def]] assms(2)
  by (simp add: read_env_file_def map_of_dict_merge_empty split: option.split)

text \<open>One registration, read backwards.\<close>

definition entry_of :: "runtime_config \<Rightarrow> string \<Rightarrow> domain_def \<Rightarrow> string \<times> string" where
  "entry_of cfg d def = agent_entry (case map_of (rc_agents cfg) d of None \<Rightarrow> [] | Some e \<Rightarrow> e) (ag_port (d_agent def))"

definition serves_agent :: "runtime_config \<Rightarrow> (string \<Rightarrow> (string, pyval) dict option) \<Rightarrow> string \<Rightarrow> domain_def \<Rightarrow> registered_agent \<Rightarrow> bool" where
  "serves_agent cfg fetch_card d def ra \<longleftrightarrow>
     ra_endpoint ra = fst (entry_of cfg d def) \<and> fetch_card (snd (entry_of cfg d def)) = Some (ra_card ra)
     \<and> (\<exists>skills. card_skills (ra_card ra) = Some skills \<and> PStr ''respond-to-peer'' \<in> set skills
          \<and> (sk_id (ag_skill (d_agent def)) \<noteq> [] \<longrightarrow> PStr (sk_id (ag_skill (d_agent def))) \<in> set skills))"

lemma register_from_card_Inr:
  assumes "register_from_card d endpoint (Some s) acard reg = Inr reg'"
  shows "\<exists>skills. card_skills acard = Some skills \<and> PStr ''respond-to-peer'' \<in> set skills \<and> (s \<noteq> [] \<longrightarrow> PStr s \<in> set skills)
    \<and> reg' = AList.update d \<lparr>ra_endpoint = endpoint, ra_card = acard, ra_status = Ready\<rparr> reg"
  using assms by (auto simp: register_from_card_def required_skill_of_def split: option.splits if_splits)

lemma register_agent_Inr:
  assumes "register_agent cat cfg fetch_card (d, def) reg = Inr reg'"
  shows "\<exists>ra. reg' = AList.update d ra reg \<and> serves_agent cfg fetch_card d def ra"
proof -
  obtain endpoint url where e: "entry_of cfg d def = (endpoint, url)" by (cases "entry_of cfg d def")
  obtain acard where c: "fetch_card url = Some acard"
    "register_from_card d endpoint (Some (sk_id (ag_skill (d_agent def)))) acard reg = Inr reg'"
    using assms e by (auto simp: register_agent_def entry_of_def Let_def split: option.splits sum.splits)
  show ?thesis using register_from_card_Inr [OF c(2)] c(1) e by (force simp: serves_agent_def)
qed

lemma register_all:
  assumes "fold_sum (register_agent cat cfg fetch_card) ds reg = Inr reg'" and "distinct (keys reg @ keys ds)"
  shows "keys reg' = keys reg @ keys ds
    \<and> (\<forall>(d, def)\<in>set ds. \<exists>ra. map_of reg' d = Some ra \<and> serves_agent cfg fetch_card d def ra)
    \<and> (\<forall>d. d \<notin> set (keys ds) \<longrightarrow> map_of reg' d = map_of reg d)"
  using assms
proof (induction ds arbitrary: reg)
  case (Cons x ds)
  obtain d def where x: "x = (d, def)" by (cases x)
  obtain reg1 where reg1: "register_agent cat cfg fetch_card (d, def) reg = Inr reg1"
      "fold_sum (register_agent cat cfg fetch_card) ds reg1 = Inr reg'"
    using Cons.prems(1) by (auto simp: x split: sum.splits)
  obtain ra where ra: "reg1 = AList.update d ra reg" "serves_agent cfg fetch_card d def ra"
    using register_agent_Inr [OF reg1(1)] by blast
  have new: "d \<notin> set (keys reg)" "d \<notin> set (keys ds)" using Cons.prems(2) by (auto simp: x keys_def)
  have keys1: "keys reg1 = keys reg @ [d]" unfolding ra(1) update_new_key [OF new(1)] by (simp add: keys_def)
  have "distinct (keys reg1 @ keys ds)" using Cons.prems(2) unfolding keys1 by (simp add: x keys_def)
  note IH = Cons.IH [OF reg1(2) this]
  have "map_of reg' d = Some ra" using IH new(2) by (simp add: ra(1) dict_simps)
  moreover have "map_of reg' e = map_of reg e" if "e \<notin> set (keys (x # ds))" for e
    using IH that by (simp add: x keys_def ra(1) dict_simps)
  ultimately show ?case using IH ra(2) keys1 unfolding x by (simp add: keys_def)
qed (simp add: keys_def)

text \<open>When every agent serves the card the catalog gives it, the runtime starts.\<close>

lemma register_own:
  assumes "\<forall>(d, def)\<in>set ds. sk_id (ag_skill (d_agent def)) \<noteq> []
      \<and> fetch_card (snd (entry_of cfg d def)) = Some (agent_card_of (d_agent def) (texts d))"
  shows "\<exists>reg'. fold_sum (register_agent cat cfg fetch_card) ds reg = Inr reg'"
  using assms
proof (induction ds arbitrary: reg)
  case (Cons x ds)
  obtain d def where x: "x = (d, def)" by (cases x)
  obtain endpoint url where e: "entry_of cfg d def = (endpoint, url)" by (cases "entry_of cfg d def")
  have "\<exists>reg1. register_agent cat cfg fetch_card (d, def) reg = Inr reg1"
    using Cons.prems own_card_registers [of "d_agent def" d endpoint "texts d" reg] e
    by (simp add: x register_agent_def entry_of_def Let_def)
  with Cons.IH Cons.prems show ?case by (auto simp: x)
qed simp

section \<open>Properties\<close>

text \<open>
  C22: a started runtime has every agent. When start-up succeeds, the registry lists exactly the
  domains of the catalog, in its order; each is registered under the configured or derived
  endpoint with the card served there, whose skills hold the domain's own skill and the skill
  to answer peers; and start-up does succeed when every agent serves the card the catalog gives
  it, the protocol mode is known and the timeout is a number.
\<close>

theorem runtime_registers:
  assumes "distinct (domain_ids cat)"
  shows "(\<forall>reg kind n. start_runtime cat cfg fetch_card = Inr (reg, kind, n) \<longrightarrow>
       keys reg = domain_ids cat
       \<and> (\<forall>(d, def)\<in>set (cat_domains cat). \<exists>ra. map_of reg d = Some ra \<and> serves_agent cfg fetch_card d def ra))
    \<and> ((\<forall>(d, def)\<in>set (cat_domains cat). sk_id (ag_skill (d_agent def)) \<noteq> []
          \<and> fetch_card (snd (entry_of cfg d def)) = Some (agent_card_of (d_agent def) (texts d)))
        \<and> router_kind_of (rc_mode cfg) = Inr kind \<and> py_int_of (rc_timeout cfg) = Some n
       \<longrightarrow> (\<exists>reg. start_runtime cat cfg fetch_card = Inr (reg, kind, n)))"
proof (intro conjI allI impI)
  fix reg kind n
  assume "start_runtime cat cfg fetch_card = Inr (reg, kind, n)"
  then have f: "fold_sum (register_agent cat cfg fetch_card) (cat_domains cat) [] = Inr reg"
    by (auto simp: start_runtime_def and_then_Inr split: option.splits)
  have "distinct (keys ([] :: Router.registry) @ keys (cat_domains cat))"
    using assms by (simp add: domain_ids_def keys_def)
  note R = register_all [OF f this]
  show "keys reg = domain_ids cat" using R by (simp add: domain_ids_def keys_def)
  show "\<forall>(d, def)\<in>set (cat_domains cat). \<exists>ra. map_of reg d = Some ra \<and> serves_agent cfg fetch_card d def ra"
    using R by blast
next
  assume h: "(\<forall>(d, def)\<in>set (cat_domains cat). sk_id (ag_skill (d_agent def)) \<noteq> []
          \<and> fetch_card (snd (entry_of cfg d def)) = Some (agent_card_of (d_agent def) (texts d)))
        \<and> router_kind_of (rc_mode cfg) = Inr kind \<and> py_int_of (rc_timeout cfg) = Some n"
  then obtain reg where "fold_sum (register_agent cat cfg fetch_card) (cat_domains cat) [] = Inr reg"
    using register_own [of "cat_domains cat"] by blast
  with h show "\<exists>reg. start_runtime cat cfg fetch_card = Inr (reg, kind, n)" by (simp add: start_runtime_def)
qed

definition ex_runtime :: runtime_config where
  "ex_runtime = \<lparr>rc_agents = [], rc_mode = Some ''ADK'', rc_timeout = PNum 5\<rparr>"

definition ex_card_texts :: "string \<Rightarrow> card_texts" where
  "ex_card_texts d = \<lparr>ct_agent = d, ct_skill = [], ct_tags = [], ct_peer = []\<rparr>"

definition ex_catalog :: catalog where
  "ex_catalog = ex_cat\<lparr>cat_domains := [(''net'', ex_domain)]\<rparr>"

definition ex_fetch_card :: "string \<Rightarrow> (string, pyval) dict option" where
  "ex_fetch_card url = Some (agent_card_of (d_agent ex_domain) (ex_card_texts ''net''))"

theorem runtime_registers_witness:
  "\<exists>reg. start_runtime ex_catalog ex_runtime ex_fetch_card = Inr (reg, Adk, 5) \<and> keys reg = [''net'']"
proof -
  have d: "distinct (domain_ids ex_catalog)" and ids: "domain_ids ex_catalog = [''net'']"
    by (simp_all add: domain_ids_def ex_catalog_def keys_def)
  have mode: "router_kind_of (rc_mode ex_runtime) = Inr Adk" by code_simp
  have tmo: "py_int_of (rc_timeout ex_runtime) = Some 5"
    by (simp add: ex_runtime_def)
  have served: "\<forall>(d, def)\<in>set (cat_domains ex_catalog). sk_id (ag_skill (d_agent def)) \<noteq> []
      \<and> ex_fetch_card (snd (entry_of ex_runtime d def)) = Some (agent_card_of (d_agent def) (ex_card_texts d))"
    by (simp add: ex_catalog_def ex_fetch_card_def) (simp add: ex_domain_def)
  note both = runtime_registers [OF d, of ex_runtime ex_fetch_card ex_card_texts Adk 5]
  obtain reg where reg: "start_runtime ex_catalog ex_runtime ex_fetch_card = Inr (reg, Adk, 5)"
    using both served mode tmo by blast
  with both ids show ?thesis by metis
qed

text \<open>
  the MCP server is never left open by accident. With verification on, start-up either
  refuses or puts the middleware of an accepted configuration before the application, and a
  request for any but the health paths then reaches it only with the claims of a verified token.
\<close>

lemma mcp_serve_guarded:
  assumes "mcp_serve F url has_jwt cfg has_hook = Inr front" and "from_cfg F url has_jwt cfg = Inr c" and "au_enabled c"
  shows "front = Wrapped c
    \<and> (as_type sc = ''http'' \<and> as_path sc \<notin> set (au_open_paths c) \<and> mcp_request F L front now sc made = Forward x
        \<longrightarrow> (\<exists>cl. x = Some cl \<and> fst (verify F L c now (header sc ''authorization'') made) = Inr cl))"
  using assms
  by (auto simp: mcp_serve_def mcp_request_def middleware_def split: if_splits prod.splits sum.splits)

end
