(* ===== verification/Drafts.thy ===== *)
theory Drafts
  imports Hypotheses Orchestrator
begin

text \<open>
  What is offered to a human after a run (\<open>draft_entries\<close> of \<open>detection/hypotheses.py\<close>): draft
  catalog entries for the supported hypotheses; with the switch that lets agents consult the
  model at all (\<open>llm_enabled\<close> of \<open>agents/triage.py\<close>) and the identity of a temporary rule
  (\<open>rule_hash\<close>). The hash, the canonical JSON text and the schema of an entry are parameters.
\<close>

section \<open>The switch and the identity of a rule\<close>

text \<open>
  \<open>flag\<close> is \<open>llm.hypotheses\<close> of the configuration, \<open>has_sdk\<close> whether the client library is
  installed.
\<close>

definition llm_enabled :: "pyval option \<Rightarrow> (string \<Rightarrow> string option) \<Rightarrow> bool \<Rightarrow> bool" where
  "llm_enabled flag env has_sdk =
     (let set_var = (\<lambda>k. case env k of Some (c # cs) \<Rightarrow> True | _ \<Rightarrow> False) in
      if \<not> truthy (case flag of None \<Rightarrow> PBool True | Some v \<Rightarrow> v) then False
      else if \<not> (set_var ''GEMINI_API_KEY'' \<or> set_var ''GOOGLE_CLOUD_PROJECT'') then False
      else has_sdk)"

definition rule_hash :: "(string \<Rightarrow> string) \<Rightarrow> (string \<Rightarrow> node \<Rightarrow> rule \<Rightarrow> string) \<Rightarrow> string \<Rightarrow> node \<Rightarrow> rule \<Rightarrow> string" where
  "rule_hash sha canon name entity r = ''llm:'' @ take 10 (sha (canon name entity r))"

section \<open>Names\<close>

definition name_char :: "char \<Rightarrow> bool" where
  "name_char c \<longleftrightarrow> (CHR ''a'' \<le> c \<and> c \<le> CHR ''z'') \<or> is_digit c \<or> c = CHR ''_''"

definition strip_underscores :: "string \<Rightarrow> string" where
  "strip_underscores s = rev (dropWhile (\<lambda>c. c = CHR ''_'') (rev (dropWhile (\<lambda>c. c = CHR ''_'') s)))"

definition clean_name :: "string \<Rightarrow> string" where
  "clean_name s =
     (let n = strip_underscores (map (\<lambda>c. if name_char c then c else CHR ''_'') (lower s))
      in if n = [] then ''llm_signal'' else n)"

definition draft_name :: "catalog \<Rightarrow> hypothesis \<Rightarrow> string" where
  "draft_name cat h =
     (let n = clean_name (if hy_name h = [] then hy_signal h else hy_name h)
      in if cat_signal cat n \<noteq> None \<and> n \<noteq> hy_signal h then n @ ''_proposed'' else n)"

section \<open>Entries\<close>

definition first_text :: "string list \<Rightarrow> string" where
  "first_text xs = (case filter (\<lambda>x. x \<noteq> []) xs of [] \<Rightarrow> [] | x # _ \<Rightarrow> x)"

definition draft_entry :: "catalog \<Rightarrow> hypothesis \<Rightarrow> signal_def" where
  "draft_entry cat h =
     (let n = draft_name cat h in
      \<lparr>sd_signal_type = (case hy_signal_type h of None \<Rightarrow> Event | Some t \<Rightarrow> t), sd_domain = hy_domain h, sd_unit = None,
       sd_description = take 300 (first_text [hy_description h, hy_why h, n]),
       sd_match_names = (if n \<noteq> hy_signal h then [hy_signal h] else []),
       sd_entity_types = (if fst (hy_entity h) \<in> set (keys (ent_types (cat_entities cat))) then [fst (hy_entity h)] else []),
       sd_derived = False, sd_rule = Some (hy_rule h)\<rparr>)"

record review_note =
  nt_id :: string
  nt_rule :: string
  nt_role :: "role option"
  nt_why :: string
  nt_entity :: node
  nt_refs :: "string list"
  nt_examples :: "string list"
  nt_pattern :: "string option"

definition review_of :: "hypothesis \<Rightarrow> review_note" where
  "review_of h = \<lparr>nt_id = hy_id h, nt_rule = hy_rule_id h, nt_role = hy_role h, nt_why = hy_why h, nt_entity = hy_entity h,
     nt_refs = hy_refs h, nt_examples = take 3 (hy_examples h), nt_pattern = hy_pattern h\<rparr>"

record drafts =
  dr_signals :: "(string, signal_def) dict"
  dr_review :: "(string, review_note) dict"

text \<open>
  A supported hypothesis; \<open>ok\<close> is the schema of an entry, and a rule outside the closed set
  raises too.
\<close>

definition draft_step :: "(signal_def \<Rightarrow> bool) \<Rightarrow> catalog \<Rightarrow> hypothesis \<Rightarrow> drafts \<Rightarrow> string + drafts" where
  "draft_step ok cat h ds =
     (case rule_refusal (hy_rule h) of
        Some e \<Rightarrow> Inl e
      | None \<Rightarrow>
          if ok (draft_entry cat h)
          then Inr \<lparr>dr_signals = AList.update (draft_name cat h) (draft_entry cat h) (dr_signals ds),
                    dr_review = AList.update (draft_name cat h) (review_of h) (dr_review ds)\<rparr>
          else Inl ''ValidationError'')"

definition supported_hypotheses :: "hypothesis_row list \<Rightarrow> hypothesis list" where
  "supported_hypotheses hs = map hr_hypothesis (filter (\<lambda>h. hr_verdict h = Some Supported) hs)"

definition draft_entries :: "(signal_def \<Rightarrow> bool) \<Rightarrow> catalog \<Rightarrow> hypothesis_row list \<Rightarrow> string + drafts" where
  "draft_entries ok cat hs = fold_sum (draft_step ok cat) (supported_hypotheses hs) \<lparr>dr_signals = [], dr_review = []\<rparr>"

section \<open>Facts\<close>

lemma clean_name_nonempty: "clean_name s \<noteq> []"
  by (simp add: clean_name_def Let_def)

lemma draft_name_nonempty: "draft_name cat h \<noteq> []"
  by (simp add: draft_name_def clean_name_nonempty Let_def)

text \<open>An entry answers to the signal the hypothesis is about.\<close>

lemma draft_entry_matches: "hy_signal h = draft_name cat h \<or> sd_match_names (draft_entry cat h) = [hy_signal h]"
  by (auto simp: draft_entry_def Let_def)

lemma draft_entries_lookup:
  assumes "fold_sum (draft_step ok cat) hs ds = Inr ds'"
  shows "map_of (dr_signals ds') n =
      (case filter (\<lambda>h. draft_name cat h = n) hs of [] \<Rightarrow> map_of (dr_signals ds) n | xs \<Rightarrow> Some (draft_entry cat (last xs)))
    \<and> (\<forall>h\<in>set hs. ok (draft_entry cat h) \<and> rule_refusal (hy_rule h) = None)"
  using assms
proof (induction hs arbitrary: ds)
  case (Cons h hs)
  obtain ds1 where d: "draft_step ok cat h ds = Inr ds1" "fold_sum (draft_step ok cat) hs ds1 = Inr ds'"
    using Cons.prems by (auto split: sum.splits)
  have s: "dr_signals ds1 = AList.update (draft_name cat h) (draft_entry cat h) (dr_signals ds)"
    and ok: "ok (draft_entry cat h) \<and> rule_refusal (hy_rule h) = None"
    using d(1) by (auto simp: draft_step_def split: option.splits if_splits)
  show ?case using Cons.IH [OF d(2)] ok by (auto simp: s dict_simps split: list.splits)
qed simp

text \<open>
  Every supported hypothesis is offered: under its name there is an entry of the schema, for a
  rule of the closed set, which answers to the signal of the last supported hypothesis of that
  name; nothing else is offered.
\<close>

lemma drafts_offer_supported:
  assumes "draft_entries ok cat hs = Inr ds"
  shows "(\<forall>h\<in>set (supported_hypotheses hs). \<exists>h'\<in>set (supported_hypotheses hs).
      draft_name cat h' = draft_name cat h \<and> map_of (dr_signals ds) (draft_name cat h) = Some (draft_entry cat h'))
    \<and> (\<forall>n d. map_of (dr_signals ds) n = Some d \<longrightarrow>
        (\<exists>h\<in>set (supported_hypotheses hs). n = draft_name cat h \<and> d = draft_entry cat h \<and> ok d \<and> rule_refusal (hy_rule h) = None))"
proof -
  note L = draft_entries_lookup [OF assms [unfolded draft_entries_def]]
  have found: "last xs \<in> set (supported_hypotheses hs) \<and> draft_name cat (last xs) = n"
    if "filter (\<lambda>h. draft_name cat h = n) (supported_hypotheses hs) = xs" "xs \<noteq> []" for n xs
  proof -
    have "last xs \<in> set (filter (\<lambda>h. draft_name cat h = n) (supported_hypotheses hs))" using that by simp
    then show ?thesis by simp
  qed
  show ?thesis
  proof (intro conjI ballI allI impI)
    fix h assume h: "h \<in> set (supported_hypotheses hs)"
    let ?xs = "filter (\<lambda>x. draft_name cat x = draft_name cat h) (supported_hypotheses hs)"
    have ne: "?xs \<noteq> []" using h by (auto simp: filter_empty_conv)
    show "\<exists>h'\<in>set (supported_hypotheses hs). draft_name cat h' = draft_name cat h
        \<and> map_of (dr_signals ds) (draft_name cat h) = Some (draft_entry cat h')"
      using found [OF refl ne] L [of "draft_name cat h", THEN conjunct1] ne
      by (intro bexI [of _ "last ?xs"]) (auto split: list.splits)
  next
    fix n d assume d: "map_of (dr_signals ds) n = Some d"
    let ?xs = "filter (\<lambda>x. draft_name cat x = n) (supported_hypotheses hs)"
    have ne: "?xs \<noteq> []" "d = draft_entry cat (last ?xs)"
      using d L [of n, THEN conjunct1] by (auto split: list.splits)
    show "\<exists>h\<in>set (supported_hypotheses hs). n = draft_name cat h \<and> d = draft_entry cat h \<and> ok d \<and> rule_refusal (hy_rule h) = None"
      using found [OF refl ne(1)] ne(2) L [of n, THEN conjunct2] by (intro bexI [of _ "last ?xs"]) auto
  qed
qed

text \<open>
  Two supported hypotheses whose names clean to the same text leave one draft: the earlier one
  is lost.
\<close>

lemma drafts_collide:
  assumes "draft_step ok cat h ds = Inr ds1" "draft_step ok cat h' ds1 = Inr ds2" "draft_name cat h' = draft_name cat h"
  shows "map_of (dr_signals ds2) (draft_name cat h) = Some (draft_entry cat h')"
  using assms by (auto simp: draft_step_def dict_simps split: option.splits if_splits)

end
