(* ===== verification/AdkRouter.thy ===== *)
theory AdkRouter
  imports Router
begin

text \<open>
  The router over the vendor's agent SDK (\<open>communication/adk_a2a_router.py\<close>), used when
  \<open>a2a.protocol_mode\<close> is \<open>adk\<close>. The SDK's objects appear as what the code asks of them: a part
  answers with protobuf fields, with a pydantic dump, or both; a task with its artifacts and the
  name of its state. Building requests for the two SDK generations and the client cache are
  left out: \<open>reply\<close> is the payload of the last event the client yields for a call, \<open>None\<close> an
  exception or no event at all.
\<close>

section \<open>Parts\<close>

datatype proto_fields = ProtoRaises | ProtoFields "pyval option" "string option"

text \<open>\<open>sp_proto\<close>: the part has \<open>HasField\<close>; \<open>sp_dump\<close>: it has \<open>model_dump\<close>, which may raise.\<close>

record sdk_part =
  sp_proto :: "proto_fields option"
  sp_dump :: "pyval option option"

text \<open>The reading of the protobuf fields: \<open>Inl\<close> ends it, \<open>Inr ()\<close> goes on to the dump.\<close>

definition json_text :: "(string \<Rightarrow> pyval option) \<Rightarrow> string \<Rightarrow> (string, pyval) dict option + unit" where
  "json_text loads s =
     (let c = strip s in
      if c \<noteq> [] \<and> hd c = CHR ''{'' \<and> last c = CHR ''}''
      then (case loads c of None \<Rightarrow> Inl None | Some (PDict d) \<Rightarrow> Inl (Some d) | Some _ \<Rightarrow> Inr ())
      else Inr ())"

definition proto_data :: "(string \<Rightarrow> pyval option) \<Rightarrow> proto_fields \<Rightarrow> (string, pyval) dict option + unit" where
  "proto_data loads p =
     (case p of
        ProtoRaises \<Rightarrow> Inl None
      | ProtoFields (Some (PDict d)) _ \<Rightarrow> Inl (Some d)
      | ProtoFields _ None \<Rightarrow> Inr ()
      | ProtoFields _ (Some s) \<Rightarrow> json_text loads s)"

definition dump_data :: "pyval option option \<Rightarrow> (string, pyval) dict option" where
  "dump_data v =
     (case v of
        Some (Some (PDict p)) \<Rightarrow>
          if map_of p ''kind'' = Some (PStr ''data'')
          then (case map_of p ''data'' of Some (PDict d) \<Rightarrow> Some d | _ \<Rightarrow> None) else None
      | _ \<Rightarrow> None)"

definition part_data :: "(string \<Rightarrow> pyval option) \<Rightarrow> sdk_part \<Rightarrow> (string, pyval) dict option" where
  "part_data loads p =
     (case sp_proto p of
        None \<Rightarrow> dump_data (sp_dump p)
      | Some f \<Rightarrow> (case proto_data loads f of Inl r \<Rightarrow> r | Inr _ \<Rightarrow> dump_data (sp_dump p)))"

text \<open>The first part that holds an object; \<open>{}\<close> when there is none.\<close>

definition parts_data :: "(string \<Rightarrow> pyval option) \<Rightarrow> sdk_part list \<Rightarrow> (string, pyval) dict" where
  "parts_data loads ps = (case List.map_filter (part_data loads) ps of [] \<Rightarrow> [] | d # _ \<Rightarrow> d)"

section \<open>Results\<close>

text \<open>The state of a task: an enum with a value, a number with a name (\<open>None\<close>: no such name).\<close>

datatype sdk_state = EnumState string | NamedState "string option"

datatype sdk_result = SdkTask "sdk_part list list" "sdk_state option" | SdkMessage "sdk_part list"

definition result_data :: "(string \<Rightarrow> pyval option) \<Rightarrow> sdk_result \<Rightarrow> (string, pyval) dict" where
  "result_data loads r =
     (case r of SdkTask artifacts _ \<Rightarrow> parts_data loads (concat artifacts) | SdkMessage ps \<Rightarrow> parts_data loads ps)"

definition map_state :: "string \<Rightarrow> string" where
  "map_state s =
     (if s = ''completed'' then ''completed''
      else if s = ''canceled'' \<or> s = ''cancelled'' then ''cancelled''
      else if s = ''failed'' \<or> s = ''rejected'' \<or> s = ''unknown'' then ''failed''
      else s)"

definition adk_status :: "sdk_result \<Rightarrow> string" where
  "adk_status r =
     (case r of
        SdkMessage _ \<Rightarrow> ''completed''
      | SdkTask _ None \<Rightarrow> map_state ''unknown''
      | SdkTask _ (Some (EnumState v)) \<Rightarrow> map_state (lower v)
      | SdkTask _ (Some (NamedState (Some n))) \<Rightarrow> map_state (lower n)
      | SdkTask _ (Some (NamedState None)) \<Rightarrow> ''failed'')"

section \<open>Calls\<close>

text \<open>What the client yields for a call: the agent, the data, the text, the session.\<close>

type_synonym sdk_client = "string \<Rightarrow> (string, pyval) dict \<Rightarrow> string \<Rightarrow> string \<Rightarrow> sdk_result option"

text \<open>\<open>validate\<close> is \<open>AgentFinding.model_validate\<close>.\<close>

definition adk_send_analysis :: "(string \<Rightarrow> pyval option) \<Rightarrow> sdk_client \<Rightarrow> (pyval \<Rightarrow> 'f option) \<Rightarrow> string \<Rightarrow> string \<Rightarrow> string
    \<Rightarrow> (string, pyval) dict \<Rightarrow> 'f option" where
  "adk_send_analysis loads client validate agent incident skill payload =
     Option.bind (client agent (dict_merge [(''skill'', PStr skill)] payload) (''Run '' @ skill) incident)
       (\<lambda>r. validate (PDict (result_data loads r)))"

definition adk_send_direct :: "(string \<Rightarrow> pyval option) \<Rightarrow> sdk_client \<Rightarrow> string \<Rightarrow> string \<Rightarrow> string
    \<Rightarrow> (string, pyval) dict \<Rightarrow> nat \<Rightarrow> string \<Rightarrow> a2a_message option" where
  "adk_send_direct loads client sender target mtype payload rnd session =
     checked_message
       (case client target (peer_data sender mtype rnd payload) mtype session of
          None \<Rightarrow> mk_message sender target mtype payload rnd ''failed'' None
        | Some r \<Rightarrow> mk_message sender target mtype payload rnd (adk_status r)
            (case result_data loads r of [] \<Rightarrow> None | d # ds \<Rightarrow> Some (d # ds)))"

definition adk_broadcast :: "(string \<Rightarrow> pyval option) \<Rightarrow> Router.registry \<Rightarrow> sdk_client \<Rightarrow> string \<Rightarrow> string
    \<Rightarrow> (string, pyval) dict \<Rightarrow> nat \<Rightarrow> string \<Rightarrow> a2a_message list option" where
  "adk_broadcast loads reg client sender mtype payload rnd session =
     those (map (\<lambda>target. adk_send_direct loads client sender target mtype payload rnd session)
       (filter (\<lambda>t. t \<noteq> sender) (keys reg)))"

section \<open>Facts\<close>

lemma parts_data_first: "part_data loads p = Some d \<Longrightarrow> parts_data loads (p # ps) = d"
  by (simp add: parts_data_def map_filter_simps)

lemma dumped_part: "part_data loads \<lparr>sp_proto = None, sp_dump = Some (Some (PDict [(''kind'', PStr ''data''), (''data'', PDict d)]))\<rparr> = Some d"
  by (simp add: part_data_def dump_data_def)

lemma proto_part: "part_data loads \<lparr>sp_proto = Some (ProtoFields (Some (PDict d)) t), sp_dump = x\<rparr> = Some d"
  by (simp add: part_data_def proto_data_def)

text \<open>The states both routers know.\<close>

definition shared_states :: "string list" where
  "shared_states = [''completed'', ''queued'', ''working'', ''submitted'', ''canceled'', ''cancelled'', ''failed'', ''rejected'', ''unknown'']"

lemma map_state_shared:
  assumes "lower s \<in> set shared_states"
  shows "map_state (lower s) = normalize_state s"
proof -
  have "lower s = ''completed'' \<or> lower s = ''queued'' \<or> lower s = ''working'' \<or> lower s = ''submitted''
      \<or> lower s = ''canceled'' \<or> lower s = ''cancelled'' \<or> lower s = ''failed'' \<or> lower s = ''rejected'' \<or> lower s = ''unknown''"
    using assms unfolding shared_states_def by simp
  then show ?thesis by (elim disjE) (simp_all add: map_state_def normalize_state_def)
qed

text \<open>Other states part: the custom router calls them failed, this one passes them on.\<close>

lemma other_states_differ:
  "normalize_state ''input-required'' = ''failed''" "map_state (lower ''input-required'') = ''input-required''"
  by code_simp+

text \<open>A task both routers see: one artifact whose first part holds the handler's answer.\<close>

inductive same_answer :: "(string \<Rightarrow> pyval option) \<Rightarrow> sdk_result option \<Rightarrow> pyval option \<Rightarrow> bool" for loads where
  no_answer: "same_answer loads None None"
| task_answer: "lower st \<in> set shared_states \<Longrightarrow> d \<noteq> [] \<Longrightarrow> part_data loads p = Some d \<Longrightarrow>
     same_answer loads (Some (SdkTask ((p # ps) # arts) (Some (EnumState st))))
       (Some (PDict (build_task_result stamp aid payload tid cid st (Some (name, d)))))"

lemma direct_agrees:
  assumes "map_of reg target = Some ra"
    and "same_answer loads (client target (peer_data sender mtype rnd payload) mtype session)
      (post (ra_endpoint ra) (direct_request rid sender target mtype payload rnd session))"
  shows "adk_send_direct loads client sender target mtype payload rnd session
    = send_direct F reg post rid sender target mtype payload rnd session"
  using assms(2)
proof (cases rule: same_answer.cases)
  case no_answer
  then show ?thesis by (simp add: adk_send_direct_def send_direct_def assms(1))
next
  case (task_answer st d p ps arts stamp aid body tid cid name)
  have data: "result_data loads (SdkTask ((p # ps) # arts) (Some (EnumState st))) = d"
    using parts_data_first [OF task_answer(5)] by (simp add: result_data_def)
  obtain x xs where d: "d = x # xs" using task_answer(4) by (cases d) auto
  show ?thesis
    using map_state_shared [OF task_answer(3)] data
    by (simp add: adk_send_direct_def send_direct_def assms(1) task_answer(1,2) read_task_result adk_status_def d)
qed

section \<open>Properties\<close>

text \<open>
  C23: the two routers are interchangeable. When the SDK and the plain transport deliver the same
  outcome of every call (no answer, or a task in a state both know whose first part is the
  handler's non-empty answer), a broadcast through either gives the same messages in the same
  order: same targets, same status, same response.
\<close>

theorem routers_agree:
  assumes "\<And>t ra. map_of reg t = Some ra \<Longrightarrow>
      same_answer loads (client t (peer_data sender mtype rnd payload) mtype session)
        (post (ra_endpoint ra) (direct_request (rids t) sender t mtype payload rnd session))"
  shows "adk_broadcast loads reg client sender mtype payload rnd session
    = broadcast F reg post rids sender mtype payload rnd session"
proof -
  have "adk_send_direct loads client sender t mtype payload rnd session
      = send_direct F reg post (rids t) sender t mtype payload rnd session" if "t \<in> set (keys reg)" for t
  proof -
    have "map_of reg t \<noteq> None" using that by (simp add: keys_def map_of_eq_None_iff)
    then obtain ra where ra: "map_of reg t = Some ra" by blast
    show ?thesis by (rule direct_agrees [where client = client and post = post, OF ra, OF assms [OF ra]])
  qed
  then show ?thesis unfolding adk_broadcast_def broadcast_def by (intro arg_cong [where f = those] map_cong) auto
qed

definition ex_sdk_answer :: sdk_result where
  "ex_sdk_answer = SdkTask [[\<lparr>sp_proto = None, sp_dump = Some (Some (PDict [(''kind'', PStr ''data''), (''data'', PDict [(''a'', PNone)])]))\<rparr>]]
     (Some (EnumState ''Completed''))"

definition ex_answer_post :: transport where
  "ex_answer_post ep req = Some (PDict (build_task_result ''t'' ''x'' [] ''1'' ''c'' ''Completed'' (Some (''peer_answer'', [(''a'', PNone)]))))"

theorem routers_agree_witness:
  "adk_broadcast (\<lambda>_. None) ex_reg (\<lambda>_ _ _ _. Some ex_sdk_answer) ''metrics'' ''clarification_request'' [] 1 ''INC''
     = broadcast (\<lambda>_. []) ex_reg ex_answer_post id ''metrics'' ''clarification_request'' [] 1 ''INC''
   \<and> map_option (map am_target) (adk_broadcast (\<lambda>_. None) ex_reg (\<lambda>_ _ _ _. Some ex_sdk_answer) ''metrics'' ''clarification_request'' [] 1 ''INC'')
     = Some [''log'', ''config'']"
proof
  have st: "lower ''Completed'' \<in> set shared_states" by code_simp
  have same: "same_answer (\<lambda>_. None) (Some ex_sdk_answer) (ex_answer_post ep req)" for ep req
    unfolding ex_sdk_answer_def ex_answer_post_def by (rule task_answer [OF st _ dumped_part]) simp
  show "adk_broadcast (\<lambda>_. None) ex_reg (\<lambda>_ _ _ _. Some ex_sdk_answer) ''metrics'' ''clarification_request'' [] 1 ''INC''
     = broadcast (\<lambda>_. []) ex_reg ex_answer_post id ''metrics'' ''clarification_request'' [] 1 ''INC''"
    by (rule routers_agree [OF same])
qed code_simp

end
