(* ===== verification/Baselines.thy ===== *)
theory Baselines
  imports App Rules
begin

text \<open>
  The baseline stores behind z-score rules (\<open>providers/simulation/baseline_sim.py\<close>,
  \<open>providers/adapters/prometheus_baseline_adapter.py\<close>, \<open>_NoBaselines\<close> of
  \<open>agents/domain_agent.py\<close>), by the choice \<open>App.baseline_provider\<close> makes. The sample count, the age
  and the window of a baseline are read by no rule and left out.
\<close>

section \<open>Stores\<close>

definition bl :: "string \<Rightarrow> string \<Rightarrow> real \<Rightarrow> real \<Rightarrow> (string \<times> string) \<times> entity_baseline" where
  "bl entity metric mean std = ((entity, metric), \<lparr>b_mean = mean, b_std = std\<rparr>)"

definition sim_baselines :: "((string \<times> string), entity_baseline) dict" where
  "sim_baselines =
     [bl ''region:us-east'' ''error_rate'' (7 / 10) (1 / 4),
      bl ''region:us-east'' ''packet_loss'' (7 / 20) (1 / 5),
      bl ''region:us-east'' ''throughput_gbps'' 1 (9 / 50),
      bl ''switch:A'' ''throughput_gbps'' 1 (2 / 25),
      bl ''switch:B'' ''throughput_gbps'' 1 (2 / 25),
      bl ''switch:C'' ''error_rate'' (7 / 10) (1 / 4),
      bl ''switch:C'' ''packet_loss'' (2 / 5) (1 / 5),
      bl ''switch:C'' ''throughput_gbps'' 1 (1 / 10),
      bl ''switch:D'' ''throughput_gbps'' 1 (2 / 25),
      bl ''component:Switch-C eth0/1'' ''change_count'' (1 / 5) (1 / 4),
      bl ''component:api-gw'' ''change_count'' (2 / 5) (3 / 10),
      bl ''component:CORE-01'' ''change_count'' (1 / 4) (1 / 4),
      bl ''region:us-east'' ''change_count'' (3 / 10) (3 / 10)]"

definition sim_baseline :: "string \<Rightarrow> string \<Rightarrow> entity_baseline option" where
  "sim_baseline entity metric = map_of sim_baselines (entity, metric)"

definition no_baseline :: "string \<Rightarrow> string \<Rightarrow> entity_baseline option" where
  "no_baseline entity metric = None"

text \<open>The store of a provider; the Prometheus one is a stub whose every lookup raises (\<open>None\<close>).\<close>

definition baseline_store :: "baseline_choice \<Rightarrow> (string \<Rightarrow> string \<Rightarrow> entity_baseline option) option" where
  "baseline_store c =
     (case c of SimulationBaselines \<Rightarrow> Some sim_baseline | NoBaselines \<Rightarrow> Some no_baseline | PrometheusBaselines \<Rightarrow> None)"

section \<open>Facts\<close>

lemma sim_spread: "\<forall>b\<in>set (vals sim_baselines). 0 < b_std b"
  by (simp add: sim_baselines_def bl_def vals_def)

lemma sim_baseline_spread: "sim_baseline entity metric = Some b \<Longrightarrow> 0 < b_std b"
  using sim_spread by (force simp: sim_baseline_def vals_def dest: map_of_SomeD)

lemma store_baseline_found: "store_baseline look ctx s metric ts = Inr (Some b) \<Longrightarrow> \<exists>key. look key metric = Some b"
  by (induction look ctx s metric ts rule: store_baseline.induct) (auto split: sum.splits option.splits)

text \<open>
  On the simulation store the guard against a zero spread never decides: with too few samples of
  its own, a value is judged by the first baseline its keys name, and fires exactly when it
  lies more than the threshold's multiple of the spread away from the mean.
\<close>

lemma simulation_zscore_decides:
  assumes "s_value s = Some v" and "ctx_lookup ctx = Some sim_baseline"
    and "length (sample_values (series_of (ctx_baseline_series ctx) s)) < zs_min_samples r"
    and "store_baseline sim_baseline ctx s (str_or (zs_metric r) (s_name s)) (zs_keys r) = Inr (Some b)"
  shows "\<exists>h. zscore_baseline r s ctx rid = Inr h \<and> (h \<noteq> None \<longleftrightarrow> zs_threshold r * b_std b < \<bar>v - b_mean b\<bar>)"
proof -
  have pos: "0 < b_std b" using store_baseline_found [OF assms(4)] sim_baseline_spread by blast
  have "zscore_baseline r s ctx rid = Inr (z_hit r s rid v (b_mean b) (b_std b))"
    using assms by (simp add: zscore_baseline_def)
  moreover have "zs_threshold r < \<bar>v - b_mean b\<bar> / b_std b \<longleftrightarrow> zs_threshold r * b_std b < \<bar>v - b_mean b\<bar>"
    using pos by (simp add: pos_less_divide_eq)
  ultimately show ?thesis using pos by (simp add: z_hit_def Let_def)
qed

text \<open>
  A name the configuration error does not offer is accepted, and gives a store that cannot be
  asked.
\<close>

lemma prometheus_store_raises:
  "baseline_provider (Some ''Prometheus'') = Inr PrometheusBaselines \<and> baseline_store PrometheusBaselines = None"
  by code_simp

end
