(* ===== verification/Commands.thy ===== *)
theory Commands
  imports App
begin

text \<open>
  The commands of \<open>app/main.py\<close> that drive the engine: one incident (\<open>run\<close>), the webhook's handler
  (\<open>serve\<close>), the keyword evaluation over the simulated scenarios (\<open>eval\<close>), and the graph node for an
  agent outside the program (\<open>agents/external_adapter.py\<close>). The engine is a parameter: an
  incident's report, or an exception; so is whether writing the outputs raises. Printing, logging
  and the closing of sessions and servers are left out.
\<close>

section \<open>One incident\<close>

datatype command_error = EngineRaised string | OutputRaised | UnknownScenario int | NoScenarios

definition cli_incident :: "string \<Rightarrow> time \<Rightarrow> int \<Rightarrow> string \<Rightarrow> string \<Rightarrow> incident_request" where
  "cli_incident new_id now scenario description region =
     \<lparr>in_id = new_id, in_scenario = Some scenario, in_description = description, in_region = region, in_reported_at = now,
      in_severity = SevHigh, in_source_system = Some ''cli'', in_external_id = Some (''CLI-'' @ int_str scenario), in_alarm_entities = []\<rparr>"

definition run_command :: "(incident_request \<Rightarrow> string + ('m, 'h) rca_report) \<Rightarrow> (('m, 'h) rca_report \<Rightarrow> bool) \<Rightarrow> incident_request
    \<Rightarrow> command_error + ('m, 'h) rca_report" where
  "run_command engine writes inc =
     (case engine inc of
        Inl e \<Rightarrow> Inl (EngineRaised e)
      | Inr r \<Rightarrow> if writes r then Inr r else Inl OutputRaised)"

text \<open>The webhook's handler: an exception while writing is only logged.\<close>

definition serve_handle :: "(incident_request \<Rightarrow> string + ('m, 'h) rca_report) \<Rightarrow> (('m, 'h) rca_report \<Rightarrow> bool) \<Rightarrow> incident_request
    \<Rightarrow> string + ('m, 'h) rca_report" where
  "serve_handle engine writes inc =
     (case engine inc of
        Inl e \<Rightarrow> Inl e
      | Inr r \<Rightarrow> (let _ = writes r in Inr r))"

section \<open>An external agent\<close>

definition EXTERNAL_WINDOW :: int where "EXTERNAL_WINDOW = 30"

text \<open>The call an external agent gets; \<open>None\<close> is an exception of the router.\<close>

record external_call =
  xc_agent :: string
  xc_incident :: string
  xc_skill :: string
  xc_region :: string
  xc_start :: time
  xc_end :: time
  xc_scenario :: "int option"

definition external_node :: "(external_call \<Rightarrow> 'f option) \<Rightarrow> (time \<Rightarrow> int \<Rightarrow> time \<times> time) \<Rightarrow> string \<Rightarrow> string \<Rightarrow> incident_request
    \<Rightarrow> 'f list option" where
  "external_node send window agent skill inc =
     (let (start, finish) = window (in_reported_at inc) EXTERNAL_WINDOW in
      map_option (\<lambda>f. [f]) (send \<lparr>xc_agent = agent, xc_incident = in_id inc, xc_skill = skill, xc_region = in_region inc,
        xc_start = start, xc_end = finish, xc_scenario = in_scenario inc\<rparr>))"

section \<open>Evaluation over the scenarios\<close>

record scenario_bundle =
  sb_name :: string
  sb_description :: string
  sb_region :: string
  sb_severity :: incident_severity
  sb_keywords :: "string list"

record eval_row =
  er_scenario :: int
  er_incident :: string
  er_confidence :: real
  er_conflict :: bool
  er_expected :: nat
  er_matched :: nat
  er_coverage :: real
  er_absent :: "string list"

definition eval_incident :: "string \<Rightarrow> time \<Rightarrow> string \<Rightarrow> int \<Rightarrow> scenario_bundle \<Rightarrow> incident_request" where
  "eval_incident new_id now dflt_region sid b =
     \<lparr>in_id = new_id, in_scenario = Some sid, in_description = sb_description b,
      in_region = (if sb_region b = [] then dflt_region else sb_region b), in_reported_at = now, in_severity = sb_severity b,
      in_source_system = Some ''eval'', in_external_id = Some (''EVAL-'' @ int_str sid), in_alarm_entities = []\<rparr>"

definition eval_row_of :: "int \<Rightarrow> string \<Rightarrow> scenario_bundle \<Rightarrow> ('m, 'h) rca_report \<Rightarrow> eval_row" where
  "eval_row_of sid inc b r =
     (case keyword_coverage r (sb_keywords b) of (matched, absent, cov) \<Rightarrow>
      \<lparr>er_scenario = sid, er_incident = inc, er_confidence = rp_confidence r, er_conflict = rp_conflict r,
       er_expected = length (sb_keywords b), er_matched = length matched, er_coverage = cov, er_absent = absent\<rparr>)"

record ('m, 'h) eval_env =
  ee_engine :: "incident_request \<Rightarrow> string + ('m, 'h) rca_report"
  ee_writes :: "('m, 'h) rca_report \<Rightarrow> bool"
  ee_scenarios :: "(int, scenario_bundle) dict"
  ee_region :: string
  ee_id :: "int \<Rightarrow> string"
  ee_now :: "int \<Rightarrow> time"

definition eval_scenario :: "('m, 'h) eval_env \<Rightarrow> int \<Rightarrow> command_error + eval_row" where
  "eval_scenario V sid =
     (case map_of (ee_scenarios V) sid of
        None \<Rightarrow> Inl (UnknownScenario sid)
      | Some b \<Rightarrow>
          and_then (run_command (ee_engine V) (ee_writes V) (eval_incident (ee_id V sid) (ee_now V sid) (ee_region V) sid b)) (\<lambda>r.
          Inr (eval_row_of sid (ee_id V sid) b r)))"

text \<open>The loop: an exception ends it, the rows so far are kept.\<close>

fun eval_loop :: "('m, 'h) eval_env \<Rightarrow> int list \<Rightarrow> eval_row list \<times> command_error option" where
  "eval_loop V [] = ([], None)"
| "eval_loop V (sid # sids) =
     (case eval_scenario V sid of
        Inl e \<Rightarrow> ([], Some e)
      | Inr row \<Rightarrow> (case eval_loop V sids of (rows, e) \<Rightarrow> (row # rows, e)))"

datatype eval_end = EvalDone | EvalExit nat | EvalRaises command_error

definition eval_ids :: "('m, 'h) eval_env \<Rightarrow> bool \<Rightarrow> int \<Rightarrow> int list" where
  "eval_ids V all_scenarios scenario = (if all_scenarios then sort (keys (ee_scenarios V)) else [scenario])"

text \<open>
  \<open>eval\<close>: the rows and the overall coverage that are printed, and how the command ends. A miss
  under \<open>fail_on_miss\<close> is reported before an exception of the loop is raised again.
\<close>

definition eval_command :: "('m, 'h) eval_env \<Rightarrow> bool \<Rightarrow> int \<Rightarrow> bool \<Rightarrow> (eval_row list \<times> real) option \<times> eval_end" where
  "eval_command V all_scenarios scenario fail_on_miss =
     (if eval_ids V all_scenarios scenario = [] then (None, EvalRaises NoScenarios)
      else case eval_loop V (eval_ids V all_scenarios scenario) of (rows, e) \<Rightarrow>
        (case (rows, e) of
           ([], Some err) \<Rightarrow> (None, EvalRaises err)
         | _ \<Rightarrow> (Some (rows, overall_coverage (map (\<lambda>r. (er_expected r, er_matched r)) rows)),
                 if fail_on_miss \<and> list_ex (\<lambda>r. er_absent r \<noteq> []) rows then EvalExit 1
                 else case e of None \<Rightarrow> EvalDone | Some err \<Rightarrow> EvalRaises err)))"

section \<open>Facts\<close>

text \<open>What the webhook's caller gets does not depend on the outputs being written.\<close>

lemma serve_keeps_report: "serve_handle engine writes inc = engine inc"
  by (simp add: serve_handle_def split: sum.splits)

lemma eval_row_scenario [simp]: "er_scenario (eval_row_of sid inc b r) = sid"
  by (simp add: eval_row_of_def case_prod_unfold)

lemma eval_loop_prefix:
  assumes "eval_loop V sids = (rows, e)"
  shows "map er_scenario rows = take (length rows) sids
    \<and> (e = None \<longleftrightarrow> length rows = length sids)
    \<and> (\<forall>err. e = Some err \<longrightarrow> length rows < length sids \<and> eval_scenario V (sids ! length rows) = Inl err)
    \<and> (\<forall>i<length rows. eval_scenario V (sids ! i) = Inr (rows ! i))"
  using assms
proof (induction sids arbitrary: rows)
  case (Cons sid sids)
  show ?case
  proof (cases "eval_scenario V sid")
    case (Inl err)
    then show ?thesis using Cons.prems by auto
  next
    case (Inr row)
    obtain rs where rs: "eval_loop V sids = (rs, e)" "rows = row # rs"
      using Cons.prems Inr by (auto split: prod.splits)
    have "er_scenario row = sid"
      using Inr by (auto simp: eval_scenario_def and_then_Inr split: option.splits)
    moreover have "eval_scenario V ((sid # sids) ! i) = Inr (rows ! i)" if "i < length rows" for i
      using that Inr rs(2) Cons.IH [OF rs(1)] by (cases i) auto
    ultimately show ?thesis using Cons.IH [OF rs(1)] Inr rs(2) by auto
  qed
qed auto

lemma eval_row_balance: "eval_scenario V sid = Inr row \<Longrightarrow> er_matched row + length (er_absent row) = er_expected row"
  by (auto simp: eval_scenario_def and_then_Inr eval_row_of_def keyword_coverage_def Let_def sum_length_filter_compl
      split: option.splits)

text \<open>
  The evaluation ends cleanly only when it measured every scenario asked for, and under
  \<open>fail_on_miss\<close> only when every keyword of each was found.
\<close>

lemma eval_clean:
  assumes "eval_command V all_scenarios scenario fail_on_miss = (out, EvalDone)"
  shows "\<exists>rows cov. out = Some (rows, cov) \<and> map er_scenario rows = eval_ids V all_scenarios scenario
    \<and> (fail_on_miss \<longrightarrow> (\<forall>r\<in>set rows. er_absent r = [] \<and> er_matched r = er_expected r))"
proof -
  let ?ids = "eval_ids V all_scenarios scenario"
  obtain rows e where l: "eval_loop V ?ids = (rows, e)" by fastforce
  have ids: "?ids \<noteq> []" using assms by (auto simp: eval_command_def)
  note P = eval_loop_prefix [OF l]
  have e: "e = None" and m: "\<not> (fail_on_miss \<and> list_ex (\<lambda>r. er_absent r \<noteq> []) rows)"
    and out: "out = Some (rows, overall_coverage (map (\<lambda>r. (er_expected r, er_matched r)) rows))"
    using assms ids by (auto simp: eval_command_def l split: list.splits option.splits if_splits)
  have "er_matched r = er_expected r" if "r \<in> set rows" "er_absent r = []" for r
  proof -
    obtain i where "i < length rows" "rows ! i = r" using \<open>r \<in> set rows\<close> by (auto simp: in_set_conv_nth)
    then have "eval_scenario V (?ids ! i) = Inr r" using P by blast
    then show ?thesis using eval_row_balance [of V "?ids ! i" r] that(2) by simp
  qed
  moreover have "map er_scenario rows = ?ids" using P e by simp
  ultimately show ?thesis using m out by (auto simp: list_ex_iff)
qed

end
