(* ===== verification/Deploy.thy ===== *)
theory Deploy
  imports App
begin

text \<open>
  The deployment script (\<open>deploy.py\<close>): which commands it runs, in which order, and where it
  stops. The shell is a parameter: what a command returns after the commands run before it.
  Printing, and the bytes of a hash, are left out.
\<close>

section \<open>Commands\<close>

text \<open>\<open>ApplyStdin\<close> is \<open>kubectl apply -f -\<close> with a rendered manifest as its input.\<close>

datatype command = Shell string | ApplyStdin string string

record shell =
  sl_code :: "command list \<Rightarrow> command \<Rightarrow> int"
  sl_out :: "command list \<Rightarrow> command \<Rightarrow> string"

record deploy_state =
  dy_ran :: "command list"
  dy_env :: "(string, string) dict"

text \<open>A step ends the script (\<open>sys.exit(1)\<close>, left) or goes on with a value.\<close>

type_synonym 'a step_result = "deploy_state + 'a \<times> deploy_state"

definition exec :: "shell \<Rightarrow> command \<Rightarrow> deploy_state \<Rightarrow> int \<times> deploy_state" where
  "exec sh c st = (sl_code sh (dy_ran st) c, st\<lparr>dy_ran := dy_ran st @ [c]\<rparr>)"

definition run :: "shell \<Rightarrow> bool \<Rightarrow> command \<Rightarrow> deploy_state \<Rightarrow> int step_result" where
  "run sh check c st =
     (let (code, st') = exec sh c st in if check \<and> code \<noteq> 0 then Inl st' else Inr (code, st'))"

text \<open>Commands one after the other; all checked, or none.\<close>

definition run_each :: "shell \<Rightarrow> bool \<Rightarrow> command list \<Rightarrow> deploy_state \<Rightarrow> deploy_state + deploy_state" where
  "run_each sh check cs st = fold_sum (\<lambda>c s. and_then (run sh check c s) (\<lambda>(_, s'). Inr s')) cs st"

definition IMAGE_TAG :: string where "IMAGE_TAG = ''2.0.0''"

definition prereq_commands :: "command list" where
  "prereq_commands = [Shell ''kubectl version --client'', Shell ''docker version'']"

definition check_prereqs :: "shell \<Rightarrow> deploy_state \<Rightarrow> deploy_state + deploy_state" where
  "check_prereqs sh st = run_each sh True prereq_commands st"

section \<open>The cluster\<close>

text \<open>\<open>str.replace\<close> for a pattern that is not empty.\<close>

function replace_str :: "string \<Rightarrow> string \<Rightarrow> string \<Rightarrow> string" where
  "replace_str old new [] = []"
| "replace_str old new (c # cs) =
     (if old \<noteq> [] \<and> starts_with old (c # cs) then new @ replace_str old new (drop (length old) (c # cs))
      else c # replace_str old new cs)"
  by pat_completeness auto
termination by (relation "measure (\<lambda>(old, new, s). length s)") auto

definition strip_quotes :: "string \<Rightarrow> string" where
  "strip_quotes s = rev (dropWhile (\<lambda>c. c = CHR 0x22) (rev (dropWhile (\<lambda>c. c = CHR 0x22) s)))"

text \<open>A line \<open>export NAME="value"\<close> of \<open>minikube docker-env\<close>; the name is never empty there.\<close>

definition export_entry :: "string \<Rightarrow> (string \<times> string) option" where
  "export_entry line =
     (let s = replace_str ''export '' [] line in
      if starts_with ''export '' line \<and> CHR ''='' \<in> set s
      then Some (before_char CHR ''='' s, strip_quotes (after_char CHR ''='' s)) else None)"

definition MINIKUBE :: command where "MINIKUBE = Shell ''minikube status --format={{.Host}}''"
definition DOCKER_ENV :: command where "DOCKER_ENV = Shell ''minikube docker-env --shell bash''"
definition MINIKUBE_IP :: command where "MINIKUBE_IP = Shell ''minikube ip''"

definition detect_cluster :: "shell \<Rightarrow> deploy_state \<Rightarrow> string \<times> deploy_state" where
  "detect_cluster sh st =
     (let (code, st1) = exec sh MINIKUBE st in
      if code = 0 \<and> contains_str ''Running'' (sl_out sh (dy_ran st) MINIKUBE)
      then let (code2, st2) = exec sh DOCKER_ENV st1;
               st3 = (if code2 = 0
                      then st2\<lparr>dy_env := dict_merge (dy_env st2)
                             (List.map_filter export_entry (split_lines [] (sl_out sh (dy_ran st1) DOCKER_ENV)))\<rparr>
                      else st2);
               (code3, st4) = exec sh MINIKUBE_IP st3
           in (if code3 = 0 then strip (sl_out sh (dy_ran st3) MINIKUBE_IP) else ''localhost'', st4)
      else (''localhost'', st1))"

definition image :: "string \<Rightarrow> string" where "image s = ''netcortex-'' @ s @ '':'' @ IMAGE_TAG"

definition build_commands :: "command list" where
  "build_commands =
     [Shell (''docker build -t '' @ image ''telemetry'' @ '' -f Dockerfile.telemetry .''),
      Shell (''docker build -t '' @ image ''rca'' @ '' -f Dockerfile.rca .'')]"

definition import_commands :: "command list" where
  "import_commands = map (\<lambda>s. Shell (''docker save '' @ image s @ '' | sudo k3s ctr images import -'')) [''telemetry'', ''rca'']"

definition tag_commands :: "command list" where
  "tag_commands = map (\<lambda>s. Shell (''sudo k3s ctr images tag localhost/'' @ image s @ '' docker.io/library/'' @ image s))
     [''telemetry'', ''rca'']"

text \<open>\<open>has_k3s\<close> is \<open>shutil.which("k3s")\<close>.\<close>

definition build_images :: "shell \<Rightarrow> bool \<Rightarrow> deploy_state \<Rightarrow> deploy_state + deploy_state" where
  "build_images sh has_k3s st =
     and_then (run_each sh True build_commands st) (\<lambda>st1.
     if has_k3s then and_then (run_each sh True import_commands st1) (run_each sh False tag_commands) else Inr st1)"

section \<open>The catalog override\<close>

definition CATALOG_CONFIGMAP :: string where "CATALOG_CONFIGMAP = ''k8s/catalog-configmap.yaml''"
definition CATALOG_HASH_PLACEHOLDER :: string where "CATALOG_HASH_PLACEHOLDER = ''__CATALOG_HASH__''"
definition CATALOG_DEPLOYMENTS :: "string list" where
  "CATALOG_DEPLOYMENTS = [''k8s/telemetry-deployment.yaml'', ''k8s/rca-deployment.yaml'']"

text \<open>What the script reads: the files beside it, parsed where it parses them.\<close>

record repo =
  re_env_file :: "string option"
  re_configmap :: "(string, pyval) dict"
  re_str :: "pyval \<Rightarrow> string"
  re_parse :: "string \<Rightarrow> string + json_file"
  re_loader :: loader
  re_defaults :: "catalog_dir"
  re_default_bytes :: "(string, string) dict"
  re_manifest :: "string \<Rightarrow> string"
  re_canonical :: "(string, string) dict \<Rightarrow> string"
  re_sha :: "string \<Rightarrow> string"

definition catalog_override_files :: "repo \<Rightarrow> (string, string) dict" where
  "catalog_override_files R = map (\<lambda>(k, v). (k, py_str (re_str R) v)) (re_configmap R)"

definition validate_catalog_override :: "repo \<Rightarrow> bool" where
  "validate_catalog_override R =
     (case load_catalog (re_loader R) (re_defaults R)
         (Some (Some (map (\<lambda>(k, content). (k, re_parse R content)) (catalog_override_files R)))) of
        Inl _ \<Rightarrow> False | Inr _ \<Rightarrow> True)"

definition catalog_hash :: "repo \<Rightarrow> string" where
  "catalog_hash R =
     re_sha R (concat (map (\<lambda>(name, bytes). name @ [CHR 0x00] @ bytes @ [CHR 0x00]) (sort_key fst (re_default_bytes R)))
       @ re_canonical R (catalog_override_files R))"

definition render_with_catalog_hash :: "repo \<Rightarrow> string \<Rightarrow> string \<Rightarrow> string" where
  "render_with_catalog_hash R manifest digest = replace_str CATALOG_HASH_PLACEHOLDER digest (re_manifest R manifest)"

section \<open>Applying the manifests\<close>

definition apply_file :: "string \<Rightarrow> command" where "apply_file m = Shell (''kubectl apply -f '' @ m)"

definition secret_command :: "repo \<Rightarrow> command" where
  "secret_command R =
     (case map_of (read_env_file (re_env_file R)) ''GEMINI_API_KEY'' of
        Some (c # cs) \<Rightarrow> Shell (''kubectl create secret generic netcortex-secrets -n netcortex --from-literal=gemini-api-key=''
            @ (c # cs) @ '' --dry-run=client -o yaml | kubectl apply -f -'')
      | _ \<Rightarrow> apply_file ''k8s/secrets.yaml'')"

definition provision_secret :: "repo \<Rightarrow> shell \<Rightarrow> deploy_state \<Rightarrow> deploy_state + deploy_state" where
  "provision_secret R sh st = run_each sh True [secret_command R] st"

definition manifests :: "string list" where
  "manifests = [''k8s/configmap.yaml'', CATALOG_CONFIGMAP, ''k8s/telemetry-deployment.yaml'', ''k8s/telemetry-service.yaml'',
     ''k8s/rca-deployment.yaml'', ''k8s/rca-service.yaml'']"

definition manifest_command :: "repo \<Rightarrow> string \<Rightarrow> string \<Rightarrow> command" where
  "manifest_command R digest m =
     (if m \<in> set CATALOG_DEPLOYMENTS then ApplyStdin m (render_with_catalog_hash R m digest) else apply_file m)"

definition apply_manifests :: "repo \<Rightarrow> shell \<Rightarrow> deploy_state \<Rightarrow> deploy_state + deploy_state" where
  "apply_manifests R sh st =
     (if \<not> validate_catalog_override R then Inl st
      else and_then (run_each sh True [apply_file ''k8s/namespace.yaml''] st) (\<lambda>st1.
           and_then (provision_secret R sh st1) (\<lambda>st2.
           run_each sh True (map (manifest_command R (catalog_hash R)) manifests) st2)))"

section \<open>The script\<close>

definition wait_command :: "string \<Rightarrow> string \<Rightarrow> command" where
  "wait_command s limit = Shell (''kubectl -n netcortex wait --for=condition=ready pod -l app=netcortex-'' @ s @ '' --timeout='' @ limit)"

definition pods_command :: "string \<Rightarrow> command" where
  "pods_command s = Shell (''kubectl -n netcortex get pods -l app=netcortex-'' @ s)"

text \<open>A pod that is not ready in time is only shown.\<close>

definition wait_for_pod :: "shell \<Rightarrow> string \<times> string \<Rightarrow> deploy_state \<Rightarrow> deploy_state" where
  "wait_for_pod sh = (\<lambda>(s, limit) st.
     let (code, st1) = exec sh (wait_command s limit) st in if code \<noteq> 0 then snd (exec sh (pods_command s) st1) else st1)"

definition wait_for_pods :: "shell \<Rightarrow> deploy_state \<Rightarrow> deploy_state" where
  "wait_for_pods sh st = fold (wait_for_pod sh) [(''telemetry'', ''60s''), (''rca'', ''120s'')] st"

definition show_status :: "shell \<Rightarrow> deploy_state \<Rightarrow> deploy_state" where
  "show_status sh st = fold (\<lambda>c s. snd (exec sh c s))
     [Shell ''kubectl -n netcortex get pods'', Shell ''kubectl -n netcortex get services''] st"

definition teardown :: "shell \<Rightarrow> deploy_state \<Rightarrow> deploy_state" where
  "teardown sh st = snd (exec sh (Shell ''kubectl delete namespace netcortex --ignore-not-found'') st)"

record deploy_args =
  da_no_build :: bool
  da_teardown :: bool
  da_status :: bool

definition main :: "repo \<Rightarrow> shell \<Rightarrow> bool \<Rightarrow> deploy_args \<Rightarrow> deploy_state \<Rightarrow> deploy_state + deploy_state" where
  "main R sh has_k3s a st =
     (if da_teardown a then Inr (teardown sh st)
      else if da_status a then Inr (show_status sh st)
      else and_then (check_prereqs sh st) (\<lambda>st1.
           let st2 = snd (detect_cluster sh st1) in
           and_then (if da_no_build a then Inr st2 else build_images sh has_k3s st2) (\<lambda>st3.
           and_then (apply_manifests R sh st3) (\<lambda>st4.
           Inr (show_status sh (wait_for_pods sh st4))))))"

section \<open>Facts\<close>

text \<open>The state a step ended in, either way.\<close>

definition final :: "deploy_state + deploy_state \<Rightarrow> deploy_state" where
  "final r = (case r of Inl st \<Rightarrow> st | Inr st \<Rightarrow> st)"

lemma final_simps [simp]: "final (Inl st) = st" "final (Inr st) = st"
  by (simp_all add: final_def)

lemma run_each_Nil [simp]: "run_each sh check [] st = Inr st"
  by (simp add: run_each_def)

lemma run_each_Cons [simp]:
  "run_each sh check (c # cs) st =
     (let st' = st\<lparr>dy_ran := dy_ran st @ [c]\<rparr> in
      if check \<and> sl_code sh (dy_ran st) c \<noteq> 0 then Inl st' else run_each sh check cs st')"
  by (simp add: run_each_def run_def exec_def Let_def)

lemma run_each_append: "run_each sh check (as @ bs) st = and_then (run_each sh check as st) (run_each sh check bs)"
  by (induction as arbitrary: st) (simp_all add: Let_def)

text \<open>The code a command returned when it was run \<open>i\<close>-th after \<open>before\<close>.\<close>

definition code_at :: "shell \<Rightarrow> command list \<Rightarrow> command list \<Rightarrow> nat \<Rightarrow> int" where
  "code_at sh before cs i = sl_code sh (before @ take i cs) (cs ! i)"

definition ran_prefix :: "shell \<Rightarrow> command list \<Rightarrow> deploy_state \<Rightarrow> deploy_state + deploy_state \<Rightarrow> nat \<Rightarrow> bool" where
  "ran_prefix sh cs st r n \<longleftrightarrow>
     n \<le> length cs \<and> dy_ran (final r) = dy_ran st @ take n cs
     \<and> (\<forall>i. Suc i < n \<longrightarrow> code_at sh (dy_ran st) cs i = 0)
     \<and> (isl r \<longleftrightarrow> 0 < n \<and> code_at sh (dy_ran st) cs (n - 1) \<noteq> 0)
     \<and> (\<not> isl r \<longrightarrow> n = length cs)"

lemma ran_prefix_Cons:
  assumes "sl_code sh (dy_ran st) c = 0" and "ran_prefix sh cs (st\<lparr>dy_ran := dy_ran st @ [c]\<rparr>) r n"
  shows "ran_prefix sh (c # cs) st r (Suc n)"
proof -
  let ?code = "code_at sh (dy_ran st) (c # cs)"
  have later: "?code (Suc i) = code_at sh (dy_ran st @ [c]) cs i" for i by (simp add: code_at_def)
  have first: "?code 0 = 0" using assms(1) by (simp add: code_at_def)
  have st: "dy_ran (st\<lparr>dy_ran := dy_ran st @ [c]\<rparr>) = dy_ran st @ [c]" by simp
  note A = assms(2) [unfolded ran_prefix_def st]
  have le: "n \<le> length cs" and ran: "dy_ran (final r) = dy_ran st @ c # take n cs"
    and ok: "\<And>i. Suc i < n \<Longrightarrow> code_at sh (dy_ran st @ [c]) cs i = 0"
    and stop: "isl r \<longleftrightarrow> 0 < n \<and> code_at sh (dy_ran st @ [c]) cs (n - 1) \<noteq> 0"
    and whole: "\<not> isl r \<Longrightarrow> n = length cs"
    using A append_assoc [of "dy_ran st" "[c]" "take n cs"] unfolding append.simps by metis+
  have codes: "?code i = 0" if "Suc i < Suc n" for i
  proof (cases i)
    case 0
    then show ?thesis using first by simp
  next
    case (Suc j)
    then show ?thesis using ok [of j] that later [of j] by simp
  qed
  have stops: "isl r \<longleftrightarrow> ?code n \<noteq> 0"
  proof (cases n)
    case 0
    then show ?thesis using stop first by simp
  next
    case (Suc j)
    then show ?thesis using stop later [of j] by simp
  qed
  show ?thesis unfolding ran_prefix_def
  proof (intro conjI allI impI)
    show "dy_ran (final r) = dy_ran st @ take (Suc n) (c # cs)" using ran by simp
    show "isl r \<longleftrightarrow> 0 < Suc n \<and> ?code (Suc n - 1) \<noteq> 0" using stops by simp
    show "Suc n = length (c # cs)" if "\<not> isl r" using whole [OF that] by (simp only: list.size)
  qed (use le codes in simp_all)
qed

lemma run_each_prefix: "\<exists>n. ran_prefix sh cs st (run_each sh True cs st) n"
proof (induction cs arbitrary: st)
  case Nil
  then show ?case by (intro exI [of _ 0]) (simp add: ran_prefix_def)
next
  case (Cons c cs)
  show ?case
  proof (cases "sl_code sh (dy_ran st) c = 0")
    case False
    then show ?thesis by (intro exI [of _ 1]) (simp add: ran_prefix_def code_at_def)
  next
    case True
    obtain n where "ran_prefix sh cs (st\<lparr>dy_ran := dy_ran st @ [c]\<rparr>) (run_each sh True cs (st\<lparr>dy_ran := dy_ran st @ [c]\<rparr>)) n"
      using Cons.IH by blast
    from ran_prefix_Cons [OF True this] True show ?thesis by (auto simp: Let_def)
  qed
qed

text \<open>Everything \<open>apply_manifests\<close> runs, in order.\<close>

definition apply_commands :: "repo \<Rightarrow> command list" where
  "apply_commands R = apply_file ''k8s/namespace.yaml'' # secret_command R # map (manifest_command R (catalog_hash R)) manifests"

lemma apply_manifests_runs:
  "apply_manifests R sh st = (if validate_catalog_override R then run_each sh True (apply_commands R) st else Inl st)"
  by (simp add: apply_manifests_def apply_commands_def provision_secret_def Let_def)

text \<open>
  The manifests are applied in order and only while everything before them succeeded: what was
  run is a beginning of the list, all but its last command returned 0, and the script goes on
  exactly when the whole list did. Nothing is applied when the pods would refuse the catalog.
\<close>

lemma manifests_in_order:
  assumes "apply_manifests R sh st = r"
  shows "if validate_catalog_override R then \<exists>n. ran_prefix sh (apply_commands R) st r n else r = Inl st"
  using assms run_each_prefix [of sh "apply_commands R" st] by (auto simp: apply_manifests_runs)

section \<open>Nothing is deployed on a refused catalog\<close>

text \<open>Whether a command changes what the cluster runs.\<close>

definition applies :: "command \<Rightarrow> bool" where
  "applies c = (case c of ApplyStdin _ _ \<Rightarrow> True | Shell s \<Rightarrow> starts_with ''kubectl apply'' s \<or> starts_with ''kubectl create'' s)"

definition only_reads :: "command list \<Rightarrow> deploy_state \<Rightarrow> deploy_state \<Rightarrow> bool" where
  "only_reads cs st st' \<longleftrightarrow> (\<exists>ran. dy_ran st' = dy_ran st @ ran \<and> set ran \<subseteq> set cs)"

lemma only_reads_refl [simp]: "only_reads cs st st" by (simp add: only_reads_def)

lemma only_reads_trans: "only_reads cs a b \<Longrightarrow> only_reads cs b c \<Longrightarrow> only_reads cs a c"
  unfolding only_reads_def by fastforce

lemma only_reads_exec: "c \<in> set cs \<Longrightarrow> only_reads cs st (snd (exec sh c st))"
  by (simp add: only_reads_def exec_def)

lemma only_reads_each: "set as \<subseteq> set cs \<Longrightarrow> only_reads cs st (final (run_each sh check as st))"
proof (induction as arbitrary: st)
  case (Cons a as)
  have "only_reads cs st (st\<lparr>dy_ran := dy_ran st @ [a]\<rparr>)" using Cons.prems by (simp add: only_reads_def)
  then show ?case using Cons.IH [of "st\<lparr>dy_ran := dy_ran st @ [a]\<rparr>"] Cons.prems only_reads_trans by (auto simp: Let_def)
qed simp

definition before_commands :: "command list" where
  "before_commands = prereq_commands @ [MINIKUBE, DOCKER_ENV, MINIKUBE_IP] @ build_commands @ import_commands @ tag_commands"

lemma before_apply_nothing: "\<forall>c\<in>set before_commands. \<not> applies c"
  by code_simp

lemma only_reads_detect: "only_reads before_commands st (snd (detect_cluster sh st))"
  by (auto simp: detect_cluster_def exec_def only_reads_def before_commands_def Let_def split: prod.splits)

lemma only_reads_build: "only_reads before_commands st (final (build_images sh has_k3s st))"
proof -
  have sub: "set build_commands \<subseteq> set before_commands" "set import_commands \<subseteq> set before_commands"
    "set tag_commands \<subseteq> set before_commands" by (auto simp: before_commands_def)
  show ?thesis
    using only_reads_each [OF sub(1), of st sh True] only_reads_each [OF sub(2)] only_reads_each [OF sub(3)]
    by (cases "run_each sh True build_commands st"; cases "run_each sh True import_commands (projr (run_each sh True build_commands st))")
      (auto simp: build_images_def intro: only_reads_trans, metis final_simps only_reads_trans, metis final_simps only_reads_trans)
qed

lemma refused_catalog_applies_nothing:
  assumes "\<not> validate_catalog_override R" and "\<not> da_teardown a" and "\<not> da_status a"
  shows "isl (main R sh has_k3s a st) \<and> only_reads before_commands st (final (main R sh has_k3s a st))"
proof -
  have pre: "set prereq_commands \<subseteq> set before_commands" by (auto simp: before_commands_def)
  show ?thesis
  proof (cases "check_prereqs sh st")
    case (Inl s)
    then show ?thesis using only_reads_each [OF pre, of st sh True] assms by (simp add: main_def check_prereqs_def)
  next
    case (Inr st1)
    let ?st2 = "snd (detect_cluster sh st1)"
    let ?built = "if da_no_build a then Inr ?st2 else build_images sh has_k3s ?st2"
    have r1: "only_reads before_commands st st1"
      using only_reads_each [OF pre, of st sh True] Inr by (simp add: check_prereqs_def)
    have r2: "only_reads before_commands st ?st2" by (rule only_reads_trans [OF r1 only_reads_detect])
    have r3: "only_reads before_commands st (final ?built)"
      using only_reads_trans [OF r2 only_reads_build] r2 by simp
    have "main R sh has_k3s a st = and_then ?built (\<lambda>st3. Inl st3)"
      using assms Inr by (simp add: main_def apply_manifests_def Let_def)
    then show ?thesis using r3 by (cases ?built) simp_all
  qed
qed

text \<open>
  The key goes into the command unquoted: what a shell finds after a semicolon in it is a command
  of its own.
\<close>

lemma secret_unquoted:
  assumes "re_env_file R = Some ''GEMINI_API_KEY=k; reboot''"
  shows "\<exists>rest. secret_command R
    = Shell (''kubectl create secret generic netcortex-secrets -n netcortex --from-literal=gemini-api-key=k; reboot'' @ rest)"
proof -
  have "map_of (read_env_file (Some ''GEMINI_API_KEY=k; reboot'')) ''GEMINI_API_KEY'' = Some ''k; reboot''" by code_simp
  then show ?thesis using assms by (simp add: secret_command_def)
qed

end
