(* ===== verification/Evaluation.thy ===== *)
theory Evaluation
  imports Scoring Loader Json
begin

text \<open>
  Running known faults through the program: the case runner (\<open>evals/runner.py\<close>), the ablation that
  takes a cause out of the catalog (\<open>evals/ablation.py\<close>) and the replay of recorded incidents
  (\<open>evals/replay_recordings.py\<close>). The engine is a parameter: the report it returns for an
  incident, or an exception. Files hold their parsed JSON; subprocesses, the mounting of the
  agents and printing are left out.
\<close>

section \<open>Configurations that serve fixtures only\<close>

definition replay_endpoint :: "string \<Rightarrow> string \<Rightarrow> pyval" where
  "replay_endpoint name url =
     PDict [(''endpoints'', PList [PDict [(''name'', PStr name), (''url'', PStr url), (''required'', PBool True)]])]"

definition CASES_URL :: string where "CASES_URL = ''inproc://eval-cases''"

definition BUILT_IN_DOMAINS :: "string list" where
  "BUILT_IN_DOMAINS = [''metrics'', ''logs'', ''routing'', ''config'']"

definition replay_section :: "string list \<Rightarrow> pyval \<Rightarrow> (string, pyval) dict" where
  "replay_section fixtures endpoint =
     [(''inproc_sources'', PDict [(''replay'', PDict [(''enabled'', PBool True), (''fixtures'', PList (map PStr fixtures))])]),
      (''domains'', PDict (map (\<lambda>d. (d, endpoint)) BUILT_IN_DOMAINS)), (''topology'', endpoint)]"

text \<open>\<open>**(cfg.get("telemetry") or {})\<close>; anything but an object raises.\<close>

definition dict_or_empty :: "(string, pyval) dict \<Rightarrow> string \<Rightarrow> unit + (string, pyval) dict" where
  "dict_or_empty cfg k =
     (let v = get_or cfg k PNone in
      if \<not> truthy v then Inr [] else case as_dict v of None \<Rightarrow> Inl () | Some d \<Rightarrow> Inr d)"

definition cases_config :: "(string, pyval) dict \<Rightarrow> string list \<Rightarrow> int \<Rightarrow> unit + (string, pyval) dict" where
  "cases_config cfg fixtures window =
     and_then (dict_or_empty cfg ''telemetry'') (\<lambda>t.
     case as_dict (get_or cfg ''simulation'' (PDict [])) of
       None \<Rightarrow> Inl ()
     | Some sim \<Rightarrow>
         Inr (AList.update ''simulation'' (PDict (AList.update ''window_minutes'' (PNum (of_int window)) sim))
           (AList.update ''telemetry''
             (PDict (dict_merge t (replay_section fixtures (replay_endpoint ''replay'' CASES_URL)))) cfg)))"

definition replay_config :: "(string, pyval) dict \<Rightarrow> string \<Rightarrow> string \<Rightarrow> unit + (string, pyval) dict" where
  "replay_config base fixture name =
     (case as_dict (get_or base ''llm'' (PDict [])) of
        None \<Rightarrow> Inl ()
      | Some llm \<Rightarrow>
          Inr (AList.update ''llm'' (PDict (AList.update ''require_success'' (PBool False) llm))
            (AList.update ''telemetry''
              (PDict (replay_section [fixture] (replay_endpoint (''replay-'' @ name) (''inproc://replay-'' @ name)))) base)))"

section \<open>Running the cases\<close>

record run_case = eval_case +
  rn_scenario :: int
  rn_description :: string
  rn_region :: string
  rn_severity :: "incident_severity option"
  rn_minutes :: "int option"
  rn_fixture :: string

definition case_of :: "run_case \<Rightarrow> eval_case" where
  "case_of c = eval_case.truncate c"

definition minutes :: "int \<Rightarrow> time" where "minutes n = n * 60000000"

definition case_incident :: "run_case \<Rightarrow> string \<Rightarrow> time \<Rightarrow> incident_request" where
  "case_incident c new_id now =
     \<lparr>in_id = new_id, in_scenario = Some (rn_scenario c), in_description = rn_description c, in_region = rn_region c,
      in_reported_at = now - minutes (case rn_minutes c of None \<Rightarrow> 0 | Some n \<Rightarrow> n),
      in_severity = (case rn_severity c of None \<Rightarrow> SevHigh | Some s \<Rightarrow> s), in_source_system = Some ''eval-case'',
      in_external_id = Some (''CASE-'' @ ec_name c), in_alarm_entities = ec_alarms c\<rparr>"

datatype run_error = NoCases | BadConfig | EngineFailed | UnknownFault string

record case_result =
  cr_score :: case_score
  cr_passed :: bool
  cr_incident :: string

text \<open>\<open>clock\<close> and \<open>ids\<close> give the time and the fresh incident id of each case.\<close>

definition run_one :: "(incident_request \<Rightarrow> (message, 'h) rca_report option) \<Rightarrow> (nat \<Rightarrow> time) \<Rightarrow> (nat \<Rightarrow> string)
    \<Rightarrow> (string, expectation) dict \<Rightarrow> nat \<times> run_case \<Rightarrow> run_error + case_result" where
  "run_one engine clock ids expect = (\<lambda>(i, c).
     case engine (case_incident c (ids i) (clock i)) of
       None \<Rightarrow> Inl EngineFailed
     | Some r \<Rightarrow>
         (case (score_case expect (case_of c) r, map_of expect (ec_fault c)) of
            (Some s, Some x) \<Rightarrow> Inr \<lparr>cr_score = s, cr_passed = passed (case_of c) x s, cr_incident = ids i\<rparr>
          | _ \<Rightarrow> Inl (UnknownFault (ec_fault c))))"

definition run_cases :: "((string, pyval) dict \<Rightarrow> incident_request \<Rightarrow> (message, 'h) rca_report option) \<Rightarrow> (nat \<Rightarrow> time)
    \<Rightarrow> (nat \<Rightarrow> string) \<Rightarrow> (string, expectation) dict \<Rightarrow> (string, pyval) dict \<Rightarrow> int \<Rightarrow> run_case list
    \<Rightarrow> run_error + case_result list" where
  "run_cases start clock ids expect cfg window cases =
     (if cases = [] then Inl NoCases
      else case cases_config cfg (map rn_fixture cases) window of
        Inl _ \<Rightarrow> Inl BadConfig
      | Inr cfg' \<Rightarrow> traverse (run_one (start cfg') clock ids expect) (enumerate 0 cases))"

section \<open>Ablation\<close>

record ablation =
  ab_delete :: "string list"
  ab_names :: "(string, string list) dict"
  ab_rename :: "(string, string) dict"
  ab_name :: string

definition ABLATIONS :: "(string, ablation) dict" where
  "ABLATIONS =
     [(''asn-mismatch'', \<lparr>ab_delete = [], ab_names = [(''frr_log'', [''bgp_open_error''])], ab_rename = [(''bgp_open_error'', ''frr_unmatched'')],
         ab_name = ''frr_unmatched''\<rparr>),
      (''bad-route-map'', \<lparr>ab_delete = [''PrefixesSent''], ab_names = [], ab_rename = [], ab_name = ''PrefixesSent''\<rparr>),
      (''bgp-self-recovered'', \<lparr>ab_delete = [''BgpPeerState''], ab_names = [], ab_rename = [], ab_name = ''BgpPeerState''\<rparr>),
      (''peering-route-removed'', \<lparr>ab_delete = [], ab_names = [(''cloudtrail_network_mutation'', [''DeleteRoute''])], ab_rename = [], ab_name = ''DeleteRoute''\<rparr>),
      (''phz-record-deleted'', \<lparr>ab_delete = [], ab_names = [(''cloudtrail_network_mutation'', [''ChangeResourceRecordSets''])], ab_rename = [], ab_name = ''ChangeResourceRecordSets''\<rparr>),
      (''sg-rule-removed'', \<lparr>ab_delete = [], ab_names = [(''cloudtrail_network_mutation'', [''ModifySecurityGroupRules''])], ab_rename = [], ab_name = ''ModifySecurityGroupRules''\<rparr>),
      (''tgw-propagation-removed'', \<lparr>ab_delete = [], ab_names = [(''cloudtrail_network_mutation'', [''DisableTransitGatewayRouteTablePropagation''])], ab_rename = [], ab_name = ''DisableTransitGatewayRouteTablePropagation''\<rparr>),
      (''tunnel-flapping'', \<lparr>ab_delete = [''TunnelState''], ab_names = [], ab_rename = [], ab_name = ''TunnelState''\<rparr>)]"

definition CONTROLS :: "string list" where "CONTROLS = [''healthy'', ''loss-latency'']"

text \<open>What a case is run with; \<open>None\<close>: it is not run.\<close>

definition ablation_for :: "string \<Rightarrow> ablation option option" where
  "ablation_for name =
     (case map_of ABLATIONS name of Some a \<Rightarrow> Some (Some a) | None \<Rightarrow> if name \<in> set CONTROLS then Some None else None)"

text \<open>A name list of an entry without the dropped names.\<close>

definition drop_names :: "string list \<Rightarrow> pyval list \<Rightarrow> pyval list" where
  "drop_names names xs = filter (\<lambda>v. v \<notin> PStr ` set names) xs"

definition as_list :: "pyval \<Rightarrow> pyval list option" where
  "as_list v = (case v of PList xs \<Rightarrow> Some xs | _ \<Rightarrow> None)"

definition drop_rule_names :: "string list \<Rightarrow> (string, pyval) dict \<Rightarrow> unit + (string, pyval) dict" where
  "drop_rule_names names sig =
     (let rule = get_or sig ''rule'' PNone in
      if \<not> truthy rule then Inr sig
      else case as_dict rule of
        None \<Rightarrow> Inl ()
      | Some r \<Rightarrow>
          (let ns = get_or r ''names'' PNone in
           if \<not> truthy ns then Inr sig
           else case as_list ns of
             None \<Rightarrow> Inl ()
           | Some xs \<Rightarrow> Inr (AList.update ''rule'' (PDict (AList.update ''names'' (PList (drop_names names xs)) r)) sig)))"

definition ablated_entry :: "string list \<Rightarrow> (string, pyval) dict \<Rightarrow> unit + (string, pyval) dict" where
  "ablated_entry names sig =
     (case as_list (get_or sig ''match_names'' (PList [])) of
        None \<Rightarrow> Inl ()
      | Some xs \<Rightarrow> drop_rule_names names (AList.update ''match_names'' (PList (drop_names names xs)) sig))"

definition ablate_entry :: "json_file \<Rightarrow> string \<times> string list \<Rightarrow> json_file \<Rightarrow> unit + json_file" where
  "ablate_entry defaults = (\<lambda>(entry, names) signals.
     case Option.bind (map_of defaults entry) as_dict of
       None \<Rightarrow> Inl ()
     | Some sig \<Rightarrow> and_then (ablated_entry names sig) (\<lambda>sig'. Inr (AList.update entry (PDict sig') signals)))"

definition deleted_entries :: "string list \<Rightarrow> json_file" where
  "deleted_entries names = dict_merge [] (map (\<lambda>n. (n, PNone)) names)"

definition dropped_names :: "ablation \<Rightarrow> string list" where
  "dropped_names a = ab_delete a @ concat (map snd (ab_names a))"

text \<open>The override's \<open>signals.json\<close> and \<open>investigation.json\<close>; \<open>defaults\<close> are the shipped signals.\<close>

definition catalog_override :: "json_file \<Rightarrow> ablation \<Rightarrow> unit + json_file \<times> json_file" where
  "catalog_override defaults a =
     and_then (fold_sum (ablate_entry defaults) (ab_names a) (deleted_entries (ab_delete a))) (\<lambda>signals.
     let roles = PDict (deleted_entries (dropped_names a)) in
     Inr ([(''signals'', PDict signals)], [(''signal_roles'', roles), (''role_with'', roles)]))"

text \<open>The fixture with its telling names renamed; a row without a name raises.\<close>

definition rename_row :: "(string, string) dict \<Rightarrow> (string, pyval) dict \<Rightarrow> unit + (string, pyval) dict" where
  "rename_row rename row =
     (case map_of row ''name'' of
        None \<Rightarrow> Inl ()
      | Some (PStr n) \<Rightarrow> Inr (case map_of rename n of None \<Rightarrow> row | Some m \<Rightarrow> AList.update ''name'' (PStr m) row)
      | Some _ \<Rightarrow> Inr row)"

definition ablated_case :: "ablation \<Rightarrow> (string, pyval) dict list \<Rightarrow> unit + (string, pyval) dict list" where
  "ablated_case a rows = (if ab_rename a = [] then Inr rows else traverse (rename_row (ab_rename a)) rows)"

text \<open>What a run is scored on: a cause that is verified, or for a control any blame.\<close>

record run_row =
  rr_score :: case_score
  rr_hypotheses :: nat
  rr_verified :: nat
  rr_cause_verified :: "bool option"
  rr_blamed :: "bool option"
  rr_passed :: "bool option"

definition cause_verified :: "ablation \<Rightarrow> culprit \<Rightarrow> (message, hypothesis_row) rca_report \<Rightarrow> bool" where
  "cause_verified a cu r =
     (list_ex (\<lambda>h. hy_signal (hr_hypothesis h) = ab_name a \<and> lower (snd (hy_entity (hr_hypothesis h))) \<in> set (culprit_ids cu))
        (verified (rp_hypotheses r))
      \<or> list_ex (\<lambda>f. list_ex (\<lambda>e. ev_via e = Some ViaHypothesis \<and> ab_name a \<in> set (ev_signals e)
            \<and> lower (ev_id e) \<in> set (culprit_ids cu)) (af_evidence f)) (rp_findings r))"

definition score_run :: "(string, expectation) dict \<Rightarrow> eval_case \<Rightarrow> (message, hypothesis_row) rca_report \<Rightarrow> ablation option
    \<Rightarrow> run_row option" where
  "score_run expect c r spec =
     (case (score_case expect c r, map_of expect (ec_fault c)) of
        (Some base, Some x) \<Rightarrow>
          (let hs = rp_hypotheses r; ok = verified hs in
           Some (case (ec_culprit c, spec) of
              (Some cu, Some a) \<Rightarrow> \<lparr>rr_score = base, rr_hypotheses = length hs, rr_verified = length ok,
                rr_cause_verified = Some (cause_verified a cu r), rr_blamed = None, rr_passed = None\<rparr>
            | _ \<Rightarrow> \<lparr>rr_score = base, rr_hypotheses = length hs, rr_verified = length ok, rr_cause_verified = None,
                rr_blamed = Some (ok \<noteq> [] \<or> sc_blamed base = Some True \<or> xp_negative x \<and> anomalous (rp_findings r) \<noteq> []),
                rr_passed = Some (passed c x base \<and> ok = [])\<rparr>))
      | _ \<Rightarrow> None)"

section \<open>Recorded incidents\<close>

text \<open>\<open>stamp\<close> writes a time as \<open>YYYYMMDDTHHMMSSZ\<close>.\<close>

definition recording_for :: "(time \<Rightarrow> string) \<Rightarrow> string option \<Rightarrow> time \<Rightarrow> string \<Rightarrow> string" where
  "recording_for stamp region reported record_dir =
     record_dir @ ''/'' @ (case region of None \<Rightarrow> ''us-east-1'' | Some s \<Rightarrow> s) @ ''_'' @ stamp reported @ ''.json''"

definition STATUS_LAG :: time where "STATUS_LAG = minutes 5"

definition replay_incident :: "string \<Rightarrow> string option \<Rightarrow> incident_severity option \<Rightarrow> node list option \<Rightarrow> string \<Rightarrow> string \<Rightarrow> time
    \<Rightarrow> incident_request" where
  "replay_incident description region severity alarms live_id new_id now =
     \<lparr>in_id = new_id, in_scenario = None, in_description = description,
      in_region = (case region of None \<Rightarrow> ''us-east-1'' | Some s \<Rightarrow> s), in_reported_at = now - STATUS_LAG,
      in_severity = (case severity of None \<Rightarrow> SevHigh | Some s \<Rightarrow> s), in_source_system = Some ''replay'',
      in_external_id = Some (''REPLAY-'' @ live_id), in_alarm_entities = (case alarms of None \<Rightarrow> [] | Some es \<Rightarrow> es)\<rparr>"

record replay_truth =
  rt_verdict :: case_verdict
  rt_cause :: "string list"
  rt_symptoms :: "string list"
  rt_headline :: bool
  rt_by_hypothesis :: bool
  rt_blamed :: bool
  rt_verified :: nat

record replay_row =
  ry_root :: string
  ry_status :: string
  ry_top_cause :: "string option"
  ry_questions :: nat
  ry_llm_used :: bool
  ry_truth :: "replay_truth option"

definition replay_score :: "printer \<Rightarrow> (string, expectation) dict \<Rightarrow> string option \<Rightarrow> (message, hypothesis_row) rca_report \<Rightarrow> replay_row" where
  "replay_score P expect live_fault r =
     \<lparr>ry_root = take 300 (rp_root r), ry_status = incident_status_name (rp_status r), ry_top_cause = top_text (rp_ranked r),
      ry_questions = length (filter is_question (rp_messages r)), ry_llm_used = llm_used r,
      ry_truth = map_option (\<lambda>x. case case_verdict_of x (rp_findings r) of (v, cause, symptoms) \<Rightarrow>
        \<lparr>rt_verdict = v, rt_cause = cause, rt_symptoms = symptoms, rt_headline = headline_names_culprit P x r cause,
         rt_by_hypothesis = list_ex (\<lambda>h. hy_signal (hr_hypothesis h) \<in> set (xp_cause x)) (verified (rp_hypotheses r)),
         rt_blamed = list_ex (\<lambda>f. af_domain f = ''config'') (anomalous (rp_findings r)),
         rt_verified = length (verified (rp_hypotheses r))\<rparr>) (Option.bind live_fault (map_of expect))\<rparr>"

section \<open>Facts\<close>

text \<open>
  A case reads nothing but the fixtures: every built-in domain and the topology are served by the
  one required replay endpoint, and the rest of the configuration is as it was.
\<close>

lemma cases_read_fixtures:
  assumes "cases_config cfg fixtures window = Inr cfg'"
  shows "\<exists>t. map_of cfg' ''telemetry'' = Some (PDict t)
    \<and> map_of t ''domains'' = Some (PDict (map (\<lambda>d. (d, replay_endpoint ''replay'' CASES_URL)) BUILT_IN_DOMAINS))
    \<and> map_of t ''topology'' = Some (replay_endpoint ''replay'' CASES_URL)
    \<and> (\<forall>k. k \<noteq> ''telemetry'' \<longrightarrow> k \<noteq> ''simulation'' \<longrightarrow> map_of cfg' k = map_of cfg k)"
proof -
  obtain t sim where c: "cfg' = AList.update ''simulation'' (PDict (AList.update ''window_minutes'' (PNum (of_int window)) sim))
      (AList.update ''telemetry'' (PDict (dict_merge t (replay_section fixtures (replay_endpoint ''replay'' CASES_URL)))) cfg)"
    using assms by (auto simp: cases_config_def and_then_Inr split: option.splits)
  show ?thesis
    by (intro exI [of _ "dict_merge t (replay_section fixtures (replay_endpoint ''replay'' CASES_URL))"])
      (simp add: c dict_simps replay_section_def map_of_dict_merge)
qed

lemma run_cases_each:
  assumes "run_cases start clock ids expect cfg window cases = Inr rs"
  shows "length rs = length cases \<and> (\<exists>cfg'. cases_config cfg (map rn_fixture cases) window = Inr cfg'
    \<and> (\<forall>i<length cases. run_one (start cfg') clock ids expect (i, cases ! i) = Inr (rs ! i)))"
proof -
  obtain cfg' where c: "cases_config cfg (map rn_fixture cases) window = Inr cfg'"
    and t: "traverse (run_one (start cfg') clock ids expect) (enumerate 0 cases) = Inr rs"
    using assms by (auto simp: run_cases_def split: if_splits sum.splits)
  note each = traverse_Inr [OF t]
  have len: "length rs = length cases" using arg_cong [OF each, of length] by simp
  moreover have "run_one (start cfg') clock ids expect (i, cases ! i) = Inr (rs ! i)" if "i < length cases" for i
    using arg_cong [OF each, of "\<lambda>xs. xs ! i"] that len by (simp add: nth_enumerate_eq)
  ultimately show ?thesis using c by blast
qed

text \<open>What the override says of a name.\<close>

lemma map_of_deleted: "map_of (deleted_entries names) k = (if k \<in> set names then Some PNone else None)"
proof -
  have "map_of (map (\<lambda>n. (n, PNone)) xs) k = (if k \<in> set xs then Some PNone else None)" for xs :: "string list"
    by (induction xs) auto
  from this [of "rev names"] show ?thesis by (simp add: deleted_entries_def map_of_dict_merge rev_map)
qed

lemma distinct_dict_merge: "distinct (keys d) \<Longrightarrow> distinct (keys (dict_merge d e))"
  unfolding dict_merge_def by (induction e arbitrary: d) (auto simp: dict_simps)

lemma distinct_deleted: "distinct (keys (deleted_entries names))"
  using distinct_dict_merge [of "[]"] by (simp add: deleted_entries_def keys_def)

lemma as_dict_Some: "as_dict v = Some d \<longleftrightarrow> v = PDict d"
  by (cases v) (auto simp: as_dict_def)

lemma ablate_entry_Inr:
  assumes "ablate_entry defaults (entry, names) d = Inr d'"
  obtains sig sig' where "map_of defaults entry = Some (PDict sig)" "ablated_entry names sig = Inr sig'"
    "d' = AList.update entry (PDict sig') d"
  using assms by (auto simp: ablate_entry_def and_then_Inr as_dict_Some split: option.splits bind_splits)

lemma ablate_entries:
  assumes "fold_sum (ablate_entry defaults) es d = Inr signals" and "distinct (keys es)"
  shows "(map_of es k = None \<longrightarrow> map_of signals k = map_of d k)
    \<and> (\<forall>names. map_of es k = Some names \<longrightarrow> (\<exists>sig sig'. map_of defaults k = Some (PDict sig)
        \<and> ablated_entry names sig = Inr sig' \<and> map_of signals k = Some (PDict sig')))
    \<and> (distinct (keys d) \<longrightarrow> distinct (keys signals))"
  using assms
proof (induction es arbitrary: d)
  case (Cons e es)
  obtain entry names where e: "e = (entry, names)" by (cases e)
  obtain d1 where d1: "ablate_entry defaults (entry, names) d = Inr d1" "fold_sum (ablate_entry defaults) es d1 = Inr signals"
    using Cons.prems(1) by (auto simp: e split: sum.splits)
  obtain sig sig' where s: "map_of defaults entry = Some (PDict sig)" "ablated_entry names sig = Inr sig'"
    "d1 = AList.update entry (PDict sig') d"
    by (rule ablate_entry_Inr [OF d1(1)])
  have fresh: "map_of es entry = None" using Cons.prems(2) by (simp add: e keys_def map_of_eq_None_iff)
  have "distinct (keys es)" using Cons.prems(2) by (simp add: keys_def)
  note IH = Cons.IH [OF d1(2) this]
  show ?case
  proof (cases "k = entry")
    case True
    then show ?thesis using IH s fresh by (simp add: e dict_simps)
  next
    case False
    then show ?thesis using IH s by (simp add: e dict_simps)
  qed
qed simp

lemma ablated_entry_names:
  assumes "ablated_entry names sig = Inr sig'"
  shows "\<exists>xs. map_of sig' ''match_names'' = Some (PList xs) \<and> (\<forall>n\<in>set names. PStr n \<notin> set xs)"
  using assms
  by (auto simp: ablated_entry_def drop_rule_names_def drop_names_def Let_def dict_simps split: option.splits if_splits)

text \<open>
  The ablation does what it says: in the catalog's signals merged with the override a deleted
  signal is gone, an entry with dropped names answers to none of them, and every other signal
  is the shipped one.
\<close>

lemma ablation_forgets:
  assumes "catalog_override defaults a = Inr (ov, roles)" and "distinct (keys (ab_names a))"
    and "map_of base ''signals'' = Some (PDict defaults)"
  shows "\<exists>m. map_of (merge_file base (fst (deletions ov)) (snd (deletions ov))) ''signals'' = Some (PDict m)
    \<and> (\<forall>n\<in>set (ab_delete a). map_of (ab_names a) n = None \<longrightarrow> map_of m n = None)
    \<and> (\<forall>n names. map_of (ab_names a) n = Some names \<longrightarrow>
        (\<exists>sig xs. map_of m n = Some (PDict sig) \<and> map_of sig ''match_names'' = Some (PList xs) \<and> (\<forall>x\<in>set names. PStr x \<notin> set xs)))
    \<and> (\<forall>n. n \<notin> set (ab_delete a) \<longrightarrow> map_of (ab_names a) n = None \<longrightarrow> map_of m n = map_of defaults n)"
proof -
  obtain signals where f: "fold_sum (ablate_entry defaults) (ab_names a) (deleted_entries (ab_delete a)) = Inr signals"
    and ov: "ov = [(''signals'', PDict signals)]"
    using assms(1) by (auto simp: catalog_override_def and_then_Inr Let_def)
  note A = ablate_entries [OF f assms(2)]
  have d: "distinct (keys ov) \<and> distinct (keys signals)" using A distinct_deleted by (simp add: ov keys_def)
  have sec: "map_of base ''signals'' = Some (PDict defaults) \<and> map_of ov ''signals'' = Some (PDict signals)"
    using assms(3) by (simp add: ov)
  obtain m where m: "map_of (merge_file base (fst (deletions ov)) (snd (deletions ov))) ''signals'' = Some (PDict m)"
    "\<And>k. map_of m k = (case map_of signals k of None \<Rightarrow> map_of defaults k | Some v \<Rightarrow> if v = PNone then None else Some v)"
    using override_entry_by_entry [OF d sec] by blast
  have gone: "map_of m n = None" if "n \<in> set (ab_delete a)" "map_of (ab_names a) n = None" for n
    using A [of n] that by (simp add: m(2) map_of_deleted)
  have kept: "map_of m n = map_of defaults n" if "n \<notin> set (ab_delete a)" "map_of (ab_names a) n = None" for n
    using A [of n] that by (simp add: m(2) map_of_deleted)
  have cut: "\<exists>sig xs. map_of m n = Some (PDict sig) \<and> map_of sig ''match_names'' = Some (PList xs) \<and> (\<forall>x\<in>set names. PStr x \<notin> set xs)"
    if n: "map_of (ab_names a) n = Some names" for n names
  proof -
    obtain sig sig' where "ablated_entry names sig = Inr sig'" "map_of signals n = Some (PDict sig')"
      using A [of n] n by blast
    then show ?thesis using ablated_entry_names [of names sig sig'] by (simp add: m(2))
  qed
  show ?thesis using m(1) gone kept cut by blast
qed

text \<open>
  A control is judged consistently: one that passes is not blamed, on reports that rank causes
  only when a finding is anomalous, as the engine's do.
\<close>

lemma control_passed_not_blamed:
  assumes "score_run expect c r spec = Some row" and "ec_culprit c = None" and "rr_passed row = Some True"
    and "anomalous (rp_findings r) = [] \<Longrightarrow> rp_ranked r = []"
  shows "rr_blamed row = Some False"
proof -
  obtain base x where b: "score_case expect c r = Some base" and x: "map_of expect (ec_fault c) = Some x"
    using assms(1) by (auto simp: score_run_def split: option.splits)
  have row: "rr_passed row = Some (passed c x base \<and> verified (rp_hypotheses r) = [])"
    "rr_blamed row = Some (verified (rp_hypotheses r) \<noteq> [] \<or> sc_blamed base = Some True \<or> xp_negative x \<and> anomalous (rp_findings r) \<noteq> [])"
    using assms(1,2) b x by (auto simp: score_run_def Let_def)
  have p: "passed c x base" and v: "verified (rp_hypotheses r) = []" using assms(3) row(1) by auto
  note S = score_case_sound [OF b x, THEN iffD1, OF p]
  have blamed: "sc_blamed base = Some (config_blamed r)" using score_fields [OF b x] assms(2) by simp
  show ?thesis
  proof (cases "xp_negative x")
    case True
    then have "anomalous (rp_findings r) = []" using S by blast
    with assms(4) have "\<not> config_blamed r" by (simp add: config_blamed_def)
    with \<open>anomalous (rp_findings r) = []\<close> show ?thesis by (simp add: row(2) v blamed)
  next
    case False
    then have "\<not> config_blamed r" using S assms(2) by blast
    with False show ?thesis by (simp add: row(2) v blamed)
  qed
qed

end
