(* ===== verification/LabHealth.thy ===== *)
theory LabHealth
  imports Prelude
begin

text \<open>
  The recovery check between two fault drills (\<open>infra/faults/lab_health.py\<close>): healthy means no lab
  alarm is active and every series that reported before the revert has enough clean datapoints
  since. CloudWatch is a parameter; the first page of each listing is all the script reads.
\<close>

section \<open>Checks\<close>

record health_check =
  hc_namespace :: string
  hc_metric :: string
  hc_dim :: string
  hc_stat :: string
  hc_least :: real

definition CHECKS :: "health_check list" where
  "CHECKS =
     [\<lparr>hc_namespace = ''NetCortexLab/Traffic'', hc_metric = ''SuccessRate'', hc_dim = ''Flow'', hc_stat = ''Minimum'', hc_least = 95\<rparr>,
      \<lparr>hc_namespace = ''NetCortexLab/Router'', hc_metric = ''BgpPeerState'', hc_dim = ''Neighbor'', hc_stat = ''Minimum'', hc_least = 1\<rparr>,
      \<lparr>hc_namespace = ''AWS/VPN'', hc_metric = ''TunnelState'', hc_dim = ''TunnelIpAddress'', hc_stat = ''Minimum'', hc_least = 1\<rparr>]"

text \<open>\<open>healthy_fn[metric]\<close>: the metric's lower bound; the names differ, so the last of a name is the only one.\<close>

definition is_healthy :: "string \<Rightarrow> real \<Rightarrow> bool" where
  "is_healthy metric v = (case find (\<lambda>h. hc_metric h = metric) CHECKS of None \<Rightarrow> False | Some h \<Rightarrow> hc_least h \<le> v)"

type_synonym dimensions = "(string \<times> string) list"

text \<open>A series to read: its metric, whom it is about, its dimensions.\<close>

record health_query =
  hq_id :: string
  hq_metric :: string
  hq_who :: string
  hq_dims :: dimensions
  hq_stat :: string

text \<open>A listed metric counts when the check's dimension is all it has.\<close>

definition check_queries :: "(string \<Rightarrow> string \<Rightarrow> dimensions list) \<Rightarrow> health_check \<Rightarrow> health_query list \<Rightarrow> health_query list" where
  "check_queries listed h qs =
     fold (\<lambda>ds acc. case ds of
         (n, v) # _ \<Rightarrow> if list_all (\<lambda>d. fst d = hc_dim h) ds
           then acc @ [\<lparr>hq_id = ''q'' @ nat_str (length acc), hq_metric = hc_metric h, hq_who = v, hq_dims = ds, hq_stat = hc_stat h\<rparr>]
           else acc
       | [] \<Rightarrow> acc) (listed (hc_namespace h) (hc_metric h)) qs"

definition health_queries :: "(string \<Rightarrow> string \<Rightarrow> dimensions list) \<Rightarrow> health_query list" where
  "health_queries listed = fold (check_queries listed) CHECKS []"

function chunks :: "nat \<Rightarrow> 'a list \<Rightarrow> 'a list list" where
  "chunks n [] = []"
| "chunks n (x # xs) = take (Suc n) (x # xs) # chunks n (drop (Suc n) (x # xs))"
  by pat_completeness auto
termination by (relation "measure (\<lambda>(n, xs). length xs)") auto

section \<open>Verdict\<close>

text \<open>What one query got: timestamps and values, newest first.\<close>

record health_data =
  hd_id :: string
  hd_times :: "time list"
  hd_values :: "real list"

datatype problem = Alarm string | TooFew string string nat nat | Unhealthy string string "real list"

definition since_values :: "time \<Rightarrow> nat \<Rightarrow> health_data \<Rightarrow> real list" where
  "since_values since samples d = take samples (map snd (filter (\<lambda>(t, _). since \<le> t) (zip (hd_times d) (hd_values d))))"

text \<open>\<open>None\<close> is the \<open>KeyError\<close> of an id that was never asked.\<close>

definition series_problem :: "health_query list \<Rightarrow> time \<Rightarrow> nat \<Rightarrow> health_data \<Rightarrow> problem list option" where
  "series_problem qs since samples d =
     (case find (\<lambda>q. hq_id q = hd_id d) qs of
        None \<Rightarrow> None
      | Some q \<Rightarrow>
          let vs = since_values since samples d in
          Some (if hd_times d = [] then []
                else if length vs < samples then [TooFew (hq_metric q) (hq_who q) (length vs) samples]
                else if \<not> list_all (is_healthy (hq_metric q)) vs then [Unhealthy (hq_metric q) (hq_who q) vs]
                else []))"

record health_env =
  he_alarms :: "string list"
  he_listed :: "string \<Rightarrow> string \<Rightarrow> dimensions list"
  he_data :: "health_query list \<Rightarrow> health_data list"

definition health_answers :: "health_env \<Rightarrow> health_data list" where
  "health_answers E = concat (map (he_data E) (chunks 499 (health_queries (he_listed E))))"

definition lab_problems :: "health_env \<Rightarrow> time \<Rightarrow> nat \<Rightarrow> problem list option" where
  "lab_problems E since samples =
     map_option (\<lambda>pss. map Alarm (he_alarms E) @ concat pss)
       (those (map (series_problem (health_queries (he_listed E)) since samples) (health_answers E)))"

definition lab_healthy :: "health_env \<Rightarrow> time \<Rightarrow> nat \<Rightarrow> bool option" where
  "lab_healthy E since samples = map_option (\<lambda>ps. ps = []) (lab_problems E since samples)"

section \<open>Facts\<close>

lemma chunks_concat [simp]: "concat (chunks n xs) = xs"
proof (induction n xs rule: chunks.induct)
  case (2 n x xs)
  then show ?case by (simp only: chunks.simps concat.simps append_take_drop_id)
qed simp

lemma chunks_bounded: "ys \<in> set (chunks n xs) \<Longrightarrow> 0 < length ys \<and> length ys \<le> Suc n"
  by (induction n xs rule: chunks.induct) auto

lemma find_id_None: "find (\<lambda>q. hq_id q = i) qs = None \<longleftrightarrow> i \<notin> hq_id ` set qs"
  by (auto simp: find_None_iff)

text \<open>What a clean series is: silent before and after the revert, or clean in each of its latest datapoints.\<close>

definition clean_series :: "health_query list \<Rightarrow> time \<Rightarrow> nat \<Rightarrow> health_data \<Rightarrow> bool" where
  "clean_series qs since samples d \<longleftrightarrow>
     (\<exists>q. find (\<lambda>q. hq_id q = hd_id d) qs = Some q
        \<and> (hd_times d = [] \<or> length (since_values since samples d) = samples
             \<and> list_all (is_healthy (hq_metric q)) (since_values since samples d)))"

lemma series_problem_clean: "series_problem qs since samples d = Some [] \<longleftrightarrow> clean_series qs since samples d"
  by (auto simp: series_problem_def clean_series_def Let_def since_values_def split: option.splits)

lemma lab_healthy_iff:
  assumes "\<forall>d\<in>set (health_answers E). hd_id d \<in> hq_id ` set (health_queries (he_listed E))"
  shows "lab_healthy E since samples = Some (he_alarms E = []
    \<and> (\<forall>d\<in>set (health_answers E). clean_series (health_queries (he_listed E)) since samples d))"
proof -
  let ?qs = "health_queries (he_listed E)" and ?p = "series_problem (health_queries (he_listed E)) since samples"
  have found: "?p d \<noteq> None" if "d \<in> set (health_answers E)" for d
  proof -
    have "find (\<lambda>q. hq_id q = hd_id d) ?qs \<noteq> None" using assms that unfolding find_id_None by simp
    then show ?thesis by (auto simp: series_problem_def Let_def)
  qed
  then have all: "those (map ?p (health_answers E)) = Some (map (the \<circ> ?p) (health_answers E))"
    by (intro those_map_total) blast
  have "the (?p d) = [] \<longleftrightarrow> clean_series ?qs since samples d" if "d \<in> set (health_answers E)" for d
    using found [OF that] series_problem_clean [of ?qs since samples d] by auto
  then show ?thesis by (simp add: lab_healthy_def lab_problems_def all cong: ball_cong)
qed

end
