(* ===== verification/McpServer.thy ===== *)
theory McpServer
  imports Tasks
begin

text \<open>
  The state of the MCP server around the task store (\<open>mcp_server/server.py\<close>): initialization from
  the configuration, the loop that evicts finished tasks, and the list of scenarios. Whether the
  loop's task has ended is a parameter of initialization, the scenario data of the list.
\<close>

section \<open>State\<close>

text \<open>\<open>ms_loop\<close> is the interval of the clean-up loop last started, in seconds.\<close>

record ('r, 'g) mcp_state =
  ms_store :: "'r task_store option"
  ms_engine :: "'g option"
  ms_loop :: "int option"

definition int_setting :: "(string, pyval) dict \<Rightarrow> string \<Rightarrow> int \<Rightarrow> unit + int" where
  "int_setting cfg k dflt =
     (case map_of cfg k of
        None \<Rightarrow> Inr dflt
      | Some v \<Rightarrow> (case py_int_of v of None \<Rightarrow> Inl () | Some n \<Rightarrow> Inr n))"

text \<open>
  \<open>initialize_server\<close>; \<open>cfg\<close> is the section \<open>mcp_server\<close> of the configuration, \<open>loop_done\<close> whether
  the loop of an earlier call has ended. A setting that is no number raises before its effect:
  the left value is the state it leaves behind.
\<close>

definition initialize_server :: "'g \<Rightarrow> (string, pyval) dict \<Rightarrow> bool \<Rightarrow> ('r, 'g) mcp_state
    \<Rightarrow> ('r, 'g) mcp_state + ('r, 'g) mcp_state" where
  "initialize_server engine cfg loop_done ms =
     (case (int_setting cfg ''task_ttl_seconds'' 3600, int_setting cfg ''max_concurrent_tasks'' 10) of
        (Inr ttl, Inr limit) \<Rightarrow>
          (let ms' = ms\<lparr>ms_store := Some \<lparr>ts_tasks = [], ts_index = [], ts_ttl = ttl, ts_max = limit\<rparr>, ms_engine := Some engine\<rparr>
           in if ms_loop ms \<noteq> None \<and> \<not> loop_done then Inr ms'
              else (case int_setting cfg ''task_cleanup_interval_seconds'' 300 of
                      Inl _ \<Rightarrow> Inl ms' | Inr n \<Rightarrow> Inr (ms'\<lparr>ms_loop := Some n\<rparr>)))
      | _ \<Rightarrow> Inl ms)"

text \<open>One turn of \<open>_cleanup_loop\<close>.\<close>

definition cleanup_tick :: "time \<Rightarrow> ('r, 'g) mcp_state \<Rightarrow> ('r, 'g) mcp_state" where
  "cleanup_tick now ms =
     (case ms_store ms of None \<Rightarrow> ms | Some st \<Rightarrow> ms\<lparr>ms_store := Some (snd (cleanup_expired now st))\<rparr>)"

section \<open>Scenarios\<close>

record scenario_info =
  si_id :: int
  si_name :: string
  si_description :: string
  si_region :: string
  si_severity :: string
  si_keywords :: "string list"

definition scenario_entry :: "scenario_info \<Rightarrow> scenario_info" where
  "scenario_entry s = s\<lparr>si_region := (if si_region s = [] then ''us-east'' else si_region s)\<rparr>"

definition list_scenarios :: "(int, scenario_info) dict \<Rightarrow> scenario_info list \<times> nat" where
  "list_scenarios scenarios =
     (let out = map (\<lambda>(sid, s). scenario_entry s\<lparr>si_id := sid\<rparr>) (sort_key fst scenarios) in (out, length out))"

section \<open>Facts\<close>

text \<open>
  Initializing again while the loop runs drops every task, the running ones too, and keeps the
  interval the loop was started with.
\<close>

lemma reinitialize_drops_tasks:
  assumes "initialize_server engine cfg False ms = Inr ms'" and "ms_loop ms = Some n"
  shows "ms_loop ms' = Some n \<and> (\<exists>st. ms_store ms' = Some st \<and> ts_tasks st = [] \<and> running_count st = 0)"
  using assms by (auto simp: initialize_server_def Let_def running_count_def vals_def split: sum.splits prod.splits)

lemma initialized_can_run:
  assumes "initialize_server engine cfg loop_done ms = Inr ms'" and "ms_store ms' = Some st" and "0 < ts_max st"
  shows "\<exists>st'. create_task tid inc now st = Some st' \<and> ms_engine ms' = Some engine"
  using assms
  by (auto simp: initialize_server_def Let_def create_task_def running_count_def vals_def split: sum.splits prod.splits if_splits)

text \<open>A turn of the loop leaves no task behind that ended longer ago than the time to live.\<close>

lemma cleanup_tick_evicts:
  assumes "ms_store (cleanup_tick now ms) = Some st" and "map_of (ts_tasks st) k = Some t"
  shows "\<not> expired (ts_ttl st) now t"
proof
  assume e: "expired (ts_ttl st) now t"
  obtain st0 where s: "ms_store ms = Some st0" and st: "st = snd (cleanup_expired now st0)"
    using assms(1) by (auto simp: cleanup_tick_def split: option.splits)
  let ?gone = "map fst (filter (\<lambda>(tid, t). expired (ts_ttl st0) now t) (ts_tasks st0))"
  have f: "st = fold remove_task ?gone st0" by (simp add: st cleanup_expired_def Let_def)
  note F = remove_tasks [of ?gone st0 k, folded f]
  have "map_of (ts_tasks st0) k = Some t" "k \<notin> set ?gone" using F assms(2) by (auto split: if_splits)
  then show False using e F by (force dest: map_of_SomeD)
qed

lemma list_scenarios_sorted:
  "sorted (map si_id (fst (list_scenarios scenarios))) \<and> snd (list_scenarios scenarios) = length scenarios
    \<and> (\<forall>s\<in>set (fst (list_scenarios scenarios)). si_region s \<noteq> [])"
  by (auto simp: list_scenarios_def Let_def scenario_entry_def o_def case_prod_unfold)

end
