(* ===== verification/Prompts.thy ===== *)
theory Prompts
  imports Orchestrator Hypotheses
begin

text \<open>
  What the language model is shown and how its client is chosen: the prompts of
  \<open>agents/rca_synthesizer.py\<close>, \<open>agents/triage.py\<close> and \<open>agents/supervisor.py\<close>. The JSON text of key
  events and the texts of numbers and times come from \<open>texts\<close>; the SDK call itself is a parameter
  of the theories that use its answer.
\<close>

abbreviation (input) nl :: string where "nl \<equiv> [CHR 0x0A]"
abbreviation (input) qt :: string where "qt \<equiv> [CHR 0x22]"

definition lines_of :: "string list \<Rightarrow> string" where "lines_of = join_with nl"

section \<open>The client\<close>

datatype llm_client = ApiKey string | Vertex string string | NoClient

text \<open>\<open>has_sdk\<close> is whether the client library is installed; an empty variable is a missing one.\<close>

definition env_value :: "(string \<Rightarrow> string option) \<Rightarrow> string \<Rightarrow> string \<Rightarrow> string" where
  "env_value env k dflt = (case env k of None \<Rightarrow> dflt | Some v \<Rightarrow> v)"

definition llm_client_of :: "bool \<Rightarrow> (string \<Rightarrow> string option) \<Rightarrow> llm_client" where
  "llm_client_of has_sdk env =
     (let key = env_value env ''GEMINI_API_KEY'' []; project = env_value env ''GOOGLE_CLOUD_PROJECT'' [] in
      if \<not> has_sdk then NoClient
      else if key \<noteq> [] then ApiKey key
      else if project \<noteq> [] then Vertex project (env_value env ''GOOGLE_CLOUD_LOCATION'' ''us-central1'')
      else NoClient)"

section \<open>Constant text\<close>

definition TRIAGE_INTRO :: string where
  "TRIAGE_INTRO =
     '' agent in a network root cause analysis. Your detection rules did not judge the evidence below: no catalog rule knows these signals or log lines. Decide whether any of it explains the incident.'' @
     nl @ nl"

definition TRIAGE_TASK :: string where
  "TRIAGE_TASK =
     ''Propose a hypothesis only for evidence that could cause the incident (a change, an error, a failure), at most ''"

definition TRIAGE_CHECKS :: string where
  "TRIAGE_CHECKS =
     ''. Routine noise, read-only calls and healthy status lines are not hypotheses. Each hypothesis is a temporary detection rule that code will check against fresh data: the rule must fire on the cited evidence now, must not fire in an earlier window, and the entity must sit on or upstream of the alarm. An empty list is a good answer when nothing explains the incident.'' @
     nl @ nl"

definition TRIAGE_RULE_TYPES :: string where
  "TRIAGE_RULE_TYPES =
     ''Rule types (the only ones allowed):'' @ nl @ ''  {'' @ qt @ ''type'' @ qt @ '': '' @ qt @ ''event_presence'' @ qt @ '', '' @ qt @
     ''min_severity'' @ qt @ '': '' @ qt @ ''info'' @ qt @ ''}   the signal occurs at all'' @ nl @ ''  {'' @ qt @ ''type'' @ qt @
     '': '' @ qt @ ''threshold'' @ qt @ '', '' @ qt @ ''op'' @ qt @ '': '' @ qt @ ''gt'' @ qt @ ''|'' @ qt @ ''lt'' @ qt @ '', '' @ qt @
     ''value'' @ qt @ '': <number>}   on the value'' @ nl @ ''  {'' @ qt @ ''type'' @ qt @ '': '' @ qt @ ''threshold'' @ qt @ '', '' @
     qt @ ''op'' @ qt @ '': '' @ qt @ ''between'' @ qt @ '', '' @ qt @ ''min'' @ qt @ '': <n>, '' @ qt @ ''max'' @ qt @ '': <n>}'' @ nl @
     ''  {'' @ qt @ ''type'' @ qt @ '': '' @ qt @ ''state_equals'' @ qt @ '', '' @ qt @ ''value'' @ qt @
     '': <number|string>}   value equals a state'' @ nl @ ''  {'' @ qt @ ''type'' @ qt @ '': '' @ qt @ ''rate_change'' @ qt @ '', '' @
     qt @ ''direction'' @ qt @ '': '' @ qt @ ''increase'' @ qt @ ''|'' @ qt @ ''decrease'' @ qt @ '', '' @ qt @ ''factor'' @ qt @
     '': <number > 1>}'' @ nl @ nl"

definition TRIAGE_ANSWER :: string where
  "TRIAGE_ANSWER =
     ''Return ONLY JSON: {'' @ qt @ ''hypotheses'' @ qt @ '': [{'' @ nl @ ''  '' @ qt @ ''evidence_refs'' @ qt @
     '': [refs copied exactly from ONE evidence line above],'' @ nl @ ''  '' @ qt @ ''signal'' @ qt @ '': '' @ qt @ ''<that line'' @
     [CHR 0x27] @ ''s signal name>'' @ qt @ '','' @ nl @ ''  '' @ qt @ ''rule'' @ qt @ '': {...},'' @ nl @ ''  '' @ qt @ ''role'' @ qt @
     '': '' @ qt @ ''cause'' @ qt @ '' or '' @ qt @ ''symptom'' @ qt @ '','' @ nl @ ''  '' @ qt @ ''why'' @ qt @ '': '' @ qt @
     ''<one sentence: what went wrong and why it explains the alarm>'' @ qt @ '','' @ nl @ ''  '' @ qt @ ''proposed_name'' @ qt @
     '': '' @ qt @ ''<snake_case name for a new catalog signal>'' @ qt @ '','' @ nl @ ''  '' @ qt @ ''description'' @ qt @ '': '' @ qt @
     ''<one line for the catalog>'' @ qt @ '','' @ nl @ ''  '' @ qt @ ''classify_pattern'' @ qt @ '': '' @ qt @
     ''<for a log line: a regex that matches its text, else null>'' @ qt @ nl @ ''}]}'' @ nl"

definition RCA_INTRO :: string where
  "RCA_INTRO =
     ''You are an expert network and systems engineer performing root cause analysis.'' @ nl @
     ''Given the following multi-domain agent findings, produce a structured JSON analysis.'' @ nl @ nl"

definition RCA_RULES :: string where
  "RCA_RULES =
     ''Rules: base every claim on the citable evidence and cite it inline as [E<n>]. Do not cite anything else. A cause upstream of the alarm in the topology that fired first usually explains the downstream symptoms. If the incident status is recovered or flapping, say so in root_cause.'' @
     nl @ nl @ ''Return ONLY valid JSON with exactly these keys:'' @ nl"

definition RCA_ORDER :: string where
  "RCA_ORDER =
     ''  ranked_cause_ids: the candidate cause ids in your order, most likely first. Only candidates scored within 0.05 of the top can move above it.'' @
     nl"

definition RCA_KEYS :: string where
  "RCA_KEYS =
     ''  root_cause: one concise sentence naming the specific root cause (the top candidate'' @ [CHR 0x27] @
     ''s entity id and what changed, magnitude if known), with [E<n>] citations'' @ nl @
     ''  contributing_factors: list of strings, each citing a specific domain finding with evidence detail'' @ nl @
     ''  causal_chain: ordered list of strings showing the sequence of events from trigger to user impact'' @ nl @
     ''  metrics_affected: list of metric names that were measurably impacted'' @ nl @
     ''  human_readable_summary: 3-5 sentences in plain English. Explain: what happened, when, what component was involved, how it cascaded, and what the observed impact was.'' @
     nl"

section \<open>Classification\<close>

definition classify_prompt :: "catalog \<Rightarrow> string \<Rightarrow> string" where
  "classify_prompt cat description =
     ''Classify incident degradation_type for orchestration.'' @ nl @ ''Valid labels: '' @ comma (keys (cat_degradation cat)) @ ''.'' @ nl
     @ ''Return JSON only: {'' @ qt @ ''degradation_type'' @ qt @ '': '' @ qt @ ''<label>'' @ qt @ ''}.'' @ nl @ nl
     @ ''Incident description: '' @ description"

section \<open>Triage\<close>

definition MAX_ROWS_IN_PROMPT :: nat where "MAX_ROWS_IN_PROMPT = 25"

definition type_text :: "signal_type \<Rightarrow> string" where
  "type_text t = (case t of Metric \<Rightarrow> ''metric'' | Event \<Rightarrow> ''event'' | State \<Rightarrow> ''state'')"

definition num_text :: "texts \<Rightarrow> real option \<Rightarrow> string" where
  "num_text T x = val_text T (opt_pyval PNum x)"

text \<open>One evidence line; \<open>None\<close>: a row without any reference, whose join raises.\<close>

definition prompt_refs :: "unclassified_row \<Rightarrow> string list option" where
  "prompt_refs u = (if un_refs u \<noteq> [] then Some (un_refs u) else map_option (\<lambda>r. [r]) (un_ref u))"

definition row_value :: "texts \<Rightarrow> unclassified_row \<Rightarrow> string" where
  "row_value T u =
     (case un_value u of
        None \<Rightarrow> []
      | Some v \<Rightarrow> '' value='' @ num_text T (Some v)
          @ (case un_min u of None \<Rightarrow> [] | Some m \<Rightarrow> '' (min '' @ num_text T (Some m) @ '', max '' @ num_text T (un_max u) @ '')''))"

definition row_text :: "texts \<Rightarrow> unclassified_row \<Rightarrow> string option" where
  "row_text T u =
     map_option (\<lambda>refs.
       ''- signal='' @ un_name u @ '' type='' @ type_text (un_signal_type u) @ '' entity='' @ node_text (un_entity u)
       @ '' severity='' @ severity_name (un_severity u) @ '' first='' @ tx_time T (un_timestamp u)
       @ '' last='' @ tx_time T (un_last_seen u) @ '' count='' @ nat_str (un_count u) @ row_value T u
       @ (case un_text u of Some (c # cs) \<Rightarrow> '' text='' @ qt @ (c # cs) @ qt | _ \<Rightarrow> [])
       @ '' refs=['' @ comma refs @ '']'') (prompt_refs u)"

definition peer_line :: "agent_finding \<Rightarrow> string" where
  "peer_line p = ''- '' @ af_domain p @ '': anomaly='' @ (if af_anomaly p then ''True'' else ''False'') @ '' '' @ take 300 (af_summary p)"

definition triage_prompt :: "texts \<Rightarrow> string \<Rightarrow> agent_finding \<Rightarrow> agent_finding list \<Rightarrow> context_fields \<Rightarrow> string option" where
  "triage_prompt T domain own peers cx =
     map_option (\<lambda>rows.
       ''You are the '' @ domain @ TRIAGE_INTRO
       @ ''Incident: '' @ cx_description cx @ nl
       @ ''Alarm entities: '' @ or_none (comma (map node_text (cx_alarms cx))) @ nl
       @ ''Window: '' @ tx_time T (cx_start cx) @ '' .. '' @ tx_time T (cx_end cx) @ nl
       @ ''Your rule-based finding: '' @ take 400 (af_summary own) @ nl
       @ ''Peer findings:'' @ nl @ or_none (lines_of (map peer_line peers)) @ nl
       @ ''Evidence no rule judged:'' @ nl @ lines_of rows @ nl @ nl
       @ TRIAGE_TASK @ nat_str MAX_PER_AGENT @ TRIAGE_CHECKS @ TRIAGE_RULE_TYPES @ TRIAGE_ANSWER)
     (those (map (row_text T) (take MAX_ROWS_IN_PROMPT (af_unclassified own))))"

section \<open>Synthesis\<close>

text \<open>\<open>events\<close> is \<open>json.dumps(f.key_events)\<close>.\<close>

definition finding_block :: "texts \<Rightarrow> (agent_finding \<Rightarrow> string) \<Rightarrow> agent_finding \<Rightarrow> string" where
  "finding_block T events f =
     ''Domain: '' @ af_domain f @ nl @ ''Anomaly detected: '' @ (if af_anomaly f then ''True'' else ''False'') @ nl
     @ ''Summary: '' @ af_summary f @ nl @ ''Confidence: '' @ num_text T (Some (af_confidence f)) @ nl
     @ ''Key evidence:'' @ nl @ (if af_key_events f = [] then ''none'' else events f)"

definition verdict_name :: "verdict option \<Rightarrow> string" where
  "verdict_name v = (case v of None \<Rightarrow> ''?'' | Some Supported \<Rightarrow> ''supported'' | Some Refuted \<Rightarrow> ''refuted'' | Some Inconclusive \<Rightarrow> ''inconclusive'')"

definition reply_verdict :: "reply \<Rightarrow> verdict option" where
  "reply_verdict p = (case p of ReplyAnswer a \<Rightarrow> aw_verdict a | SlimAnswer a _ \<Rightarrow> aw_verdict a | _ \<Rightarrow> None)"

definition highlight :: "message \<Rightarrow> string option" where
  "highlight m =
     (case ms_body m of
        ValidationRequest r \<Rightarrow> Some (''  ['' @ ms_sender m @ '' asked '' @ ms_target m @ ''] '' @ node_text (rq_entity r)
          @ '' -> '' @ verdict_name (reply_verdict (ms_reply m)))
      | _ \<Rightarrow> None)"

definition evidence_lines :: "(string, string) dict \<Rightarrow> string" where
  "evidence_lines evidence =
     (let s = lines_of (map (\<lambda>(k, v). ''  '' @ k @ '': '' @ v) evidence) in if s = [] then ''  none'' else s)"

definition status_text :: "status \<Rightarrow> string" where
  "status_text s = (case s of Ongoing \<Rightarrow> ''ongoing'' | Recovered \<Rightarrow> ''recovered'' | Flapping \<Rightarrow> ''flapping'' | UnknownStatus \<Rightarrow> ''unknown'')"

definition rca_prompt :: "texts \<Rightarrow> (agent_finding \<Rightarrow> string) \<Rightarrow> catalog \<Rightarrow> string \<Rightarrow> agent_finding list \<Rightarrow> message list
    \<Rightarrow> ranked_cause list \<Rightarrow> (string, string) dict \<Rightarrow> status \<Rightarrow> string" where
  "rca_prompt T events cat description fs msgs ranked evidence st =
     (RCA_INTRO @ ''Incident description: '' @ description @ nl @ nl
       @ ''Domain agent findings:'' @ nl @ join_with (nl @ nl) (map (finding_block T events) fs) @ nl @ nl
       @ ''Questions the agents asked each other (topology-scoped) and the answers:'' @ nl
       @ or_none (lines_of (List.map_filter highlight msgs)) @ nl @ nl
       @ ''Citable evidence (every item is a rule that fired):'' @ nl)
     @ evidence_lines evidence @ nl @ nl
     @ ''Candidate causes ranked by code (evidence, topology position relative to the alarm, time precedence, signal role):'' @ nl
     @ ranked_text T ranked @ nl @ nl
     @ ''Incident status from the latest samples: '' @ status_text st @ nl @ nl
     @ ''Signal glossary (what each fired signal means):'' @ nl @ signal_glossary cat fs @ nl @ nl
     @ ''Unclassified evidence (signals outside the detection catalog; no rule judged them, weigh them cautiously):'' @ nl
     @ unclassified_text T fs @ nl @ nl
     @ RCA_RULES @ (if ranked \<noteq> [] then RCA_ORDER else []) @ RCA_KEYS"

section \<open>Facts\<close>

lemma contains_join: "x \<in> set xs \<Longrightarrow> contains_str x (join_with sep xs)"
proof (induction sep xs rule: join_with.induct)
  case (2 sep y)
  then show ?case by (auto simp: contains_str_iff intro: exI [of _ "[]"])
next
  case (3 sep y z zs)
  show ?case
  proof (cases "x = y")
    case True
    then show ?thesis by (auto simp: contains_str_iff intro: exI [of _ "[]"])
  next
    case False
    then have "contains_str x (join_with sep (z # zs))" using 3 by simp
    then show ?thesis unfolding join_with.simps by (intro contains_str_appendI(2))
  qed
qed simp

lemma contains_middle: "contains_str x m \<Longrightarrow> contains_str x (a @ m @ b)"
  by (intro contains_str_appendI)

text \<open>
  The model can only be held to what it was shown: every row it may cite is in the prompt, under
  the key the citation check looks up.
\<close>

lemma prompt_shows_evidence:
  assumes "map_of evidence k = Some v"
  shows "contains_str (''  '' @ k @ '': '' @ v) (rca_prompt T events cat description fs msgs ranked evidence st)"
proof -
  have "''  '' @ k @ '': '' @ v \<in> set (map (\<lambda>(k, v). ''  '' @ k @ '': '' @ v) evidence)"
    using assms by (force dest: map_of_SomeD)
  then have "contains_str (''  '' @ k @ '': '' @ v) (lines_of (map (\<lambda>(k, v). ''  '' @ k @ '': '' @ v) evidence))"
    unfolding lines_of_def by (rule contains_join)
  moreover from this have "lines_of (map (\<lambda>(k, v). ''  '' @ k @ '': '' @ v) evidence) \<noteq> []"
    by (auto simp: contains_str_iff)
  ultimately have "contains_str (''  '' @ k @ '': '' @ v) (evidence_lines evidence)"
    by (simp only: evidence_lines_def Let_def if_False)
  then show ?thesis unfolding rca_prompt_def by (rule contains_middle)
qed

text \<open>
  The triage prompt shows the first 25 rows only: what comes after them leaves no trace in it,
  although \<open>Agent.triage_requests\<close> marks every fresh row as read.
\<close>

lemma triage_rows_beyond_cap:
  assumes "length rows = MAX_ROWS_IN_PROMPT"
  shows "triage_prompt T domain (own\<lparr>af_unclassified := rows @ extra\<rparr>) peers cx
    = triage_prompt T domain (own\<lparr>af_unclassified := rows\<rparr>) peers cx"
  using assms by (simp add: triage_prompt_def)

lemma triage_prompt_total:
  assumes "\<forall>u\<in>set (af_unclassified own). un_ref u \<noteq> None"
  shows "\<exists>p. triage_prompt T domain own peers cx = Some p"
proof -
  have "row_text T u \<noteq> None" if "u \<in> set (take MAX_ROWS_IN_PROMPT (af_unclassified own))" for u
    using assms that by (auto simp: row_text_def prompt_refs_def dest: in_set_takeD)
  then have "those (map (row_text T) (take MAX_ROWS_IN_PROMPT (af_unclassified own)))
      = Some (map (the \<circ> row_text T) (take MAX_ROWS_IN_PROMPT (af_unclassified own)))"
    by (intro those_map_total) blast
  then show ?thesis by (auto simp: triage_prompt_def)
qed

lemma client_needs_credentials:
  "llm_client_of has_sdk env \<noteq> NoClient \<longleftrightarrow>
     has_sdk \<and> (env_value env ''GEMINI_API_KEY'' [] \<noteq> [] \<or> env_value env ''GOOGLE_CLOUD_PROJECT'' [] \<noteq> [])"
  by (simp add: llm_client_of_def Let_def)

end
