(* ===== verification/Spec2Isabelle.thy ===== *)
theory Spec2Isabelle
  imports Agent Loader Recorder Tasks Auth Router Ingestion AwsLogs AwsTrail AwsMetrics AwsTopology
    Prometheus Sessions Server Scoring App Drafts AdkRouter
    Baselines Commands Deploy Evaluation LabHealth McpServer Prompts
begin

text \<open>
  NetCortex root-cause analysis: a verification development.

  NetCortex receives a network incident, asks one agent per telemetry domain what its domain
  shows, lets the agents ask each other where the fault could lie upstream, and writes a
  report that ranks causes and cites the evidence. This library models the Python sources
  under \<open>src/\<close> that decide what a report may say, and proves what makes them right.

  The parts and how they interact. A telemetry server (\<open>mcp_telemetry_server/\<close>) reads
  sources through plugins and answers queries in the contract of \<open>contract/models.py\<close>. The
  RCA side reaches it through \<open>providers/\<close>: one client per endpoint, with retries and a
  circuit breaker, and a registry that merges the endpoints of a domain. A domain agent
  (\<open>agents/domain_agent.py\<close>) turns the merged signals into a finding with the rules of the
  detection catalog (\<open>detection/\<close>, \<open>contract/catalog_*.py\<close>). The orchestrator
  (\<open>core/orchestrator.py\<close>) classifies the incident, fans the analysis out, runs rounds of
  questions, answers and reconsideration, ranks the causes and hands everything to the
  synthesizer (\<open>agents/rca_synthesizer.py\<close>). An MCP server (\<open>mcp_server/\<close>) runs incidents as
  tasks.

  The theories, bottom up:

  \<^item> \<open>Prelude\<close>: Python values, strings, insertion ordered dictionaries, stable sorting and
    extrema, decimal rounding, computations that raise; the interfaces \<open>keyed_store\<close> and
    \<open>keyed_merge\<close>.
  \<^item> \<open>Contract\<close>: \<open>contract/models.py\<close>. \<open>Catalog\<close>: \<open>contract/catalog_models.py\<close> and the
    lookups of \<open>contract/catalog_loader.py\<close>. \<open>Loader\<close>: override merging, cross-file
    validation and loading, same file; it shows what an accepted catalog guarantees to the
    code that runs on it.
  \<^item> \<open>Rules\<close>: \<open>detection/rules.py\<close>, \<open>providers/baseline_utils.py\<close>: the five rule types.
    \<open>Templates\<close>: \<open>detection/templates.py\<close>. \<open>Findings\<close>: the data of \<open>models/schemas.py\<close> the
    agents exchange. \<open>Correlation\<close>: \<open>detection/relevance.py\<close> and \<open>detection/correlation.py\<close>,
    with the bound on how often a finding can be corrected.
  \<^item> \<open>Topology\<close> and \<open>Investigate\<close>: \<open>detection/investigate.py\<close>: the graph and its searches,
    against path-based specifications, then the questions of a round, the answers, the
    ranking of causes and the status of an entity.
  \<^item> \<open>Analyze\<close>: \<open>detection/analyze.py\<close>, from a response to a finding. \<open>Hypotheses\<close>:
    \<open>detection/hypotheses.py\<close> and the requests \<open>agents/triage.py\<close> makes of a proposal.
  \<^item> \<open>Endpoint\<close>: \<open>providers/resilience.py\<close> and \<open>providers/adapters/mcp_adapter.py\<close>: retries,
    breaker (as a machine of interleaved calls), answer parsing. \<open>Registry\<close>:
    \<open>providers/factory.py\<close> and \<open>providers/query.py\<close>: configuration, the merge of signals and
    coverage, the topology cache.
  \<^item> \<open>Synthesis\<close>: \<open>agents/rca_synthesizer.py\<close>: confidence, citations, reranking, the report.
    \<open>Orchestrator\<close>: \<open>core/orchestrator.py\<close> and \<open>agents/supervisor.py\<close>. \<open>Agent\<close>:
    \<open>agents/domain_agent.py\<close>: sessions, planning, answering, hypothesis checks.
  \<^item> \<open>Telemetry\<close>: \<open>mcp_telemetry_server/\<close> (\<open>mapping.py\<close>, \<open>service.py\<close>, \<open>plugins/base.py\<close>,
    \<open>plugins/simulation.py\<close>). \<open>Recorder\<close>: \<open>providers/recorder.py\<close> and
    \<open>plugins/replay.py\<close>, which are inverse to each other. \<open>Tasks\<close>: \<open>mcp_server/tasks.py\<close> and
    the handlers of \<open>mcp_server/server.py\<close>. \<open>Auth\<close>: \<open>mcp_server/auth.py\<close>, which lets in
    verified tokens only.
  \<^item> \<open>Json\<close>: reading parsed JSON. \<open>Router\<close>: \<open>communication/\<close> and
    \<open>agents/a2a_protocol.py\<close>: the task envelope, written by the router and read back from an
    agent's answer, and the registration of agents.
  \<^item> \<open>Ingestion\<close>: \<open>ingestion/\<close>: alarm events, bursts and incidents, the webhook, and the SQS
    bridge as a loop over what the queue, the clock and the webhook give.
  \<^item> \<open>AwsBase\<close>: \<open>plugins/aws/base.py\<close> and \<open>tgw.py\<close>: regions, pagination, route snapshots.
    \<open>AwsLogs\<close>, \<open>AwsTrail\<close>, \<open>AwsMetrics\<close>, \<open>AwsTopology\<close>: \<open>logs.py\<close>, \<open>cloudtrail.py\<close>,
    \<open>cloudwatch.py\<close> and \<open>topology.py\<close> of the same directory: which lines, events, points and
    resources become which signals and edges, and what the coverage says of the rest.
    \<open>Prometheus\<close>: \<open>plugins/prometheus.py\<close>, range queries and the cap on their series.
  \<^item> \<open>Sessions\<close>: the shared MCP session of an endpoint (\<open>providers/adapters/mcp_adapter.py\<close>) as
    interleaved steps. \<open>Server\<close>: the tools of \<open>mcp_telemetry_server/server.py\<close> and
    \<open>providers/inproc.py\<close>, and a client's fetch end to end.
  \<^item> \<open>AdkRouter\<close>: \<open>communication/adk_a2a_router.py\<close>, against \<open>Router\<close>. \<open>App\<close>: start-up, the gate of
    the MCP server and the files written, from \<open>app/main.py\<close>. \<open>Commands\<close>: its commands that drive the
    engine, and \<open>agents/external_adapter.py\<close>. \<open>Drafts\<close>: draft catalog entries of
    \<open>detection/hypotheses.py\<close>. \<open>Scoring\<close>: \<open>evals/scoring.py\<close> and \<open>infra/faults/score.py\<close>: how a
    report is graded.
  \<^item> \<open>Evaluation\<close>: \<open>evals/runner.py\<close>, \<open>ablation.py\<close> and \<open>replay_recordings.py\<close>: known faults run through
    the engine, with the cause taken out of the catalog or from a recording. \<open>LabHealth\<close>:
    \<open>infra/faults/lab_health.py\<close>. \<open>Baselines\<close>: the stores behind z-score rules. \<open>Prompts\<close>: what the
    language model is shown. \<open>McpServer\<close>: the state of \<open>mcp_server/server.py\<close> around the task store.
    \<open>Deploy\<close>: \<open>deploy.py\<close> as the commands it runs: nothing is applied on a catalog the pods would
    refuse, and no manifest after one that failed.

  State and operations correspond by name: a record stands for a class and its fields, a
  definition for a method or for the marked lines of one, and a state is passed in and
  returned where a method updates \<open>self\<close>. Errors are values: \<open>Inl\<close> of an error datatype, or
  \<open>None\<close>, is an exception. Concurrency (the breaker, the tasks, the shared sessions and CloudTrail lookups) is a step relation whose
  steps are the code between two awaits.

  Interfaces. \<open>keyed_merge\<close> is the contract of a dictionary filled record by record and is
  interpreted by the entity and edge merges of \<open>Registry\<close> and \<open>Telemetry\<close>, the finding
  reducer of \<open>Orchestrator\<close> and the cause index of \<open>Synthesis\<close>; \<open>keyed_store\<close> by the
  dictionaries themselves; \<open>topology_view\<close> by the graph; \<open>analysis_service\<close>, what the
  orchestrator needs of the agents, by the agents run in process.

  Conventions and bounds. A float is a \<open>real\<close>, so rounding error, infinities and NaN are not
  modelled; a datetime is a count of microseconds in UTC; strings are ASCII. Loops are
  structural or have a measure; where the source bounds a loop by a count (retry attempts,
  collaboration rounds, hops), the recursion is on that count, so no fuel is chosen and
  termination is part of each definition.

  Parameters. What is not under \<open>src/\<close> is an argument: the language model's answer, the MCP
  transport and its exceptions, JSON Schema and pydantic validation, regular expressions,
  clocks, the text of a number or a datetime, the JWT library, the AWS API, SQS and HTTP. Hypotheses about them are
  premises of the theorems that need them.

  Not modelled: parsing of the command line, HTTP and MCP wiring, logging and printing, building
  requests for the two generations of the agent SDK, the generator of lab traffic, and the fixture
  and scenario data (\<open>evals/build_fixtures.py\<close>, \<open>simulation/scenarios.py\<close>): they pass data on, hold
  constants, or drive code outside this repository.
\<close>

end
